(* ===== verification/Prelude.thy ===== *)
theory Prelude
  imports Main "HOL-Library.Word" "HOL-Library.Monad_Syntax"
begin

text \<open>
  Shared vocabulary of the development: the C machine integer types, byte buffers whose
  accesses are bounds checked (an access outside the object is the value None, so that
  "the code never reads or writes out of bounds" is a provable statement), little-endian
  and big-endian conversions between bytes and words, C strings, and counted loops in the
  option monad with their invariant rules.
\<close>

unbundle bit_operations_syntax

named_theorems mem_simps \<open>bounds-checked buffer accesses\<close>
named_theorems byte_simps \<open>conversions between bytes and words\<close>

section \<open>Machine integers\<close>

type_synonym u8 = "8 word"
type_synonym u16 = "16 word"
type_synonym u32 = "32 word"
type_synonym u64 = "64 word"
type_synonym u128 = "128 word"

lemma sint_uint_if:
  "sint (w :: 'a::len word) =
    (if uint w < 2 ^ (LENGTH('a) - 1) then uint w else uint w - 2 ^ LENGTH('a))"
proof -
  have b: "uint w < 2 ^ LENGTH('a)" by simp
  obtain l where l: "LENGTH('a) = Suc l" by (metis len_not_eq_0 not0_implies_Suc)
  have s: "sint w = take_bit (Suc l) (uint w) - 2 ^ Suc l * of_bool (bit (uint w) l)"
    by (simp add: sint_uint l signed_take_bit_eq_take_bit_minus)
  have t: "take_bit (Suc l) (uint w) = uint w"
    using b unfolding l by (simp add: take_bit_int_eq_self)
  have q: "uint w < 2 * 2 ^ l" using b unfolding l by simp
  have "bit (uint w) l \<longleftrightarrow> \<not> uint w < 2 ^ l"
  proof (cases "uint w < 2 ^ l")
    case True
    then show ?thesis by (simp add: bit_iff_odd)
  next
    case False
    with q have "uint w div 2 ^ l = 1" by (simp add: div_pos_pos_trivial int_div_pos_eq [of _ _ 1 "uint w - 2^l"])
    with False show ?thesis by (simp add: bit_iff_odd)
  qed
  then show ?thesis using s t l by simp
qed
lemma word_neq_0_le: "1 \<le> uint (w :: 'a::len word) \<longleftrightarrow> w \<noteq> 0"
  using word_gt_0 [of w] by (auto simp: word_less_def)

section \<open>Byte buffers\<close>

type_synonym mem = "u8 list"

definition ld :: "'a list \<Rightarrow> nat \<Rightarrow> 'a option" where
  "ld m a = (if a < length m then Some (m ! a) else None)"

definition st :: "'a list \<Rightarrow> nat \<Rightarrow> 'a \<Rightarrow> 'a list option" where
  "st m a v = (if a < length m then Some (m[a := v]) else None)"

definition ld_bytes :: "'a list \<Rightarrow> nat \<Rightarrow> nat \<Rightarrow> 'a list option" where
  "ld_bytes m a n = (if a + n \<le> length m then Some (take n (drop a m)) else None)"

definition st_bytes :: "'a list \<Rightarrow> nat \<Rightarrow> 'a list \<Rightarrow> 'a list option" where
  "st_bytes m a bs =
     (if a + length bs \<le> length m then Some (take a m @ bs @ drop (a + length bs) m) else None)"

lemma ld_eq_Some [mem_simps]: "ld m a = Some v \<longleftrightarrow> a < length m \<and> m ! a = v"
  by (auto simp: ld_def)

lemma ld_eq_None [mem_simps]: "ld m a = None \<longleftrightarrow> length m \<le> a"
  by (auto simp: ld_def)

lemma ld_Some [simp]: "a < length m \<Longrightarrow> ld m a = Some (m ! a)"
  by (simp add: ld_def)

lemma st_eq_Some [mem_simps]: "st m a v = Some m' \<longleftrightarrow> a < length m \<and> m' = m[a := v]"
  by (auto simp: st_def)

lemma st_Some [simp]: "a < length m \<Longrightarrow> st m a v = Some (m[a := v])"
  by (simp add: st_def)

lemma st_length: "st m a v = Some m' \<Longrightarrow> length m' = length m"
  by (auto simp: mem_simps)

lemma ld_bytes_Some [mem_simps]:
  "ld_bytes m a n = Some bs \<longleftrightarrow> a + n \<le> length m \<and> bs = take n (drop a m)"
  by (auto simp: ld_bytes_def)

lemma ld_bytes_length: "ld_bytes m a n = Some bs \<Longrightarrow> length bs = n"
  by (auto simp: mem_simps)

lemma ld_bytes_append1: "n \<le> length xs \<Longrightarrow> ld_bytes (xs @ ys) 0 n = Some (take n xs)"
  by (simp add: ld_bytes_def)

lemma ld_bytes_append2:
  "a = length xs \<Longrightarrow> n \<le> length ys \<Longrightarrow> ld_bytes (xs @ ys) a n = Some (take n ys)"
  by (simp add: ld_bytes_def)

lemma ld_bytes_chunk:
  "(\<And>x. x \<in> set xs \<Longrightarrow> length x = n) \<Longrightarrow> i < length xs \<Longrightarrow>
   ld_bytes (concat xs) (n * i) n = Some (xs ! i)"
proof (induction xs arbitrary: i)
  case Nil
  then show ?case by simp
next
  case (Cons x xs)
  have len: "length (concat ys) = n * length ys" if "\<And>y. y \<in> set ys \<Longrightarrow> length y = n" for ys
    using that by (induction ys) auto
  show ?case
  proof (cases i)
    case 0
    with Cons.prems len show ?thesis by (auto simp: ld_bytes_def)
  next
    case (Suc j)
    have "ld_bytes (concat xs) (n * j) n = Some (xs ! j)"
      using Cons Suc by simp
    with Suc Cons.prems show ?thesis
      by (simp add: ld_bytes_def split: if_splits)
  qed
qed

lemma st_bytes_length: "st_bytes m a bs = Some m' \<Longrightarrow> length m' = length m"
  by (auto simp: st_bytes_def split: if_splits)

lemma st_bytes_Cons:
  "st_bytes m a (b # bs) = Option.bind (st m a b) (\<lambda>m. st_bytes m (a + 1) bs)"
proof (cases "a + length (b # bs) \<le> length m")
  case True
  then have "take (Suc a) (m[a := b]) = take a m @ [b]"
    by (simp add: take_Suc_conv_app_nth)
  then show ?thesis using True by (simp add: st_bytes_def)
next
  case False
  then show ?thesis by (simp add: st_bytes_def st_def)
qed

lemma ld_bytes_st_bytes_same:
  "st_bytes m a bs = Some m' \<Longrightarrow> ld_bytes m' a (length bs) = Some bs"
  by (auto simp: st_bytes_def ld_bytes_def split: if_splits)

lemma ld_bytes_st_bytes_other:
  assumes "st_bytes m a bs = Some m'" and "b + n \<le> a \<or> a + length bs \<le> b"
  shows "ld_bytes m' b n = ld_bytes m b n"
proof -
  have a: "a + length bs \<le> length m" and m': "m' = take a m @ bs @ drop (a + length bs) m"
    using assms(1) by (auto simp: st_bytes_def split: if_splits)
  have len: "length m' = length m" using assms(1) by (rule st_bytes_length)
  show ?thesis
  proof (cases "b + n \<le> length m")
    case True
    have "take n (drop b m') = take n (drop b m)"
    proof (rule nth_equalityI)
      show "length (take n (drop b m')) = length (take n (drop b m))" by (simp add: len)
    next
      fix i assume "i < length (take n (drop b m'))"
      with True len have "i < n" "b + i < length m" by auto
      moreover have "m' ! (b + i) = m ! (b + i)"
        using a m' assms(2) \<open>i < n\<close> \<open>b + i < length m\<close> by (auto simp: nth_append)
      ultimately show "take n (drop b m') ! i = take n (drop b m) ! i"
        using len by simp
    qed
    then show ?thesis by (simp add: ld_bytes_def len)
  next
    case False
    then show ?thesis by (simp add: ld_bytes_def len)
  qed
qed

section \<open>Bytes and words\<close>

definition le_bytes :: "nat \<Rightarrow> 'a::len word \<Rightarrow> u8 list" where
  "le_bytes n w = map (\<lambda>i. ucast (drop_bit (8 * i) w)) [0..<n]"

fun le_word :: "u8 list \<Rightarrow> 'a::len word" where
  "le_word [] = 0"
| "le_word (b # bs) = ucast b OR push_bit 8 (le_word bs)"

lemma length_le_bytes [simp]: "length (le_bytes n w) = n"
  by (simp add: le_bytes_def)

lemma nth_le_bytes: "i < n \<Longrightarrow> le_bytes n w ! i = ucast (drop_bit (8 * i) w)"
  by (simp add: le_bytes_def)

lemma bit_le_word:
  "bit (le_word bs :: 'a::len word) i \<longleftrightarrow>
     i < LENGTH('a) \<and> i < 8 * length bs \<and> bit (bs ! (i div 8)) (i mod 8)"
proof (induction bs arbitrary: i)
  case Nil
  then show ?case by simp
next
  case (Cons b bs)
  show ?case
  proof (cases "i < 8")
    case True
    then show ?thesis
      by (auto simp: bit_or_iff bit_push_bit_iff bit_ucast_iff dest: bit_imp_le_length)
  next
    case False
    then have d: "i div 8 = Suc ((i - 8) div 8)" and m: "i mod 8 = (i - 8) mod 8"
      by (auto simp: le_div_geq le_mod_geq)
    have nb: "\<not> bit b i" using False by (auto dest: bit_imp_le_length)
    from False show ?thesis
      by (auto simp: bit_or_iff bit_push_bit_iff bit_ucast_iff Cons.IH d m nb)
  qed
qed

lemma le_word_le_bytes:
  "le_word (le_bytes n w) = take_bit (8 * n) (w :: 'a::len word)"
proof (rule bit_word_eqI)
  fix i assume i: "i < LENGTH('a)"
  show "bit (le_word (le_bytes n w) :: 'a word) i = bit (take_bit (8 * n) w) i"
  proof (cases "i < 8 * n")
    case True
    then have "i div 8 < n" by (simp add: less_mult_imp_div_less mult.commute)
    moreover have "8 * (i div 8) + i mod 8 = i" by simp
    ultimately show ?thesis
      using True i
      by (simp add: bit_le_word bit_take_bit_iff nth_le_bytes bit_ucast_iff bit_drop_bit_eq)
  next
    case False
    then show ?thesis by (simp add: bit_le_word bit_take_bit_iff)
  qed
qed

lemma le_word_le_bytes_id [byte_simps]:
  "LENGTH('a) \<le> 8 * n \<Longrightarrow> le_word (le_bytes n w) = (w :: 'a::len word)"
  by (simp add: le_word_le_bytes take_bit_word_eq_self)

lemma le_bytes_le_word [byte_simps]:
  assumes "8 * length bs \<le> LENGTH('a::len)" and "n = length bs"
  shows "le_bytes n (le_word bs :: 'a word) = bs"
proof (rule nth_equalityI)
  show "length (le_bytes n (le_word bs :: 'a word)) = length bs" using assms by simp
next
  fix i assume "i < length (le_bytes n (le_word bs :: 'a word))"
  then have i: "i < length bs" using assms(2) by simp
  have "bit (ucast (drop_bit (8 * i) (le_word bs :: 'a word)) :: u8) j = bit (bs ! i) j"
    if "j < 8" for j
    using that i assms
    by (simp add: bit_ucast_iff bit_drop_bit_eq bit_le_word)
  then show "le_bytes n (le_word bs :: 'a word) ! i = bs ! i"
    using i assms(2) by (intro bit_word_eqI) (simp add: nth_le_bytes)
qed

lemma le_bytes_ucast [byte_simps]:
  assumes "8 * n \<le> LENGTH('a)" "LENGTH('a) \<le> LENGTH('c)"
  shows "le_bytes n (ucast (w :: 'a::len word) :: 'c::len word) = le_bytes n w"
proof -
  have "(ucast (drop_bit (8 * i) (ucast w :: 'c word)) :: u8) = ucast (drop_bit (8 * i) w)" for i
    using assms by (intro bit_word_eqI) (auto simp: bit_ucast_iff bit_drop_bit_eq dest: bit_imp_le_length)
  then show ?thesis by (simp add: le_bytes_def)
qed

lemma le_word_mask: "8 * length bs \<le> k \<Longrightarrow> take_bit k (le_word bs :: 'a::len word) = le_word bs"
  by (rule bit_word_eqI) (auto simp: bit_le_word bit_take_bit_iff)

definition ld_word :: "nat \<Rightarrow> u8 list \<Rightarrow> nat \<Rightarrow> 'a::len word option" where
  "ld_word n m a = map_option le_word (ld_bytes m a n)"

lemma ld_word_append1 [byte_simps]:
  "n = length xs \<Longrightarrow> ld_word n (xs @ ys) 0 = Some (le_word xs)"
  by (simp add: ld_word_def ld_bytes_append1)

lemma ld_word_append2 [byte_simps]:
  "a = length xs \<Longrightarrow> n = length ys \<Longrightarrow> ld_word n (xs @ ys) a = Some (le_word ys)"
  by (simp add: ld_word_def ld_bytes_append2)

lemma ld_word_append3 [byte_simps]:
  "a = length xs \<Longrightarrow> n = length ys \<Longrightarrow> ld_word n (xs @ ys @ zs) a = Some (le_word ys)"
  by (simp add: ld_word_def ld_bytes_def)

lemma ld_word_Some: "a + n \<le> length m \<Longrightarrow> ld_word n m a = Some (le_word (take n (drop a m)))"
  by (simp add: ld_word_def ld_bytes_def)

lemma ld_word_eq_None: "ld_word n m a = None \<longleftrightarrow> length m < a + n"
  by (auto simp: ld_word_def ld_bytes_def)

section \<open>Counted loops\<close>

text \<open>
  \<open>for_up lo n body s\<close> is \<open>for (i = lo; i < lo + n; i++) s = body(i, s)\<close> and
  \<open>for_down n body s\<close> is \<open>for (i = n - 1; i >= 0; i--) s = body(i, s)\<close>, both stopping at
  the first None.
\<close>

primrec for_up :: "nat \<Rightarrow> nat \<Rightarrow> (nat \<Rightarrow> 's \<Rightarrow> 's option) \<Rightarrow> 's \<Rightarrow> 's option" where
  "for_up lo 0 body s = Some s"
| "for_up lo (Suc n) body s = (case body lo s of None \<Rightarrow> None | Some s' \<Rightarrow> for_up (Suc lo) n body s')"

primrec for_down :: "nat \<Rightarrow> (nat \<Rightarrow> 's \<Rightarrow> 's option) \<Rightarrow> 's \<Rightarrow> 's option" where
  "for_down 0 body s = Some s"
| "for_down (Suc n) body s = (case body n s of None \<Rightarrow> None | Some s' \<Rightarrow> for_down n body s')"

lemma for_up_Suc_right:
  "for_up lo (Suc n) body s = Option.bind (for_up lo n body s) (body (lo + n))"
proof (induction n arbitrary: lo s)
  case 0
  then show ?case by (auto split: option.splits)
next
  case (Suc n)
  have "for_up lo (Suc (Suc n)) body s
    = (case body lo s of None \<Rightarrow> None | Some s' \<Rightarrow> for_up (Suc lo) (Suc n) body s')"
    by simp
  also have "\<dots> = (case body lo s of None \<Rightarrow> None
      | Some s' \<Rightarrow> Option.bind (for_up (Suc lo) n body s') (body (Suc lo + n)))"
    using Suc.IH by (simp split: option.splits)
  also have "\<dots> = Option.bind (for_up lo (Suc n) body s) (body (lo + Suc n))"
    by (simp split: option.splits)
  finally show ?case .
qed

lemma for_up_numeral [simp]:
  "for_up lo (numeral k) body s =
     (case body lo s of None \<Rightarrow> None | Some s' \<Rightarrow> for_up (Suc lo) (pred_numeral k) body s')"
  by (simp add: numeral_eq_Suc)

lemma for_down_numeral [simp]:
  "for_down (numeral k) body s =
     (case body (pred_numeral k) s of None \<Rightarrow> None | Some s' \<Rightarrow> for_down (pred_numeral k) body s')"
  by (simp add: numeral_eq_Suc)

lemma for_up_cong:
  "(\<And>i s. lo \<le> i \<Longrightarrow> i < lo + n \<Longrightarrow> f i s = g i s) \<Longrightarrow> for_up lo n f s = for_up lo n g s"
  by (induction n arbitrary: lo s) (auto split: option.splits)

lemma for_up_inv:
  assumes step: "\<And>i s. lo \<le> i \<Longrightarrow> i < lo + n \<Longrightarrow> P i s \<Longrightarrow> \<exists>s'. body i s = Some s' \<and> P (Suc i) s'"
    and init: "P lo s"
  shows "\<exists>s'. for_up lo n body s = Some s' \<and> P (lo + n) s'"
  using assms
proof (induction n arbitrary: lo s)
  case 0
  then show ?case by simp
next
  case (Suc n)
  from Suc.prems(1)[of lo s] Suc.prems(2)
  obtain t where t: "body lo s = Some t" "P (Suc lo) t" by auto
  have "\<exists>s'. for_up (Suc lo) n body t = Some s' \<and> P (Suc lo + n) s'"
  proof (rule Suc.IH)
    show "\<And>i s. Suc lo \<le> i \<Longrightarrow> i < Suc lo + n \<Longrightarrow> P i s \<Longrightarrow> \<exists>s'. body i s = Some s' \<and> P (Suc i) s'"
      using Suc.prems(1) by simp
  qed (rule t)
  then show ?case using t by simp
qed

section \<open>Steps with an abrupt end\<close>

text \<open>
  A step maps a state to the state after it and either the reason it ended abruptly (an
  exit status, a trap; the changes made before stay) or a value.
\<close>

type_synonym ('s, 'e, 'a) step = "'s \<Rightarrow> 's \<times> ('e + 'a)"

definition return :: "'a \<Rightarrow> ('s, 'e, 'a) step" where
  "return a w = (w, Inr a)"

definition abort :: "'e \<Rightarrow> ('s, 'e, 'a) step" where
  "abort e w = (w, Inl e)"

definition and_then :: "('s, 'e, 'a) step \<Rightarrow> ('a \<Rightarrow> ('s, 'e, 'b) step) \<Rightarrow> ('s, 'e, 'b) step" where
  "and_then p f w = (case p w of (w', Inl e) \<Rightarrow> (w', Inl e) | (w', Inr a) \<Rightarrow> f a w')"

definition modify :: "('s \<Rightarrow> 's) \<Rightarrow> ('s, 'e, unit) step" where
  "modify f w = (f w, Inr ())"

definition get :: "('s \<Rightarrow> 'a) \<Rightarrow> ('s, 'e, 'a) step" where
  "get f w = (w, Inr (f w))"

lemma and_then_Inr:
  "and_then p f w = (w', Inr b) \<longleftrightarrow> (\<exists>w1 a. p w = (w1, Inr a) \<and> f a w1 = (w', Inr b))"
  by (auto simp: and_then_def split: prod.splits sum.splits)

lemma and_then_return [simp]: "and_then (return a) f = f a"
  by (simp add: and_then_def return_def fun_eq_iff)

lemma and_then_assoc: "and_then (and_then p f) g = and_then p (\<lambda>a. and_then (f a) g)"
  by (auto simp: and_then_def fun_eq_iff split: prod.splits sum.splits)

end
