(* ===== verification/Simon.thy ===== *)
theory Simon
  imports Prelude
begin

text \<open>
  The SIMON block cipher of \<^verbatim>\<open>dc-tool/simon.c\<close> (with the types and tables of
  \<^verbatim>\<open>simon_internal.h\<close>): the key schedule built by \<^verbatim>\<open>Simon_Init\<close> for all ten
  configurations, the five block encryption and decryption routines, and the project's
  hook functions. Buffers are byte lists, accessed with bounds checks; words are read
  little endian, as on the RV64 and x86 hosts the code is built for.
\<close>

section \<open>Cipher configurations\<close>

definition block_sizes :: "nat list" where
  "block_sizes = [32, 48, 48, 64, 64, 96, 96, 128, 128, 128]"

definition key_sizes :: "nat list" where
  "key_sizes = [64, 72, 96, 96, 128, 96, 144, 128, 192, 256]"

definition simon_rounds :: "nat list" where
  "simon_rounds = [32, 36, 36, 42, 44, 52, 54, 68, 69, 72]"

definition z_assign :: "nat list" where
  "z_assign = [0, 0, 1, 2, 3, 2, 3, 2, 3, 4]"

definition z_arrays :: "u64 list" where
  "z_arrays =
    [0b0001100111000011010100100010111110110011100001101010010001011111,
     0b0001011010000110010011111011100010101101000011001001111101110001,
     0b0011001101101001111110001000010100011001001011000000111011110101,
     0b0011110000101100111001010001001000000111101001100011010111011011,
     0b0011110111001001010011000011101000000100011011010110011110001011]"

definition cfg_64_32 :: int where "cfg_64_32 = 0"
definition cfg_96_48 :: int where "cfg_96_48 = 2"
definition cfg_128_64 :: int where "cfg_128_64 = 4"
definition cfg_144_96 :: int where "cfg_144_96 = 6"
definition cfg_128_128 :: int where "cfg_128_128 = 7"
definition cfg_256_128 :: int where "cfg_256_128 = 9"

text \<open>The function pointers of a cipher object name one of the five block widths.\<close>

datatype block_fn = Block_32 | Block_48 | Block_64 | Block_96 | Block_128

record simon_cipher =
  cipher_cfg :: int
  encryptPtr :: block_fn
  decryptPtr :: block_fn
  key_size :: u16
  block_size :: u8
  round_limit :: u8
  init_vector :: "u8 list"
  counter :: "u8 list"
  key_schedule :: "u8 list"
  alpha :: u8
  beta :: u8
  z_seq :: u8

section \<open>The shift macros\<close>

definition shift_one :: "nat \<Rightarrow> 'a::len word \<Rightarrow> 'a word" where
  "shift_one word_size x = push_bit 1 x OR drop_bit (word_size - 1) x"

definition shift_eight :: "nat \<Rightarrow> 'a::len word \<Rightarrow> 'a word" where
  "shift_eight word_size x = push_bit 8 x OR drop_bit (word_size - 8) x"

definition shift_two :: "nat \<Rightarrow> 'a::len word \<Rightarrow> 'a word" where
  "shift_two word_size x = push_bit 2 x OR drop_bit (word_size - 2) x"

definition rshift_three :: "nat \<Rightarrow> 'a::len word \<Rightarrow> 'a word" where
  "rshift_three word_size x = drop_bit 3 x OR push_bit (word_size - 3) (x AND 7)"

definition rshift_one :: "nat \<Rightarrow> 'a::len word \<Rightarrow> 'a word" where
  "rshift_one word_size x = drop_bit 1 x OR push_bit (word_size - 1) (x AND 1)"

section \<open>Key expansion\<close>

text \<open>One turn of the key schedule loop: the new sub key, the shift of the sub words and
  the append to the schedule.\<close>

definition Simon_Init_round ::
  "nat \<Rightarrow> nat \<Rightarrow> nat \<Rightarrow> u64 \<Rightarrow> nat \<Rightarrow> u64 list \<times> u8 list \<Rightarrow> (u64 list \<times> u8 list) option" where
  "Simon_Init_round word_size word_bytes key_words z i = (\<lambda>(sub_keys, sched). do {
     top \<leftarrow> ld sub_keys (key_words - 1);
     s0 \<leftarrow> ld sub_keys 0;
     s1 \<leftarrow> ld sub_keys 1;
     let tmp1 = rshift_three word_size top;
     let tmp1 = (if key_words = 4 then tmp1 XOR s1 else tmp1);
     let tmp2 = rshift_one word_size tmp1;
     let tmp1 = tmp1 XOR s0;
     let tmp1 = tmp1 XOR tmp2;
     let tmp2 = 0xFFFFFFFFFFFFFFFC XOR (drop_bit (i mod 62) z AND 1);
     let tmp1 = tmp1 XOR tmp2;
     sub_keys \<leftarrow> for_up 0 (key_words - 1)
       (\<lambda>j sk. do { v \<leftarrow> ld sk (j + 1); st sk j v }) sub_keys;
     sub_keys \<leftarrow> st sub_keys (key_words - 1) (tmp1 AND drop_bit (64 - word_size) (NOT 0));
     s0 \<leftarrow> ld sub_keys 0;
     sched \<leftarrow> st_bytes sched (word_bytes * (i + 1)) (le_bytes word_bytes s0);
     Some (sub_keys, sched) })"

definition Simon_Init :: "simon_cipher \<Rightarrow> int \<Rightarrow> u8 list \<Rightarrow> (simon_cipher \<times> u8) option" where
  "Simon_Init cipher_object cfg key =
    (if cfg > cfg_256_128 \<or> cfg < cfg_64_32 then Some (cipher_object, 1)
     else do {
       let n = nat cfg;
       let rounds = simon_rounds ! n;
       let cipher_object = cipher_object\<lparr>
             block_size := of_nat (block_sizes ! n), key_size := of_nat (key_sizes ! n),
             round_limit := of_nat rounds, cipher_cfg := cfg, z_seq := of_nat (z_assign ! n)\<rparr>;
       let word_size = block_sizes ! n div 2;
       let word_bytes = word_size div 8;
       let key_words = key_sizes ! n div word_size;
       sub_keys \<leftarrow> for_up 0 key_words
         (\<lambda>i sk. do { w \<leftarrow> ld_word word_bytes key (word_bytes * i); st sk i w }) (replicate 4 0);
       s0 \<leftarrow> ld sub_keys 0;
       sched \<leftarrow> st_bytes (key_schedule cipher_object) 0 (le_bytes word_bytes s0);
       z \<leftarrow> ld z_arrays (unat (z_seq cipher_object));
       (sub_keys, sched) \<leftarrow>
         for_up 0 (rounds - 1) (Simon_Init_round word_size word_bytes key_words z) (sub_keys, sched);
       let fn = (if cfg = cfg_64_32 then Block_32 else if cfg \<le> cfg_96_48 then Block_48
                 else if cfg \<le> cfg_128_64 then Block_64 else if cfg \<le> cfg_144_96 then Block_96
                 else Block_128);
       Some (cipher_object\<lparr>key_schedule := sched, encryptPtr := fn, decryptPtr := fn\<rparr>, 0) })"

section \<open>Block encryption and decryption\<close>

text \<open>The expression every round computes before the Feistel cross and the key.\<close>

definition simon_temp :: "nat \<Rightarrow> 'a::len word \<Rightarrow> 'a word \<Rightarrow> 'a word" where
  "simon_temp word_size x y =
     (shift_one word_size x AND shift_eight word_size x) XOR y XOR shift_two word_size x"

text \<open>
  The decryption loops run \<^verbatim>\<open>for (int8_t i = round_limit - 1; i >= 0; i--)\<close>: the number
  of turns is that of the start value read as a signed byte.
\<close>

definition decrypt_turns :: "u8 \<Rightarrow> nat" where
  "decrypt_turns rl = nat (sint (rl - 1) + 1)"

definition Simon_Encrypt_32 :: "u8 \<Rightarrow> u8 list \<Rightarrow> u8 list \<Rightarrow> u8 list \<Rightarrow> u8 list option" where
  "Simon_Encrypt_32 rl ks plaintext ciphertext = do {
     y \<leftarrow> ld_word 2 plaintext 0;
     x \<leftarrow> ld_word 2 plaintext 2;
     (x, y) \<leftarrow> for_up 0 (unat rl)
       (\<lambda>i (x, y). do { k \<leftarrow> ld_word 2 ks (2 * i); Some (simon_temp 16 x y XOR k, x) }) (x, y :: u16);
     ct \<leftarrow> st_bytes ciphertext 0 (le_bytes 2 y);
     st_bytes ct 2 (le_bytes 2 x) }"

definition Simon_Decrypt_32 :: "u8 \<Rightarrow> u8 list \<Rightarrow> u8 list \<Rightarrow> u8 list \<Rightarrow> u8 list option" where
  "Simon_Decrypt_32 rl ks ciphertext plaintext = do {
     x \<leftarrow> ld_word 2 ciphertext 0;
     y \<leftarrow> ld_word 2 ciphertext 2;
     (x, y) \<leftarrow> for_down (decrypt_turns rl)
       (\<lambda>i (x, y). do { k \<leftarrow> ld_word 2 ks (2 * i); Some (simon_temp 16 x y XOR k, x) }) (x, y :: u16);
     pt \<leftarrow> st_bytes plaintext 0 (le_bytes 2 x);
     st_bytes pt 2 (le_bytes 2 y) }"

definition Simon_Encrypt_64 :: "u8 \<Rightarrow> u8 list \<Rightarrow> u8 list \<Rightarrow> u8 list \<Rightarrow> u8 list option" where
  "Simon_Encrypt_64 rl ks plaintext ciphertext = do {
     y \<leftarrow> ld_word 4 plaintext 0;
     x \<leftarrow> ld_word 4 plaintext 4;
     (x, y) \<leftarrow> for_up 0 (unat rl)
       (\<lambda>i (x, y). do { k \<leftarrow> ld_word 4 ks (4 * i); Some (simon_temp 32 x y XOR k, x) }) (x, y :: u32);
     ct \<leftarrow> st_bytes ciphertext 0 (le_bytes 4 y);
     st_bytes ct 4 (le_bytes 4 x) }"

definition Simon_Decrypt_64 :: "u8 \<Rightarrow> u8 list \<Rightarrow> u8 list \<Rightarrow> u8 list \<Rightarrow> u8 list option" where
  "Simon_Decrypt_64 rl ks ciphertext plaintext = do {
     x \<leftarrow> ld_word 4 ciphertext 0;
     y \<leftarrow> ld_word 4 ciphertext 4;
     (x, y) \<leftarrow> for_down (decrypt_turns rl)
       (\<lambda>i (x, y). do { k \<leftarrow> ld_word 4 ks (4 * i); Some (simon_temp 32 x y XOR k, x) }) (x, y :: u32);
     pt \<leftarrow> st_bytes plaintext 0 (le_bytes 4 x);
     st_bytes pt 4 (le_bytes 4 y) }"

definition Simon_Encrypt_128 :: "u8 \<Rightarrow> u8 list \<Rightarrow> u8 list \<Rightarrow> u8 list \<Rightarrow> u8 list option" where
  "Simon_Encrypt_128 rl ks plaintext ciphertext = do {
     y \<leftarrow> ld_word 8 plaintext 0;
     x \<leftarrow> ld_word 8 plaintext 8;
     (x, y) \<leftarrow> for_up 0 (unat rl)
       (\<lambda>i (x, y). do { k \<leftarrow> ld_word 8 ks (8 * i); Some (simon_temp 64 x y XOR k, x) }) (x, y :: u64);
     ct \<leftarrow> st_bytes ciphertext 0 (le_bytes 8 y);
     st_bytes ct 8 (le_bytes 8 x) }"

definition Simon_Decrypt_128 :: "u8 \<Rightarrow> u8 list \<Rightarrow> u8 list \<Rightarrow> u8 list \<Rightarrow> u8 list option" where
  "Simon_Decrypt_128 rl ks ciphertext plaintext = do {
     x \<leftarrow> ld_word 8 ciphertext 0;
     y \<leftarrow> ld_word 8 ciphertext 8;
     (x, y) \<leftarrow> for_down (decrypt_turns rl)
       (\<lambda>i (x, y). do { k \<leftarrow> ld_word 8 ks (8 * i); Some (simon_temp 64 x y XOR k, x) }) (x, y :: u64);
     pt \<leftarrow> st_bytes plaintext 0 (le_bytes 8 x);
     st_bytes pt 8 (le_bytes 8 y) }"

text \<open>
  The 48- and 96-bit routines go through the bit-field structs \<^verbatim>\<open>bword_24\<close> (four bytes
  of storage) and \<^verbatim>\<open>bword_48\<close> (eight). Every struct read and struct store moves the
  whole storage unit; the bytes of a store that the bit field does not cover are
  unspecified in C: \<open>pad\<close> gives the value of the n-th such byte.
\<close>

definition ld_bword_24 :: "u8 list \<Rightarrow> nat \<Rightarrow> u32 option" where
  "ld_bword_24 m a = map_option (\<lambda>w. w AND 0xFFFFFF) (ld_word 4 m a)"

definition ld_bword_48 :: "u8 list \<Rightarrow> nat \<Rightarrow> u64 option" where
  "ld_bword_48 m a = map_option (\<lambda>w. w AND 0xFFFFFFFFFFFF) (ld_word 8 m a)"

definition Simon_Encrypt_48 ::
  "(nat \<Rightarrow> u8) \<Rightarrow> u8 \<Rightarrow> u8 list \<Rightarrow> u8 list \<Rightarrow> u8 list \<Rightarrow> u8 list option" where
  "Simon_Encrypt_48 pad rl ks plaintext ciphertext = do {
     y \<leftarrow> ld_bword_24 plaintext 0;
     x \<leftarrow> ld_bword_24 plaintext 3;
     (x, y) \<leftarrow> for_up 0 (unat rl)
       (\<lambda>i (x, y). do { k \<leftarrow> ld_bword_24 ks (i * 3);
                       Some ((simon_temp 24 x y XOR k) AND 0xFFFFFF, x) }) (x, y);
     ct \<leftarrow> st_bytes ciphertext 0 (le_bytes 3 y @ [pad 0]);
     st_bytes ct 3 (le_bytes 3 x @ [pad 1]) }"

definition Simon_Decrypt_48 ::
  "(nat \<Rightarrow> u8) \<Rightarrow> u8 \<Rightarrow> u8 list \<Rightarrow> u8 list \<Rightarrow> u8 list \<Rightarrow> u8 list option" where
  "Simon_Decrypt_48 pad rl ks ciphertext plaintext = do {
     x \<leftarrow> ld_bword_24 ciphertext 0;
     y \<leftarrow> ld_bword_24 ciphertext 3;
     (x, y) \<leftarrow> for_down (decrypt_turns rl)
       (\<lambda>i (x, y). do { k \<leftarrow> ld_bword_24 ks (i * 3);
                       Some ((simon_temp 24 x y XOR k) AND 0xFFFFFF, x) }) (x, y);
     pt \<leftarrow> st_bytes plaintext 0 (le_bytes 3 x @ [pad 0]);
     st_bytes pt 3 (le_bytes 3 y @ [pad 1]) }"

definition Simon_Encrypt_96 ::
  "(nat \<Rightarrow> u8) \<Rightarrow> u8 \<Rightarrow> u8 list \<Rightarrow> u8 list \<Rightarrow> u8 list \<Rightarrow> u8 list option" where
  "Simon_Encrypt_96 pad rl ks plaintext ciphertext = do {
     y \<leftarrow> ld_bword_48 plaintext 0;
     x \<leftarrow> ld_bword_48 plaintext 6;
     (x, y) \<leftarrow> for_up 0 (unat rl)
       (\<lambda>i (x, y). do { k \<leftarrow> ld_bword_48 ks (i * 6);
                       Some ((simon_temp 48 x y XOR k) AND 0xFFFFFFFFFFFF, x) }) (x, y);
     ct \<leftarrow> st_bytes ciphertext 0 (le_bytes 6 y @ [pad 0, pad 1]);
     st_bytes ct 6 (le_bytes 6 x @ [pad 2, pad 3]) }"

definition Simon_Decrypt_96 ::
  "(nat \<Rightarrow> u8) \<Rightarrow> u8 \<Rightarrow> u8 list \<Rightarrow> u8 list \<Rightarrow> u8 list \<Rightarrow> u8 list option" where
  "Simon_Decrypt_96 pad rl ks ciphertext plaintext = do {
     x \<leftarrow> ld_bword_48 ciphertext 0;
     y \<leftarrow> ld_bword_48 ciphertext 6;
     (x, y) \<leftarrow> for_down (decrypt_turns rl)
       (\<lambda>i (x, y). do { k \<leftarrow> ld_bword_48 ks (i * 6);
                       Some ((simon_temp 48 x y XOR k) AND 0xFFFFFFFFFFFF, x) }) (x, y);
     pt \<leftarrow> st_bytes plaintext 0 (le_bytes 6 x @ [pad 0, pad 1]);
     st_bytes pt 6 (le_bytes 6 y @ [pad 2, pad 3]) }"

section \<open>Calls through the function pointers\<close>

text \<open>
  What a call through a pointer of the cipher object does: it calls the routine the pointer names.
  The two dispatching functions of simon.c are compiled out and are not modelled; a client calls
  a routine itself, as the hooks below do.
\<close>

definition call_encrypt ::
  "(nat \<Rightarrow> u8) \<Rightarrow> block_fn \<Rightarrow> u8 \<Rightarrow> u8 list \<Rightarrow> u8 list \<Rightarrow> u8 list \<Rightarrow> u8 list option" where
  "call_encrypt pad fn rl ks plaintext ciphertext =
     (case fn of
        Block_32 \<Rightarrow> Simon_Encrypt_32 rl ks plaintext ciphertext
      | Block_48 \<Rightarrow> Simon_Encrypt_48 pad rl ks plaintext ciphertext
      | Block_64 \<Rightarrow> Simon_Encrypt_64 rl ks plaintext ciphertext
      | Block_96 \<Rightarrow> Simon_Encrypt_96 pad rl ks plaintext ciphertext
      | Block_128 \<Rightarrow> Simon_Encrypt_128 rl ks plaintext ciphertext)"

definition call_decrypt ::
  "(nat \<Rightarrow> u8) \<Rightarrow> block_fn \<Rightarrow> u8 \<Rightarrow> u8 list \<Rightarrow> u8 list \<Rightarrow> u8 list \<Rightarrow> u8 list option" where
  "call_decrypt pad fn rl ks ciphertext plaintext =
     (case fn of
        Block_32 \<Rightarrow> Simon_Decrypt_32 rl ks ciphertext plaintext
      | Block_48 \<Rightarrow> Simon_Decrypt_48 pad rl ks ciphertext plaintext
      | Block_64 \<Rightarrow> Simon_Decrypt_64 rl ks ciphertext plaintext
      | Block_96 \<Rightarrow> Simon_Decrypt_96 pad rl ks ciphertext plaintext
      | Block_128 \<Rightarrow> Simon_Decrypt_128 rl ks ciphertext plaintext)"

section \<open>The project's hook functions\<close>

text \<open>
  A key expansion runs \<^verbatim>\<open>Simon_Init\<close> and then overwrites the round limit with the
  caller's \<^verbatim>\<open>unsigned\<close>, truncated to the byte of the struct field.
\<close>

definition simon_64_32_keyexpand :: "simon_cipher \<Rightarrow> u64 \<Rightarrow> u32 \<Rightarrow> (simon_cipher \<times> bool) option" where
  "simon_64_32_keyexpand x key rl = do {
     (x, result) \<leftarrow> Simon_Init x cfg_64_32 (le_bytes 8 key);
     Some (x\<lparr>round_limit := ucast rl\<rparr>, result = 0) }"

definition simon_64_32_encrypt :: "simon_cipher \<Rightarrow> u32 \<Rightarrow> u32 option" where
  "simon_64_32_encrypt x plaintext = map_option le_word
     (Simon_Encrypt_32 (round_limit x) (key_schedule x) (le_bytes 4 plaintext) (replicate 4 0))"

definition simon_64_32_decrypt :: "simon_cipher \<Rightarrow> u32 \<Rightarrow> u32 option" where
  "simon_64_32_decrypt x ciphertext = map_option le_word
     (Simon_Decrypt_32 (round_limit x) (key_schedule x) (le_bytes 4 ciphertext) (replicate 4 0))"

definition simon_128_64_keyexpand :: "simon_cipher \<Rightarrow> u128 \<Rightarrow> u32 \<Rightarrow> (simon_cipher \<times> bool) option" where
  "simon_128_64_keyexpand x key rl = do {
     (x, result) \<leftarrow> Simon_Init x cfg_128_64 (le_bytes 16 key);
     Some (x\<lparr>round_limit := ucast rl\<rparr>, result = 0) }"

definition simon_128_64_encrypt :: "simon_cipher \<Rightarrow> u64 \<Rightarrow> u64 option" where
  "simon_128_64_encrypt x plaintext = map_option le_word
     (Simon_Encrypt_64 (round_limit x) (key_schedule x) (le_bytes 8 plaintext) (replicate 8 0))"

definition simon_128_64_decrypt :: "simon_cipher \<Rightarrow> u64 \<Rightarrow> u64 option" where
  "simon_128_64_decrypt x ciphertext = map_option le_word
     (Simon_Decrypt_64 (round_limit x) (key_schedule x) (le_bytes 8 ciphertext) (replicate 8 0))"

definition simon_128_128_keyexpand :: "simon_cipher \<Rightarrow> u128 \<Rightarrow> u32 \<Rightarrow> (simon_cipher \<times> bool) option" where
  "simon_128_128_keyexpand x key rl = do {
     (x, result) \<leftarrow> Simon_Init x cfg_128_128 (le_bytes 16 key);
     Some (x\<lparr>round_limit := ucast rl\<rparr>, result = 0) }"

definition simon_128_128_encrypt :: "simon_cipher \<Rightarrow> u128 \<Rightarrow> u128 option" where
  "simon_128_128_encrypt x plaintext = map_option le_word
     (Simon_Encrypt_128 (round_limit x) (key_schedule x) (le_bytes 16 plaintext) (replicate 16 0))"

definition simon_128_128_decrypt :: "simon_cipher \<Rightarrow> u128 \<Rightarrow> u128 option" where
  "simon_128_128_decrypt x ciphertext = map_option le_word
     (Simon_Decrypt_128 (round_limit x) (key_schedule x) (le_bytes 16 ciphertext) (replicate 16 0))"

end
