(* ===== verification/Block_Cipher.thy ===== *)
theory Block_Cipher
  imports Prelude
begin

text \<open>
  The interface of a 128-bit block cipher and the cipher block chaining the contract tool
  runs over it (\<^verbatim>\<open>simon_encrypt\<close> and \<^verbatim>\<open>simon_decrypt\<close> of
  \<^verbatim>\<open>dc-tool/dc-tool.c\<close>). The locale states what a client needs of a cipher: under a
  valid key both directions always produce a block and undo each other. The chaining
  lemmas are proved once from these laws.
\<close>

section \<open>Chaining over a buffer\<close>

text \<open>
  The buffers are cast to arrays of \<^verbatim>\<open>uint128_t\<close>; the \<^verbatim>\<open>assert\<close> on the length stops the
  program (None).
\<close>

definition cbc_encrypt :: "(u128 \<Rightarrow> u128 option) \<Rightarrow> u8 list \<Rightarrow> u8 list \<Rightarrow> u8 list option" where
  "cbc_encrypt E pt ct = (if length pt mod 16 \<noteq> 0 then None else
     map_option snd (for_up 0 (length pt div 16) (\<lambda>i (iv, ct). do {
       p \<leftarrow> ld_word 16 pt (16 * i);
       c \<leftarrow> E (p XOR iv);
       ct \<leftarrow> st_bytes ct (16 * i) (le_bytes 16 c);
       iv \<leftarrow> ld_word 16 ct (16 * i);
       Some (iv, ct) }) (0, ct)))"

definition cbc_decrypt :: "(u128 \<Rightarrow> u128 option) \<Rightarrow> u8 list \<Rightarrow> u8 list \<Rightarrow> u8 list option" where
  "cbc_decrypt D ct pt = (if length ct mod 16 \<noteq> 0 then None else
     map_option snd (for_up 0 (length ct div 16) (\<lambda>i (iv, pt). do {
       c \<leftarrow> ld_word 16 ct (16 * i);
       d \<leftarrow> D c;
       pt \<leftarrow> st_bytes pt (16 * i) (le_bytes 16 d);
       p \<leftarrow> ld_word 16 pt (16 * i);
       pt \<leftarrow> st_bytes pt (16 * i) (le_bytes 16 (p XOR iv));
       iv \<leftarrow> ld_word 16 ct (16 * i);
       Some (iv, pt) }) (0 :: u128, pt)))"

section \<open>Blocks of a buffer\<close>

definition blk :: "u8 list \<Rightarrow> nat \<Rightarrow> u128" where
  "blk m i = le_word (take 16 (drop (16 * i) m))"

definition chain :: "u8 list \<Rightarrow> nat \<Rightarrow> u128" where
  "chain m i = (if i = 0 then 0 else blk m (i - 1))"

lemma ld_blk: "16 * n \<le> length m \<Longrightarrow> i < n \<Longrightarrow> ld_word 16 m (16 * i) = Some (blk m i)"
  by (simp add: ld_word_Some blk_def)

lemma blk_eqI:
  assumes "length a = 16 * n" "length b = 16 * n" "\<And>i. i < n \<Longrightarrow> blk a i = blk b i"
  shows "a = b"
proof (rule nth_equalityI)
  show "length a = length b" using assms by simp
next
  fix k assume "k < length a"
  then have i: "k div 16 < n" using assms(1) by (simp add: less_mult_imp_div_less)
  then have le: "16 * (k div 16) + 16 \<le> 16 * n" by linarith
  have "take 16 (drop (16 * (k div 16)) a) = take 16 (drop (16 * (k div 16)) b)"
  proof -
    have "le_bytes 16 (blk a (k div 16)) = le_bytes 16 (blk b (k div 16))" using assms(3) [OF i] by simp
    then show ?thesis using le assms(1,2) by (simp add: blk_def byte_simps)
  qed
  then have "take 16 (drop (16 * (k div 16)) a) ! (k mod 16) = take 16 (drop (16 * (k div 16)) b) ! (k mod 16)"
    by simp
  then show "a ! k = b ! k" using le assms(1,2) by simp
qed

lemma st_blk:
  assumes "length m = 16 * n" "i < n"
  shows "\<exists>m'. st_bytes m (16 * i) (le_bytes 16 v) = Some m' \<and> length m' = 16 * n \<and> blk m' i = v \<and>
    (\<forall>j. j \<noteq> i \<longrightarrow> j < n \<longrightarrow> blk m' j = blk m j)"
proof -
  have le: "16 * i + 16 \<le> length m" using assms by simp
  then obtain m' where m': "st_bytes m (16 * i) (le_bytes 16 v) = Some m'"
    by (simp add: st_bytes_def)
  have len: "length m' = 16 * n" using st_bytes_length [OF m'] assms by simp
  have "take 16 (drop (16 * i) m') = le_bytes 16 v"
    using ld_bytes_st_bytes_same [OF m'] by (simp add: mem_simps)
  then have "blk m' i = v" by (simp add: blk_def byte_simps)
  moreover have "blk m' j = blk m j" if "j \<noteq> i" "j < n" for j
  proof -
    have "16 * j + 16 \<le> 16 * i \<or> 16 * i + length (le_bytes 16 v) \<le> 16 * j" using that by auto
    from ld_bytes_st_bytes_other [OF m' this] show ?thesis
      using that len assms by (simp add: ld_bytes_def blk_def)
  qed
  ultimately show ?thesis using m' len by blast
qed

section \<open>The cipher interface\<close>

locale block_cipher =
  fixes valid :: "'k \<Rightarrow> bool"
    and enc :: "'k \<Rightarrow> 'b \<Rightarrow> 'b option"
    and dec :: "'k \<Rightarrow> 'b \<Rightarrow> 'b option"
  assumes enc_total: "valid k \<Longrightarrow> \<exists>c. enc k p = Some c"
    and dec_total: "valid k \<Longrightarrow> \<exists>p. dec k c = Some p"
    and dec_enc: "valid k \<Longrightarrow> enc k p = Some c \<Longrightarrow> dec k c = Some p"
    and enc_dec: "valid k \<Longrightarrow> dec k c = Some p \<Longrightarrow> enc k p = Some c"
begin

lemma enc_inj: "valid k \<Longrightarrow> enc k p = Some c \<Longrightarrow> enc k q = Some c \<Longrightarrow> p = q"
  using dec_enc [of k p c] dec_enc [of k q c] by simp

lemma enc_bij: "valid k \<Longrightarrow> bij (\<lambda>p. the (enc k p))"
proof (rule o_bij [where g = "\<lambda>c. the (dec k c)"])
  assume v: "valid k"
  have "the (dec k (the (enc k p))) = p" for p
    using enc_total [OF v, of p] dec_enc [OF v] by fastforce
  then show "(\<lambda>c. the (dec k c)) \<circ> (\<lambda>p. the (enc k p)) = id" by (auto simp: fun_eq_iff)
  have "the (enc k (the (dec k c))) = c" for c
    using dec_total [OF v, of c] enc_dec [OF v] by fastforce
  then show "(\<lambda>p. the (enc k p)) \<circ> (\<lambda>c. the (dec k c)) = id" by (auto simp: fun_eq_iff)
qed

end

text \<open>Chaining needs the block to be the 128-bit word that is combined with the buffer.\<close>

locale block_cipher_128 = block_cipher valid enc dec
  for valid :: "'k \<Rightarrow> bool" and enc dec :: "'k \<Rightarrow> u128 \<Rightarrow> u128 option"
begin

lemma cbc_encrypt_blocks:
  assumes v: "valid k" and pt: "length pt = 16 * n" and ct: "length ct = 16 * n"
  shows "\<exists>c. cbc_encrypt (enc k) pt ct = Some c \<and> length c = 16 * n \<and>
    (\<forall>j < n. dec k (blk c j) = Some (blk pt j XOR chain c j))"
proof -
  define P where "P i s \<longleftrightarrow> length (snd s) = 16 * n \<and> fst s = chain (snd s) i \<and>
    (\<forall>j < i. dec k (blk (snd s) j) = Some (blk pt j XOR chain (snd s) j))" for i s
  let ?body = "\<lambda>i (iv, ct). do {
       p \<leftarrow> ld_word 16 pt (16 * i); c \<leftarrow> enc k (p XOR iv);
       ct \<leftarrow> st_bytes ct (16 * i) (le_bytes 16 c); iv \<leftarrow> ld_word 16 ct (16 * i); Some (iv, ct) }"
  have "\<exists>s'. for_up 0 n ?body (0, ct) = Some s' \<and> P (0 + n) s'"
  proof (rule for_up_inv)
    show "P 0 (0, ct)" using ct by (simp add: P_def chain_def)
  next
    fix i s assume i: "i < 0 + n" and P: "P i s"
    obtain iv b where s: "s = (iv, b)" by (cases s)
    from P s have b: "length b = 16 * n" and iv: "iv = chain b i"
      and past: "\<And>j. j < i \<Longrightarrow> dec k (blk b j) = Some (blk pt j XOR chain b j)"
      by (auto simp: P_def)
    obtain c where c: "enc k (blk pt i XOR iv) = Some c" using enc_total [OF v] by blast
    from st_blk [OF b, of i c] i obtain b' where
      b': "st_bytes b (16 * i) (le_bytes 16 c) = Some b'" "length b' = 16 * n" "blk b' i = c"
      and same: "\<And>j. j \<noteq> i \<Longrightarrow> j < n \<Longrightarrow> blk b' j = blk b j" by auto
    have ch: "chain b' j = chain b j" if "j \<le> i" for j
      using same that i by (auto simp: chain_def)
    have "P (Suc i) (c, b')"
      using b' past same ch iv i dec_enc [OF v c] by (auto simp: P_def chain_def less_Suc_eq)
    moreover have "?body i s = Some (c, b')"
      using s b' c i pt ld_blk [of n pt i] ld_blk [of n b' i] by simp
    ultimately show "\<exists>s'. ?body i s = Some s' \<and> P (Suc i) s'" by blast
  qed
  then show ?thesis using pt by (auto simp: cbc_encrypt_def P_def)
qed

lemma cbc_decrypt_blocks:
  assumes v: "valid k" and ct: "length ct = 16 * n" and pt: "length pt = 16 * n"
    and ds: "\<And>j. j < n \<Longrightarrow> dec k (blk ct j) = Some (ds j)"
  shows "\<exists>p. cbc_decrypt (dec k) ct pt = Some p \<and> length p = 16 * n \<and>
    (\<forall>j < n. blk p j = ds j XOR chain ct j)"
proof -
  define P where "P i s \<longleftrightarrow> length (snd s) = 16 * n \<and> fst s = chain ct i \<and>
    (\<forall>j < i. blk (snd s) j = ds j XOR chain ct j)" for i s
  let ?body = "\<lambda>i (iv, pt). do {
       c \<leftarrow> ld_word 16 ct (16 * i); d \<leftarrow> dec k c;
       pt \<leftarrow> st_bytes pt (16 * i) (le_bytes 16 d); p \<leftarrow> ld_word 16 pt (16 * i);
       pt \<leftarrow> st_bytes pt (16 * i) (le_bytes 16 (p XOR iv));
       iv \<leftarrow> ld_word 16 ct (16 * i); Some (iv, pt) }"
  have "\<exists>s'. for_up 0 n ?body (0 :: u128, pt) = Some s' \<and> P (0 + n) s'"
  proof (rule for_up_inv)
    show "P 0 (0, pt)" using pt by (simp add: P_def chain_def)
  next
    fix i s assume i: "i < 0 + n" and P: "P i s"
    obtain iv b where s: "s = (iv, b)" by (cases s)
    from P s have b: "length b = 16 * n" and iv: "iv = chain ct i"
      and past: "\<And>j. j < i \<Longrightarrow> blk b j = ds j XOR chain ct j"
      by (auto simp: P_def)
    from st_blk [OF b, of i "ds i"] i obtain b1 where
      b1: "st_bytes b (16 * i) (le_bytes 16 (ds i)) = Some b1" "length b1 = 16 * n" "blk b1 i = ds i"
      and same1: "\<And>j. j \<noteq> i \<Longrightarrow> j < n \<Longrightarrow> blk b1 j = blk b j" by auto
    from st_blk [OF b1(2), of i "ds i XOR iv"] i obtain b2 where
      b2: "st_bytes b1 (16 * i) (le_bytes 16 (ds i XOR iv)) = Some b2" "length b2 = 16 * n"
        "blk b2 i = ds i XOR iv"
      and same2: "\<And>j. j \<noteq> i \<Longrightarrow> j < n \<Longrightarrow> blk b2 j = blk b1 j" by auto
    have "P (Suc i) (blk ct i, b2)"
      using b2 past same1 same2 iv i by (auto simp: P_def chain_def less_Suc_eq)
    moreover have "?body i s = Some (blk ct i, b2)"
      using s b1 b2 i ct ds [of i] ld_blk [of n ct i] ld_blk [of n b1 i] by simp
    ultimately show "\<exists>s'. ?body i s = Some s' \<and> P (Suc i) s'" by blast
  qed
  then show ?thesis using ct by (auto simp: cbc_decrypt_def P_def)
qed

lemma cbc_round_trip:
  assumes v: "valid k" and "length pt = 16 * n" "length cb = 16 * n" "length ob = 16 * n"
  shows "\<exists>c. cbc_encrypt (enc k) pt cb = Some c \<and> length c = 16 * n \<and>
    cbc_decrypt (dec k) c ob = Some pt"
proof -
  obtain c where c: "cbc_encrypt (enc k) pt cb = Some c" "length c = 16 * n"
    and ds: "\<And>j. j < n \<Longrightarrow> dec k (blk c j) = Some (blk pt j XOR chain c j)"
    using cbc_encrypt_blocks [OF assms(1-3)] by blast
  obtain p where p: "cbc_decrypt (dec k) c ob = Some p" "length p = 16 * n"
    and "\<And>j. j < n \<Longrightarrow> blk p j = blk pt j"
    using cbc_decrypt_blocks [OF v c(2) assms(4) ds] by (auto simp: xor.assoc)
  then have "p = pt" using assms(2) by (intro blk_eqI [of _ n]) auto
  with c p show ?thesis by blast
qed

end

end
