(* ===== verification/Simon_Proofs.thy ===== *)
theory Simon_Proofs
  imports Simon Block_Cipher
begin

text \<open>
  Correctness of the SIMON model: the rounds compute the Feistel network of the cipher's
  specification on rotated words, every decryption routine undoes its encryption routine
  (and what happens for round limits above 128, where the signed loop counter wraps), and
  the key schedule is the specification's recurrence, written without leaving its buffer.
\<close>

section \<open>The specification's round on w-bit words\<close>

definition simon_F :: "'a::len word \<Rightarrow> 'a word" where
  "simon_F x = (word_rotl 1 x AND word_rotl 8 x) XOR word_rotl 2 x"

definition feistel_round :: "'a::len word \<Rightarrow> 'a word \<times> 'a word \<Rightarrow> 'a word \<times> 'a word" where
  "feistel_round k s = (simon_F (fst s) XOR snd s XOR k, fst s)"

definition feistel :: "'a::len word list \<Rightarrow> 'a word \<times> 'a word \<Rightarrow> 'a word \<times> 'a word" where
  "feistel ks s = foldl (\<lambda>s k. feistel_round k s) s ks"

lemma feistel_simps [simp]:
  "feistel [] s = s"
  "feistel (k # ks) s = feistel ks (feistel_round k s)"
  "feistel (ks @ ks') s = feistel ks' (feistel ks s)"
  by (simp_all add: feistel_def)

lemma feistel_round_inverse:
  "feistel_round k (prod.swap (feistel_round k s)) = prod.swap s"
  by (cases s) (simp add: feistel_round_def xor.assoc xor.left_commute)

lemma feistel_inverse: "feistel (rev ks) (prod.swap (feistel ks s)) = prod.swap s"
  by (induction ks arbitrary: s) (simp_all add: feistel_round_inverse)

section \<open>The macros compute rotations\<close>

lemma shift_or_rotl:
  fixes x :: "'a::len word" and c :: "'c::len word"
  assumes "LENGTH('a) = ws" "ws \<le> LENGTH('c)" "k \<le> ws"
  shows "take_bit ws (push_bit k (ucast x) OR drop_bit (ws - k) (ucast x) :: 'c word)
    = ucast (word_rotl k x)"
proof (rule bit_word_eqI)
  fix n assume n: "n < LENGTH('c)"
  let ?l = "take_bit ws (push_bit k (ucast x) OR drop_bit (ws - k) (ucast x) :: 'c word)"
  have l: "bit ?l n \<longleftrightarrow> n < ws \<and> (k \<le> n \<and> bit x (n - k) \<or> bit x (ws - k + n))"
    using n assms bit_imp_le_length [of x "ws - k + n"]
    by (auto simp: bit_take_bit_iff bit_or_iff bit_push_bit_iff bit_drop_bit_eq bit_ucast_iff)
  have r: "bit (ucast (word_rotl k x) :: 'c word) n
      \<longleftrightarrow> n < ws \<and> bit x ((n + (ws - k mod ws)) mod ws)"
    using n assms by (auto simp: bit_ucast_iff bit_word_rotl_iff)
  show "bit ?l n = bit (ucast (word_rotl k x) :: 'c word) n"
  proof (cases "k = ws \<or> n < k \<or> ws \<le> n")
    case True
    then show ?thesis unfolding l r using assms by (cases "k = ws") (auto simp: add.commute)
  next
    case False
    then have "n + (ws - k mod ws) = (n - k) + ws" "n - k < ws" using assms(3) by auto
    then have "(n + (ws - k mod ws)) mod ws = n - k" by simp
    moreover have "\<not> bit x (ws - k + n)" using False assms by (auto dest: bit_imp_le_length)
    ultimately show ?thesis unfolding l r using False by auto
  qed
qed

lemma simon_temp_container:
  fixes x y k :: "'a::len word"
  assumes "LENGTH('a) = ws" "ws \<le> LENGTH('c)" "8 \<le> ws"
  shows "take_bit ws (simon_temp ws (ucast x) (ucast y) XOR ucast k :: 'c::len word)
    = ucast (simon_F x XOR y XOR k)"
proof -
  have u: "take_bit ws (ucast w :: 'c word) = ucast (w :: 'a word)" for w
    using assms by (intro bit_word_eqI) (auto simp: bit_take_bit_iff bit_ucast_iff dest: bit_imp_le_length)
  have x: "ucast (a XOR b) = (ucast a XOR ucast b :: 'c word)" for a b :: "'a word"
    using assms by (intro bit_word_eqI) (auto simp: bit_xor_iff bit_ucast_iff)
  have a: "ucast (a AND b) = (ucast a AND ucast b :: 'c word)" for a b :: "'a word"
    using assms by (intro bit_word_eqI) (auto simp: bit_and_iff bit_ucast_iff)
  note r = shift_or_rotl [OF assms(1,2), of _ x]
  show ?thesis
    using assms(3) r [of 1] r [of 8] r [of 2]
    by (simp add: simon_temp_def simon_F_def shift_one_def shift_eight_def shift_two_def
        u x a xor.assoc xor.left_commute xor.commute)
qed

lemma simon_temp_rotl:
  fixes x y k :: "'a::len word"
  assumes "LENGTH('a) = ws" "8 \<le> ws"
  shows "simon_temp ws x y XOR k = simon_F x XOR y XOR k"
  using simon_temp_container [of ws x y k, where 'c = 'a] assms
  by (simp add: take_bit_word_eq_self)

lemma and_mask_24: "(w :: u32) AND 0xFFFFFF = take_bit 24 w"
  by (simp add: take_bit_eq_mask mask_eq_exp_minus_1)

lemma and_mask_48: "(w :: u64) AND 0xFFFFFFFFFFFF = take_bit 48 w"
  by (simp add: take_bit_eq_mask mask_eq_exp_minus_1)

section \<open>Loops that run the Feistel network\<close>

lemma for_up_feistel:
  assumes "\<And>i s. i < n \<Longrightarrow> body i (emb s) = Some (emb (feistel_round (kk i) s))"
  shows "for_up 0 n body (emb s) = Some (emb (feistel (map kk [0..<n]) s))"
  using assms
proof (induction n)
  case 0
  then show ?case by simp
next
  case (Suc n)
  then show ?case by (simp add: for_up_Suc_right del: for_up.simps(2))
qed

lemma for_down_feistel:
  assumes "\<And>i s. i < n \<Longrightarrow> body i (emb s) = Some (emb (feistel_round (kk i) s))"
  shows "for_down n body (emb s) = Some (emb (feistel (rev (map kk [0..<n])) s))"
  using assms by (induction n arbitrary: s) simp_all

lemma decrypt_turns: "decrypt_turns rl = (if unat rl \<le> 128 then unat rl else 0)"
proof (cases "rl = 0")
  case True
  then show ?thesis by (simp add: decrypt_turns_def)
next
  case False
  then have u: "uint (rl - 1) = uint rl - 1"
    using word_neq_0_le [of rl] by (simp add: uint_sub_if')
  have r: "uint rl < 256" using unsigned_less [of rl, where 'a = int] by simp
  have "sint (rl - 1) + 1 = (if uint rl \<le> 128 then uint rl else uint rl - 256)"
    using u r by (simp add: sint_uint_if)
  moreover have "unat rl \<le> 128 \<longleftrightarrow> uint rl \<le> 128"
    by (simp only: unat_eq_nat_uint nat_le_iff of_nat_numeral)
  ultimately show ?thesis using r by (simp add: decrypt_turns_def)
qed

section \<open>The block routines\<close>

definition round_key :: "nat \<Rightarrow> u8 list \<Rightarrow> nat \<Rightarrow> 'a::len word" where
  "round_key n ks i = le_word (take n (drop (n * i) ks))"

lemma ld_round_key:
  assumes "n * m \<le> length ks" "i < m"
  shows "ld_word n ks (n * i) = Some (round_key n ks i)"
proof -
  have "n * i + n = n * Suc i" by simp
  also have "\<dots> \<le> n * m" using assms(2) by (intro mult_le_mono2) simp
  finally have "n * i + n \<le> length ks" using assms(1) by simp
  then show ?thesis by (simp add: ld_word_Some round_key_def)
qed

lemma ld_bword_24_Some:
  assumes "a + 4 \<le> length m"
  shows "ld_bword_24 m a = Some (ucast (le_word (take 3 (drop a m)) :: 24 word))"
proof -
  have "take_bit 24 (le_word (take 4 (drop a m)) :: u32)
    = ucast (le_word (take 3 (drop a m)) :: 24 word)"
    using assms
    by (intro bit_word_eqI)
       (auto simp: bit_take_bit_iff bit_le_word bit_ucast_iff less_mult_imp_div_less)
  then show ?thesis
    using assms by (simp add: ld_bword_24_def ld_word_Some and_mask_24)
qed

lemma ld_bword_24_key:
  assumes "3 * m + 1 \<le> length ks" "i < m"
  shows "ld_bword_24 ks (i * 3) = Some (ucast (round_key 3 ks i :: 24 word))"
proof -
  have "i * 3 + 4 \<le> length ks" using assms by simp
  then show ?thesis by (simp add: ld_bword_24_Some round_key_def mult.commute)
qed

lemma ld_bword_48_Some:
  assumes "a + 8 \<le> length m"
  shows "ld_bword_48 m a = Some (ucast (le_word (take 6 (drop a m)) :: 48 word))"
proof -
  have "take_bit 48 (le_word (take 8 (drop a m)) :: u64)
    = ucast (le_word (take 6 (drop a m)) :: 48 word)"
    using assms
    by (intro bit_word_eqI)
       (auto simp: bit_take_bit_iff bit_le_word bit_ucast_iff less_mult_imp_div_less)
  then show ?thesis
    using assms by (simp add: ld_bword_48_def ld_word_Some and_mask_48)
qed

lemma ld_bword_48_key:
  assumes "6 * m + 2 \<le> length ks" "i < m"
  shows "ld_bword_48 ks (i * 6) = Some (ucast (round_key 6 ks i :: 48 word))"
proof -
  have "i * 6 + 8 \<le> length ks" using assms by simp
  then show ?thesis by (simp add: ld_bword_48_Some round_key_def mult.commute)
qed

lemma st_bytes_pair:
  assumes "n = length a" "length a + length b \<le> length ct"
  shows "do { ct \<leftarrow> st_bytes ct 0 a; st_bytes ct n b } = Some (a @ b @ drop (n + length b) ct)"
  using assms by (simp add: st_bytes_def add.commute)

lemma st_bytes_pair_overlap:
  assumes "n = length a" "length a + length b \<le> length ct" "length p < length b"
  shows "do { ct \<leftarrow> st_bytes ct 0 (a @ p); st_bytes ct n b }
    = Some (a @ b @ drop (n + length b) ct)"
  using assms by (simp add: st_bytes_def add.commute)

lemma round_loops:
  fixes K :: "nat \<Rightarrow> 'c::len word option" and kk :: "nat \<Rightarrow> 'a::len word"
  assumes K: "\<And>i. i < m \<Longrightarrow> K i = Some (ucast (kk i))"
    and w: "LENGTH('a) = ws" "ws \<le> LENGTH('c)" "8 \<le> ws"
  defines "body \<equiv> \<lambda>i (x, y). do { k \<leftarrow> K i; Some (take_bit ws (simon_temp ws x y XOR k), x) }"
  shows "for_up 0 m body (ucast x, ucast y)
      = Some (map_prod ucast ucast (feistel (map kk [0..<m]) (x, y)))"
    and "for_down m body (ucast x, ucast y)
      = Some (map_prod ucast ucast (feistel (rev (map kk [0..<m])) (x, y)))"
proof -
  have step: "body i (map_prod ucast ucast s) = Some (map_prod ucast ucast (feistel_round (kk i) s))"
    if "i < m" for i s
    using K [OF that] by (cases s) (simp add: body_def feistel_round_def simon_temp_container [OF w] del: take_bit_xor)
  show "for_up 0 m body (ucast x, ucast y)
      = Some (map_prod ucast ucast (feistel (map kk [0..<m]) (x, y)))"
    using for_up_feistel [of m body "map_prod ucast ucast" kk "(x, y)"] step by simp
  show "for_down m body (ucast x, ucast y)
      = Some (map_prod ucast ucast (feistel (rev (map kk [0..<m])) (x, y)))"
    using for_down_feistel [of m body "map_prod ucast ucast" kk "(x, y)"] step by simp
qed

lemma round_loops_same:
  fixes K :: "nat \<Rightarrow> 'a::len word option"
  assumes K: "\<And>i. i < m \<Longrightarrow> K i = Some (kk i)" and w: "LENGTH('a) = ws" "8 \<le> ws"
  defines "body \<equiv> \<lambda>i (x, y). do { k \<leftarrow> K i; Some (simon_temp ws x y XOR k, x) }"
  shows "for_up 0 m body (x, y) = Some (feistel (map kk [0..<m]) (x, y))"
    and "for_down m body (x, y) = Some (feistel (rev (map kk [0..<m])) (x, y))"
proof -
  have step: "body i s = Some (feistel_round (kk i) s)" if "i < m" for i s
    using K [OF that] by (cases s) (simp add: body_def feistel_round_def simon_temp_rotl [OF w])
  show "for_up 0 m body (x, y) = Some (feistel (map kk [0..<m]) (x, y))"
    using for_up_feistel [of m body id kk "(x, y)"] step by simp
  show "for_down m body (x, y) = Some (feistel (rev (map kk [0..<m])) (x, y))"
    using for_down_feistel [of m body id kk "(x, y)"] step by simp
qed

text \<open>A block is its two halves, low half first; the ciphertext swaps their roles.\<close>

definition block :: "nat \<Rightarrow> 'a::len word \<times> 'a word \<Rightarrow> u8 list" where
  "block n s = le_bytes n (snd s) @ le_bytes n (fst s)"

abbreviation round_keys :: "nat \<Rightarrow> u8 list \<Rightarrow> nat \<Rightarrow> 'a::len word list" where
  "round_keys n ks m \<equiv> map (round_key n ks) [0..<m]"

lemma Simon_Encrypt_32_feistel:
  fixes s :: "u16 \<times> u16"
  assumes "2 * unat rl \<le> length ks" "4 \<le> length ct"
  shows "Simon_Encrypt_32 rl ks (block 2 s @ rest) ct
    = Some (block 2 (feistel (round_keys 2 ks (unat rl)) s) @ drop 4 ct)"
  using assms
  by (cases s) (simp add: Simon_Encrypt_32_def block_def byte_simps
      round_loops_same(1) [OF ld_round_key [OF assms(1)]] st_bytes_pair split_beta)

lemma Simon_Decrypt_32_feistel:
  fixes s :: "u16 \<times> u16"
  assumes "2 * decrypt_turns rl \<le> length ks" "4 \<le> length pt"
  shows "Simon_Decrypt_32 rl ks (block 2 s @ rest) pt
    = Some (block 2 (prod.swap (feistel (rev (round_keys 2 ks (decrypt_turns rl))) (prod.swap s)))
        @ drop 4 pt)"
  using assms
  by (cases s) (simp add: Simon_Decrypt_32_def block_def byte_simps
      round_loops_same(2) [OF ld_round_key [OF assms(1)]] st_bytes_pair split_beta)

lemma Simon_Encrypt_64_feistel:
  fixes s :: "u32 \<times> u32"
  assumes "4 * unat rl \<le> length ks" "8 \<le> length ct"
  shows "Simon_Encrypt_64 rl ks (block 4 s @ rest) ct
    = Some (block 4 (feistel (round_keys 4 ks (unat rl)) s) @ drop 8 ct)"
  using assms
  by (cases s) (simp add: Simon_Encrypt_64_def block_def byte_simps
      round_loops_same(1) [OF ld_round_key [OF assms(1)]] st_bytes_pair split_beta)

lemma Simon_Decrypt_64_feistel:
  fixes s :: "u32 \<times> u32"
  assumes "4 * decrypt_turns rl \<le> length ks" "8 \<le> length pt"
  shows "Simon_Decrypt_64 rl ks (block 4 s @ rest) pt
    = Some (block 4 (prod.swap (feistel (rev (round_keys 4 ks (decrypt_turns rl))) (prod.swap s)))
        @ drop 8 pt)"
  using assms
  by (cases s) (simp add: Simon_Decrypt_64_def block_def byte_simps
      round_loops_same(2) [OF ld_round_key [OF assms(1)]] st_bytes_pair split_beta)

lemma Simon_Encrypt_128_feistel:
  fixes s :: "u64 \<times> u64"
  assumes "8 * unat rl \<le> length ks" "16 \<le> length ct"
  shows "Simon_Encrypt_128 rl ks (block 8 s @ rest) ct
    = Some (block 8 (feistel (round_keys 8 ks (unat rl)) s) @ drop 16 ct)"
  using assms
  by (cases s) (simp add: Simon_Encrypt_128_def block_def byte_simps
      round_loops_same(1) [OF ld_round_key [OF assms(1)]] st_bytes_pair split_beta)

lemma Simon_Decrypt_128_feistel:
  fixes s :: "u64 \<times> u64"
  assumes "8 * decrypt_turns rl \<le> length ks" "16 \<le> length pt"
  shows "Simon_Decrypt_128 rl ks (block 8 s @ rest) pt
    = Some (block 8 (prod.swap (feistel (rev (round_keys 8 ks (decrypt_turns rl))) (prod.swap s)))
        @ drop 16 pt)"
  using assms
  by (cases s) (simp add: Simon_Decrypt_128_def block_def byte_simps
      round_loops_same(2) [OF ld_round_key [OF assms(1)]] st_bytes_pair split_beta)

lemma Simon_Encrypt_48_feistel:
  fixes s :: "24 word \<times> 24 word"
  assumes "3 * unat rl + 1 \<le> length ks" "7 \<le> length ct" "1 \<le> length rest"
  shows "Simon_Encrypt_48 pad rl ks (block 3 s @ rest) ct
    = Some (block 3 (feistel (round_keys 3 ks (unat rl)) s)
        @ [pad 1] @ drop 7 ct)"
  using assms
  by (cases s) (simp add: Simon_Encrypt_48_def block_def byte_simps ld_bword_24_Some and_mask_24
      round_loops(1) [OF ld_bword_24_key [OF assms(1)]] st_bytes_pair_overlap split_beta
      del: take_bit_xor)

lemma Simon_Decrypt_48_feistel:
  fixes s :: "24 word \<times> 24 word"
  assumes "3 * decrypt_turns rl + 1 \<le> length ks" "7 \<le> length pt" "1 \<le> length rest"
  shows "Simon_Decrypt_48 pad rl ks (block 3 s @ rest) pt
    = Some (block 3 (prod.swap (feistel (rev (round_keys 3 ks (decrypt_turns rl))) (prod.swap s)))
        @ [pad 1] @ drop 7 pt)"
  using assms
  by (cases s) (simp add: Simon_Decrypt_48_def block_def byte_simps ld_bword_24_Some and_mask_24
      round_loops(2) [OF ld_bword_24_key [OF assms(1)]] st_bytes_pair_overlap split_beta
      del: take_bit_xor)

lemma Simon_Encrypt_96_feistel:
  fixes s :: "48 word \<times> 48 word"
  assumes "6 * unat rl + 2 \<le> length ks" "14 \<le> length ct" "2 \<le> length rest"
  shows "Simon_Encrypt_96 pad rl ks (block 6 s @ rest) ct
    = Some (block 6 (feistel (round_keys 6 ks (unat rl)) s)
        @ [pad 2, pad 3] @ drop 14 ct)"
  using assms
  by (cases s) (simp add: Simon_Encrypt_96_def block_def byte_simps ld_bword_48_Some and_mask_48
      round_loops(1) [OF ld_bword_48_key [OF assms(1)]] st_bytes_pair_overlap split_beta
      del: take_bit_xor)

lemma Simon_Decrypt_96_feistel:
  fixes s :: "48 word \<times> 48 word"
  assumes "6 * decrypt_turns rl + 2 \<le> length ks" "14 \<le> length pt" "2 \<le> length rest"
  shows "Simon_Decrypt_96 pad rl ks (block 6 s @ rest) pt
    = Some (block 6 (prod.swap (feistel (rev (round_keys 6 ks (decrypt_turns rl))) (prod.swap s)))
        @ [pad 2, pad 3] @ drop 14 pt)"
  using assms
  by (cases s) (simp add: Simon_Decrypt_96_def block_def byte_simps ld_bword_48_Some and_mask_48
      round_loops(2) [OF ld_bword_48_key [OF assms(1)]] st_bytes_pair_overlap split_beta
      del: take_bit_xor)

section \<open>The key schedule\<close>

text \<open>Rotation to the right of a w-bit value held in a 64-bit container.\<close>

definition ror :: "nat \<Rightarrow> nat \<Rightarrow> u64 \<Rightarrow> u64" where
  "ror w k x = take_bit w (drop_bit k x OR push_bit (w - k) x)"

text \<open>
  The recurrence of the SIMON specification for word size \<open>w\<close> and \<open>m\<close> key words, with
  constant sequence \<open>z\<close>: the first \<open>m\<close> sub keys are the key words.
\<close>

function simon_key :: "nat \<Rightarrow> nat \<Rightarrow> u64 \<Rightarrow> (nat \<Rightarrow> u64) \<Rightarrow> nat \<Rightarrow> u64" where
  "simon_key w m z key j =
    (if j < m \<or> m < 2 then key j
     else let i = j - m;
              t = ror w 3 (simon_key w m z key (j - 1));
              t = (if m = 4 then t XOR simon_key w m z key (j - 3) else t)
          in take_bit w (0xFFFFFFFFFFFFFFFC XOR of_bool (bit z (i mod 62))
               XOR simon_key w m z key i XOR t XOR ror w 1 t))"
  by pat_completeness auto
termination
  by (relation "measure (\<lambda>(w, m, z, key, j). j)") auto

declare simon_key.simps [simp del]

lemma ror_rotr:
  fixes x :: "'a::len word"
  assumes "LENGTH('a) = w" "w \<le> 64" "k \<le> w"
  shows "ror w k (ucast x) = ucast (word_rotr k x)"
proof -
  have "take_bit w (push_bit (w - k) (ucast x) OR drop_bit (w - (w - k)) (ucast x) :: u64)
    = ucast (word_rotl (w - k) x)"
    using assms by (intro shift_or_rotl) auto
  moreover have "word_rotl (w - k) x = word_rotr k x"
  proof (cases "k = w")
    case True
    then show ?thesis using assms
      by (intro bit_word_eqI) (simp add: bit_word_rotl_iff bit_word_rotr_iff)
  next
    case False
    then have "(n + (w - (w - k) mod w)) mod w = (n + k) mod w" for n
      using assms(3) by (cases "k = 0") auto
    then show ?thesis using assms
      by (intro bit_word_eqI) (simp add: bit_word_rotl_iff bit_word_rotr_iff)
  qed
  ultimately show ?thesis using assms(3) by (simp add: ror_def or.commute)
qed

lemma take_bit_ror [simp]: "take_bit w (ror w k x) = ror w k x"
  by (simp add: ror_def)

lemma rshift_ror:
  assumes "take_bit w x = (x :: u64)" "3 \<le> w" "w \<le> 64"
  shows "rshift_three w x = ror w 3 x" "rshift_one w x = ror w 1 x"
proof -
  have x: "bit x n \<Longrightarrow> n < w" for n
    using assms(1) by (metis bit_take_bit_iff)
  have k: "drop_bit k x OR push_bit (w - k) (x AND mask k) = ror w k x" if "k \<le> w" for k
    using that assms(3)
    by (intro bit_word_eqI)
       (auto simp: ror_def bit_push_bit_iff bit_and_iff bit_mask_iff bit_take_bit_iff bit_or_iff
         bit_drop_bit_eq dest: x)
  have seven: "(7 :: u64) = mask 3" and one: "(1 :: u64) = mask 1"
    by (simp_all add: mask_eq_exp_minus_1)
  show "rshift_three w x = ror w 3 x"
    unfolding rshift_three_def seven using assms(2) by (rule k)
  show "rshift_one w x = ror w 1 x"
    unfolding rshift_one_def one using assms(2) by (intro k) simp
qed

lemma simon_key_masked:
  assumes "\<And>j. take_bit w (key j) = key j"
  shows "take_bit w (simon_key w m z key j) = simon_key w m z key j"
  by (subst (1 2) simon_key.simps) (simp add: assms Let_def del: take_bit_xor)

lemma mod_mask: "w \<le> 64 \<Longrightarrow> drop_bit (64 - w) (NOT 0) = (mask w :: u64)"
  by (intro bit_word_eqI) (auto simp: bit_drop_bit_eq bit_not_iff bit_mask_iff)

lemma z_bit: "drop_bit i (z :: u64) AND 1 = of_bool (bit z i)"
  by (simp add: and_one_eq bit_iff_odd_drop_bit of_bool_odd_eq_mod_2)

text \<open>The sub key words after \<open>i\<close> turns, in the array of four.\<close>

definition sub_words :: "nat \<Rightarrow> (nat \<Rightarrow> u64) \<Rightarrow> nat \<Rightarrow> u64 list" where
  "sub_words m k i = map (\<lambda>j. k (i + j)) [0..<m] @ replicate (4 - m) 0"

lemma sub_words_exp:
  "sub_words 2 k i = [k i, k (i + 1), 0, 0]"
  "sub_words 3 k i = [k i, k (i + 1), k (i + 2), 0]"
  "sub_words 4 k i = [k i, k (i + 1), k (i + 2), k (i + 3)]"
  by (simp_all add: sub_words_def eval_nat_numeral)

lemma sub_words_ops:
  assumes "m \<in> {2, 3, 4}"
  shows "ld (sub_words m k i) (m - 1) = Some (k (i + m - 1))"
    and "ld (sub_words m k i) 0 = Some (k i)"
    and "ld (sub_words m k i) 1 = Some (k (i + 1))"
    and "for_up 0 (m - 1) (\<lambda>j sk. do { v \<leftarrow> ld sk (j + 1); st sk j v }) (sub_words m k i)
      = Some ((sub_words m k (i + 1))[m - 1 := k (i + m - 1)])"
    and "st ((sub_words m k (i + 1))[m - 1 := x]) (m - 1) (k (i + m)) = Some (sub_words m k (i + 1))"
  using assms by (auto simp: sub_words_exp intro!: arg_cong [of _ _ k])

lemma Simon_Init_round_step:
  fixes w m :: nat and z :: u64 and key :: "nat \<Rightarrow> u64"
  defines "K \<equiv> simon_key w m z key"
  assumes m: "m \<in> {2, 3, 4}" and w: "3 \<le> w" "w \<le> 64"
    and masked: "\<And>j. take_bit w (key j) = key j"
  shows "Simon_Init_round w wb m z i (sub_words m K i, sched)
    = map_option (Pair (sub_words m K (i + 1))) (st_bytes sched (wb * (i + 1)) (le_bytes wb (K (i + 1))))"
proof -
  let ?t = "ror w 3 (K (i + m - 1))"
  let ?u = "if m = 4 then ?t XOR K (i + 1) else ?t"
  have Km: "take_bit w (K j) = K j" for j
    unfolding K_def by (rule simon_key_masked) (rule masked)
  have um: "take_bit w ?u = ?u" by (simp add: Km)
  let ?b = "of_bool (bit z (i mod 62)) :: u64"
  have Kim: "K (i + m) = take_bit w (0xFFFFFFFFFFFFFFFC XOR ?b XOR K i XOR ?u XOR ror w 1 ?u)"
    unfolding K_def using m
    by (subst simon_key.simps) (auto simp: Let_def simp del: take_bit_xor)
  have xor_order: "((a XOR b) XOR c) XOR (d XOR e) = d XOR e XOR b XOR a XOR c" for a b c d e :: u64
    by (simp only: ac_simps)
  have new: "(((?u XOR K i) XOR rshift_one w ?u) XOR (0xFFFFFFFFFFFFFFFC XOR (drop_bit (i mod 62) z AND 1)))
      AND drop_bit (64 - w) (NOT 0) = K (i + m)"
    unfolding Kim mod_mask [OF w(2)] rshift_ror(2) [OF um w] z_bit take_bit_eq_mask
    by (subst xor_order) (rule refl)
  have r3: "rshift_three w (K (i + m - 1)) = ?t"
    using rshift_ror(1) [OF Km w] .
  show ?thesis
    by (simp only: Simon_Init_round_def Let_def prod.case sub_words_ops [OF m] Option.bind.bind_lunit
        new r3)
       (cases "st_bytes sched (wb * (i + 1)) (le_bytes wb (K (i + 1)))"; simp)
qed

lemma Simon_Init_rounds:
  fixes w m :: nat and z :: u64 and key :: "nat \<Rightarrow> u64"
  defines "K \<equiv> simon_key w m z key"
  assumes m: "m \<in> {2, 3, 4}" and w: "w = 8 * wb" "3 \<le> w" "w \<le> 64"
    and masked: "\<And>j. take_bit w (key j) = key j"
    and size: "wb * (n + 1) \<le> length sched"
    and first: "ld_bytes sched 0 wb = Some (le_bytes wb (K 0))"
  shows "\<exists>sched'. for_up 0 n (Simon_Init_round w wb m z) (sub_words m K 0, sched)
      = Some (sub_words m K n, sched') \<and> length sched' = length sched \<and>
      (\<forall>j \<le> n. ld_bytes sched' (wb * j) wb = Some (le_bytes wb (K j)))"
proof -
  define P where "P i s \<longleftrightarrow> fst s = sub_words m K i \<and> length (snd s) = length sched \<and>
    (\<forall>j \<le> i. ld_bytes (snd s) (wb * j) wb = Some (le_bytes wb (K j)))" for i s
  have "\<exists>s'. for_up 0 n (Simon_Init_round w wb m z) (sub_words m K 0, sched) = Some s' \<and> P (0 + n) s'"
  proof (rule for_up_inv)
    show "P 0 (sub_words m K 0, sched)" using first by (simp add: P_def)
  next
    fix i s assume i: "i < 0 + n" and P: "P i s"
    obtain buf where s: "s = (sub_words m K i, buf)" and len: "length buf = length sched"
      and filled: "\<And>j. j \<le> i \<Longrightarrow> ld_bytes buf (wb * j) wb = Some (le_bytes wb (K j))"
      using P by (cases s) (auto simp: P_def)
    have "wb * (i + 2) \<le> wb * (n + 1)" using i by (intro mult_le_mono2) simp
    then have fits: "wb * (i + 1) + wb \<le> length buf" using size len by simp
    then obtain sch' where sch': "st_bytes buf (wb * (i + 1)) (le_bytes wb (K (i + 1))) = Some sch'"
      by (auto simp: st_bytes_def)
    have "ld_bytes sch' (wb * j) wb = Some (le_bytes wb (K j))" if "j \<le> Suc i" for j
    proof (cases "j = Suc i")
      case True
      then show ?thesis using ld_bytes_st_bytes_same [OF sch'] by simp
    next
      case False
      then have "j \<le> i" using that by simp
      then have "wb * (j + 1) \<le> wb * (i + 1)" by (intro mult_le_mono2) simp
      then show ?thesis
        using ld_bytes_st_bytes_other [OF sch', of "wb * j" wb] filled [OF \<open>j \<le> i\<close>] by simp
    qed
    moreover have "Simon_Init_round w wb m z i s = Some (sub_words m K (i + 1), sch')"
      using Simon_Init_round_step [of m w key wb z i buf, OF m w(2,3) masked] sch'
      by (simp add: s K_def)
    ultimately show "\<exists>s'. Simon_Init_round w wb m z i s = Some s' \<and> P (Suc i) s'"
      using len st_bytes_length [OF sch'] by (simp add: P_def)
  qed
  then show ?thesis by (auto simp: P_def)
qed

text \<open>The words of a key, as the array of sub keys starts out.\<close>

definition key_word :: "nat \<Rightarrow> u8 list \<Rightarrow> nat \<Rightarrow> u64" where
  "key_word wb key j = le_word (take wb (drop (wb * j) key))"

lemma Simon_Init_load:
  assumes "m \<in> {2, 3, 4}" "wb * m \<le> length key"
  shows "for_up 0 m (\<lambda>i sk. do { w \<leftarrow> ld_word wb key (wb * i); st sk i w }) (replicate 4 0)
    = Some (sub_words m (key_word wb key) 0)"
proof -
  have "ld_word wb key (wb * i) = Some (key_word wb key i)" if "i < m" for i
    using ld_round_key [OF assms(2) that] by (simp add: round_key_def key_word_def)
  then have "for_up 0 m (\<lambda>i sk. do { w \<leftarrow> ld_word wb key (wb * i); st sk i w }) (replicate 4 0)
    = for_up 0 m (\<lambda>i sk. st sk i (key_word wb key i)) (replicate 4 0)"
    by (intro for_up_cong) simp
  also have "\<dots> = Some (sub_words m (key_word wb key) 0)"
    using assms(1) by (auto simp: sub_words_def numeral_eq_Suc)
  finally show ?thesis .
qed

lemma key_word_masked:
  assumes "w = 8 * wb" "w \<le> 64"
  shows "take_bit w (key_word wb key j) = key_word wb key j"
  unfolding key_word_def using assms by (intro le_word_mask) simp


text \<open>The parameters of configuration \<open>n\<close>: word size in bytes, key words, rounds.\<close>

definition cfg_word_bytes :: "nat \<Rightarrow> nat" where
  "cfg_word_bytes n = block_sizes ! n div 2 div 8"

definition cfg_key_words :: "nat \<Rightarrow> nat" where
  "cfg_key_words n = key_sizes ! n div (block_sizes ! n div 2)"

definition cfg_fn :: "nat \<Rightarrow> block_fn" where
  "cfg_fn n = [Block_32, Block_48, Block_48, Block_64, Block_64, Block_96, Block_96,
     Block_128, Block_128, Block_128] ! n"

lemma cfg_cases:
  fixes n :: nat
  assumes "n < 10"
  obtains "n = 0" | "n = 1" | "n = 2" | "n = 3" | "n = 4"
    | "n = 5" | "n = 6" | "n = 7" | "n = 8" | "n = 9"
proof -
  have "n = 0 \<or> n = 1 \<or> n = 2 \<or> n = 3 \<or> n = 4 \<or> n = 5 \<or> n = 6 \<or> n = 7 \<or> n = 8 \<or> n = 9"
    using assms by presburger
  then show thesis using that by blast
qed

lemma cfg_facts:
  assumes "n < 10"
  shows "cfg_key_words n \<in> {2, 3, 4}" and "3 \<le> 8 * cfg_word_bytes n"
    and "8 * cfg_word_bytes n \<le> 64" and "block_sizes ! n div 2 = 8 * cfg_word_bytes n"
    and "8 * (cfg_word_bytes n * cfg_key_words n) = key_sizes ! n"
    and "cfg_word_bytes n * simon_rounds ! n \<le> 576"
    and "0 < simon_rounds ! n" and "simon_rounds ! n < 256" and "z_assign ! n < 5"
    and "cfg_word_bytes n \<in> {2, 3, 4, 6, 8}"
  using assms
  by (cases rule: cfg_cases;
      simp add: cfg_key_words_def cfg_word_bytes_def block_sizes_def key_sizes_def
        simon_rounds_def z_assign_def)+

definition cfg_sub_key :: "nat \<Rightarrow> u8 list \<Rightarrow> nat \<Rightarrow> u64" where
  "cfg_sub_key n key = simon_key (8 * cfg_word_bytes n) (cfg_key_words n)
     (z_arrays ! (z_assign ! n)) (key_word (cfg_word_bytes n) key)"

lemma cfg_fn_dispatch:
  "n < 10 \<Longrightarrow> (if int n = cfg_64_32 then Block_32 else if int n \<le> cfg_96_48 then Block_48
                 else if int n \<le> cfg_128_64 then Block_64 else if int n \<le> cfg_144_96 then Block_96
                 else Block_128) = cfg_fn n"
  by (cases rule: cfg_cases [of n])
     (simp_all add: cfg_fn_def cfg_64_32_def cfg_96_48_def cfg_128_64_def cfg_144_96_def)

lemma Simon_Init_run:
  assumes n: "n < 10" and key: "key_sizes ! n \<le> 8 * length key"
    and buf: "length (key_schedule x) = 576"
  shows "\<exists>x'. Simon_Init x (int n) key = Some (x', 0) \<and>
    round_limit x' = of_nat (simon_rounds ! n) \<and> encryptPtr x' = cfg_fn n \<and>
    decryptPtr x' = cfg_fn n \<and> length (key_schedule x') = 576 \<and>
    (\<forall>j < simon_rounds ! n. ld_bytes (key_schedule x') (cfg_word_bytes n * j) (cfg_word_bytes n)
       = Some (le_bytes (cfg_word_bytes n) (cfg_sub_key n key j)))"
proof -
  let ?wb = "cfg_word_bytes n" and ?m = "cfg_key_words n" and ?r = "simon_rounds ! n"
  let ?z = "z_arrays ! (z_assign ! n)" and ?K = "cfg_sub_key n key"
  note f = cfg_facts [OF n]
  have load: "for_up 0 ?m (\<lambda>i sk. do { w \<leftarrow> ld_word ?wb key (?wb * i); st sk i w }) (replicate 4 0)
    = Some (sub_words ?m (key_word ?wb key) 0)"
    using f(1,5) key by (intro Simon_Init_load) auto
  have "?K j = key_word ?wb key j" if "j < ?m" for j
    using that by (simp add: cfg_sub_key_def simon_key.simps)
  then have subs: "sub_words ?m (key_word ?wb key) 0 = sub_words ?m ?K 0"
    by (simp add: sub_words_def)
  note size = f(6)
  have "?wb \<le> length (key_schedule x)" using f(10) buf by auto
  then obtain s0 where s0: "st_bytes (key_schedule x) 0 (le_bytes ?wb (?K 0)) = Some s0"
    by (simp add: st_bytes_def)
  have len0: "length s0 = 576" using st_bytes_length [OF s0] buf by simp
  have first: "ld_bytes s0 0 ?wb = Some (le_bytes ?wb (?K 0))"
    using ld_bytes_st_bytes_same [OF s0] by simp
  have mk: "take_bit (8 * ?wb) (key_word ?wb key j) = key_word ?wb key j" for j
    using f(3) by (intro key_word_masked) auto
  have "?wb * (?r - 1 + 1) \<le> length s0" using size len0 f(7) by simp
  from Simon_Init_rounds [of ?m "8 * ?wb" ?wb "key_word ?wb key" "?r - 1" s0 ?z,
      folded cfg_sub_key_def, OF f(1) refl f(2,3) mk this first]
  obtain sched where
    run: "for_up 0 (?r - 1) (Simon_Init_round (8 * ?wb) ?wb ?m ?z) (sub_words ?m ?K 0, s0)
      = Some (sub_words ?m ?K (?r - 1), sched)"
    and len: "length sched = 576"
    and keys: "\<forall>j \<le> ?r - 1. ld_bytes sched (?wb * j) ?wb = Some (le_bytes ?wb (?K j))"
    using len0 by auto
  have range: "\<not> (cfg_256_128 < int n \<or> int n < cfg_64_32)"
    using n by (simp add: cfg_256_128_def cfg_64_32_def)
  have zs: "ld z_arrays (unat (of_nat (z_assign ! n) :: u8)) = Some ?z"
    using f(9) by (simp add: z_arrays_def unat_of_nat)
  have init: "Simon_Init x (int n) key = Some
     (x\<lparr>block_size := of_nat (block_sizes ! n), key_size := of_nat (key_sizes ! n),
        round_limit := of_nat ?r, cipher_cfg := int n, z_seq := of_nat (z_assign ! n),
        key_schedule := sched, encryptPtr := cfg_fn n, decryptPtr := cfg_fn n\<rparr>, 0)"
    using range load subs s0 zs run f(4) f(1)
    by (simp add: Simon_Init_def Let_def cfg_fn_dispatch [OF n] sub_words_ops(2) [OF f(1)]
        flip: cfg_key_words_def)
  show ?thesis unfolding init using len keys f(7) by auto
qed


section \<open>Round trips\<close>

lemma block_surj:
  assumes "8 * n = LENGTH('a::len)" "2 * n \<le> length p"
  shows "\<exists>s :: 'a word \<times> 'a word. p = block n s @ drop (2 * n) p"
proof (intro exI [of _ "(le_word (take n (drop n p)), le_word (take n p))"])
  have "p = take n p @ take n (drop n p) @ drop (2 * n) p"
    by (metis append_take_drop_id drop_drop mult_2 add.commute)
  then show "p = block n (le_word (take n (drop n p)) :: 'a word, le_word (take n p)) @ drop (2 * n) p"
    using assms by (simp add: block_def byte_simps)
qed

lemma block_inj:
  fixes s t :: "'a::len word \<times> 'a word"
  assumes "LENGTH('a) \<le> 8 * n" "block n s = block n t"
  shows "s = t"
proof -
  have "le_bytes n (snd s) = le_bytes n (snd t)" "le_bytes n (fst s) = le_bytes n (fst t)"
    using assms(2) by (auto simp: block_def)
  then have "snd s = snd t" "fst s = fst t"
    using assms(1) le_word_le_bytes_id by metis+
  then show ?thesis by (simp add: prod_eq_iff)
qed

lemma length_block [simp]: "length (block n s) = 2 * n"
  by (simp add: block_def)

lemma block_round_trip:
  fixes ks :: "'a::len word list"
  assumes enc: "\<And>s rest. slack \<le> length rest \<Longrightarrow>
      \<exists>tail. slack \<le> length tail \<and> E (block n s @ rest) = Some (block n (feistel ks s) @ tail)"
    and dec: "\<And>s rest. slack \<le> length rest \<Longrightarrow>
      \<exists>tail. D (block n s @ rest) = Some (block n (prod.swap (feistel (rev ks) (prod.swap s))) @ tail)"
    and n: "8 * n = LENGTH('a)" and pt: "2 * n + slack \<le> length pt"
  shows "\<exists>ct pt'. E pt = Some ct \<and> D ct = Some pt' \<and> take (2 * n) pt' = take (2 * n) pt"
proof -
  obtain s :: "'a word \<times> 'a word" where s: "pt = block n s @ drop (2 * n) pt"
    using block_surj [OF n, of pt] pt by auto
  have "slack \<le> length (drop (2 * n) pt)" using pt by simp
  from enc [OF this, of s] obtain tail where
    e: "E pt = Some (block n (feistel ks s) @ tail)" and "slack \<le> length tail"
    using s by metis
  from dec [OF this(2), of "feistel ks s"] obtain tail' where
    "D (block n (feistel ks s) @ tail) = Some (block n s @ tail')"
    by (auto simp: feistel_inverse)
  moreover have "take (2 * n) (block n s @ tail') = take (2 * n) pt"
    by (subst s) simp
  ultimately show ?thesis using e by blast
qed

text \<open>
  The block routines of one width under one key schedule, as the hypotheses of
  \<open>block_round_trip\<close>: a schedule of at least \<open>rl\<close> sub keys (and the slack a struct read
  needs), a round limit that the signed loop counter can hold.
\<close>

lemma Simon_round_trip_32:
  assumes "unat rl \<le> 128" "2 * unat rl \<le> length ks" "4 \<le> length pt" "4 \<le> length cb" "4 \<le> length ob"
  shows "\<exists>ct out. Simon_Encrypt_32 rl ks pt cb = Some ct \<and> Simon_Decrypt_32 rl ks ct ob = Some out \<and>
    take 4 out = take 4 pt"
  using block_round_trip [of 0 "\<lambda>p. Simon_Encrypt_32 rl ks p cb" 2
      "round_keys 2 ks (unat rl) :: u16 list" "\<lambda>c. Simon_Decrypt_32 rl ks c ob" pt] assms
  by (simp add: Simon_Encrypt_32_feistel Simon_Decrypt_32_feistel decrypt_turns)

lemma Simon_round_trip_64:
  assumes "unat rl \<le> 128" "4 * unat rl \<le> length ks" "8 \<le> length pt" "8 \<le> length cb" "8 \<le> length ob"
  shows "\<exists>ct out. Simon_Encrypt_64 rl ks pt cb = Some ct \<and> Simon_Decrypt_64 rl ks ct ob = Some out \<and>
    take 8 out = take 8 pt"
  using block_round_trip [of 0 "\<lambda>p. Simon_Encrypt_64 rl ks p cb" 4
      "round_keys 4 ks (unat rl) :: u32 list" "\<lambda>c. Simon_Decrypt_64 rl ks c ob" pt] assms
  by (simp add: Simon_Encrypt_64_feistel Simon_Decrypt_64_feistel decrypt_turns)

lemma Simon_round_trip_128:
  assumes "unat rl \<le> 128" "8 * unat rl \<le> length ks" "16 \<le> length pt" "16 \<le> length cb" "16 \<le> length ob"
  shows "\<exists>ct out. Simon_Encrypt_128 rl ks pt cb = Some ct \<and> Simon_Decrypt_128 rl ks ct ob = Some out \<and>
    take 16 out = take 16 pt"
  using block_round_trip [of 0 "\<lambda>p. Simon_Encrypt_128 rl ks p cb" 8
      "round_keys 8 ks (unat rl) :: u64 list" "\<lambda>c. Simon_Decrypt_128 rl ks c ob" pt] assms
  by (simp add: Simon_Encrypt_128_feistel Simon_Decrypt_128_feistel decrypt_turns)

lemma Simon_round_trip_48:
  assumes "unat rl \<le> 128" "3 * unat rl + 1 \<le> length ks"
    and "7 \<le> length pt" "7 \<le> length cb" "7 \<le> length ob"
  shows "\<exists>ct out. Simon_Encrypt_48 pad rl ks pt cb = Some ct \<and>
    Simon_Decrypt_48 pad' rl ks ct ob = Some out \<and> take 6 out = take 6 pt"
  using block_round_trip [of 1 "\<lambda>p. Simon_Encrypt_48 pad rl ks p cb" 3
      "round_keys 3 ks (unat rl) :: 24 word list" "\<lambda>c. Simon_Decrypt_48 pad' rl ks c ob" pt] assms
  by (simp add: Simon_Encrypt_48_feistel Simon_Decrypt_48_feistel decrypt_turns)

lemma Simon_round_trip_96:
  assumes "unat rl \<le> 128" "6 * unat rl + 2 \<le> length ks"
    and "14 \<le> length pt" "14 \<le> length cb" "14 \<le> length ob"
  shows "\<exists>ct out. Simon_Encrypt_96 pad rl ks pt cb = Some ct \<and>
    Simon_Decrypt_96 pad' rl ks ct ob = Some out \<and> take 12 out = take 12 pt"
  using block_round_trip [of 2 "\<lambda>p. Simon_Encrypt_96 pad rl ks p cb" 6
      "round_keys 6 ks (unat rl) :: 48 word list" "\<lambda>c. Simon_Decrypt_96 pad' rl ks c ob" pt] assms
  by (simp add: Simon_Encrypt_96_feistel Simon_Decrypt_96_feistel decrypt_turns)


section \<open>The hooks are block ciphers\<close>

lemma le_word_block:
  fixes s :: "'a::len word \<times> 'a word"
  assumes "LENGTH('b::len) = 16 * n"
  shows "le_bytes (2 * n) (le_word (block n s) :: 'b word) = block n s"
  using assms by (intro le_bytes_le_word) simp_all

lemma hook_inverse:
  fixes ks :: "'a::len word list" and E D :: "u8 list \<Rightarrow> u8 list option" and p c :: "'b::len word"
  assumes n: "8 * n = LENGTH('a)" "LENGTH('b) = 16 * n"
    and E: "\<And>s :: 'a word \<times> 'a word. E (block n s) = Some (block n (feistel ks s))"
    and D: "\<And>s :: 'a word \<times> 'a word. D (block n s) = Some (block n (prod.swap (feistel (rev ks) (prod.swap s))))"
  shows "(\<exists>c :: 'b word. map_option le_word (E (le_bytes (2 * n) p)) = Some c) \<and>
    (\<exists>p :: 'b word. map_option le_word (D (le_bytes (2 * n) c)) = Some p) \<and>
    (map_option le_word (E (le_bytes (2 * n) p)) = Some (c :: 'b word) \<longleftrightarrow>
      map_option le_word (D (le_bytes (2 * n) c)) = Some (p :: 'b word))"
proof (intro conjI)
  have bl: "\<exists>s :: 'a word \<times> 'a word. le_bytes (2 * n) v = block n s" for v :: "'b word"
    using block_surj [OF n(1), of "le_bytes (2 * n) v"] by simp
  have id: "le_word (le_bytes (2 * n) v) = v" for v :: "'b word"
    using n by (simp add: le_word_le_bytes_id)
  have dual: "feistel ks (prod.swap (feistel (rev ks) (prod.swap s))) = s" for s :: "'a word \<times> 'a word"
    using feistel_inverse [of "rev ks" "prod.swap s"] by simp
  show "\<exists>c :: 'b word. map_option le_word (E (le_bytes (2 * n) p)) = Some c"
    using bl [of p] E by auto
  show "\<exists>p :: 'b word. map_option le_word (D (le_bytes (2 * n) c)) = Some p"
    using bl [of c] D by auto
  obtain s t :: "'a word \<times> 'a word" where s: "le_bytes (2 * n) p = block n s"
    and t: "le_bytes (2 * n) c = block n t" using bl by blast
  have to: "le_word (block n u) = v \<longleftrightarrow> block n u = le_bytes (2 * n) v" for u :: "'a word \<times> 'a word" and v :: "'b word"
    using id [of v] le_word_block [OF n(2), of u] by metis
  show "map_option le_word (E (le_bytes (2 * n) p)) = Some c \<longleftrightarrow>
      map_option le_word (D (le_bytes (2 * n) c)) = Some p"
  proof -
    have "block n (feistel ks s) = block n t \<longleftrightarrow>
        block n (prod.swap (feistel (rev ks) (prod.swap t))) = block n s"
      using block_inj [of n] n(1) dual feistel_inverse [of ks s] by (metis le_refl prod.swap_def prod.collapse swap_swap)
    then show ?thesis by (simp add: s t E D to)
  qed
qed

text \<open>A state ready for the hook: a key schedule buffer of full size and a round limit it covers.\<close>

definition simon_ready :: "simon_cipher \<Rightarrow> bool" where
  "simon_ready x \<longleftrightarrow> length (key_schedule x) = 576 \<and> unat (round_limit x) \<le> 72"

lemma simon_ready_schedule:
  "simon_ready x \<Longrightarrow> n \<le> 8 \<Longrightarrow> n * unat (round_limit x) \<le> length (key_schedule x)"
  unfolding simon_ready_def using mult_le_mono [of n 8 "unat (round_limit x)" 72] by simp

lemma simon_ready_turns: "simon_ready x \<Longrightarrow> decrypt_turns (round_limit x) = unat (round_limit x)"
  by (simp add: simon_ready_def decrypt_turns)

lemma simon_64_32_inverse:
  assumes "simon_ready x"
  shows "(\<exists>c. simon_64_32_encrypt x p = Some c) \<and> (\<exists>p. simon_64_32_decrypt x c = Some p) \<and>
    (simon_64_32_encrypt x p = Some c \<longleftrightarrow> simon_64_32_decrypt x c = Some p)"
  using hook_inverse [of 2 "\<lambda>p. Simon_Encrypt_32 (round_limit x) (key_schedule x) p (replicate 4 0)"
      "round_keys 2 (key_schedule x) (unat (round_limit x)) :: u16 list"
      "\<lambda>p. Simon_Decrypt_32 (round_limit x) (key_schedule x) p (replicate 4 0)" p c]
    Simon_Encrypt_32_feistel [OF simon_ready_schedule [OF assms, of 2], where rest = "[]" and ct = "replicate 4 0"]
    Simon_Decrypt_32_feistel [where rest = "[]" and pt = "replicate 4 0" and rl = "round_limit x" and ks = "key_schedule x"]
    simon_ready_schedule [OF assms, of 2]
  by (simp_all add: simon_ready_turns [OF assms] simon_64_32_encrypt_def simon_64_32_decrypt_def)

lemma simon_128_64_inverse:
  assumes "simon_ready x"
  shows "(\<exists>c. simon_128_64_encrypt x p = Some c) \<and> (\<exists>p. simon_128_64_decrypt x c = Some p) \<and>
    (simon_128_64_encrypt x p = Some c \<longleftrightarrow> simon_128_64_decrypt x c = Some p)"
  using hook_inverse [of 4 "\<lambda>p. Simon_Encrypt_64 (round_limit x) (key_schedule x) p (replicate 8 0)"
      "round_keys 4 (key_schedule x) (unat (round_limit x)) :: u32 list"
      "\<lambda>p. Simon_Decrypt_64 (round_limit x) (key_schedule x) p (replicate 8 0)" p c]
    Simon_Encrypt_64_feistel [OF simon_ready_schedule [OF assms, of 4], where rest = "[]" and ct = "replicate 8 0"]
    Simon_Decrypt_64_feistel [where rest = "[]" and pt = "replicate 8 0" and rl = "round_limit x" and ks = "key_schedule x"]
    simon_ready_schedule [OF assms, of 4]
  by (simp_all add: simon_ready_turns [OF assms] simon_128_64_encrypt_def simon_128_64_decrypt_def)

lemma simon_128_128_inverse:
  assumes "simon_ready x"
  shows "(\<exists>c. simon_128_128_encrypt x p = Some c) \<and> (\<exists>p. simon_128_128_decrypt x c = Some p) \<and>
    (simon_128_128_encrypt x p = Some c \<longleftrightarrow> simon_128_128_decrypt x c = Some p)"
  using hook_inverse [of 8 "\<lambda>p. Simon_Encrypt_128 (round_limit x) (key_schedule x) p (replicate 16 0)"
      "round_keys 8 (key_schedule x) (unat (round_limit x)) :: u64 list"
      "\<lambda>p. Simon_Decrypt_128 (round_limit x) (key_schedule x) p (replicate 16 0)" p c]
    Simon_Encrypt_128_feistel [OF simon_ready_schedule [OF assms, of 8], where rest = "[]" and ct = "replicate 16 0"]
    Simon_Decrypt_128_feistel [where rest = "[]" and pt = "replicate 16 0" and rl = "round_limit x" and ks = "key_schedule x"]
    simon_ready_schedule [OF assms, of 8]
  by (simp_all add: simon_ready_turns [OF assms] simon_128_128_encrypt_def simon_128_128_decrypt_def)

interpretation simon32: block_cipher simon_ready simon_64_32_encrypt simon_64_32_decrypt
  by unfold_locales (use simon_64_32_inverse in blast)+

interpretation simon64: block_cipher simon_ready simon_128_64_encrypt simon_128_64_decrypt
  by unfold_locales (use simon_128_64_inverse in blast)+

interpretation simon128: block_cipher_128 simon_ready simon_128_128_encrypt simon_128_128_decrypt
  by unfold_locales (use simon_128_128_inverse in blast)+


lemma ld_bytes_round_key:
  fixes k :: "'a::len word"
  assumes "ld_bytes ks (n * j) n = Some (le_bytes n k)" "LENGTH('a) \<le> 8 * n"
  shows "round_key n ks j = k"
  using assms by (auto simp: round_key_def mem_simps le_word_le_bytes_id dest: sym)

lemma simon_128_128_expanded:
  assumes "length (key_schedule x) = 576"
  shows "\<exists>x'. simon_128_128_keyexpand x key rl = Some (x', True) \<and>
    round_limit x' = ucast rl \<and> length (key_schedule x') = 576 \<and>
    (\<forall>j < 68. round_key 8 (key_schedule x') j = cfg_sub_key 7 (le_bytes 16 key) j)"
proof -
  from Simon_Init_run [of 7 "le_bytes 16 key" x] assms obtain x' where
    x': "Simon_Init x 7 (le_bytes 16 key) = Some (x', 0)" "length (key_schedule x') = 576"
    and k: "\<forall>j < 68. ld_bytes (key_schedule x') (8 * j) 8 = Some (le_bytes 8 (cfg_sub_key 7 (le_bytes 16 key) j))"
    by (auto simp: key_sizes_def simon_rounds_def cfg_word_bytes_def block_sizes_def)
  then show ?thesis
    by (auto simp: simon_128_128_keyexpand_def cfg_128_128_def intro!: ld_bytes_round_key)
qed

definition halves :: "u128 \<Rightarrow> u64 \<times> u64" where
  "halves p = (ucast (drop_bit 64 p), ucast p)"

definition join_halves :: "u64 \<times> u64 \<Rightarrow> u128" where
  "join_halves s = push_bit 64 (ucast (fst s)) OR ucast (snd s)"

lemma le_bytes_halves: "le_bytes 16 p = block 8 (halves p)"
proof (rule nth_equalityI)
  show "length (le_bytes 16 p) = length (block 8 (halves p))" by simp
next
  fix i assume "i < length (le_bytes 16 p)"
  then have i: "i < 16" by simp
  show "le_bytes 16 p ! i = block 8 (halves p) ! i"
  proof (rule bit_word_eqI)
    fix j assume "j < LENGTH(8)"
    with i show "bit (le_bytes 16 p ! i) j = bit (block 8 (halves p) ! i) j"
      by (cases "i < 8")
         (auto simp: block_def halves_def nth_append nth_le_bytes bit_ucast_iff bit_drop_bit_eq
           algebra_simps)
  qed
qed

lemma le_word_join: "le_word (block 8 s) = join_halves s"
proof (rule bit_word_eqI)
  fix i assume i: "i < LENGTH(128)"
  have "le_word (block 8 s) = (le_word (le_bytes 8 (snd s) @ le_bytes 8 (fst s)) :: u128)"
    by (simp add: block_def)
  have b: "bit ((le_bytes 8 (snd s) @ le_bytes 8 (fst s)) ! (i div 8)) (i mod 8)
      \<longleftrightarrow> (if i < 64 then bit (snd s) i else bit (fst s) (i - 64))"
  proof (cases "i < 64")
    case True
    then have "i div 8 < 8" by auto
    with True show ?thesis
      by (simp add: nth_append nth_le_bytes bit_ucast_iff bit_drop_bit_eq)
  next
    case False
    then have d: "\<not> i div 8 < 8" "i div 8 - 8 < 8" using i by auto
    have "8 * (i div 8 - 8) + i mod 8 = i - 64" using False by presburger
    with False d show ?thesis
      by (simp add: nth_append nth_le_bytes bit_ucast_iff bit_drop_bit_eq)
  qed
  show "bit (le_word (block 8 s) :: u128) i = bit (join_halves s) i"
    using i unfolding bit_le_word block_def b
    by (auto simp: join_halves_def bit_or_iff bit_push_bit_iff bit_ucast_iff dest: bit_imp_le_length)
qed

lemma simon_128_128_encrypt_feistel:
  assumes "simon_ready x"
  shows "simon_128_128_encrypt x p = Some (join_halves
    (feistel (round_keys 8 (key_schedule x) (unat (round_limit x))) (halves p)))"
  using Simon_Encrypt_128_feistel [OF simon_ready_schedule [OF assms, of 8],
      where rest = "[]" and ct = "replicate 16 0" and s = "halves p"]
  by (simp add: simon_128_128_encrypt_def le_bytes_halves le_word_join)

lemma simon_128_128_decrypt_feistel:
  assumes "simon_ready x"
  shows "simon_128_128_decrypt x c = Some (join_halves (prod.swap
    (feistel (rev (round_keys 8 (key_schedule x) (unat (round_limit x)))) (prod.swap (halves c)))))"
  using Simon_Decrypt_128_feistel [where rest = "[]" and pt = "replicate 16 0" and s = "halves c"
      and rl = "round_limit x" and ks = "key_schedule x"] simon_ready_schedule [OF assms, of 8]
  by (simp add: simon_128_128_decrypt_def le_bytes_halves le_word_join simon_ready_turns [OF assms])

text \<open>Expansion from any two states gives ciphers that agree on every block.\<close>

lemma simon_128_128_determined:
  assumes "simon_128_128_keyexpand y key 68 = Some (x, b)" "length (key_schedule y) = 576"
    and "simon_128_128_keyexpand y' key 68 = Some (x', b')" "length (key_schedule y') = 576"
  shows "simon_ready x" "simon_128_128_encrypt x = simon_128_128_encrypt x'"
    "simon_128_128_decrypt x = simon_128_128_decrypt x'"
proof -
  have x: "simon_ready v \<and> round_keys 8 (key_schedule v) (unat (round_limit v))
      = map (cfg_sub_key 7 (le_bytes 16 key)) [0..<68]"
    if "simon_128_128_keyexpand u key 68 = Some (v, c)" "length (key_schedule u) = 576" for u v c
    using simon_128_128_expanded [OF that(2), of key 68] that(1) by (auto simp: simon_ready_def)
  note e = x [OF assms(1,2)] x [OF assms(3,4)]
  show "simon_ready x" using e by simp
  show "simon_128_128_encrypt x = simon_128_128_encrypt x'"
    using e by (intro ext) (simp only: simon_128_128_encrypt_feistel)
  show "simon_128_128_decrypt x = simon_128_128_decrypt x'"
    using e by (intro ext) (simp only: simon_128_128_decrypt_feistel)
qed

lemma bind_NoneI: "(\<And>v. f v = None) \<Longrightarrow> Option.bind x f = None"
  by (cases x) simp_all

lemma st_pair_None:
  "length ct < n + length b \<Longrightarrow> Option.bind (st_bytes ct 0 a) (\<lambda>ct. st_bytes ct n b) = None"
  by (auto intro: bind_NoneI simp: st_bytes_def bind_eq_None_conv)

section \<open>Properties\<close>

text \<open>
  C13: for each of the ten configurations, a key of at least the configured size and a full
  size key schedule buffer, \<^verbatim>\<open>Simon_Init\<close> returns 0 and never leaves its buffers; the
  sub keys it stores are those of the recurrence of the SIMON specification, one for every
  round, and the function pointers select the block width. Any other configuration number
  returns 1 and leaves the cipher object alone.
\<close>

theorem Simon_Init_schedule:
  assumes "length (key_schedule x) = 576"
    and "0 \<le> cfg \<and> cfg < 10 \<longrightarrow> key_sizes ! nat cfg \<le> 8 * length key"
  shows "if 0 \<le> cfg \<and> cfg < 10 then
      \<exists>x'. Simon_Init x cfg key = Some (x', 0) \<and>
        round_limit x' = of_nat (simon_rounds ! nat cfg) \<and>
        encryptPtr x' = cfg_fn (nat cfg) \<and> decryptPtr x' = cfg_fn (nat cfg) \<and>
        (\<forall>j < simon_rounds ! nat cfg. ld_bytes (key_schedule x') (cfg_word_bytes (nat cfg) * j)
            (cfg_word_bytes (nat cfg))
          = Some (le_bytes (cfg_word_bytes (nat cfg)) (cfg_sub_key (nat cfg) key j)))
    else Simon_Init x cfg key = Some (x, 1)"
proof (cases "0 \<le> cfg \<and> cfg < 10")
  case True
  then have "nat cfg < 10" "int (nat cfg) = cfg" "key_sizes ! nat cfg \<le> 8 * length key"
    using assms(2) by auto
  from Simon_Init_run [OF this(1,3) assms(1)] this(2) obtain x' where
    "Simon_Init x cfg key = Some (x', 0)" "round_limit x' = of_nat (simon_rounds ! nat cfg)"
    "encryptPtr x' = cfg_fn (nat cfg)" "decryptPtr x' = cfg_fn (nat cfg)"
    "\<forall>j < simon_rounds ! nat cfg. ld_bytes (key_schedule x') (cfg_word_bytes (nat cfg) * j)
       (cfg_word_bytes (nat cfg)) = Some (le_bytes (cfg_word_bytes (nat cfg)) (cfg_sub_key (nat cfg) key j))"
    by auto
  then show ?thesis unfolding if_P [OF True] by blast
next
  case False
  then show ?thesis by (auto simp: Simon_Init_def cfg_256_128_def cfg_64_32_def)
qed

definition blank_cipher :: simon_cipher where
  "blank_cipher = \<lparr>cipher_cfg = 0, encryptPtr = Block_32, decryptPtr = Block_32, key_size = 0,
     block_size = 0, round_limit = 0, init_vector = replicate 16 0, counter = replicate 16 0,
     key_schedule = replicate 576 0, alpha = 0, beta = 0, z_seq = 0\<rparr>"

lemma Simon_Init_schedule_witness:
  "\<exists>x'. Simon_Init blank_cipher 9 (replicate 32 1) = Some (x', 0) \<and> encryptPtr x' = Block_128"
  using Simon_Init_schedule [of blank_cipher 9 "replicate 32 1"]
  by (auto simp: blank_cipher_def key_sizes_def cfg_fn_def)

text \<open>
  C14: in every configuration the decryption routine that Simon_Init stores in the cipher object
  inverts the encryption routine it stores, under the key schedule and the number of rounds it
  sets up, for any plaintext and any key; the buffers only need two spare bytes after the block.
\<close>

theorem Simon_decrypt_encrypt:
  assumes "n < 10" "key_sizes ! n \<le> 8 * length key" "length (key_schedule x) = 576"
    and "block_sizes ! n div 8 + 2 \<le> length pt" "block_sizes ! n div 8 + 2 \<le> length cb"
    and "block_sizes ! n div 8 + 2 \<le> length ob"
  shows "\<exists>x' ct out. Simon_Init x (int n) key = Some (x', 0) \<and>
    call_encrypt pad (encryptPtr x') (round_limit x') (key_schedule x') pt cb = Some ct \<and>
    call_decrypt pad' (decryptPtr x') (round_limit x') (key_schedule x') ct ob = Some out \<and>
    take (block_sizes ! n div 8) out = take (block_sizes ! n div 8) pt"
proof -
  obtain x' where x': "Simon_Init x (int n) key = Some (x', 0)"
    "round_limit x' = of_nat (simon_rounds ! n)" "encryptPtr x' = cfg_fn n"
    "decryptPtr x' = cfg_fn n" "length (key_schedule x') = 576"
    using Simon_Init_run [OF assms(1-3)] by blast
  have "\<exists>ct out. call_encrypt pad (encryptPtr x') (round_limit x') (key_schedule x') pt cb = Some ct \<and>
    call_decrypt pad' (decryptPtr x') (round_limit x') (key_schedule x') ct ob = Some out \<and>
    take (block_sizes ! n div 8) out = take (block_sizes ! n div 8) pt"
    using assms(1,4-6) x'(2-5)
      Simon_round_trip_32 [of "round_limit x'" "key_schedule x'" pt cb ob]
      Simon_round_trip_48 [of "round_limit x'" "key_schedule x'" pt cb ob pad pad']
      Simon_round_trip_64 [of "round_limit x'" "key_schedule x'" pt cb ob]
      Simon_round_trip_96 [of "round_limit x'" "key_schedule x'" pt cb ob pad pad']
      Simon_round_trip_128 [of "round_limit x'" "key_schedule x'" pt cb ob]
    by (cases n rule: cfg_cases)
       (auto simp: block_sizes_def simon_rounds_def cfg_fn_def call_encrypt_def call_decrypt_def)
  then show ?thesis using x'(1) by blast
qed

lemma Simon_decrypt_encrypt_witness:
  "\<exists>x' ct out. Simon_Init blank_cipher 2 (replicate 12 7) = Some (x', 0) \<and>
    call_encrypt (\<lambda>_. 0) (encryptPtr x') (round_limit x') (key_schedule x') [1, 2, 3, 4, 5, 6, 0, 0] (replicate 8 0) = Some ct \<and>
    call_decrypt (\<lambda>_. 0) (decryptPtr x') (round_limit x') (key_schedule x') ct (replicate 8 0) = Some out \<and> take 6 out = [1, 2, 3, 4, 5, 6]"
  using Simon_decrypt_encrypt [of 2 "replicate 12 7" blank_cipher "[1, 2, 3, 4, 5, 6, 0, 0]"
      "replicate 8 0" "replicate 8 0" "\<lambda>_. 0" "\<lambda>_. 0"]
  by (simp add: blank_cipher_def key_sizes_def block_sizes_def)

text \<open>
  C12: after \<^verbatim>\<open>simon_128_128_keyexpand\<close> the 128-bit hooks compute SIMON 128/128 as
  specified: encryption is the Feistel network over the first \<^verbatim>\<open>round_limit\<close> sub keys of
  the recurrence, and decryption is its inverse in both directions.
\<close>

theorem simon_128_128_specification:
  assumes "length (key_schedule x) = 576" "unat rl \<le> 68"
  shows "\<exists>x'. simon_128_128_keyexpand x key rl = Some (x', True) \<and>
    (\<forall>p. simon_128_128_encrypt x' p = Some (join_halves
       (feistel (map (cfg_sub_key 7 (le_bytes 16 key)) [0..<unat rl]) (halves p)))) \<and>
    (\<forall>p c. simon_128_128_encrypt x' p = Some c \<longleftrightarrow> simon_128_128_decrypt x' c = Some p)"
proof -
  obtain x' where x': "simon_128_128_keyexpand x key rl = Some (x', True)"
    "round_limit x' = ucast rl" "length (key_schedule x') = 576"
    and k: "\<forall>j < 68. round_key 8 (key_schedule x') j = cfg_sub_key 7 (le_bytes 16 key) j"
    using simon_128_128_expanded [OF assms(1)] by blast
  have rl: "unat (ucast rl :: u8) = unat rl"
    using assms(2) by (simp add: unsigned_ucast_eq take_bit_nat_eq_self)
  have ready: "simon_ready x'" using x' assms(2) rl by (simp add: simon_ready_def)
  have "round_keys 8 (key_schedule x') (unat rl) = map (cfg_sub_key 7 (le_bytes 16 key)) [0..<unat rl]"
    using k assms(2) by simp
  then have "simon_128_128_encrypt x' p = Some (join_halves
       (feistel (map (cfg_sub_key 7 (le_bytes 16 key)) [0..<unat rl]) (halves p)))" for p
    using simon_128_128_encrypt_feistel [OF ready] x'(2) rl by (simp del: map_eq_conv only:)
  moreover have "simon_128_128_encrypt x' p = Some c \<longleftrightarrow> simon_128_128_decrypt x' c = Some p" for p c
    using simon128.dec_enc [OF ready] simon128.enc_dec [OF ready] by blast
  ultimately show ?thesis using x'(1) by blast
qed

lemma simon_128_128_specification_witness:
  "\<exists>x'. simon_128_128_keyexpand blank_cipher 0x0f0e0d0c0b0a09080706050403020100 68 = Some (x', True) \<and>
    (\<forall>p c. simon_128_128_encrypt x' p = Some c \<longleftrightarrow> simon_128_128_decrypt x' c = Some p)"
  using simon_128_128_specification [of blank_cipher 68 "0x0f0e0d0c0b0a09080706050403020100"]
  by (auto simp: blank_cipher_def)

text \<open>
  C35: the 48- and 96-bit routines move whole bit-field structs, so they access one (two)
  bytes beyond their blocks: on a buffer holding exactly one block the access is out of
  bounds, in encryption and in decryption.
\<close>

theorem Simon_48_96_overrun:
  "(length pt < 7 \<longrightarrow> Simon_Encrypt_48 pad rl ks pt ct = None \<and> Simon_Decrypt_48 pad rl ks pt ct = None) \<and>
   (length ct < 7 \<longrightarrow> Simon_Encrypt_48 pad rl ks pt ct = None \<and> Simon_Decrypt_48 pad rl ks pt ct = None) \<and>
   (length pt < 14 \<longrightarrow> Simon_Encrypt_96 pad rl ks pt ct = None \<and> Simon_Decrypt_96 pad rl ks pt ct = None) \<and>
   (length ct < 14 \<longrightarrow> Simon_Encrypt_96 pad rl ks pt ct = None \<and> Simon_Decrypt_96 pad rl ks pt ct = None)"
proof -
  have pt24: "length pt < 7 \<Longrightarrow> ld_bword_24 pt 3 = None" "length pt < 14 \<Longrightarrow> ld_bword_48 pt 6 = None"
    by (simp_all add: ld_bword_24_def ld_bword_48_def ld_word_def ld_bytes_def)
  show ?thesis
    unfolding Simon_Encrypt_48_def Simon_Decrypt_48_def Simon_Encrypt_96_def Simon_Decrypt_96_def
    by (auto intro!: bind_NoneI simp: st_pair_None pt24 split_beta)
qed

lemma Simon_48_96_overrun_witness:
  "Simon_Encrypt_48 (\<lambda>_. 0) 36 (replicate 576 0) (replicate 6 0) (replicate 6 0) = None"
  using Simon_48_96_overrun [of "replicate 6 0" "\<lambda>_. 0" 36 "replicate 576 0" "replicate 6 0"] by simp

end
