(* ===== verification/Dc_Tool.thy ===== *)
theory Dc_Tool
  imports Simon_Proofs
begin

text \<open>
  The data contract tool \<^verbatim>\<open>dc-tool/dc-tool.c\<close>: the wire format of a Mojo-V data
  contract, the hex and key=value text format of a contract file, SIMON chaining over the
  contract, and the commands keygen, dcgen and dcchk with every early exit. OpenSSL is not
  part of the repository: its calls are the fields of the record \<open>ossl\<close>, an argument of
  every definition that uses them.
\<close>

section \<open>The data contract and its wire format\<close>

record data_contract =
  salt :: u64
  sig :: "u8 list"
  sym_key_128 :: "u8 list"
  contract_sig :: u64
  ciphers :: u64
  format_sel :: u8
  pad :: "u8 list"

definition store_u64_be :: "u8 list \<Rightarrow> nat \<Rightarrow> u64 \<Rightarrow> u8 list option" where
  "store_u64_be dst a v = do {
     dst \<leftarrow> st dst (a + 0) (ucast (drop_bit 56 v AND 0xff));
     dst \<leftarrow> st dst (a + 1) (ucast (drop_bit 48 v AND 0xff));
     dst \<leftarrow> st dst (a + 2) (ucast (drop_bit 40 v AND 0xff));
     dst \<leftarrow> st dst (a + 3) (ucast (drop_bit 32 v AND 0xff));
     dst \<leftarrow> st dst (a + 4) (ucast (drop_bit 24 v AND 0xff));
     dst \<leftarrow> st dst (a + 5) (ucast (drop_bit 16 v AND 0xff));
     dst \<leftarrow> st dst (a + 6) (ucast (drop_bit 8 v AND 0xff));
     st dst (a + 7) (ucast (drop_bit 0 v AND 0xff)) }"

definition load_u64_be :: "u8 list \<Rightarrow> nat \<Rightarrow> u64 option" where
  "load_u64_be src a = do {
     b0 \<leftarrow> ld src (a + 0); b1 \<leftarrow> ld src (a + 1); b2 \<leftarrow> ld src (a + 2); b3 \<leftarrow> ld src (a + 3);
     b4 \<leftarrow> ld src (a + 4); b5 \<leftarrow> ld src (a + 5); b6 \<leftarrow> ld src (a + 6); b7 \<leftarrow> ld src (a + 7);
     Some (push_bit 56 (ucast b0) OR push_bit 48 (ucast b1) OR push_bit 40 (ucast b2) OR
           push_bit 32 (ucast b3) OR push_bit 24 (ucast b4) OR push_bit 16 (ucast b5) OR
           push_bit 8 (ucast b6) OR ucast b7) }"

definition DC_WIRE_LEN :: nat where "DC_WIRE_LEN = 64"

definition dc_encode :: "u8 list \<Rightarrow> data_contract \<Rightarrow> u8 list option" where
  "dc_encode out dc = do {
     out \<leftarrow> store_u64_be out 0 (salt dc);
     out \<leftarrow> st_bytes out 8 (sig dc);
     out \<leftarrow> st_bytes out 24 (sym_key_128 dc);
     out \<leftarrow> store_u64_be out 40 (contract_sig dc);
     out \<leftarrow> store_u64_be out 48 (ciphers dc);
     out \<leftarrow> st out 56 (format_sel dc);
     st_bytes out 57 (pad dc) }"

definition dc_decode :: "u8 list \<Rightarrow> data_contract option" where
  "dc_decode inp = do {
     s \<leftarrow> load_u64_be inp 0;
     g \<leftarrow> ld_bytes inp 8 16;
     k \<leftarrow> ld_bytes inp 24 16;
     cs \<leftarrow> load_u64_be inp 40;
     ci \<leftarrow> load_u64_be inp 48;
     f \<leftarrow> ld inp 56;
     p \<leftarrow> ld_bytes inp 57 7;
     Some \<lparr>salt = s, sig = g, sym_key_128 = k, contract_sig = cs, ciphers = ci,
           format_sel = f, pad = p\<rparr> }"

definition text_bytes :: "string \<Rightarrow> u8 list" where
  "text_bytes s = map (\<lambda>c. of_nat (of_char c)) s"

definition sig_str :: "u8 list" where
  "sig_str = text_bytes ''Mojo-V ver. #001''"

section \<open>Hex text\<close>

definition code :: "char \<Rightarrow> int" where "code c = of_char c"

definition hex_to_nybble :: "char \<Rightarrow> int" where
  "hex_to_nybble c =
    (if code CHR ''0'' \<le> code c \<and> code c \<le> code CHR ''9'' then code c - code CHR ''0''
     else if code CHR ''a'' \<le> code c \<and> code c \<le> code CHR ''f'' then 10 + (code c - code CHR ''a'')
     else if code CHR ''A'' \<le> code c \<and> code c \<le> code CHR ''F'' then 10 + (code c - code CHR ''A'')
     else -1)"

definition nybble_to_hex :: "nat \<Rightarrow> char" where
  "nybble_to_hex v = (if v < 10 then char_of (48 + v) else char_of (97 + (v - 10)))"

definition bytes_to_hex :: "u8 list \<Rightarrow> string" where
  "bytes_to_hex inp = concat (map (\<lambda>b. [nybble_to_hex (unat (drop_bit 4 b AND 0xF)),
     nybble_to_hex (unat (b AND 0xF))]) inp)"

text \<open>The extent of a hex string: up to the end of the line, without trailing blanks.\<close>

definition hex_extent :: "string \<Rightarrow> string" where
  "hex_extent hex = rev (dropWhile (\<lambda>c. c = CHR '' '' \<or> c = CHR 0x09)
     (rev (takeWhile (\<lambda>c. c \<noteq> CHR 0x00 \<and> c \<noteq> CHR 0x0A \<and> c \<noteq> CHR 0x0D) hex)))"

fun hex_pairs :: "string \<Rightarrow> u8 list option" where
  "hex_pairs (h # l # cs) =
    (let hi = hex_to_nybble h; lo = hex_to_nybble l in
     if hi < 0 \<or> lo < 0 then None
     else map_option (Cons (of_int (push_bit 4 hi OR lo))) (hex_pairs cs))"
| "hex_pairs _ = Some []"

text \<open>The parameter \<open>mok\<close> is whether \<^verbatim>\<open>OPENSSL_malloc\<close> delivers a buffer of a size.\<close>

definition hex_to_bytes :: "(nat \<Rightarrow> bool) \<Rightarrow> string \<Rightarrow> u8 list option" where
  "hex_to_bytes mok hex = (let s = hex_extent hex in
     if length s = 0 then None
     else if length s mod 2 \<noteq> 0 then None
     else if \<not> mok (length s div 2) then None
     else hex_pairs s)"

section \<open>Key=value lines\<close>

lemma dropWhile_shorter: "dropWhile P xs = c # cs \<Longrightarrow> length cs < length xs"
  using length_dropWhile_le [of P xs] by simp

text \<open>
  A C string is its characters before the terminator. \<^verbatim>\<open>find_kv\<close> returns a pointer into
  the text: the rest of the text after the equals sign.
\<close>

function find_kv :: "string \<Rightarrow> string \<Rightarrow> string option" where
  "find_kv p key = (case p of [] \<Rightarrow> None | _ # _ \<Rightarrow>
     (let klen = length key;
          line = takeWhile (\<lambda>c. c \<noteq> CHR 0x0A) p;
          eol = dropWhile (\<lambda>c. c \<noteq> CHR 0x0A) p;
          linelen = length line
      in if linelen > klen + 1 \<and> take klen line = key \<and> line ! klen = CHR ''=''
         then Some (drop (klen + 1) p)
         else case eol of [] \<Rightarrow> None | _ # p' \<Rightarrow> find_kv p' key))"
  by pat_completeness auto
termination
proof (relation "measure (\<lambda>(p, key). length p)", goal_cases)
  case (2 p key x21 x22 klen line eol linelen x21a x22a)
  then have "dropWhile (\<lambda>c. c \<noteq> CHR 0x0A) p = x21a # x22a" by (simp only:)
  then show ?case using dropWhile_shorter by simp
qed simp

declare find_kv.simps [simp del]

section \<open>Process state and OpenSSL\<close>

text \<open>
  The state of a run: the file system, the two output streams, the random generator
  OpenSSL draws from, and the global cipher state.
\<close>

record 'r world =
  files :: "string \<Rightarrow> string option"
  stdout :: string
  stderr :: string
  rng :: 'r
  simon_state :: simon_cipher

text \<open>
  What the tool calls in OpenSSL and in the C library's file layer, with failure where the
  code tests for it: encapsulation draws from the generator and returns the ciphertext with
  the shared secret; the PEM functions convert between keys and file contents;
  \<open>may_write\<close> is whether a file can be opened for writing.
\<close>

record ('pk, 'sk, 'r) ossl =
  provider_ok :: bool
  err_text :: string
  malloc_ok :: "nat \<Rightarrow> bool"
  may_write :: "string \<Rightarrow> bool"
  keygen_ctx_ok :: bool
  keygen_init_ok :: bool
  keygen :: "'r \<Rightarrow> ('pk \<times> 'sk) option \<times> 'r"
  encap_ctx_ok :: "'pk \<Rightarrow> bool"
  encap_init_ok :: "'pk \<Rightarrow> bool"
  encap_size :: "'pk \<Rightarrow> (nat \<times> nat) option"
  encap :: "'pk \<Rightarrow> 'r \<Rightarrow> (u8 list \<times> u8 list) option \<times> 'r"
  decap_ctx_ok :: "'sk \<Rightarrow> bool"
  decap_init_ok :: "'sk \<Rightarrow> bool"
  decap_size :: "'sk \<Rightarrow> u8 list \<Rightarrow> nat option"
  decap :: "'sk \<Rightarrow> u8 list \<Rightarrow> u8 list option"
  pem_pub :: "'pk \<Rightarrow> string"
  pem_priv :: "'sk \<Rightarrow> string"
  pem_read_pub :: "string \<Rightarrow> 'pk option"
  pem_read_priv :: "string \<Rightarrow> 'sk option"
  rand_bytes :: "nat \<Rightarrow> 'r \<Rightarrow> u8 list option \<times> 'r"
  sha256 :: "u8 list \<Rightarrow> u8 list option"
  hkdf_sha256 :: "u8 list \<Rightarrow> u8 list \<Rightarrow> u8 list \<Rightarrow> nat \<Rightarrow> u8 list option"

text \<open>The commands are steps of the world that may end the process with a status.\<close>

type_synonym ('r, 'a) cmd = "('r world, int, 'a) step"

definition exit_with :: "int \<Rightarrow> ('r, 'a) cmd" where
  "exit_with status = abort status"

definition print :: "string \<Rightarrow> ('r, unit) cmd" where
  "print s w = (w\<lparr>stdout := stdout w @ s\<rparr>, Inr ())"

definition eprint :: "string \<Rightarrow> ('r, unit) cmd" where
  "eprint s w = (w\<lparr>stderr := stderr w @ s\<rparr>, Inr ())"

definition nl :: string where "nl = [CHR 0x0A]"

definition die_openssl :: "('pk, 'sk, 'r) ossl \<Rightarrow> string \<Rightarrow> ('r, 'a) cmd" where
  "die_openssl env what =
     and_then (eprint (''ERROR: '' @ what @ nl)) (\<lambda>_.
     and_then (eprint (err_text env)) (\<lambda>_. exit_with 1))"

definition die_msg :: "string \<Rightarrow> ('r, 'a) cmd" where
  "die_msg what = and_then (eprint (''ERROR: '' @ what @ nl)) (\<lambda>_. exit_with 1)"

text \<open>The tests of the code: continue if a condition holds or a value is there, else die.\<close>

definition need :: "bool \<Rightarrow> ('r, unit) cmd \<Rightarrow> ('r, unit) cmd" where
  "need c die = (if c then return () else die)"

definition the_or :: "'a option \<Rightarrow> ('r, 'a) cmd \<Rightarrow> ('r, 'a) cmd" where
  "the_or x die = (case x of None \<Rightarrow> die | Some a \<Rightarrow> return a)"

text \<open>An access outside an object is undefined; the model gives it no behaviour to continue
  from and ends the run with status 139 (a segmentation fault).\<close>

definition defined :: "'a option \<Rightarrow> ('r, 'a) cmd" where
  "defined x = the_or x (exit_with 139)"

definition draw :: "('r \<Rightarrow> 'a option \<times> 'r) \<Rightarrow> ('r, 'a option) cmd" where
  "draw f w = (case f (rng w) of (x, r) \<Rightarrow> (w\<lparr>rng := r\<rparr>, Inr x))"

definition RAND_bytes :: "('pk, 'sk, 'r) ossl \<Rightarrow> nat \<Rightarrow> string \<Rightarrow> ('r, u8 list) cmd" where
  "RAND_bytes env n what = and_then (draw (rand_bytes env n)) (\<lambda>x. the_or x (die_openssl env what))"

definition dc_init :: "('pk, 'sk, 'r) ossl \<Rightarrow> u8 \<Rightarrow> ('r, data_contract) cmd" where
  "dc_init env fmt =
     and_then (RAND_bytes env 16 ''dc_init: RAND_bytes(sym_key_128)'') (\<lambda>key.
     and_then (RAND_bytes env 8 ''dc_init: RAND_bytes(contract_sig)'') (\<lambda>tmp.
     and_then (defined (load_u64_be tmp 0)) (\<lambda>csig.
     and_then (RAND_bytes env 8 ''dc_init: RAND_bytes(salt)'') (\<lambda>tmp.
     and_then (defined (load_u64_be tmp 0)) (\<lambda>slt.
     and_then (RAND_bytes env 7 ''dc_init: RAND_bytes(pad)'') (\<lambda>pd.
     return \<lparr>salt = slt, sig = sig_str, sym_key_128 = key, contract_sig = csig, ciphers = 0,
             format_sel = fmt, pad = pd\<rparr>))))))"

definition hkdf_sha256_key128 :: "('pk, 'sk, 'r) ossl \<Rightarrow> u8 list \<Rightarrow> u8 list option" where
  "hkdf_sha256_key128 env ss = hkdf_sha256 env ss (text_bytes ''dc-multitool-salt'')
     (text_bytes ''mlkem512-simon128-data_contract'') 16"

definition simon_encrypt :: "simon_cipher \<Rightarrow> u8 list \<Rightarrow> u8 list \<Rightarrow> u8 list option" where
  "simon_encrypt x pt ct = cbc_encrypt (simon_128_128_encrypt x) pt ct"

definition simon_decrypt :: "simon_cipher \<Rightarrow> u8 list \<Rightarrow> u8 list \<Rightarrow> u8 list option" where
  "simon_decrypt x ct pt = cbc_decrypt (simon_128_128_decrypt x) ct pt"

text \<open>The key expansion both commands run on the derived key, with round limit 68.\<close>

definition expand_key :: "u8 list \<Rightarrow> ('r, unit) cmd" where
  "expand_key k = (\<lambda>w. and_then (defined (ld_word 16 k 0)) (\<lambda>key.
     and_then (defined (simon_128_128_keyexpand (simon_state w) key 68)) (\<lambda>(x, _) w.
       (w\<lparr>simon_state := x\<rparr>, Inr ()))) w)"

section \<open>Files\<close>

definition read_all_text :: "('pk, 'sk, 'r) ossl \<Rightarrow> 'r world \<Rightarrow> string \<Rightarrow> string option" where
  "read_all_text env w path = do {
     s \<leftarrow> files w path;
     if malloc_ok env (length s + 1) then Some (takeWhile (\<lambda>c. c \<noteq> CHR 0x00) s) else None }"

definition write_file :: "string \<Rightarrow> string \<Rightarrow> ('r, unit) cmd" where
  "write_file path s w = (w\<lparr>files := (files w)(path \<mapsto> s)\<rparr>, Inr ())"

definition combined_text :: "u8 list \<Rightarrow> u8 list \<Rightarrow> u8 list \<Rightarrow> string" where
  "combined_text kem_dc msg_dc pt_sha =
     ''KEM=ML-KEM-512'' @ nl @ ''CIPHER=SIMON-128'' @ nl @
     ''KEM_DC='' @ bytes_to_hex kem_dc @ nl @ ''MSG_DC='' @ bytes_to_hex msg_dc @ nl @
     ''PT_SHA256='' @ bytes_to_hex pt_sha @ nl"

definition write_combined_file ::
  "('pk, 'sk, 'r) ossl \<Rightarrow> string \<Rightarrow> u8 list \<Rightarrow> u8 list \<Rightarrow> u8 list \<Rightarrow> ('r, unit) cmd" where
  "write_combined_file env path kem_dc msg_dc pt_sha =
     and_then (need (may_write env path) (die_msg ''fopen(combined ct file) failed'')) (\<lambda>_.
     and_then (write_file path []) (\<lambda>_.
     and_then (need (malloc_ok env (length kem_dc * 2 + 1) \<and> malloc_ok env (length msg_dc * 2 + 1) \<and>
                     malloc_ok env (length pt_sha * 2 + 1)) (die_msg ''bytes_to_hex failed'')) (\<lambda>_.
     write_file path (combined_text kem_dc msg_dc pt_sha))))"


section \<open>The commands\<close>

definition step_keygen :: "('pk, 'sk, 'r) ossl \<Rightarrow> string \<Rightarrow> string \<Rightarrow> ('r, unit) cmd" where
  "step_keygen env pk_file sk_file =
     and_then (need (provider_ok env) (die_openssl env ''OSSL_PROVIDER_load(default)'')) (\<lambda>_.
     and_then (need (keygen_ctx_ok env) (die_openssl env ''EVP_PKEY_CTX_new_from_name(ML-KEM-512)'')) (\<lambda>_.
     and_then (need (keygen_init_ok env) (die_openssl env ''EVP_PKEY_keygen_init'')) (\<lambda>_.
     and_then (draw (keygen env)) (\<lambda>x.
     and_then (the_or x (die_openssl env ''EVP_PKEY_keygen'')) (\<lambda>(pk, sk).
     and_then (need (may_write env pk_file) (die_openssl env ''write_pubkey_pem'')) (\<lambda>_.
     and_then (write_file pk_file (pem_pub env pk)) (\<lambda>_.
     and_then (need (may_write env sk_file) (die_openssl env ''write_privkey_pem_unencrypted'')) (\<lambda>_.
     and_then (write_file sk_file (pem_priv env sk)) (\<lambda>_.
     print (''KEYGEN: wrote public key to `'' @ pk_file @ [CHR 0x27] @ '' and private key to `'' @
       sk_file @ [CHR 0x27] @ nl))))))))))"

definition step_dcgen :: "('pk, 'sk, 'r) ossl \<Rightarrow> string \<Rightarrow> u8 \<Rightarrow> string \<Rightarrow> ('r, unit) cmd" where
  "step_dcgen env pk_file fmt ct_file = (\<lambda>w. (
     and_then (need (provider_ok env) (die_openssl env ''OSSL_PROVIDER_load(default)'')) (\<lambda>_.
     and_then (the_or (Option.bind (files w pk_file) (pem_read_pub env)) (die_openssl env ''DCGEN: read pk pem'')) (\<lambda>pk.
     and_then (need (encap_ctx_ok env pk) (die_openssl env ''DCGEN: EVP_PKEY_CTX_new_from_pkey(encap)'')) (\<lambda>_.
     and_then (need (encap_init_ok env pk) (die_openssl env ''DCGEN: EVP_PKEY_encapsulate_init'')) (\<lambda>_.
     and_then (the_or (encap_size env pk) (die_openssl env ''DCGEN: EVP_PKEY_encapsulate(size query)'')) (\<lambda>(kem_dc_len, ss_len).
     and_then (need (malloc_ok env kem_dc_len \<and> malloc_ok env ss_len) (die_msg ''DCGEN: malloc for KEM'')) (\<lambda>_.
     and_then (draw (encap env pk)) (\<lambda>x.
     and_then (the_or x (die_openssl env ''DCGEN: EVP_PKEY_encapsulate'')) (\<lambda>(kem_dc, ss).
     and_then (the_or (hkdf_sha256_key128 env ss) (die_openssl env ''DCGEN: HKDF key derivation failed'')) (\<lambda>k.
     and_then (expand_key k) (\<lambda>_.
     and_then (dc_init env fmt) (\<lambda>dc.
     and_then (defined (dc_encode (replicate DC_WIRE_LEN 0) dc)) (\<lambda>pt.
     and_then (the_or (sha256 env pt) (die_openssl env ''DCGEN: SHA256(data_contract pt)'')) (\<lambda>pt_sha.
     and_then (\<lambda>w. defined (simon_encrypt (simon_state w) pt (replicate DC_WIRE_LEN 0)) w) (\<lambda>msg_dc.
     and_then (write_combined_file env ct_file kem_dc msg_dc pt_sha) (\<lambda>_.
     print (''DCGEN: wrote combined KEM+contract file to '' @ [CHR 0x27] @ ct_file @ [CHR 0x27] @ nl))))))))))))))))) w)"

definition hex16 :: "u64 \<Rightarrow> string" where
  "hex16 v = map (\<lambda>i. nybble_to_hex (unat (drop_bit (60 - 4 * i) v AND 0xF))) [0..<16]"

definition format_name :: "u8 \<Rightarrow> string" where
  "format_name f = (if f = 0 then '' (fast)'' else if f = 1 then '' (strong)''
     else if f = 2 then '' (proofcarrying)'' else '' (unknown)'')"

fun decimal :: "nat \<Rightarrow> string" where
  "decimal n = (if n < 10 then [char_of (48 + n)] else decimal (n div 10) @ [char_of (48 + n mod 10)])"

declare decimal.simps [simp del]

definition describe :: "data_contract \<Rightarrow> string" where
  "describe dc =
     ''Decrypted data_contract_t fields:'' @ nl @
     ''  salt        = 0x'' @ hex16 (salt dc) @ nl @
     ''  sig         = '' @ [CHR 0x22] @ map (\<lambda>b. char_of (unat b)) (sig dc) @ [CHR 0x22] @ nl @
     ''  sym_key_128 = 0x'' @ bytes_to_hex (rev (sym_key_128 dc)) @ nl @
     ''  contract_sig= 0x'' @ hex16 (contract_sig dc) @ nl @
     ''  ciphers     = 0x'' @ hex16 (ciphers dc) @ nl @
     ''  format_sel  = '' @ decimal (unat (format_sel dc)) @ format_name (format_sel dc) @ nl"

definition success :: string where
  "success = ''SUCCESS: DCGEN -> DCCHK Mojo-V data_contract_t transfer validated.'' @ nl"

text \<open>The check of a decrypted contract against the digest in the file.\<close>

definition check_contract :: "('pk, 'sk, 'r) ossl \<Rightarrow> u8 list \<Rightarrow> u8 list \<Rightarrow> bool \<Rightarrow> ('r, unit) cmd" where
  "check_contract env pt hsh verbose =
     and_then (the_or (sha256 env pt) (die_openssl env ''DCCHK: SHA256(pt)'')) (\<lambda>pt_sha.
     if take 32 pt_sha \<noteq> take 32 hsh then eprint (''DCCHK: validation FAILED (PT_SHA256 mismatch)'' @ nl)
     else and_then (defined (dc_decode pt)) (\<lambda>dc.
     if sig dc \<noteq> sig_str then eprint (''DCCHK: invalid data contract signature header'' @ nl)
     else and_then (print success) (\<lambda>_.
     if verbose then print (describe dc) else return ())))"

definition step_dcchk :: "('pk, 'sk, 'r) ossl \<Rightarrow> string \<Rightarrow> string \<Rightarrow> bool \<Rightarrow> ('r, unit) cmd" where
  "step_dcchk env sk_file ct_file verbose = (\<lambda>w. (
     and_then (need (provider_ok env) (die_openssl env ''OSSL_PROVIDER_load(default)'')) (\<lambda>_.
     and_then (the_or (Option.bind (files w sk_file) (pem_read_priv env)) (die_openssl env ''DCCHK: read sk pem'')) (\<lambda>sk.
     and_then (the_or (read_all_text env w ct_file) (die_msg ''DCCHK: read combined file failed'')) (\<lambda>text.
     and_then (the_or (do { a \<leftarrow> find_kv text ''KEM_DC''; b \<leftarrow> find_kv text ''MSG_DC'';
                            c \<leftarrow> find_kv text ''PT_SHA256''; Some (a, b, c) })
               (die_msg ''DCCHK: missing fields in combined file'')) (\<lambda>(kem_dc_hex, msg_dc_hex, hsh_hex).
     and_then (the_or (hex_to_bytes (malloc_ok env) kem_dc_hex) (die_msg ''DCCHK: parse KEM_DC hex failed'')) (\<lambda>kem_dc.
     and_then (the_or (hex_to_bytes (malloc_ok env) msg_dc_hex) (die_msg ''DCCHK: parse MSG_DC hex failed'')) (\<lambda>msg_dc.
     and_then (the_or (hex_to_bytes (malloc_ok env) hsh_hex) (die_msg ''DCCHK: parse PT_SHA256 hex failed'')) (\<lambda>hsh_b.
     and_then (need (length msg_dc = DC_WIRE_LEN \<and> length hsh_b = 32)
               (die_msg ''DCCHK: invalid field lengths in combined file'')) (\<lambda>_.
     and_then (need (decap_ctx_ok env sk) (die_openssl env ''DCCHK: EVP_PKEY_CTX_new_from_pkey(decap)'')) (\<lambda>_.
     and_then (need (decap_init_ok env sk) (die_openssl env ''DCCHK: EVP_PKEY_decapsulate_init'')) (\<lambda>_.
     and_then (the_or (decap_size env sk kem_dc) (die_openssl env ''DCCHK: EVP_PKEY_decapsulate(size query)'')) (\<lambda>ss_len.
     and_then (need (malloc_ok env ss_len) (die_msg ''DCCHK: malloc ss'')) (\<lambda>_.
     and_then (the_or (decap env sk kem_dc) (die_openssl env ''DCCHK: EVP_PKEY_decapsulate'')) (\<lambda>ss.
     and_then (the_or (hkdf_sha256_key128 env ss) (die_openssl env ''DCCHK: HKDF key derivation failed'')) (\<lambda>k.
     and_then (expand_key k) (\<lambda>_.
     and_then (\<lambda>w. defined (simon_decrypt (simon_state w) msg_dc (replicate DC_WIRE_LEN 0)) w) (\<lambda>pt.
     check_contract env pt hsh_b verbose))))))))))))))))) w)"

section \<open>The command line\<close>

definition usage :: "string \<Rightarrow> ('r, 'a) cmd" where
  "usage argv0 = and_then (eprint (''Usage:'' @ nl @
     ''  '' @ argv0 @ '' keygen <pk_file> <sk_file>'' @ nl @
     ''  '' @ argv0 @ '' dcgen <pk_file> {fast,strong,proof-carrying} <ct_file>'' @ nl @
     ''  '' @ argv0 @ '' dcchk <sk_file> <ct_file>'' @ nl @
     ''  '' @ argv0 @ '' dcchk-v <sk_file> <ct_file>'' @ nl)) (\<lambda>_. exit_with 2)"

definition parse_format_sel :: "string \<Rightarrow> ('r, u8) cmd" where
  "parse_format_sel mode =
    (if mode = ''fast'' then return 0
     else if mode = ''strong'' then return 1
     else if mode = ''proof-carrying'' \<or> mode = ''proofcarrying'' then return 2
     else and_then (eprint (''Unknown format mode '' @ [CHR 0x27] @ mode @ [CHR 0x27] @
            '', expected {fast,strong,proof-carrying}'' @ nl)) (\<lambda>_. exit_with 2))"

text \<open>The arguments are those of a started program: \<open>argv\<close> begins with its name.\<close>

definition dispatch :: "('pk, 'sk, 'r) ossl \<Rightarrow> string list \<Rightarrow> ('r, unit) cmd" where
  "dispatch env argv =
    (if length argv < 2 then usage (argv ! 0)
     else if argv ! 1 = ''keygen'' then
       if length argv \<noteq> 4 then
         and_then (eprint (''dcgen requires <sk_file> and <sk_file> arguments.'' @ nl)) (\<lambda>_. usage (argv ! 0))
       else step_keygen env (argv ! 2) (argv ! 3)
     else if argv ! 1 = ''dcgen'' then
       if length argv \<noteq> 5 then
         and_then (eprint (''dcgen requires an <pk_file>, mode: {fast,strong,proof-carrying}, and <ct_file>'' @ nl))
           (\<lambda>_. usage (argv ! 0))
       else and_then (parse_format_sel (argv ! 3)) (\<lambda>fmt. step_dcgen env (argv ! 2) fmt (argv ! 4))
     else if argv ! 1 = ''dcchk'' then
       if length argv \<noteq> 4 then
         and_then (eprint (''dcgen requires an <sk_file> and an <ct_file>'' @ nl)) (\<lambda>_. usage (argv ! 0))
       else step_dcchk env (argv ! 2) (argv ! 3) False
     else if argv ! 1 = ''dcchk-v'' then
       if length argv \<noteq> 4 then
         and_then (eprint (''dcgen requires an <sk_file> and an <ct_file>'' @ nl)) (\<lambda>_. usage (argv ! 0))
       else step_dcchk env (argv ! 2) (argv ! 3) True
     else usage (argv ! 0))"

definition main :: "('pk, 'sk, 'r) ossl \<Rightarrow> string list \<Rightarrow> 'r world \<Rightarrow> 'r world \<times> int" where
  "main env argv w = (case dispatch env argv w of (w', Inl status) \<Rightarrow> (w', status) | (w', Inr _) \<Rightarrow> (w', 0))"

end
