(* ===== verification/Dc_Tool_Proofs.thy ===== *)
theory Dc_Tool_Proofs
  imports Dc_Tool
begin

text \<open>
  Correctness of the contract tool: the wire format and the hex text are lossless, a
  key=value lookup finds the line that was written, the chained cipher gives back the
  contract (through the cipher interface), and so a contract file that dcgen wrote is
  accepted by dcchk, which reports the contract that was generated.
\<close>

section \<open>Big-endian words\<close>

lemma st_bytes_append:
  "a = length xs \<Longrightarrow> length bs \<le> length ys \<Longrightarrow>
   st_bytes (xs @ ys) a bs = Some ((xs @ bs) @ drop (length bs) ys)"
  by (simp add: st_bytes_def)

lemma st_bytes_one: "st_bytes m a [b] = st m a b"
  by (auto simp: st_bytes_def st_def upd_conv_take_nth_drop)

lemma st_bytes_Cons2:
  "st_bytes m a (b # c # bs) = Option.bind (st m a b) (\<lambda>m. st_bytes m (a + 1) (c # bs))"
  by (rule st_bytes_Cons)

lemma mask_byte: "(ucast ((v :: u64) AND 0xff) :: u8) = ucast v"
proof -
  have m: "(0xff :: u64) = mask 8" by (simp add: mask_eq_exp_minus_1)
  show ?thesis unfolding m by (intro bit_word_eqI) (simp add: bit_ucast_iff bit_and_iff bit_mask_iff)
qed

lemma le_bytes_8: "le_bytes 8 (v :: u64) = [ucast v, ucast (drop_bit 8 v), ucast (drop_bit 16 v),
    ucast (drop_bit 24 v), ucast (drop_bit 32 v), ucast (drop_bit 40 v), ucast (drop_bit 48 v),
    ucast (drop_bit 56 v)]"
  by (simp add: le_bytes_def eval_nat_numeral upt_rec)

lemma store_u64_be_bytes: "store_u64_be dst a v = st_bytes dst a (rev (le_bytes 8 v))"
  by (simp add: store_u64_be_def le_bytes_8 st_bytes_Cons2 mask_byte st_bytes_one add.assoc
      del: One_nat_def add_2_eq_Suc add_2_eq_Suc')

lemma load_u64_be_bytes: "load_u64_be src a = map_option (\<lambda>bs. le_word (rev bs)) (ld_bytes src a 8)"
proof (cases "a + 8 \<le> length src")
  case True
  then have "take 8 (drop a src) = map (\<lambda>i. src ! (a + i)) [0..<8]"
    by (intro nth_equalityI) simp_all
  also have "\<dots> = [src ! a, src ! (a + 1), src ! (a + 2), src ! (a + 3), src ! (a + 4),
      src ! (a + 5), src ! (a + 6), src ! (a + 7)]"
    by (simp add: eval_nat_numeral upt_rec)
  finally show ?thesis using True
    by (simp add: load_u64_be_def ld_bytes_def push_bit_or ac_simps)
next
  case False
  then have "ld src (a + 7) = None" by (simp add: ld_def)
  then show ?thesis using False by (auto simp: load_u64_be_def ld_bytes_def bind_eq_None_conv)
qed

lemma be_round_trip [simp]: "le_word (rev (rev (le_bytes 8 v))) = (v :: u64)"
  by (simp add: byte_simps)

section \<open>The wire format\<close>

definition wf_contract :: "data_contract \<Rightarrow> bool" where
  "wf_contract dc \<longleftrightarrow> length (sig dc) = 16 \<and> length (sym_key_128 dc) = 16 \<and> length (pad dc) = 7"

definition wire :: "data_contract \<Rightarrow> u8 list" where
  "wire dc = rev (le_bytes 8 (salt dc)) @ sig dc @ sym_key_128 dc @ rev (le_bytes 8 (contract_sig dc)) @
     rev (le_bytes 8 (ciphers dc)) @ [format_sel dc] @ pad dc"

lemma length_wire: "wf_contract dc \<Longrightarrow> length (wire dc) = 64"
  by (simp add: wire_def wf_contract_def)

lemma dc_encode_wire:
  assumes "wf_contract dc" "length out = 64"
  shows "dc_encode out dc = Some (wire dc)"
proof -
  have s0: "st_bytes out 0 (rev (le_bytes 8 (salt dc))) = Some (rev (le_bytes 8 (salt dc)) @ drop 8 out)"
    using assms by (simp add: st_bytes_def)
  show ?thesis
    using assms
    by (simp add: dc_encode_def store_u64_be_bytes s0 wf_contract_def flip: st_bytes_one)
       (simp add: st_bytes_def wire_def)
qed

lemma dc_decode_wire:
  assumes "wf_contract dc"
  shows "dc_decode (wire dc) = Some dc"
  using assms
  by (simp add: dc_decode_def load_u64_be_bytes ld_bytes_def wire_def wf_contract_def ld_def nth_append
      byte_simps)

section \<open>Hex text\<close>

lemma hex_nybble_table:
  "\<forall>v \<in> set [0..<16]. hex_to_nybble (nybble_to_hex v) = int v \<and>
     nybble_to_hex v \<notin> {CHR 0x00, CHR 0x0A, CHR 0x0D, CHR 0x20, CHR 0x09}"
  by code_simp

lemma hex_nybble:
  assumes "v < 16"
  shows "hex_to_nybble (nybble_to_hex v) = int v"
    and "nybble_to_hex v \<notin> {CHR 0x00, CHR 0x0A, CHR 0x0D, CHR 0x20, CHR 0x09}"
  using hex_nybble_table assms by auto

lemma nybble_less: "unat ((b :: u8) AND 0xF) < 16"
proof -
  have "b AND 0xF \<le> 0xF" by (rule word_and_le1)
  then show ?thesis by (simp add: word_le_nat_alt)
qed

lemma nybbles_join:
  "of_int (push_bit 4 (uint (drop_bit 4 b AND 0xF)) OR uint (b AND 0xF)) = (b :: u8)"
proof -
  have m: "(0xF :: u8) = mask 4" by (simp add: mask_eq_exp_minus_1)
  show ?thesis
    unfolding m by (intro bit_word_eqI)
      (auto simp: bit_or_iff bit_push_bit_iff bit_of_int_iff bit_and_iff bit_mask_iff
        bit_drop_bit_eq bit_unsigned_iff of_nat_unat simp flip: uint_nat)
qed

lemma hex_pairs_bytes: "hex_pairs (bytes_to_hex bs) = Some bs"
  by (induction bs)
     (simp_all add: bytes_to_hex_def hex_nybble nybble_less nybbles_join Let_def)

lemma hex_chars: "c \<in> set (bytes_to_hex bs) \<Longrightarrow> c \<notin> {CHR 0x00, CHR 0x0A, CHR 0x0D, CHR 0x20, CHR 0x09}"
  using hex_nybble(2) nybble_less by (fastforce simp: bytes_to_hex_def)

lemma length_bytes_to_hex [simp]: "length (bytes_to_hex bs) = 2 * length bs"
  by (induction bs) (simp_all add: bytes_to_hex_def)

lemma hex_extent_line:
  assumes "\<And>c. c \<in> set s \<Longrightarrow> c \<notin> {CHR 0x00, CHR 0x0A, CHR 0x0D, CHR 0x20, CHR 0x09}"
  shows "hex_extent (s @ nl @ rest) = s"
proof -
  have "takeWhile (\<lambda>c. c \<noteq> CHR 0x00 \<and> c \<noteq> CHR 0x0A \<and> c \<noteq> CHR 0x0D) (s @ nl @ rest) = s"
    using assms by (auto simp: nl_def takeWhile_append)
  moreover have "dropWhile (\<lambda>c. c = CHR '' '' \<or> c = CHR 0x09) (rev s) = rev s"
    using assms by (cases s rule: rev_cases) auto
  ultimately show ?thesis by (simp add: hex_extent_def)
qed

lemma hex_round_trip:
  assumes "bs \<noteq> []" "mok (length bs)"
  shows "hex_to_bytes mok (bytes_to_hex bs @ nl @ rest) = Some bs"
proof -
  have "bytes_to_hex bs \<noteq> []" using assms(1) length_bytes_to_hex [of bs] by force
  then show ?thesis
    using assms by (simp add: hex_to_bytes_def hex_extent_line [OF hex_chars] hex_pairs_bytes Let_def)
qed

section \<open>Key=value lines\<close>

lemma find_kv_line:
  assumes "CHR 0x0A \<notin> set line"
  shows "find_kv (line @ nl @ rest) key =
    (if length line > length key + 1 \<and> take (length key) line = key \<and> line ! length key = CHR ''=''
     then Some (drop (length key + 1) line @ nl @ rest) else find_kv rest key)"
proof -
  define p where "p = line @ nl @ rest"
  have t: "takeWhile (\<lambda>c. c \<noteq> CHR 0x0A) p = line"
    and d: "dropWhile (\<lambda>c. c \<noteq> CHR 0x0A) p = CHR 0x0A # rest"
    using assms by (auto simp: p_def nl_def takeWhile_append dropWhile_append)
  obtain x xs where c: "p = x # xs" by (cases p) (simp_all add: p_def nl_def)
  have "find_kv p key = (if length line > length key + 1 \<and> take (length key) line = key \<and>
      line ! length key = CHR ''='' then Some (drop (length key + 1) p) else find_kv rest key)"
    by (subst find_kv.simps, simp only: t d Let_def list.case) (simp only: c list.case)
  then show ?thesis by (auto simp: p_def)
qed

lemma find_kv_hit:
  assumes "k = key @ ''=''" "CHR 0x0A \<notin> set key" "CHR 0x0A \<notin> set v" "v \<noteq> []"
  shows "find_kv (k @ v @ nl @ rest) key = Some (v @ nl @ rest)"
  using find_kv_line [of "key @ ''='' @ v" rest key] assms
  by (cases v) (auto simp: nth_append)


text \<open>The three lookups dcchk makes in a file dcgen wrote.\<close>

lemma combined_text_lookup:
  assumes "kem \<noteq> []" "msg \<noteq> []" "sha \<noteq> []"
  shows "find_kv (combined_text kem msg sha) ''KEM_DC'' = Some (bytes_to_hex kem @ nl @
      ''MSG_DC='' @ bytes_to_hex msg @ nl @ ''PT_SHA256='' @ bytes_to_hex sha @ nl)"
    and "find_kv (combined_text kem msg sha) ''MSG_DC'' = Some (bytes_to_hex msg @ nl @
      ''PT_SHA256='' @ bytes_to_hex sha @ nl)"
    and "find_kv (combined_text kem msg sha) ''PT_SHA256'' = Some (bytes_to_hex sha @ nl)"
proof -
  have hex: "CHR 0x0A \<notin> set (bytes_to_hex bs)" for bs using hex_chars by blast
  have ne: "bytes_to_hex bs \<noteq> []" if "bs \<noteq> []" for bs
    using that length_bytes_to_hex [of bs] by force
  have kem: "find_kv (''KEM=ML-KEM-512'' @ nl @ rest) key = find_kv rest key"
    if "key \<in> {''KEM_DC'', ''MSG_DC'', ''PT_SHA256''}" for rest key
    using that by (subst find_kv_line) auto
  have cipher: "find_kv (''CIPHER=SIMON-128'' @ nl @ rest) key = find_kv rest key"
    if "key \<in> {''KEM_DC'', ''MSG_DC'', ''PT_SHA256''}" for rest key
    using that by (subst find_kv_line) auto
  have skip_kem: "find_kv (''KEM_DC='' @ bytes_to_hex bs @ nl @ rest) key = find_kv rest key"
    if "key \<in> {''MSG_DC'', ''PT_SHA256''}" for bs rest key
    using that find_kv_line [of "''KEM_DC='' @ bytes_to_hex bs" rest key] hex by auto
  have skip_msg: "find_kv (''MSG_DC='' @ bytes_to_hex bs @ nl @ rest) ''PT_SHA256'' = find_kv rest ''PT_SHA256''"
    for bs rest using find_kv_line [of "''MSG_DC='' @ bytes_to_hex bs" rest "''PT_SHA256''"] hex by auto
  note hit = find_kv_hit [OF _ _ hex ne]
  show "find_kv (combined_text kem msg sha) ''KEM_DC'' = Some (bytes_to_hex kem @ nl @
      ''MSG_DC='' @ bytes_to_hex msg @ nl @ ''PT_SHA256='' @ bytes_to_hex sha @ nl)"
    using hit [of "''KEM_DC=''" "''KEM_DC''" kem] assms
    by (simp add: combined_text_def kem cipher del: append_Cons)
  show "find_kv (combined_text kem msg sha) ''MSG_DC'' = Some (bytes_to_hex msg @ nl @
      ''PT_SHA256='' @ bytes_to_hex sha @ nl)"
    using hit [of "''MSG_DC=''" "''MSG_DC''" msg] assms
    by (simp add: combined_text_def kem cipher skip_kem del: append_Cons)
  show "find_kv (combined_text kem msg sha) ''PT_SHA256'' = Some (bytes_to_hex sha @ nl)"
    using hit [of "''PT_SHA256=''" "''PT_SHA256''" sha "[]"] assms
    by (simp add: combined_text_def kem cipher skip_kem skip_msg del: append_Cons)
qed

lemma combined_text_no_nul: "CHR 0x00 \<notin> set (combined_text kem msg sha)"
  using hex_chars [of "CHR 0x00"] by (auto simp: combined_text_def nl_def)

section \<open>Steps that returned\<close>

lemma die_Inr [simp]:
  "die_openssl env what w = (w', Inr a) \<longleftrightarrow> False" "die_msg what w = (w', Inr a) \<longleftrightarrow> False"
  "exit_with status w = (w', Inr a) \<longleftrightarrow> False"
  by (simp_all add: die_openssl_def die_msg_def and_then_Inr exit_with_def abort_def)

lemma need_Inr:
  "need c (die_openssl env what) w = (w', Inr a) \<longleftrightarrow> c \<and> w' = w"
  "need c (die_msg what) w = (w', Inr a) \<longleftrightarrow> c \<and> w' = w"
  by (auto simp: need_def return_def)

lemma the_or_Inr:
  "the_or x (die_openssl env what) w = (w', Inr a) \<longleftrightarrow> x = Some a \<and> w' = w"
  "the_or x (die_msg what) w = (w', Inr a) \<longleftrightarrow> x = Some a \<and> w' = w"
  "defined x w = (w', Inr a) \<longleftrightarrow> x = Some a \<and> w' = w"
  by (auto simp: the_or_def defined_def return_def split: option.splits)

lemma effect_Inr:
  "draw f w = (w', Inr x) \<longleftrightarrow> (\<exists>r. f (rng w) = (x, r) \<and> w' = w\<lparr>rng := r\<rparr>)"
  "print s w = (w', Inr u) \<longleftrightarrow> w' = w\<lparr>stdout := stdout w @ s\<rparr>"
  "write_file path s w = (w', Inr u) \<longleftrightarrow> w' = w\<lparr>files := (files w)(path \<mapsto> s)\<rparr>"
  "return y w = (w', Inr z) \<longleftrightarrow> z = y \<and> w' = w"
  by (auto simp: draw_def print_def write_file_def return_def split: prod.splits)

lemmas step_Inr = and_then_Inr need_Inr the_or_Inr effect_Inr

lemma expand_key_Inr:
  "expand_key k w = (w', Inr u) \<longleftrightarrow> (\<exists>key x b. ld_word 16 k 0 = Some key \<and>
     simon_128_128_keyexpand (simon_state w) key 68 = Some (x, b) \<and> w' = w\<lparr>simon_state := x\<rparr>)"
  by (auto simp: expand_key_def step_Inr)

lemma RAND_bytes_Inr:
  "RAND_bytes env n what w = (w', Inr bs) \<longleftrightarrow>
     (\<exists>r. rand_bytes env n (rng w) = (Some bs, r) \<and> w' = w\<lparr>rng := r\<rparr>)"
  by (auto simp: RAND_bytes_def step_Inr)

text \<open>The laws of OpenSSL the tool relies on: sizes (a KEM ciphertext of ML-KEM-512 has 768
  bytes), and that decapsulation under the
  matching secret key recovers what encapsulation shared.\<close>

definition ossl_laws :: "('pk, 'sk, 'r) ossl \<Rightarrow> 'pk \<Rightarrow> 'sk \<Rightarrow> bool" where
  "ossl_laws env pk sk \<longleftrightarrow>
     (\<forall>n r bs r'. rand_bytes env n r = (Some bs, r') \<longrightarrow> length bs = n) \<and>
     (\<forall>bs h. sha256 env bs = Some h \<longrightarrow> length h = 32) \<and>
     (\<forall>ss s i n k. hkdf_sha256 env ss s i n = Some k \<longrightarrow> length k = n) \<and>
     (\<forall>r kem ss r'. encap env pk r = (Some (kem, ss), r') \<longrightarrow> length kem = 768 \<and> decap env sk kem = Some ss)"

lemma ossl_lawsD:
  assumes "ossl_laws env pk sk"
  shows "rand_bytes env n r = (Some bs, r') \<Longrightarrow> length bs = n"
    and "sha256 env bs = Some h \<Longrightarrow> length h = 32"
    and "hkdf_sha256 env ss s i n = Some k \<Longrightarrow> length k = n"
    and "encap env pk r = (Some (kem, ss), r') \<Longrightarrow> length kem = 768 \<and> decap env sk kem = Some ss"
  using assms unfolding ossl_laws_def by blast+

definition ready_to_check :: "('pk, 'sk, 'r) ossl \<Rightarrow> 'sk \<Rightarrow> bool" where
  "ready_to_check env sk \<longleftrightarrow> provider_ok env \<and> (\<forall>n. malloc_ok env n) \<and> decap_ctx_ok env sk \<and>
     decap_init_ok env sk \<and> (\<forall>c. decap_size env sk c \<noteq> None)"

lemma dc_init_Inr:
  assumes "ossl_laws env pk sk" "dc_init env fmt w = (w', Inr dc)"
  shows "wf_contract dc \<and> sig dc = sig_str \<and> format_sel dc = fmt \<and> ciphers dc = 0 \<and> (\<exists>r. w' = w\<lparr>rng := r\<rparr>)"
proof -
  have "length sig_str = 16" by (simp add: sig_str_def text_bytes_def)
  then show ?thesis
    using assms(2) ossl_lawsD(1) [OF assms(1)]
    by (auto simp: dc_init_def step_Inr RAND_bytes_Inr wf_contract_def)
qed


section \<open>The two commands\<close>

text \<open>What a successful dcgen has done.\<close>

definition generated ::
  "('pk, 'sk, 'r) ossl \<Rightarrow> 'sk \<Rightarrow> u8 \<Rightarrow> string \<Rightarrow> 'r world \<Rightarrow> 'r world \<Rightarrow> data_contract \<Rightarrow> bool" where
  "generated env sk fmt ct_file w w' dc \<longleftrightarrow> wf_contract dc \<and> sig dc = sig_str \<and> format_sel dc = fmt \<and>
    (\<exists>kem ss k key b h msg. decap env sk kem = Some ss \<and> length kem = 768 \<and>
      hkdf_sha256_key128 env ss = Some k \<and> ld_word 16 k 0 = Some key \<and>
      simon_128_128_keyexpand (simon_state w) key 68 = Some (simon_state w', b) \<and>
      sha256 env (wire dc) = Some h \<and> length h = 32 \<and>
      simon_encrypt (simon_state w') (wire dc) (replicate 64 0) = Some msg \<and>
      files w' = (files w)(ct_file \<mapsto> combined_text kem msg h))"

lemma step_dcgen_Inr:
  assumes laws: "ossl_laws env pk sk" and run: "step_dcgen env pk_file fmt ct_file w = (w', Inr u)"
    and pk: "Option.bind (files w pk_file) (pem_read_pub env) = Some pk"
  shows "\<exists>dc. generated env sk fmt ct_file w w' dc"
  using run unfolding step_dcgen_def step_Inr write_combined_file_def expand_key_Inr pk
  by (auto simp: step_Inr expand_key_Inr dc_encode_wire DC_WIRE_LEN_def generated_def
      dest!: dc_init_Inr [OF laws] ossl_lawsD(4) [OF laws])
     (blast dest: ossl_lawsD(2) [OF laws])

lemma keyexpand_keeps_buffer:
  "simon_128_128_keyexpand y key 68 = Some (x, b) \<Longrightarrow> length (key_schedule y) = 576 \<Longrightarrow>
   length (key_schedule x) = 576"
  using simon_128_128_expanded [of y key 68] by auto

text \<open>dcchk on the world a successful dcgen left.\<close>

lemma check_generated:
  assumes gen: "generated env sk fmt ct_file w w' dc"
    and buf: "length (key_schedule (simon_state w)) = 576"
    and avail: "ready_to_check env sk" and sk: "Option.bind (files w sk_file) (pem_read_priv env) = Some sk"
    and ne: "sk_file \<noteq> ct_file"
  shows "\<exists>w''. step_dcchk env sk_file ct_file verbose w' = (w'', Inr ()) \<and>
    stdout w'' = stdout w' @ success @ (if verbose then describe dc else []) \<and>
    stderr w'' = stderr w' \<and> files w'' = files w'"
proof -
  from gen obtain kem ss k key b h msg where
    dc: "wf_contract dc" "sig dc = sig_str" and kem: "decap env sk kem = Some ss" "kem \<noteq> []"
    and k: "hkdf_sha256_key128 env ss = Some k" "ld_word 16 k 0 = Some key"
    and x: "simon_128_128_keyexpand (simon_state w) key 68 = Some (simon_state w', b)"
    and h: "sha256 env (wire dc) = Some h" "length h = 32"
    and msg: "simon_encrypt (simon_state w') (wire dc) (replicate 64 0) = Some msg"
    and files: "files w' = (files w)(ct_file \<mapsto> combined_text kem msg h)"
    unfolding generated_def by force
  let ?x = "simon_state w'"
  have buf': "length (key_schedule ?x) = 576" using keyexpand_keeps_buffer [OF x buf] .
  obtain y b' where y: "simon_128_128_keyexpand ?x key 68 = Some (y, b')"
    using simon_128_128_expanded [OF buf', of key 68] by blast
  note det = simon_128_128_determined [OF x buf y buf']
  from simon128.cbc_round_trip [OF det(1), of "wire dc" 4 "replicate 64 0" "replicate 64 0"]
  have msg64: "length msg = 64" and dec: "simon_decrypt y msg (replicate 64 0) = Some (wire dc)"
    using msg length_wire [OF dc(1)] det(3) by (auto simp: simon_encrypt_def simon_decrypt_def)
  have content: "read_all_text env w' ct_file = Some (combined_text kem msg h)"
  proof -
    have "takeWhile (\<lambda>c. c \<noteq> CHR 0x00) (combined_text kem msg h) = combined_text kem msg h"
      using combined_text_no_nul by (auto simp: takeWhile_eq_all_conv)
    then show ?thesis using avail files by (simp add: read_all_text_def ready_to_check_def)
  qed
  have ne': "msg \<noteq> []" "h \<noteq> []" using msg64 h(2) by auto
  have hex: "hex_to_bytes (malloc_ok env) (bytes_to_hex bs @ nl @ rest) = Some bs" if "bs \<noteq> []" for bs rest
    using that avail by (intro hex_round_trip) (auto simp: ready_to_check_def)
  have hex0: "hex_to_bytes (malloc_ok env) (bytes_to_hex h @ nl) = Some h"
    using hex [OF ne'(2), of "[]"] by simp
  obtain sl where sl: "decap_size env sk kem = Some sl" using avail by (auto simp: ready_to_check_def)
  note eval = and_then_def need_def the_or_def defined_def return_def print_def
  show ?thesis
    using avail sk ne files
    by (simp add: step_dcchk_def eval ready_to_check_def content combined_text_lookup [OF kem(2) ne']
        hex kem ne' hex0 msg64 h sl k expand_key_def y dec check_contract_def dc_decode_wire [OF dc(1)] dc(2)
        DC_WIRE_LEN_def)
qed


text \<open>When every call the tool makes is available, dcgen does succeed.\<close>

definition ready_to_generate :: "('pk, 'sk, 'r) ossl \<Rightarrow> 'pk \<Rightarrow> string \<Rightarrow> bool" where
  "ready_to_generate env pk ct_file \<longleftrightarrow> provider_ok env \<and> (\<forall>n. malloc_ok env n) \<and>
     may_write env ct_file \<and> encap_ctx_ok env pk \<and> encap_init_ok env pk \<and> encap_size env pk \<noteq> None \<and>
     (\<forall>r. fst (encap env pk r) \<noteq> None) \<and> (\<forall>n r. fst (rand_bytes env n r) \<noteq> None) \<and>
     (\<forall>bs. sha256 env bs \<noteq> None) \<and> (\<forall>ss s i n. hkdf_sha256 env ss s i n \<noteq> None)"

lemma RAND_bytes_ok:
  assumes "ossl_laws env pk sk" "ready_to_generate env pk ct_file"
  shows "\<exists>bs r. RAND_bytes env n what w = (w\<lparr>rng := r\<rparr>, Inr bs) \<and> length bs = n"
proof -
  obtain bs r where "rand_bytes env n (rng w) = (Some bs, r)"
    using assms(2) unfolding ready_to_generate_def by (metis not_None_eq prod.collapse)
  then show ?thesis using ossl_lawsD(1) [OF assms(1)] by (auto simp: RAND_bytes_Inr)
qed

lemma dc_init_ok:
  assumes "ossl_laws env pk sk" "ready_to_generate env pk ct_file"
  shows "\<exists>dc r. dc_init env fmt w = (w\<lparr>rng := r\<rparr>, Inr dc)"
proof -
  have l: "\<exists>v. load_u64_be bs 0 = Some v" if "length bs = 8" for bs
    using that by (simp add: load_u64_be_bytes ld_bytes_def)
  note rand = RAND_bytes_ok [OF assms]
  obtain a r1 where 1: "RAND_bytes env 16 ''dc_init: RAND_bytes(sym_key_128)'' w = (w\<lparr>rng := r1\<rparr>, Inr a)"
    using rand by blast
  obtain b r2 where 2: "RAND_bytes env 8 ''dc_init: RAND_bytes(contract_sig)'' (w\<lparr>rng := r1\<rparr>)
      = (w\<lparr>rng := r2\<rparr>, Inr b)" "length b = 8"
    using rand [of 8 _ "w\<lparr>rng := r1\<rparr>"] by fastforce
  obtain c r3 where 3: "RAND_bytes env 8 ''dc_init: RAND_bytes(salt)'' (w\<lparr>rng := r2\<rparr>)
      = (w\<lparr>rng := r3\<rparr>, Inr c)" "length c = 8"
    using rand [of 8 _ "w\<lparr>rng := r2\<rparr>"] by fastforce
  obtain d r4 where 4: "RAND_bytes env 7 ''dc_init: RAND_bytes(pad)'' (w\<lparr>rng := r3\<rparr>)
      = (w\<lparr>rng := r4\<rparr>, Inr d)"
    using rand [of 7 _ "w\<lparr>rng := r3\<rparr>"] by fastforce
  obtain v v' where "load_u64_be b 0 = Some v" "load_u64_be c 0 = Some v'"
    using l 2(2) 3(2) by blast
  with 1 2 3 4 show ?thesis
    by (auto simp: dc_init_def and_then_def defined_def the_or_def return_def intro!: exI [of _ r4])
qed

lemma step_dcgen_ok:
  assumes laws: "ossl_laws env pk sk" and avail: "ready_to_generate env pk ct_file"
    and pk: "Option.bind (files w pk_file) (pem_read_pub env) = Some pk"
    and buf: "length (key_schedule (simon_state w)) = 576"
  shows "\<exists>w'. step_dcgen env pk_file fmt ct_file w = (w', Inr ())"
proof -
  obtain kem ss r where kem: "encap env pk (rng w) = (Some (kem, ss), r)"
    using avail unfolding ready_to_generate_def by (metis not_None_eq prod.collapse)
  obtain k where k: "hkdf_sha256_key128 env ss = Some k"
    using avail unfolding ready_to_generate_def hkdf_sha256_key128_def by blast
  have "length k = 16" using k ossl_lawsD(3) [OF laws] by (simp add: hkdf_sha256_key128_def)
  then obtain key where key: "ld_word 16 k 0 = Some (key :: u128)" by (simp add: ld_word_def ld_bytes_def)
  obtain x where x: "simon_128_128_keyexpand (simon_state w) key 68 = Some (x, True)"
    using simon_128_128_expanded [OF buf] by blast
  have ready: "simon_ready x" using simon_128_128_determined(1) [OF x buf x buf] .
  let ?w = "w\<lparr>rng := r, simon_state := x\<rparr>"
  obtain dc r2 where dc: "dc_init env fmt ?w = (?w\<lparr>rng := r2\<rparr>, Inr dc)"
    using dc_init_ok [OF laws avail] by blast
  have wf: "wf_contract dc" using dc_init_Inr [OF laws dc] by simp
  obtain h where h: "sha256 env (wire dc) = Some h" using avail unfolding ready_to_generate_def by blast
  obtain msg where msg: "simon_encrypt x (wire dc) (replicate 64 0) = Some msg"
    using simon128.cbc_round_trip [OF ready, of "wire dc" 4 "replicate 64 0"] length_wire [OF wf]
    by (auto simp: simon_encrypt_def)
  obtain a b where size: "encap_size env pk = Some (a, b)"
    using avail by (auto simp: ready_to_generate_def)
  have expand: "expand_key k (w\<lparr>rng := r\<rparr>) = (?w, Inr ())"
    using key x unfolding expand_key_Inr by (intro exI conjI) (assumption | simp)+
  note eval = and_then_def need_def the_or_def defined_def return_def print_def draw_def write_file_def
  show ?thesis
    using avail pk dc_encode_wire [OF wf]
    by (simp add: step_dcgen_def eval ready_to_generate_def size kem k expand dc h msg
        write_combined_file_def DC_WIRE_LEN_def)
qed


lemma check_contract_run:
  assumes "sha256 env pt = Some d" "length pt = 64"
  shows "check_contract env pt hsh verbose w =
    (if take 32 d \<noteq> take 32 hsh then
       (w\<lparr>stderr := stderr w @ ''DCCHK: validation FAILED (PT_SHA256 mismatch)'' @ nl\<rparr>, Inr ())
     else if take 16 (drop 8 pt) \<noteq> sig_str then
       (w\<lparr>stderr := stderr w @ ''DCCHK: invalid data contract signature header'' @ nl\<rparr>, Inr ())
     else (w\<lparr>stdout := stdout w @ success @ (if verbose then describe (the (dc_decode pt)) else [])\<rparr>, Inr ()))"
proof -
  obtain dc where dc: "dc_decode pt = Some dc" "sig dc = take 16 (drop 8 pt)"
    using assms(2) by (simp add: dc_decode_def load_u64_be_bytes ld_bytes_def)
  show ?thesis
    using assms dc by (simp add: check_contract_def and_then_def the_or_def defined_def return_def
        eprint_def print_def)
qed

section \<open>Properties\<close>

text \<open>
  The 64-byte wire format is lossless: a contract with fields of their declared sizes
  encodes without leaving the output buffer, whatever the buffer held, and decodes to the
  same contract.
\<close>

lemma dc_decode_encode:
  assumes "wf_contract dc" "length buf = DC_WIRE_LEN"
  shows "\<exists>b. dc_encode buf dc = Some b \<and> length b = DC_WIRE_LEN \<and> dc_decode b = Some dc"
  using assms dc_encode_wire dc_decode_wire length_wire by (simp add: DC_WIRE_LEN_def)

definition sample_contract :: data_contract where
  "sample_contract = \<lparr>salt = 0x0102030405060708, sig = sig_str, sym_key_128 = replicate 16 7,
     contract_sig = 9, ciphers = 0, format_sel = 1, pad = replicate 7 3\<rparr>"

text \<open>
  The hex text of a non-empty byte string, followed by the end of its line and anything
  after it, parses back to the same bytes (given memory for them).
\<close>

lemma hex_to_bytes_to_hex:
  assumes "bs \<noteq> []" "mok (length bs)"
  shows "hex_to_bytes mok (bytes_to_hex bs @ nl @ rest) = Some bs"
  using assms by (rule hex_round_trip)

text \<open>
  C7: the contract transfer. If OpenSSL keeps its laws (KEM correctness among them) and its
  calls are available, a dcgen run for a public key ends with status 0, and a verbose dcchk
  run with the matching secret key on the file it wrote ends with status 0, prints the
  success line and describes a contract with the Mojo-V signature and the chosen format.
\<close>

theorem contract_transfer:
  assumes "ossl_laws env pk sk" "ready_to_generate env pk ct_file" "ready_to_check env sk"
    and "Option.bind (files w pk_file) (pem_read_pub env) = Some pk"
    and "Option.bind (files w sk_file) (pem_read_priv env) = Some sk"
    and "sk_file \<noteq> ct_file" "length (key_schedule (simon_state w)) = 576"
    and "mode \<in> {''fast'', ''strong'', ''proof-carrying'', ''proofcarrying''}"
  shows "\<exists>w1 w2 dc. main env [prog, ''dcgen'', pk_file, mode, ct_file] w = (w1, 0) \<and>
    main env [prog, ''dcchk-v'', sk_file, ct_file] w1 = (w2, 0) \<and>
    stdout w2 = stdout w1 @ success @ describe dc \<and> stderr w2 = stderr w1 \<and> sig dc = sig_str \<and>
    format_sel dc = (if mode = ''fast'' then 0 else if mode = ''strong'' then 1 else 2)"
proof -
  define fmt where "fmt = (if mode = ''fast'' then 0 else if mode = ''strong'' then 1 else 2 :: u8)"
  have parse: "parse_format_sel mode w = (w, Inr fmt)"
    using assms(8) by (auto simp: parse_format_sel_def return_def fmt_def)
  obtain w1 where gen: "step_dcgen env pk_file fmt ct_file w = (w1, Inr ())"
    using step_dcgen_ok [OF assms(1,2,4,7)] by blast
  obtain dc where dc: "generated env sk fmt ct_file w w1 dc"
    using step_dcgen_Inr [OF assms(1) gen assms(4)] by blast
  obtain w2 where chk: "step_dcchk env sk_file ct_file True w1 = (w2, Inr ())"
    "stdout w2 = stdout w1 @ success @ describe dc" "stderr w2 = stderr w1"
    using check_generated [OF dc assms(7,3,5,6), of True] by auto
  have "main env [prog, ''dcgen'', pk_file, mode, ct_file] w = (w1, 0)"
    by (simp add: main_def dispatch_def parse gen and_then_def)
  moreover have "main env [prog, ''dcchk-v'', sk_file, ct_file] w1 = (w2, 0)"
    using chk by (simp add: main_def dispatch_def)
  ultimately show ?thesis using chk dc unfolding generated_def fmt_def by blast
qed

text \<open>A small instance of OpenSSL: one key pair, a counter for a generator, and the shared
  secret sent as it is.\<close>

definition sample_ossl :: "(unit, unit, nat) ossl" where
  "sample_ossl = \<lparr>provider_ok = True, err_text = [], malloc_ok = (\<lambda>_. True), may_write = (\<lambda>_. True),
     keygen_ctx_ok = True, keygen_init_ok = True, keygen = (\<lambda>r. (Some ((), ()), r + 1)),
     encap_ctx_ok = (\<lambda>_. True), encap_init_ok = (\<lambda>_. True), encap_size = (\<lambda>_. Some (1, 1)),
     encap = (\<lambda>_ r. (Some (replicate 768 (of_nat r), [of_nat r]), r + 1)),
     decap_ctx_ok = (\<lambda>_. True), decap_init_ok = (\<lambda>_. True), decap_size = (\<lambda>_ _. Some 1),
     decap = (\<lambda>_ c. Some (take 1 c)), pem_pub = (\<lambda>_. ''PUB''), pem_priv = (\<lambda>_. ''PRIV''),
     pem_read_pub = (\<lambda>s. if s = ''PUB'' then Some () else None),
     pem_read_priv = (\<lambda>s. if s = ''PRIV'' then Some () else None),
     rand_bytes = (\<lambda>n r. (Some (replicate n (of_nat r)), r + 1)),
     sha256 = (\<lambda>bs. Some (take 32 (bs @ replicate 32 0))),
     hkdf_sha256 = (\<lambda>ss s i n. Some (take n (ss @ replicate n 1)))\<rparr>"

definition sample_world :: "nat world" where
  "sample_world = \<lparr>files = [''pk'' \<mapsto> ''PUB'', ''sk'' \<mapsto> ''PRIV''], stdout = [], stderr = [], rng = 5,
     simon_state = blank_cipher\<rparr>"

lemma contract_transfer_witness:
  "\<exists>w1 w2 dc. main sample_ossl [''dc'', ''dcgen'', ''pk'', ''strong'', ''ct''] sample_world = (w1, 0) \<and>
    main sample_ossl [''dc'', ''dcchk-v'', ''sk'', ''ct''] w1 = (w2, 0) \<and>
    stdout w2 = stdout w1 @ success @ describe dc \<and> format_sel dc = 1"
proof -
  have "ossl_laws sample_ossl () ()" "ready_to_generate sample_ossl () ''ct''" "ready_to_check sample_ossl ()"
    by (auto simp: ossl_laws_def ready_to_generate_def ready_to_check_def sample_ossl_def)
  from contract_transfer [OF this, of sample_world "''pk''" "''sk''" "''strong''" "''dc''"]
  show ?thesis by (auto simp: sample_ossl_def sample_world_def blank_cipher_def)
qed

text \<open>
  C34: the verdict of dcchk on a decrypted 64-byte contract. A digest that differs from the
  file's, or a header that is not the Mojo-V signature, is reported on stderr and nothing
  is printed; otherwise the success line is printed. In all three cases the step returns,
  so a rejected contract leaves the program with the same status 0 as an accepted one.
\<close>

theorem dcchk_verdict:
  assumes "sha256 env pt = Some d" "length pt = 64"
  shows "snd (check_contract env pt hsh verbose w) = Inr () \<and>
    (let w' = fst (check_contract env pt hsh verbose w); ok = take 32 d = take 32 hsh \<and> take 16 (drop 8 pt) = sig_str
     in (ok \<longrightarrow> stderr w' = stderr w \<and> (\<exists>report. stdout w' = stdout w @ success @ report)) \<and>
        (\<not> ok \<longrightarrow> stdout w' = stdout w \<and> stderr w' \<noteq> stderr w))"
  by (auto simp: check_contract_run [OF assms] Let_def nl_def)

lemma dcchk_verdict_witness:
  "snd (check_contract sample_ossl (replicate 64 0) (replicate 32 1) True sample_world) = Inr () \<and>
   stdout (fst (check_contract sample_ossl (replicate 64 0) (replicate 32 1) True sample_world)) = []"
proof -
  have "sha256 sample_ossl (replicate 64 0) = Some (take 32 (replicate 64 0))"
    by (simp add: sample_ossl_def)
  from dcchk_verdict [OF this, of "replicate 32 1" True sample_world]
  show ?thesis by (auto simp: sample_world_def Let_def)
qed

end
