(* ===== verification/Mojov_State.thy ===== *)
theory Mojov_State
  imports Dc_Tool_Proofs
begin

text \<open>
  The Mojo-V state of a hart in the simulator (\<^verbatim>\<open>riscv-isa-sim/riscv\<close>): registers
  with their dataflow hashes and datagrant marks, the key and memory storage module (KMSM)
  through which an encrypted data contract is loaded, the opening of a contract
  (\<^verbatim>\<open>mojov_crypto.cc\<close>, \<^verbatim>\<open>processor.cc\<close>) and the control registers that switch
  secret computation on and off (\<^verbatim>\<open>csrs.cc\<close>).
\<close>

section \<open>State\<close>

text \<open>
  Of a floating-point register the model keeps the low 64 bits (\<^verbatim>\<open>v[0]\<close>), all that
  the modelled instructions read. \<open>dfhash_input\<close> holds the hashes of the inputs tracked so
  far, so \<^verbatim>\<open>n_inputs\<close> is its length. \<open>draws\<close> counts the calls of the host's
  \<^verbatim>\<open>rand()\<close>.
\<close>

record hart =
  XPR :: "nat \<Rightarrow> u64"
  FPR :: "nat \<Rightarrow> u64"
  dfhash_xpr :: "nat \<Rightarrow> u64"
  dfhash_fpr :: "nat \<Rightarrow> u64"
  datagrant_xpr :: "nat \<Rightarrow> bool"
  dfhash_input :: "u64 list"
  xpr_deps :: u64
  npc :: u64
  memory :: "u64 \<Rightarrow> u8"
  draws :: nat
  secreg_mode :: bool
  cipher :: simon_cipher
  mojov_cfg_val :: u64
  mojov_dcvalid :: bool
  mojov_dc :: data_contract
  kmsm_bytes :: "u8 list"
  kmsm_addr :: u64
  kmsm_ctrl_busy :: bool
  kmsm_ctrl_status :: u64
  kmsm_status :: "u64 list"
  kmsm_enckey_bytes :: nat
  kmsm_encdc_bytes :: nat

text \<open>
  The configuration of a simulation, and the surroundings the state depends on: the key
  file, the host's \<^verbatim>\<open>rand()\<close> and which memory accesses the MMU lets through.
\<close>

record config =
  mojov_sk_pem_path :: string
  mojov_pk_der :: "u8 list"
  mojov_arg :: u16
  mojov_strong :: bool
  mojov_proofcarrying :: bool
  ext_zkmojov :: bool
  host_rand :: "nat \<Rightarrow> u32"
  load_ok :: "u64 \<Rightarrow> nat \<Rightarrow> bool"
  ialign16 :: bool
  store_ok :: "u64 \<Rightarrow> nat \<Rightarrow> bool"

definition kmsm_window_bytes :: nat where "kmsm_window_bytes = 8"
definition pubkey_bytes :: nat where "pubkey_bytes = 800"
definition enckey_bytes :: nat where "enckey_bytes = 768"
definition encdc_bytes :: nat where "encdc_bytes = 64"
definition kmsm_bytes_total :: nat where
  "kmsm_bytes_total = pubkey_bytes + enckey_bytes + encdc_bytes"

definition FORMAT_SEL_FAST :: u64 where "FORMAT_SEL_FAST = 0"
definition FORMAT_SEL_STRONG :: u64 where "FORMAT_SEL_STRONG = 1"
definition FORMAT_SEL_PROOFCARRYING :: u64 where "FORMAT_SEL_PROOFCARRYING = 2"

definition blank_contract :: data_contract where
  "blank_contract = \<lparr>salt = 0, sig = replicate 16 0, sym_key_128 = replicate 16 0, contract_sig = 0,
     ciphers = 0, format_sel = 0, pad = replicate 7 0\<rparr>"

section \<open>Metadata and reset\<close>

definition mojov_destroy_metadata :: "hart \<Rightarrow> hart" where
  "mojov_destroy_metadata h = h\<lparr>dfhash_xpr := (\<lambda>_. 0), datagrant_xpr := (\<lambda>_. False), dfhash_fpr := (\<lambda>_. 0)\<rparr>"

definition mojov_reset :: "config \<Rightarrow> hart \<Rightarrow> hart" where
  "mojov_reset c h = (let h = h\<lparr>mojov_dcvalid := False, mojov_dc := blank_contract,
       kmsm_addr := 0, kmsm_ctrl_busy := False, kmsm_ctrl_status := 0, kmsm_status := [0, 0, 0, 0],
       kmsm_enckey_bytes := 0, kmsm_encdc_bytes := 0,
       kmsm_bytes := take pubkey_bytes (mojov_pk_der c) @
         replicate (kmsm_bytes_total - length (take pubkey_bytes (mojov_pk_der c))) 0,
       dfhash_input := []\<rparr>
     in mojov_destroy_metadata h)"

text \<open>The value the configuration register is constructed with.\<close>

definition mojov_cfg_init :: "config \<Rightarrow> u64" where
  "mojov_cfg_init c = push_bit 12 (ucast (mojov_arg c)) OR push_bit 4 1 OR
     push_bit 2 (if mojov_proofcarrying c then FORMAT_SEL_PROOFCARRYING
       else if mojov_strong c then FORMAT_SEL_STRONG else FORMAT_SEL_FAST) OR push_bit 1 0 OR 0"

text \<open>
  \<^verbatim>\<open>state_t::reset\<close>: the registers, the Mojo-V state, and control registers built
  anew. \<open>secreg_mode\<close> is a member of the processor, initialised when that is constructed,
  and not among what reset writes.
\<close>

definition state_reset :: "config \<Rightarrow> hart \<Rightarrow> hart" where
  "state_reset c h = (mojov_reset c (h\<lparr>XPR := (\<lambda>_. 0), FPR := (\<lambda>_. 0)\<rparr>))\<lparr>mojov_cfg_val := mojov_cfg_init c\<rparr>"

text \<open>A constructed processor: secret mode off, then reset.\<close>

definition power_on :: "config \<Rightarrow> hart \<Rightarrow> hart" where
  "power_on c h = state_reset c (h\<lparr>secreg_mode := False\<rparr>)"

section \<open>The KMSM window\<close>

definition mojov_kmsm_set_addr :: "u64 \<Rightarrow> hart \<Rightarrow> hart" where
  "mojov_kmsm_set_addr addr h = h\<lparr>kmsm_addr := addr\<rparr>"

text \<open>Bytes are stored while the index stays inside the array.\<close>

definition put_bytes :: "nat \<Rightarrow> u8 list \<Rightarrow> u8 list \<Rightarrow> u8 list" where
  "put_bytes idx bs m = fold (\<lambda>b m. m[idx + b := bs ! b]) [0..<length bs] m"

definition mojov_kmsm_write_data :: "u64 \<Rightarrow> hart \<Rightarrow> hart" where
  "mojov_kmsm_write_data val h = (let idx = unat (kmsm_addr h) in
     if idx \<ge> length (kmsm_bytes h) then h
     else if idx AND (kmsm_window_bytes - 1) \<noteq> 0 then h\<lparr>kmsm_ctrl_status := 1\<rparr>
     else if idx < pubkey_bytes then h
     else let h = h\<lparr>kmsm_bytes := put_bytes idx (le_bytes kmsm_window_bytes val) (kmsm_bytes h)\<rparr>;
              h = (if idx \<ge> pubkey_bytes \<and> idx < pubkey_bytes + enckey_bytes
                   then h\<lparr>kmsm_enckey_bytes := max (kmsm_enckey_bytes h)
                          (min ((idx - pubkey_bytes) + kmsm_window_bytes) enckey_bytes)\<rparr>
                   else if idx \<ge> pubkey_bytes + enckey_bytes \<and> idx < length (kmsm_bytes h)
                   then h\<lparr>kmsm_encdc_bytes := max (kmsm_encdc_bytes h)
                          (min ((idx - (pubkey_bytes + enckey_bytes)) + kmsm_window_bytes) encdc_bytes)\<rparr>
                   else h)
          in h\<lparr>kmsm_addr := of_nat ((idx + kmsm_window_bytes) mod length (kmsm_bytes h))\<rparr>)"

definition mojov_kmsm_read_data :: "hart \<Rightarrow> u64" where
  "mojov_kmsm_read_data h = (let idx = unat (kmsm_addr h) in
     if idx \<ge> length (kmsm_bytes h) then 0 else le_word (take kmsm_window_bytes (drop idx (kmsm_bytes h))))"

definition mojov_kmsm_read_ctrl :: "hart \<Rightarrow> u64" where
  "mojov_kmsm_read_ctrl h = push_bit 1 (of_bool (kmsm_ctrl_busy h)) OR push_bit 2 (kmsm_ctrl_status h AND 7)"

section \<open>Opening a contract\<close>

datatype mojov_open_status = OK | MISSING_SK_PATH | OSSL_PROVIDER_LOAD | SK_LOAD | DECAP_CTX
  | DECAP_INIT | DECAP_SIZE | SS_MALLOC | DECAP | HKDF | BAD_SIGNATURE | BAD_INPUT | SHA256
  | PT_HASH_MISMATCH

text \<open>The result: success, the status, and the contract object after the call (decoded only
  when the code gets that far). \<open>pem\<close> reads the secret key of a path.\<close>

definition mojov_open_contract_from_components ::
  "('pk, 'sk, 'r) ossl \<Rightarrow> (string \<Rightarrow> 'sk option) \<Rightarrow> simon_cipher \<Rightarrow> string \<Rightarrow> u8 list \<Rightarrow> u8 list \<Rightarrow>
   u8 list option \<Rightarrow> data_contract \<Rightarrow> bool \<times> mojov_open_status \<times> data_contract" where
  "mojov_open_contract_from_components env pem local_simon_state sk_pem_path kem_dc msg_dc expected out_dc =
    (if sk_pem_path = [] \<or> length kem_dc = 0 \<or> length msg_dc \<noteq> 64
     then (False, (if sk_pem_path = [] then MISSING_SK_PATH else BAD_INPUT), out_dc)
     else if \<not> provider_ok env then (False, OSSL_PROVIDER_LOAD, out_dc)
     else case pem sk_pem_path of None \<Rightarrow> (False, SK_LOAD, out_dc) | Some sk \<Rightarrow>
     if \<not> decap_ctx_ok env sk then (False, DECAP_CTX, out_dc)
     else if \<not> decap_init_ok env sk then (False, DECAP_INIT, out_dc)
     else case decap_size env sk kem_dc of None \<Rightarrow> (False, DECAP_SIZE, out_dc) | Some ss_len \<Rightarrow>
     if \<not> malloc_ok env ss_len then (False, SS_MALLOC, out_dc)
     else case decap env sk kem_dc of None \<Rightarrow> (False, DECAP, out_dc) | Some ss \<Rightarrow>
     case hkdf_sha256_key128 env ss of None \<Rightarrow> (False, HKDF, out_dc) | Some k \<Rightarrow>
     case (do { key \<leftarrow> ld_word 16 k 0; (x, _) \<leftarrow> simon_128_128_keyexpand local_simon_state key 68;
                simon_decrypt x msg_dc (replicate 64 0) }) of
       None \<Rightarrow> (False, HKDF, out_dc) | Some pt \<Rightarrow>
     case sha256 env pt of None \<Rightarrow> (False, SHA256, out_dc) | Some pt_sha \<Rightarrow>
     if expected \<noteq> None \<and> take 32 pt_sha \<noteq> take 32 (the expected) then (False, PT_HASH_MISMATCH, out_dc)
     else case dc_decode pt of None \<Rightarrow> (False, BAD_SIGNATURE, out_dc) | Some dc \<Rightarrow>
     if sig dc \<noteq> sig_str then (False, BAD_SIGNATURE, dc) else (True, OK, dc))"

definition mojov_kmsm_status_to_ctrl_field :: "mojov_open_status \<Rightarrow> u64" where
  "mojov_kmsm_status_to_ctrl_field status = (case status of
     OK \<Rightarrow> 0 | BAD_INPUT \<Rightarrow> 1 | DECAP \<Rightarrow> 3 | DECAP_CTX \<Rightarrow> 3 | DECAP_INIT \<Rightarrow> 3 | DECAP_SIZE \<Rightarrow> 3
   | SS_MALLOC \<Rightarrow> 3 | PT_HASH_MISMATCH \<Rightarrow> 4 | BAD_SIGNATURE \<Rightarrow> 5 | _ \<Rightarrow> 5)"

text \<open>Key expansion into the hart's cipher; it cannot leave the cipher's buffers when those
  have their declared size, which the invariant of the state keeps.\<close>

definition expand_core :: "u128 \<Rightarrow> hart \<Rightarrow> hart" where
  "expand_core key h = (case simon_128_128_keyexpand (cipher h) key 68 of
     None \<Rightarrow> h | Some (x, _) \<Rightarrow> h\<lparr>cipher := x\<rparr>)"

definition mojov_cfg_read :: "hart \<Rightarrow> u64" where
  "mojov_cfg_read h = (let val = mojov_cfg_val h;
     val = (if mojov_dcvalid h then val OR push_bit 1 1 else val AND NOT (push_bit 1 1))
     in (val AND NOT 0xc) OR push_bit 2 (ucast (format_sel (mojov_dc h)) AND 3))"

definition mojov_kmsm_open_contract ::
  "config \<Rightarrow> ('pk, 'sk, 'r) ossl \<Rightarrow> (string \<Rightarrow> 'sk option) \<Rightarrow> hart \<Rightarrow> hart \<times> bool" where
  "mojov_kmsm_open_contract c env pem h = (
     let fail = (\<lambda>h status. (h\<lparr>kmsm_ctrl_status := mojov_kmsm_status_to_ctrl_field status,
                               kmsm_ctrl_busy := False\<rparr>, False));
         h = h\<lparr>kmsm_ctrl_busy := True\<rparr> in
     if mojov_cfg_read h AND 1 \<noteq> 0 then fail h BAD_INPUT
     else if mojov_sk_pem_path c = [] then fail h BAD_SIGNATURE
     else if kmsm_encdc_bytes h \<noteq> 64 \<or> kmsm_enckey_bytes h = 0 then fail h BAD_INPUT
     else let kem_dc = take (kmsm_enckey_bytes h) (drop pubkey_bytes (kmsm_bytes h));
              msg_dc = take (kmsm_encdc_bytes h) (drop (pubkey_bytes + enckey_bytes) (kmsm_bytes h));
              (ok, status, dc) = mojov_open_contract_from_components env pem (cipher h) (mojov_sk_pem_path c)
                 kem_dc msg_dc None (mojov_dc h);
              h = h\<lparr>mojov_dc := dc, kmsm_ctrl_status := mojov_kmsm_status_to_ctrl_field status\<rparr> in
     if \<not> ok then (h\<lparr>mojov_dcvalid := False, kmsm_ctrl_busy := False\<rparr>, False)
     else let h = h\<lparr>mojov_dcvalid := True\<rparr> in
     if mojov_cfg_read h AND push_bit 1 1 = 0 then fail (h\<lparr>mojov_dcvalid := False\<rparr>) BAD_INPUT
     else ((expand_core (le_word (sym_key_128 (mojov_dc h))) h)\<lparr>kmsm_ctrl_busy := False\<rparr>, True))"

definition mojov_kmsm_write_ctrl ::
  "config \<Rightarrow> ('pk, 'sk, 'r) ossl \<Rightarrow> (string \<Rightarrow> 'sk option) \<Rightarrow> u64 \<Rightarrow> hart \<Rightarrow> hart" where
  "mojov_kmsm_write_ctrl c env pem val h =
     (if val AND 1 \<noteq> 0 then fst (mojov_kmsm_open_contract c env pem h) else h)"

section \<open>Secret mode\<close>

definition simon_key :: u128 where "simon_key = 0x0f0e0d0c0b0a09080706050403020100"

definition set_secreg_mode :: "bool \<Rightarrow> hart \<Rightarrow> hart" where
  "set_secreg_mode en h = (let h = mojov_destroy_metadata (h\<lparr>secreg_mode := en\<rparr>) in
     if en then
       if \<not> mojov_dcvalid h then expand_core simon_key h
       else expand_core (le_word (sym_key_128 (mojov_dc h))) h
     else h)"

definition SECREG_RESET :: "hart \<Rightarrow> hart" where
  "SECREG_RESET h = h\<lparr>XPR := (XPR h)(24 := 0, 25 := 0, 26 := 0, 27 := 0, 28 := 0, 29 := 0, 30 := 0, 31 := 0)\<rparr>"

definition FP_SECREG_RESET :: "hart \<Rightarrow> hart" where
  "FP_SECREG_RESET h = h\<lparr>FPR := (FPR h)(24 := 0, 24 := 0, 24 := 0, 24 := 0, 28 := 0, 29 := 0, 30 := 0, 31 := 0)\<rparr>"

definition mojov_cfg_write :: "u64 \<Rightarrow> hart \<Rightarrow> hart" where
  "mojov_cfg_write val h = (let current = mojov_cfg_read h;
     key_valid = current AND push_bit 1 1 \<noteq> 0;
     req_enable = val AND 1 \<noteq> 0;
     new_secreg = current AND NOT 1;
     new_secreg = (if req_enable \<and> key_valid then new_secreg OR 1 else new_secreg);
     h = h\<lparr>mojov_cfg_val := new_secreg\<rparr>;
     enabled = new_secreg AND 1 \<noteq> 0;
     h = set_secreg_mode enabled h
     in if \<not> enabled then FP_SECREG_RESET (SECREG_RESET h) else h)"

section \<open>The control registers\<close>

datatype csr = MOJOV_CFG | MOJOV_CIPHERS | KMSM_ADDR | KMSM_DATA | KMSM_CTRL

fun csr_read :: "csr \<Rightarrow> hart \<Rightarrow> u64" where
  "csr_read MOJOV_CFG h = mojov_cfg_read h"
| "csr_read MOJOV_CIPHERS h = 0"
| "csr_read KMSM_ADDR h = kmsm_addr h"
| "csr_read KMSM_DATA h = mojov_kmsm_read_data h"
| "csr_read KMSM_CTRL h = mojov_kmsm_read_ctrl h"

fun csr_write ::
  "config \<Rightarrow> ('pk, 'sk, 'r) ossl \<Rightarrow> (string \<Rightarrow> 'sk option) \<Rightarrow> csr \<Rightarrow> u64 \<Rightarrow> hart \<Rightarrow> hart" where
  "csr_write c env pem MOJOV_CFG val h = mojov_cfg_write val h"
| "csr_write c env pem MOJOV_CIPHERS val h = h"
| "csr_write c env pem KMSM_ADDR val h = mojov_kmsm_set_addr val h"
| "csr_write c env pem KMSM_DATA val h = mojov_kmsm_write_data val h"
| "csr_write c env pem KMSM_CTRL val h = mojov_kmsm_write_ctrl c env pem val h"

end
