(* ===== verification/Mojov_Insns.thy ===== *)
theory Mojov_Insns
  imports Mojov_State "HOL-Library.Signed_Division"
begin

text \<open>
  Instruction execution with the Mojo-V rules of \<^verbatim>\<open>decode_macros.h\<close>: reads record
  register dependencies and dataflow hashes, writes trap when a secret would reach a public
  register, secret registers are refused as addresses, branch predicates, jump targets and
  data of ordinary stores; and the Mojo-V instructions of \<^verbatim>\<open>insns/\<close>. The hart is RV64
  without landing pads; where C++ leaves the order of two operand reads open, the left one
  is read first. A trap keeps the changes made before it, as the C++ exception does.
\<close>

section \<open>Register macros\<close>

datatype trap = Security | Illegal | Misaligned | Load_fault | Store_fault | Assertion

type_synonym 'a exec = "(hart, trap, 'a) step"

definition SECREGS :: u64 where
  "SECREGS = push_bit 24 1 OR push_bit 25 1 OR push_bit 26 1 OR push_bit 27 1 OR
     push_bit 28 1 OR push_bit 29 1 OR push_bit 30 1 OR push_bit 31 1"

definition IS_SECREG :: "nat \<Rightarrow> bool" where
  "IS_SECREG reg \<longleftrightarrow> push_bit reg 1 AND SECREGS \<noteq> 0"

definition FP_SECREGS :: u64 where
  "FP_SECREGS = push_bit (24 + 32) 1 OR push_bit (25 + 32) 1 OR push_bit (26 + 32) 1 OR push_bit (27 + 32) 1 OR
     push_bit (28 + 32) 1 OR push_bit (29 + 32) 1 OR push_bit (30 + 32) 1 OR push_bit (31 + 32) 1"

definition IS_FP_SECREG :: "nat \<Rightarrow> bool" where
  "IS_FP_SECREG reg \<longleftrightarrow> push_bit (reg + 32) 1 AND FP_SECREGS \<noteq> 0"

definition SECREG_REF :: "config \<Rightarrow> nat \<Rightarrow> hart \<Rightarrow> bool" where
  "SECREG_REF c reg h \<longleftrightarrow> ext_zkmojov c \<and> secreg_mode h \<and> IS_SECREG reg"

definition FP_SECREG_REF :: "config \<Rightarrow> nat \<Rightarrow> hart \<Rightarrow> bool" where
  "FP_SECREG_REF c reg h \<longleftrightarrow> ext_zkmojov c \<and> secreg_mode h \<and> IS_FP_SECREG reg"

definition require :: "(hart \<Rightarrow> bool) \<Rightarrow> trap \<Rightarrow> unit exec" where
  "require P t = (\<lambda>h. if P h then return () h else abort t h)"

definition CHECK_LEAKY :: "nat \<Rightarrow> unit exec" where
  "CHECK_LEAKY reg = require (\<lambda>h. \<not> (secreg_mode h \<and> IS_SECREG reg)) Security"

definition CHECK_DATAGRANT_R :: "nat \<Rightarrow> unit exec" where
  "CHECK_DATAGRANT_R reg = require (\<lambda>h. \<not> (secreg_mode h \<and> datagrant_xpr h reg)) Security"

definition sm64_init :: u64 where "sm64_init = 0x9e3779b97f4a7c15"

definition sm64_hash64 :: "u64 \<Rightarrow> u64 \<Rightarrow> u64" where
  "sm64_hash64 h v =
    (let v = v + 0x9e3779b97f4a7c15;
         v = (v XOR drop_bit 30 v) * 0xbf58476d1ce4e5b9;
         v = (v XOR drop_bit 27 v) * 0x94d049bb133111eb;
         v = v XOR drop_bit 31 v
     in h XOR v)"

definition dfhash_gen :: "hart \<Rightarrow> u64" where
  "dfhash_gen h = foldl sm64_hash64 (hd (dfhash_input h)) (tl (dfhash_input h))"

definition DFHASH_REG_R :: "config \<Rightarrow> nat \<Rightarrow> unit exec" where
  "DFHASH_REG_R c reg = and_then (require (\<lambda>h. length (dfhash_input h) < 4) Assertion)
     (\<lambda>_. modify (\<lambda>h. h\<lparr>dfhash_input := dfhash_input h @ [if SECREG_REF c reg h then dfhash_xpr h reg else XPR h reg]\<rparr>))"

definition DFHASH_FREG_R :: "config \<Rightarrow> nat \<Rightarrow> unit exec" where
  "DFHASH_FREG_R c reg = and_then (require (\<lambda>h. length (dfhash_input h) < 4) Assertion)
     (\<lambda>_. modify (\<lambda>h. h\<lparr>dfhash_input := dfhash_input h @ [if FP_SECREG_REF c reg h then dfhash_fpr h reg else FPR h reg]\<rparr>))"

definition CHECK_REG_R :: "config \<Rightarrow> nat \<Rightarrow> unit exec" where
  "CHECK_REG_R c reg = and_then (CHECK_DATAGRANT_R reg) (\<lambda>_. and_then (DFHASH_REG_R c reg)
     (\<lambda>_. modify (\<lambda>h. h\<lparr>xpr_deps := xpr_deps h OR push_bit reg 1\<rparr>)))"

definition CHECK_FREG_R :: "config \<Rightarrow> nat \<Rightarrow> unit exec" where
  "CHECK_FREG_R c reg = and_then (DFHASH_FREG_R c reg)
     (\<lambda>_. modify (\<lambda>h. h\<lparr>xpr_deps := xpr_deps h OR push_bit (reg + 32) 1\<rparr>))"

definition READ_REG :: "config \<Rightarrow> nat \<Rightarrow> u64 exec" where
  "READ_REG c reg = and_then (CHECK_REG_R c reg) (\<lambda>_. get (\<lambda>h. XPR h reg))"

definition READ_FREG :: "config \<Rightarrow> nat \<Rightarrow> u64 exec" where
  "READ_FREG c reg = and_then (CHECK_FREG_R c reg) (\<lambda>_. get (\<lambda>h. FPR h reg))"

text \<open>\<^verbatim>\<open>BASE_RS1\<close>, \<^verbatim>\<open>BRPRED_RS1\<close> and \<^verbatim>\<open>CPTR_RS1\<close> are the same check before the read.\<close>

definition READ_PUBLIC :: "config \<Rightarrow> nat \<Rightarrow> u64 exec" where
  "READ_PUBLIC c reg = and_then (CHECK_LEAKY reg) (\<lambda>_. READ_REG c reg)"

definition CHECK_REG_W :: "nat \<Rightarrow> unit exec" where
  "CHECK_REG_W reg = and_then (require (\<lambda>h. 1 \<le> length (dfhash_input h) \<and> length (dfhash_input h) \<le> 4) Assertion)
     (\<lambda>_. and_then (modify (\<lambda>h. h\<lparr>dfhash_xpr := (dfhash_xpr h)(reg := dfhash_gen h)\<rparr>))
     (\<lambda>_. require (\<lambda>h. \<not> (secreg_mode h \<and> xpr_deps h AND (SECREGS OR FP_SECREGS) \<noteq> 0 \<and> \<not> IS_SECREG reg)) Security))"

definition CHECK_FREG_W :: "nat \<Rightarrow> unit exec" where
  "CHECK_FREG_W reg = and_then (require (\<lambda>h. 1 \<le> length (dfhash_input h) \<and> length (dfhash_input h) \<le> 4) Assertion)
     (\<lambda>_. and_then (modify (\<lambda>h. h\<lparr>dfhash_fpr := (dfhash_fpr h)(reg := dfhash_gen h)\<rparr>))
     (\<lambda>_. require (\<lambda>h. \<not> (secreg_mode h \<and> xpr_deps h AND (SECREGS OR FP_SECREGS) \<noteq> 0 \<and> \<not> IS_FP_SECREG reg)) Security))"

definition WRITE_REG :: "nat \<Rightarrow> u64 \<Rightarrow> unit exec" where
  "WRITE_REG reg wdata = and_then (CHECK_REG_W reg) (\<lambda>_.
     modify (\<lambda>h. h\<lparr>XPR := (if reg \<noteq> 0 then (XPR h)(reg := wdata) else XPR h),
                    datagrant_xpr := (datagrant_xpr h)(reg := False)\<rparr>))"

definition WRITE_FREG :: "nat \<Rightarrow> u64 \<Rightarrow> unit exec" where
  "WRITE_FREG reg wdata = and_then (CHECK_FREG_W reg) (\<lambda>_. modify (\<lambda>h. h\<lparr>FPR := (FPR h)(reg := wdata)\<rparr>))"

section \<open>Memory and the random source\<close>

definition peek :: "hart \<Rightarrow> u64 \<Rightarrow> nat \<Rightarrow> u8 list" where
  "peek h addr n = map (\<lambda>i. memory h (addr + of_nat i)) [0..<n]"

definition poke :: "(u64 \<Rightarrow> u8) \<Rightarrow> u64 \<Rightarrow> u8 list \<Rightarrow> u64 \<Rightarrow> u8" where
  "poke m addr bs = fold (\<lambda>i m. m(addr + of_nat i := bs ! i)) [0..<length bs] m"

definition mmu_load :: "config \<Rightarrow> nat \<Rightarrow> u64 \<Rightarrow> u8 list exec" where
  "mmu_load c n addr = and_then (require (\<lambda>_. load_ok c addr n) Load_fault) (\<lambda>_. get (\<lambda>h. peek h addr n))"

definition mmu_store :: "config \<Rightarrow> u64 \<Rightarrow> u8 list \<Rightarrow> unit exec" where
  "mmu_store c addr bs = and_then (require (\<lambda>_. store_ok c addr (length bs)) Store_fault)
     (\<lambda>_. modify (\<lambda>h. h\<lparr>memory := poke (memory h) addr bs\<rparr>))"

definition mojov_trng64 :: "config \<Rightarrow> u64 exec" where
  "mojov_trng64 c h = (let r = (\<lambda>i. ucast (host_rand c (draws h + i) AND 0xffff) :: u64) in
     (h\<lparr>draws := draws h + 4\<rparr>,
      Inr (r 0 OR push_bit 16 (r 1) OR push_bit 32 (r 2) OR push_bit 48 (r 3))))"

section \<open>Integer instructions\<close>

definition op_rr :: "config \<Rightarrow> (u64 \<Rightarrow> u64 \<Rightarrow> u64) \<Rightarrow> nat \<Rightarrow> nat \<Rightarrow> nat \<Rightarrow> unit exec" where
  "op_rr c f rd rs1 rs2 = and_then (READ_REG c rs1) (\<lambda>a. and_then (READ_REG c rs2) (\<lambda>b. WRITE_REG rd (f a b)))"

definition op_ri :: "config \<Rightarrow> (u64 \<Rightarrow> u64) \<Rightarrow> nat \<Rightarrow> nat \<Rightarrow> unit exec" where
  "op_ri c f rd rs1 = and_then (READ_REG c rs1) (\<lambda>a. WRITE_REG rd (f a))"

definition sext32 :: "u64 \<Rightarrow> u64" where "sext32 x = scast (ucast x :: u32)"

text \<open>Division never traps: by zero it gives all ones (the remainder the dividend), and the one
  signed overflow gives the dividend (the remainder zero).\<close>

definition insn_div :: "u64 \<Rightarrow> u64 \<Rightarrow> u64" where
  "insn_div lhs rhs =
     (if rhs = 0 then NOT 0
      else if sint lhs = - (2 ^ 63) \<and> sint rhs = -1 then lhs
      else word_of_int (sint lhs sdiv sint rhs))"

definition insn_rem :: "u64 \<Rightarrow> u64 \<Rightarrow> u64" where
  "insn_rem lhs rhs =
     (if rhs = 0 then lhs
      else if sint lhs = - (2 ^ 63) \<and> sint rhs = -1 then 0
      else word_of_int (sint lhs smod sint rhs))"

definition insn_divu :: "u64 \<Rightarrow> u64 \<Rightarrow> u64" where
  "insn_divu lhs rhs = (if rhs = 0 then NOT 0 else lhs div rhs)"

definition insn_remu :: "u64 \<Rightarrow> u64 \<Rightarrow> u64" where
  "insn_remu lhs rhs = (if rhs = 0 then lhs else lhs mod rhs)"

definition insn_czero_eqz :: "u64 \<Rightarrow> u64 \<Rightarrow> u64" where
  "insn_czero_eqz a b = (if b = 0 then 0 else a)"

definition insn_czero_nez :: "u64 \<Rightarrow> u64 \<Rightarrow> u64" where
  "insn_czero_nez a b = (if b \<noteq> 0 then 0 else a)"

datatype alu = ADD | SUB | ANDD | ORR | XORR | SLL | SRL | SRA | SLT | SLTU | MUL | ADDW | SUBW | SLLW
  | DIVS | DIVU | REMS | REMU | CZERO_EQZ | CZERO_NEZ

fun alu_value :: "alu \<Rightarrow> u64 \<Rightarrow> u64 \<Rightarrow> u64" where
  "alu_value ADD a b = a + b"
| "alu_value SUB a b = a - b"
| "alu_value ANDD a b = a AND b"
| "alu_value ORR a b = a OR b"
| "alu_value XORR a b = a XOR b"
| "alu_value SLL a b = push_bit (unat (b AND 63)) a"
| "alu_value SRL a b = drop_bit (unat (b AND 63)) a"
| "alu_value SRA a b = signed_drop_bit (unat (b AND 63)) a"
| "alu_value SLT a b = of_bool (sint a < sint b)"
| "alu_value SLTU a b = of_bool (a < b)"
| "alu_value MUL a b = a * b"
| "alu_value ADDW a b = sext32 (a + b)"
| "alu_value SUBW a b = sext32 (a - b)"
| "alu_value SLLW a b = sext32 (push_bit (unat (b AND 0x1F)) a)"
| "alu_value DIVS a b = insn_div a b"
| "alu_value DIVU a b = insn_divu a b"
| "alu_value REMS a b = insn_rem a b"
| "alu_value REMU a b = insn_remu a b"
| "alu_value CZERO_EQZ a b = insn_czero_eqz a b"
| "alu_value CZERO_NEZ a b = insn_czero_nez a b"

definition set_pc :: "config \<Rightarrow> u64 \<Rightarrow> unit exec" where
  "set_pc c x = and_then (require (\<lambda>_. x AND (if ialign16 c then 0 else 2) = 0) Misaligned)
     (\<lambda>_. modify (\<lambda>h. h\<lparr>npc := x\<rparr>))"

datatype branch = BEQ | BNE | BLT | BGE | BLTU | BGEU

fun taken :: "branch \<Rightarrow> u64 \<Rightarrow> u64 \<Rightarrow> bool" where
  "taken BEQ a b = (a = b)"
| "taken BNE a b = (a \<noteq> b)"
| "taken BLT a b = (sint a < sint b)"
| "taken BGE a b = (sint a \<ge> sint b)"
| "taken BLTU a b = (a < b)"
| "taken BGEU a b = (a \<ge> b)"

definition insn_branch :: "config \<Rightarrow> branch \<Rightarrow> u64 \<Rightarrow> nat \<Rightarrow> nat \<Rightarrow> u64 \<Rightarrow> unit exec" where
  "insn_branch c b pc rs1 rs2 imm = and_then (READ_PUBLIC c rs1) (\<lambda>x. and_then (READ_PUBLIC c rs2) (\<lambda>y.
     if taken b x y then set_pc c (pc + imm) else return ()))"

definition insn_jal :: "config \<Rightarrow> u64 \<Rightarrow> nat \<Rightarrow> u64 \<Rightarrow> unit exec" where
  "insn_jal c pc rd imm = and_then (CHECK_REG_W rd) (\<lambda>_. and_then (get npc) (\<lambda>tmp.
     and_then (set_pc c (pc + imm)) (\<lambda>_. WRITE_REG rd tmp)))"

definition insn_jalr :: "config \<Rightarrow> nat \<Rightarrow> nat \<Rightarrow> u64 \<Rightarrow> unit exec" where
  "insn_jalr c rd rs1 imm = and_then (get npc) (\<lambda>tmp. and_then (READ_PUBLIC c rs1) (\<lambda>x.
     and_then (set_pc c ((x + imm) AND NOT 1)) (\<lambda>_. WRITE_REG rd tmp)))"

datatype width = LB | LBU | LH | LHU | LW | LWU | LD

fun load_bytes :: "width \<Rightarrow> nat" where
  "load_bytes LB = 1" | "load_bytes LBU = 1" | "load_bytes LH = 2" | "load_bytes LHU = 2"
| "load_bytes LW = 4" | "load_bytes LWU = 4" | "load_bytes LD = 8"

fun load_extend :: "width \<Rightarrow> u8 list \<Rightarrow> u64" where
  "load_extend LB bs = scast (le_word bs :: u8)"
| "load_extend LH bs = scast (le_word bs :: u16)"
| "load_extend LW bs = scast (le_word bs :: u32)"
| "load_extend _ bs = le_word bs"

definition insn_load :: "config \<Rightarrow> width \<Rightarrow> nat \<Rightarrow> nat \<Rightarrow> u64 \<Rightarrow> unit exec" where
  "insn_load c w rd rs1 imm = and_then (READ_PUBLIC c rs1) (\<lambda>x.
     and_then (mmu_load c (load_bytes w) (x + imm)) (\<lambda>bs. WRITE_REG rd (load_extend w bs)))"

text \<open>Stores of \<open>n\<close> bytes: sb, sh, sw and sd differ only in the width.\<close>

definition insn_store :: "config \<Rightarrow> nat \<Rightarrow> nat \<Rightarrow> nat \<Rightarrow> u64 \<Rightarrow> unit exec" where
  "insn_store c n rs1 rs2 imm = and_then (require (\<lambda>h. \<not> SECREG_REF c rs2 h) Security) (\<lambda>_.
     and_then (READ_PUBLIC c rs1) (\<lambda>x. and_then (READ_REG c rs2) (\<lambda>v.
     mmu_store c (x + imm) (le_bytes n v))))"

definition insn_fld :: "config \<Rightarrow> nat \<Rightarrow> nat \<Rightarrow> u64 \<Rightarrow> unit exec" where
  "insn_fld c rd rs1 imm = and_then (READ_PUBLIC c rs1) (\<lambda>x.
     and_then (mmu_load c 8 (x + imm)) (\<lambda>bs. WRITE_FREG rd (le_word bs)))"

definition insn_fsd :: "config \<Rightarrow> nat \<Rightarrow> nat \<Rightarrow> u64 \<Rightarrow> unit exec" where
  "insn_fsd c rs1 rs2 imm = and_then (require (\<lambda>h. \<not> FP_SECREG_REF c rs2 h) Security) (\<lambda>_.
     and_then (READ_PUBLIC c rs1) (\<lambda>x. and_then (READ_FREG c rs2) (\<lambda>v.
     mmu_store c (x + imm) (le_bytes 8 v))))"

definition insn_fmv_x_d :: "config \<Rightarrow> nat \<Rightarrow> nat \<Rightarrow> unit exec" where
  "insn_fmv_x_d c rd rs1 = and_then (READ_FREG c rs1) (WRITE_REG rd)"

definition insn_fmv_d_x :: "config \<Rightarrow> nat \<Rightarrow> nat \<Rightarrow> unit exec" where
  "insn_fmv_d_x c rd rs1 = and_then (READ_REG c rs1) (WRITE_FREG rd)"

section \<open>Encrypted packets\<close>

text \<open>
  The memory formats of \<^verbatim>\<open>decode_macros.h\<close>: unions of one (fast) or two (strong,
  proof carrying) 128-bit ciphertext words with the plaintext fields.
\<close>

record mojov_mem_fast = fval :: u64  fsalt :: u32  fauth_sig :: u32

record mojov_mem_strong = sval :: u64  ssalt :: u64  sauth_sig :: u64  smetadata :: u64

definition fast_ct :: "mojov_mem_fast \<Rightarrow> u128" where
  "fast_ct p = le_word (le_bytes 8 (fval p) @ le_bytes 4 (fsalt p) @ le_bytes 4 (fauth_sig p))"

definition fast_pt :: "u128 \<Rightarrow> mojov_mem_fast" where
  "fast_pt w = (let bs = le_bytes 16 w in
     \<lparr>fval = le_word (take 8 bs), fsalt = le_word (take 4 (drop 8 bs)), fauth_sig = le_word (drop 12 bs)\<rparr>)"

definition strong_ct :: "mojov_mem_strong \<Rightarrow> u128 \<times> u128" where
  "strong_ct p = (le_word (le_bytes 8 (sval p) @ le_bytes 8 (ssalt p)),
     le_word (le_bytes 8 (sauth_sig p) @ le_bytes 8 (smetadata p)))"

definition strong_pt :: "u128 \<times> u128 \<Rightarrow> mojov_mem_strong" where
  "strong_pt = (\<lambda>(lo, hi). let a = le_bytes 16 lo; b = le_bytes 16 hi in
     \<lparr>sval = le_word (take 8 a), ssalt = le_word (drop 8 a),
      sauth_sig = le_word (take 8 b), smetadata = le_word (drop 8 b)\<rparr>)"

text \<open>The cipher core under the hart's key; the routines stay inside their buffers.\<close>

definition core_encrypt :: "u128 \<Rightarrow> hart \<Rightarrow> u128 option" where
  "core_encrypt p h = simon_128_128_encrypt (cipher h) p"

definition core_decrypt :: "u128 \<Rightarrow> hart \<Rightarrow> u128 option" where
  "core_decrypt ct h = simon_128_128_decrypt (cipher h) ct"

definition run_core :: "(hart \<Rightarrow> 'a option) \<Rightarrow> 'a exec" where
  "run_core f = (\<lambda>h. case f h of None \<Rightarrow> abort Assertion h | Some v \<Rightarrow> return v h)"

definition FORMAT_SEL :: "hart \<Rightarrow> u64" where
  "FORMAT_SEL h = drop_bit 2 (mojov_cfg_read h AND 0xc)"

text \<open>A two-word packet is chained: the high word is combined with the low ciphertext.\<close>

definition encrypt_strong :: "mojov_mem_strong \<Rightarrow> (u128 \<times> u128) exec" where
  "encrypt_strong p = (let (lo, hi) = strong_ct p in
     and_then (run_core (core_encrypt lo)) (\<lambda>clo. and_then (run_core (core_encrypt (hi XOR clo))) (\<lambda>chi.
     return (clo, chi))))"

definition decrypt_strong :: "u128 \<times> u128 \<Rightarrow> mojov_mem_strong exec" where
  "decrypt_strong = (\<lambda>(clo, chi).
     and_then (run_core (core_decrypt clo)) (\<lambda>lo. and_then (run_core (core_decrypt chi)) (\<lambda>hi.
     return (strong_pt (lo, hi XOR clo)))))"

definition load_pair :: "config \<Rightarrow> nat \<Rightarrow> u64 \<Rightarrow> (u128 \<times> u128) exec" where
  "load_pair c rs1 imm = and_then (READ_PUBLIC c rs1) (\<lambda>base.
     and_then (mmu_load c 16 (base + imm)) (\<lambda>lo. and_then (mmu_load c 16 ((base + imm) + 16)) (\<lambda>hi.
     return (le_word lo, le_word hi))))"

definition store_pair :: "config \<Rightarrow> nat \<Rightarrow> u64 \<Rightarrow> u128 \<times> u128 \<Rightarrow> unit exec" where
  "store_pair c rs1 imm = (\<lambda>(lo, hi). and_then (READ_PUBLIC c rs1) (\<lambda>base.
     and_then (mmu_store c (base + imm) (le_bytes 16 lo)) (\<lambda>_. mmu_store c ((base + imm) + 16) (le_bytes 16 hi))))"

definition load_fast :: "config \<Rightarrow> nat \<Rightarrow> u64 \<Rightarrow> mojov_mem_fast exec" where
  "load_fast c rs1 imm = and_then (READ_PUBLIC c rs1) (\<lambda>base. and_then (mmu_load c 16 (base + imm)) (\<lambda>bs.
     and_then (run_core (core_decrypt (le_word bs))) (\<lambda>p. return (fast_pt p))))"

definition store_fast :: "config \<Rightarrow> nat \<Rightarrow> u64 \<Rightarrow> mojov_mem_fast \<Rightarrow> unit exec" where
  "store_fast c rs1 imm p = and_then (run_core (core_encrypt (fast_ct p))) (\<lambda>ct.
     and_then (READ_PUBLIC c rs1) (\<lambda>base. mmu_store c (base + imm) (le_bytes 16 ct)))"

section \<open>Mojo-V instructions\<close>

definition by_format :: "unit exec \<Rightarrow> unit exec \<Rightarrow> unit exec \<Rightarrow> unit exec" where
  "by_format fast strong proof = (\<lambda>h.
     if FORMAT_SEL h = FORMAT_SEL_FAST then fast h
     else if FORMAT_SEL h = FORMAT_SEL_STRONG then strong h
     else if FORMAT_SEL h = FORMAT_SEL_PROOFCARRYING then proof h
     else abort Security h)"

definition insn_lde :: "config \<Rightarrow> nat \<Rightarrow> nat \<Rightarrow> u64 \<Rightarrow> unit exec" where
  "insn_lde c rd rs1 imm = and_then (require (\<lambda>_. ext_zkmojov c) Illegal) (\<lambda>_.
     and_then (require (\<lambda>h. secreg_mode h \<and> IS_SECREG rd) Security) (\<lambda>_.
     by_format
      (and_then (load_fast c rs1 imm) (\<lambda>p.
       and_then (require (\<lambda>h. fauth_sig p = ucast (contract_sig (mojov_dc h))) Security) (\<lambda>_.
       WRITE_REG rd (fval p))))
      (and_then (load_pair c rs1 imm) (\<lambda>ct. and_then (decrypt_strong ct) (\<lambda>p.
       and_then (require (\<lambda>h. sauth_sig p = contract_sig (mojov_dc h)) Security) (\<lambda>_.
       WRITE_REG rd (sval p)))))
      (and_then (load_pair c rs1 imm) (\<lambda>ct. and_then (decrypt_strong ct) (\<lambda>p.
       and_then (get (\<lambda>h. contract_sig (mojov_dc h))) (\<lambda>csig.
       let is_datagrant = (sauth_sig p = csig + 1) in
       and_then (require (\<lambda>_. sauth_sig p = csig \<or> is_datagrant) Security) (\<lambda>_.
       and_then (WRITE_REG rd (sval p)) (\<lambda>_.
       modify (\<lambda>h. h\<lparr>datagrant_xpr := (datagrant_xpr h)(rd := is_datagrant),
         dfhash_xpr := (dfhash_xpr h)(rd := if is_datagrant then 0 else smetadata p)\<rparr>)))))))))"

definition insn_flde :: "config \<Rightarrow> nat \<Rightarrow> nat \<Rightarrow> u64 \<Rightarrow> unit exec" where
  "insn_flde c rd rs1 imm = and_then (require (\<lambda>_. ext_zkmojov c) Illegal) (\<lambda>_.
     and_then (require (\<lambda>h. secreg_mode h \<and> IS_FP_SECREG rd) Security) (\<lambda>_.
     by_format
      (and_then (load_fast c rs1 imm) (\<lambda>p.
       and_then (require (\<lambda>h. fauth_sig p = ucast (contract_sig (mojov_dc h))) Security) (\<lambda>_.
       WRITE_FREG rd (fval p))))
      (and_then (load_pair c rs1 imm) (\<lambda>ct. and_then (decrypt_strong ct) (\<lambda>p.
       and_then (require (\<lambda>h. sauth_sig p = contract_sig (mojov_dc h)) Security) (\<lambda>_.
       WRITE_FREG rd (sval p)))))
      (and_then (load_pair c rs1 imm) (\<lambda>ct. and_then (decrypt_strong ct) (\<lambda>p.
       and_then (require (\<lambda>h. sauth_sig p = contract_sig (mojov_dc h)) Security) (\<lambda>_.
       and_then (WRITE_FREG rd (sval p)) (\<lambda>_.
       modify (\<lambda>h. h\<lparr>dfhash_fpr := (dfhash_fpr h)(rd := smetadata p)\<rparr>))))))))"

definition insn_sde :: "config \<Rightarrow> nat \<Rightarrow> nat \<Rightarrow> u64 \<Rightarrow> unit exec" where
  "insn_sde c rs1 rs2 imm = and_then (require (\<lambda>_. ext_zkmojov c) Illegal) (\<lambda>_.
     and_then (require (\<lambda>h. secreg_mode h \<and> IS_SECREG rs2) Security) (\<lambda>_.
     by_format
      (and_then (READ_REG c rs2) (\<lambda>v. and_then (mojov_trng64 c) (\<lambda>r.
       and_then (get (\<lambda>h. ucast (contract_sig (mojov_dc h)))) (\<lambda>g.
       store_fast c rs1 imm \<lparr>fval = v, fsalt = ucast r, fauth_sig = g\<rparr>))))
      (and_then (READ_REG c rs2) (\<lambda>v. and_then (mojov_trng64 c) (\<lambda>r.
       and_then (get (\<lambda>h. contract_sig (mojov_dc h))) (\<lambda>g.
       and_then (encrypt_strong \<lparr>sval = v, ssalt = r, sauth_sig = g, smetadata = 0\<rparr>)
       (store_pair c rs1 imm)))))
      (and_then (READ_REG c rs2) (\<lambda>v. and_then (mojov_trng64 c) (\<lambda>r.
       and_then (get (\<lambda>h. (contract_sig (mojov_dc h), dfhash_xpr h rs2))) (\<lambda>(g, d).
       and_then (encrypt_strong \<lparr>sval = v, ssalt = r, sauth_sig = g, smetadata = d\<rparr>)
       (store_pair c rs1 imm)))))))"

definition insn_fsde :: "config \<Rightarrow> nat \<Rightarrow> nat \<Rightarrow> u64 \<Rightarrow> unit exec" where
  "insn_fsde c rs1 rs2 imm = and_then (require (\<lambda>_. ext_zkmojov c) Illegal) (\<lambda>_.
     and_then (require (\<lambda>h. secreg_mode h \<and> IS_FP_SECREG rs2) Security) (\<lambda>_.
     by_format
      (and_then (READ_FREG c rs2) (\<lambda>v. and_then (mojov_trng64 c) (\<lambda>r.
       and_then (get (\<lambda>h. ucast (contract_sig (mojov_dc h)))) (\<lambda>g.
       store_fast c rs1 imm \<lparr>fval = v, fsalt = ucast r, fauth_sig = g\<rparr>))))
      (and_then (READ_FREG c rs2) (\<lambda>v. and_then (mojov_trng64 c) (\<lambda>r.
       and_then (get (\<lambda>h. contract_sig (mojov_dc h))) (\<lambda>g.
       and_then (encrypt_strong \<lparr>sval = v, ssalt = r, sauth_sig = g, smetadata = 0\<rparr>)
       (store_pair c rs1 imm)))))
      (and_then (READ_FREG c rs2) (\<lambda>v. and_then (mojov_trng64 c) (\<lambda>r.
       and_then (get (\<lambda>h. (contract_sig (mojov_dc h), dfhash_fpr h rs2))) (\<lambda>(g, d).
       and_then (encrypt_strong \<lparr>sval = v, ssalt = r, sauth_sig = g, smetadata = d\<rparr>)
       (store_pair c rs1 imm)))))))"

definition insn_disc :: "config \<Rightarrow> nat \<Rightarrow> nat \<Rightarrow> nat \<Rightarrow> unit exec" where
  "insn_disc c rd rs1 rs2 = and_then (require (\<lambda>_. ext_zkmojov c) Illegal) (\<lambda>_.
     and_then (require (\<lambda>h. secreg_mode h \<and> FORMAT_SEL h = FORMAT_SEL_PROOFCARRYING \<and>
        IS_SECREG rs1 \<and> datagrant_xpr h rs2) Security) (\<lambda>_.
     and_then (require (\<lambda>h. \<not> (\<not> IS_SECREG rd \<and> dfhash_xpr h rs1 \<noteq> XPR h rs2)) Security) (\<lambda>_.
     and_then (get (\<lambda>h. XPR h rs1)) (WRITE_REG rd))))"

definition insn_fdisc :: "config \<Rightarrow> nat \<Rightarrow> nat \<Rightarrow> nat \<Rightarrow> unit exec" where
  "insn_fdisc c rd rs1 rs2 = and_then (require (\<lambda>_. ext_zkmojov c) Illegal) (\<lambda>_.
     and_then (require (\<lambda>h. secreg_mode h \<and> FORMAT_SEL h = FORMAT_SEL_PROOFCARRYING \<and>
        IS_FP_SECREG rs1 \<and> datagrant_xpr h rs2) Security) (\<lambda>_.
     and_then (require (\<lambda>h. \<not> (\<not> IS_SECREG rd \<and> dfhash_fpr h rs1 \<noteq> XPR h rs2)) Security) (\<lambda>_.
     and_then (get (\<lambda>h. FPR h rs1)) (WRITE_REG rd))))"

definition insn_certrng :: "config \<Rightarrow> nat \<Rightarrow> nat \<Rightarrow> unit exec" where
  "insn_certrng c rd rs1 = and_then (require (\<lambda>_. ext_zkmojov c) Illegal) (\<lambda>_.
     and_then (require (\<lambda>h. secreg_mode h \<and> mojov_dcvalid h \<and> IS_SECREG rd \<and> rs1 = 0) Security) (\<lambda>_.
     and_then (mojov_trng64 c) (WRITE_REG rd)))"

section \<open>Control register instructions\<close>

text \<open>On the Mojo-V registers; \<open>wr\<close> performs the write of the hart's surroundings.\<close>

definition insn_csrrw :: "config \<Rightarrow> (csr \<Rightarrow> u64 \<Rightarrow> hart \<Rightarrow> hart) \<Rightarrow> nat \<Rightarrow> nat \<Rightarrow> csr \<Rightarrow> unit exec" where
  "insn_csrrw c wr rd rs1 r = and_then (require (\<lambda>_. ext_zkmojov c) Illegal) (\<lambda>_.
     and_then (require (\<lambda>h. \<not> SECREG_REF c rs1 h) Security) (\<lambda>_.
     and_then (get (csr_read r)) (\<lambda>old. and_then (READ_REG c rs1) (\<lambda>v.
     and_then (modify (wr r v)) (\<lambda>_. WRITE_REG rd old)))))"

definition insn_csrrs :: "config \<Rightarrow> (csr \<Rightarrow> u64 \<Rightarrow> hart \<Rightarrow> hart) \<Rightarrow> nat \<Rightarrow> nat \<Rightarrow> csr \<Rightarrow> unit exec" where
  "insn_csrrs c wr rd rs1 r = and_then (require (\<lambda>_. ext_zkmojov c) Illegal) (\<lambda>_.
     and_then (require (\<lambda>h. \<not> SECREG_REF c rs1 h) Security) (\<lambda>_.
     and_then (get (csr_read r)) (\<lambda>old.
     and_then (if rs1 \<noteq> 0 then and_then (READ_REG c rs1) (\<lambda>v. modify (wr r (old OR v))) else return ())
     (\<lambda>_. WRITE_REG rd old))))"

definition insn_csrrc :: "config \<Rightarrow> (csr \<Rightarrow> u64 \<Rightarrow> hart \<Rightarrow> hart) \<Rightarrow> nat \<Rightarrow> nat \<Rightarrow> csr \<Rightarrow> unit exec" where
  "insn_csrrc c wr rd rs1 r = and_then (require (\<lambda>_. ext_zkmojov c) Illegal) (\<lambda>_.
     and_then (require (\<lambda>h. \<not> SECREG_REF c rs1 h) Security) (\<lambda>_.
     and_then (get (csr_read r)) (\<lambda>old.
     and_then (if rs1 \<noteq> 0 then and_then (READ_REG c rs1) (\<lambda>v. modify (wr r (old AND NOT v))) else return ())
     (\<lambda>_. WRITE_REG rd old))))"

section \<open>One instruction\<close>

datatype insn =
    I_alu alu nat nat nat
  | I_addi nat nat u64 | I_xori nat nat u64 | I_ori nat nat u64 | I_andi nat nat u64
  | I_slti nat nat u64 | I_sltiu nat nat u64 | I_slli nat nat nat | I_srli nat nat nat | I_srai nat nat nat
  | I_addiw nat nat u64 | I_lui nat u64 | I_auipc nat u64
  | I_branch branch nat nat u64 | I_jal nat u64 | I_jalr nat nat u64
  | I_load width nat nat u64 | I_store nat nat nat u64
  | I_fld nat nat u64 | I_fsd nat nat u64 | I_fmv_x_d nat nat | I_fmv_d_x nat nat
  | I_lde nat nat u64 | I_sde nat nat u64 | I_flde nat nat u64 | I_fsde nat nat u64
  | I_disc nat nat nat | I_fdisc nat nat nat | I_certrng nat nat
  | I_csrrw nat nat csr | I_csrrs nat nat csr | I_csrrc nat nat csr

fun exec_insn :: "config \<Rightarrow> (csr \<Rightarrow> u64 \<Rightarrow> hart \<Rightarrow> hart) \<Rightarrow> u64 \<Rightarrow> insn \<Rightarrow> unit exec" where
  "exec_insn c wr pc (I_alu f rd rs1 rs2) = op_rr c (alu_value f) rd rs1 rs2"
| "exec_insn c wr pc (I_addi rd rs1 imm) = op_ri c (\<lambda>a. a + imm) rd rs1"
| "exec_insn c wr pc (I_xori rd rs1 imm) = op_ri c (\<lambda>a. imm XOR a) rd rs1"
| "exec_insn c wr pc (I_ori rd rs1 imm) = op_ri c (\<lambda>a. imm OR a) rd rs1"
| "exec_insn c wr pc (I_andi rd rs1 imm) = op_ri c (\<lambda>a. imm AND a) rd rs1"
| "exec_insn c wr pc (I_slti rd rs1 imm) = op_ri c (\<lambda>a. of_bool (sint a < sint imm)) rd rs1"
| "exec_insn c wr pc (I_sltiu rd rs1 imm) = op_ri c (\<lambda>a. of_bool (a < imm)) rd rs1"
| "exec_insn c wr pc (I_slli rd rs1 sh) = op_ri c (push_bit (sh mod 64)) rd rs1"
| "exec_insn c wr pc (I_srli rd rs1 sh) = op_ri c (drop_bit (sh mod 64)) rd rs1"
| "exec_insn c wr pc (I_srai rd rs1 sh) = op_ri c (signed_drop_bit (sh mod 64)) rd rs1"
| "exec_insn c wr pc (I_addiw rd rs1 imm) = op_ri c (\<lambda>a. sext32 (imm + a)) rd rs1"
| "exec_insn c wr pc (I_lui rd imm) = WRITE_REG rd imm"
| "exec_insn c wr pc (I_auipc rd imm) = WRITE_REG rd (imm + pc)"
| "exec_insn c wr pc (I_branch b rs1 rs2 imm) = insn_branch c b pc rs1 rs2 imm"
| "exec_insn c wr pc (I_jal rd imm) = insn_jal c pc rd imm"
| "exec_insn c wr pc (I_jalr rd rs1 imm) = insn_jalr c rd rs1 imm"
| "exec_insn c wr pc (I_load w rd rs1 imm) = insn_load c w rd rs1 imm"
| "exec_insn c wr pc (I_store n rs1 rs2 imm) = insn_store c n rs1 rs2 imm"
| "exec_insn c wr pc (I_fld rd rs1 imm) = insn_fld c rd rs1 imm"
| "exec_insn c wr pc (I_fsd rs1 rs2 imm) = insn_fsd c rs1 rs2 imm"
| "exec_insn c wr pc (I_fmv_x_d rd rs1) = insn_fmv_x_d c rd rs1"
| "exec_insn c wr pc (I_fmv_d_x rd rs1) = insn_fmv_d_x c rd rs1"
| "exec_insn c wr pc (I_lde rd rs1 imm) = insn_lde c rd rs1 imm"
| "exec_insn c wr pc (I_sde rs1 rs2 imm) = insn_sde c rs1 rs2 imm"
| "exec_insn c wr pc (I_flde rd rs1 imm) = insn_flde c rd rs1 imm"
| "exec_insn c wr pc (I_fsde rs1 rs2 imm) = insn_fsde c rs1 rs2 imm"
| "exec_insn c wr pc (I_disc rd rs1 rs2) = insn_disc c rd rs1 rs2"
| "exec_insn c wr pc (I_fdisc rd rs1 rs2) = insn_fdisc c rd rs1 rs2"
| "exec_insn c wr pc (I_certrng rd rs1) = insn_certrng c rd rs1"
| "exec_insn c wr pc (I_csrrw rd rs1 r) = insn_csrrw c wr rd rs1 r"
| "exec_insn c wr pc (I_csrrs rd rs1 r) = insn_csrrs c wr rd rs1 r"
| "exec_insn c wr pc (I_csrrc rd rs1 r) = insn_csrrc c wr rd rs1 r"

text \<open>
  \<^verbatim>\<open>execute_insn_fast\<close>: the dataflow tracker starts with the hash of the instruction
  bits, no dependencies, and the next instruction in line (of \<open>len\<close> bytes).
\<close>

definition execute_insn ::
  "config \<Rightarrow> (csr \<Rightarrow> u64 \<Rightarrow> hart \<Rightarrow> hart) \<Rightarrow> u64 \<Rightarrow> u64 \<Rightarrow> u64 \<Rightarrow> insn \<Rightarrow> unit exec" where
  "execute_insn c wr pc bits len i h = (let opcode = push_bit 32 bits OR bits in
     exec_insn c wr pc i (h\<lparr>dfhash_input := [sm64_hash64 sm64_init opcode], xpr_deps := 0, npc := pc + len\<rparr>))"

end
