(* ===== verification/Mojov_Proofs.thy ===== *)
theory Mojov_Proofs
  imports Mojov_Insns
begin

text \<open>
  The mode and contract invariant of a hart: secret mode is on exactly when the
  configuration register says so, and then a contract with a valid signature is open and
  the cipher core is keyed by it; the public key region of the KMSM keeps its contents.
  Every instruction and every control register access preserves it; a reset does not.
\<close>

section \<open>The secret registers\<close>

lemma reg_mask: "push_bit r 1 AND (m :: u64) \<noteq> 0 \<longleftrightarrow> bit m r"
  unfolding bit_iff_and_push_bit_not_eq_0 [of m r] by (simp add: and.commute)

lemma bit_one_hot: "k < 64 \<Longrightarrow> bit (push_bit k 1 :: u64) r \<longleftrightarrow> r = k"
  by (auto simp: bit_push_bit_iff bit_1_iff simp del: push_bit_of_1)

lemma bit_SECREGS: "bit SECREGS r \<longleftrightarrow> 24 \<le> r \<and> r < 32"
proof -
  have "bit SECREGS r \<longleftrightarrow> r = 24 \<or> r = 25 \<or> r = 26 \<or> r = 27 \<or> r = 28 \<or> r = 29 \<or> r = 30 \<or> r = 31"
    unfolding SECREGS_def bit_or_iff by (simp only: bit_one_hot arith_simps rel_simps disj_assoc)
  then show ?thesis by presburger
qed

lemma bit_FP_SECREGS: "bit FP_SECREGS r \<longleftrightarrow> 56 \<le> r \<and> r < 64"
proof -
  have "bit FP_SECREGS r \<longleftrightarrow> r = 56 \<or> r = 57 \<or> r = 58 \<or> r = 59 \<or> r = 60 \<or> r = 61 \<or> r = 62 \<or> r = 63"
    unfolding FP_SECREGS_def bit_or_iff by (simp only: bit_one_hot arith_simps rel_simps disj_assoc)
  then show ?thesis by presburger
qed

lemma IS_SECREG_iff: "IS_SECREG r \<longleftrightarrow> 24 \<le> r \<and> r < 32"
  by (simp only: IS_SECREG_def reg_mask bit_SECREGS)

lemma IS_FP_SECREG_iff: "IS_FP_SECREG r \<longleftrightarrow> 24 \<le> r \<and> r < 32"
  unfolding IS_FP_SECREG_def reg_mask bit_FP_SECREGS by auto

definition tainted :: "hart \<Rightarrow> bool" where
  "tainted h \<longleftrightarrow> xpr_deps h AND (SECREGS OR FP_SECREGS) \<noteq> 0"

lemma taint_or: "(d OR e) AND (m :: u64) \<noteq> 0 \<longleftrightarrow> d AND m \<noteq> 0 \<or> e AND m \<noteq> 0"
  by (simp add: bit.conj_disj_distrib2 or_eq_0_iff)

lemma taint_reg:
  "IS_SECREG r \<Longrightarrow> push_bit r 1 AND (SECREGS OR FP_SECREGS) \<noteq> 0"
  "IS_FP_SECREG r \<Longrightarrow> push_bit (r + 32) 1 AND (SECREGS OR FP_SECREGS) \<noteq> 0"
  unfolding reg_mask bit_or_iff bit_SECREGS bit_FP_SECREGS IS_SECREG_iff IS_FP_SECREG_iff by auto

section \<open>What a hart keeps\<close>

definition keyed :: "hart \<Rightarrow> bool" where
  "keyed h \<longleftrightarrow> (\<exists>y b. length (key_schedule y) = 576 \<and>
     simon_128_128_keyexpand y (le_word (sym_key_128 (mojov_dc h))) 68 = Some (cipher h, b))"

definition hart_inv :: "config \<Rightarrow> hart \<Rightarrow> bool" where
  "hart_inv c h \<longleftrightarrow>
     (secreg_mode h \<longleftrightarrow> bit (mojov_cfg_val h) 0) \<and>
     (secreg_mode h \<longrightarrow> mojov_dcvalid h) \<and>
     (mojov_dcvalid h \<longrightarrow> sig (mojov_dc h) = sig_str \<and> keyed h) \<and>
     length (key_schedule (cipher h)) = 576 \<and>
     length (kmsm_bytes h) = kmsm_bytes_total \<and>
     kmsm_enckey_bytes h \<le> enckey_bytes \<and> kmsm_encdc_bytes h \<le> encdc_bytes \<and>
     take pubkey_bytes (kmsm_bytes h)
       = take pubkey_bytes (mojov_pk_der c @ replicate pubkey_bytes 0)"

text \<open>The fields the invariant speaks about.\<close>

definition core :: "hart \<Rightarrow> bool \<times> simon_cipher \<times> u64 \<times> bool \<times> data_contract \<times> u8 list \<times> nat \<times> nat" where
  "core h = (secreg_mode h, cipher h, mojov_cfg_val h, mojov_dcvalid h, mojov_dc h, kmsm_bytes h,
     kmsm_enckey_bytes h, kmsm_encdc_bytes h)"

lemma hart_inv_core: "core h = core h' \<Longrightarrow> hart_inv c h = hart_inv c h'"
  by (simp add: core_def hart_inv_def keyed_def)

definition keeps_core :: "'a exec \<Rightarrow> bool" where
  "keeps_core p \<longleftrightarrow> (\<forall>h. core (fst (p h)) = core h)"

named_theorems keeps \<open>steps that keep the core of the state\<close>

lemma keeps_core_basic [keeps]:
  "keeps_core (return a)" "keeps_core (abort t)" "keeps_core (require P t)" "keeps_core (get g)"
  by (auto simp: keeps_core_def return_def abort_def require_def get_def)

lemma keeps_core_and_then [keeps]:
  "keeps_core p \<Longrightarrow> (\<And>a. keeps_core (f a)) \<Longrightarrow> keeps_core (and_then p f)"
  by (auto simp: keeps_core_def and_then_def split: prod.split sum.split) (metis fst_conv)+

lemma keeps_core_modify [keeps]: "(\<And>h. core (f h) = core h) \<Longrightarrow> keeps_core (modify f)"
  by (simp add: keeps_core_def modify_def)

lemma keeps_core_if [keeps]:
  "keeps_core p \<Longrightarrow> keeps_core q \<Longrightarrow> keeps_core (if b then p else q)"
  by simp

lemma keeps_core_checks [keeps]:
  "keeps_core (CHECK_LEAKY r)" "keeps_core (CHECK_REG_R c r)" "keeps_core (CHECK_FREG_R c r)"
  "keeps_core (CHECK_REG_W r)" "keeps_core (CHECK_FREG_W r)"
  unfolding CHECK_LEAKY_def CHECK_REG_R_def CHECK_FREG_R_def CHECK_REG_W_def CHECK_FREG_W_def
    CHECK_DATAGRANT_R_def DFHASH_REG_R_def DFHASH_FREG_R_def
  by (intro keeps; simp add: core_def)+

lemma keeps_core_registers [keeps]:
  "keeps_core (READ_REG c r)" "keeps_core (READ_FREG c r)" "keeps_core (READ_PUBLIC c r)"
  "keeps_core (WRITE_REG r v)" "keeps_core (WRITE_FREG r v)"
  unfolding READ_REG_def READ_FREG_def READ_PUBLIC_def WRITE_REG_def WRITE_FREG_def
  by (intro keeps; simp add: core_def)+

lemma keeps_core_random [keeps]: "keeps_core (mojov_trng64 c)" "keeps_core (run_core g)"
  by (auto simp: keeps_core_def core_def mojov_trng64_def run_core_def abort_def return_def Let_def
      split: option.split)

lemma keeps_core_surroundings [keeps]:
  "keeps_core (mmu_load c n a)" "keeps_core (mmu_store c a bs)" "keeps_core (set_pc c x)"
  unfolding mmu_load_def mmu_store_def set_pc_def
  by (intro keeps; simp add: core_def)+

lemma keeps_core_packets [keeps]:
  "keeps_core (encrypt_strong p)" "keeps_core (decrypt_strong ct)" "keeps_core (load_pair c r i)"
  "keeps_core (store_pair c r i ct)" "keeps_core (load_fast c r i)" "keeps_core (store_fast c r i q)"
  unfolding encrypt_strong_def decrypt_strong_def load_pair_def store_pair_def load_fast_def
    store_fast_def split_beta Let_def
  by (intro keeps)+

lemma keeps_core_by_format [keeps]:
  "keeps_core p \<Longrightarrow> keeps_core q \<Longrightarrow> keeps_core r \<Longrightarrow> keeps_core (by_format p q r)"
  by (auto simp: keeps_core_def by_format_def abort_def)

lemma keeps_core_mojov [keeps]:
  "keeps_core (insn_lde c rd r1 i)" "keeps_core (insn_flde c rd r1 i)" "keeps_core (insn_sde c r1 r2 i)"
  "keeps_core (insn_fsde c r1 r2 i)" "keeps_core (insn_disc c rd r1 r2)"
  "keeps_core (insn_fdisc c rd r1 r2)" "keeps_core (insn_certrng c rd r1)"
  unfolding insn_lde_def insn_flde_def insn_sde_def insn_fsde_def insn_disc_def insn_fdisc_def
    insn_certrng_def Let_def split_beta
  by (intro keeps; simp add: core_def)+

fun is_csr :: "insn \<Rightarrow> bool" where
  "is_csr (I_csrrw _ _ _) = True"
| "is_csr (I_csrrs _ _ _) = True"
| "is_csr (I_csrrc _ _ _) = True"
| "is_csr _ = False"

lemma keeps_core_exec:
  assumes "\<not> is_csr i"
  shows "keeps_core (exec_insn c wr pc i)"
  using assms
  by (cases i; simp add: op_rr_def op_ri_def insn_branch_def insn_jal_def insn_jalr_def insn_load_def
      insn_store_def insn_fld_def insn_fsd_def insn_fmv_x_d_def insn_fmv_d_x_def del: and_then_return;
      intro keeps)

section \<open>Control registers keep the invariant\<close>

lemma expand_core_eq:
  assumes "length (key_schedule (cipher h)) = 576"
  shows "\<exists>x b. expand_core key h = h\<lparr>cipher := x\<rparr> \<and>
    simon_128_128_keyexpand (cipher h) key 68 = Some (x, b) \<and> length (key_schedule x) = 576"
  using simon_128_128_expanded [OF assms, of key 68] by (auto simp: expand_core_def)

lemma cfg_read_bits:
  "bit (mojov_cfg_read h) 0 \<longleftrightarrow> bit (mojov_cfg_val h) 0"
  "bit (mojov_cfg_read h) 1 \<longleftrightarrow> mojov_dcvalid h"
  by (auto simp: mojov_cfg_read_def Let_def bit_simps)

lemma and_1_bit: "(w :: u64) AND 1 \<noteq> 0 \<longleftrightarrow> bit w 0" "w AND push_bit 1 1 \<noteq> 0 \<longleftrightarrow> bit w 1"
  using bit_iff_and_push_bit_not_eq_0 [of w 0] bit_iff_and_push_bit_not_eq_0 [of w 1] by simp_all

lemma cfg_write_inv:
  assumes "hart_inv c h"
  shows "hart_inv c (mojov_cfg_write val h)"
proof -
  let ?cur = "mojov_cfg_read h"
  let ?new = "if val AND 1 \<noteq> 0 \<and> ?cur AND push_bit 1 1 \<noteq> 0 then (?cur AND NOT 1) OR 1 else ?cur AND NOT 1"
  have bit: "bit ?new 0 \<longleftrightarrow> bit val 0 \<and> mojov_dcvalid h"
    unfolding and_1_bit cfg_read_bits by (simp add: bit_or_iff bit_and_iff bit_not_iff)
  let ?h = "h\<lparr>mojov_cfg_val := ?new\<rparr>"
  have len: "length (key_schedule (cipher (mojov_destroy_metadata (?h\<lparr>secreg_mode := True\<rparr>)))) = 576"
    using assms by (simp add: hart_inv_def mojov_destroy_metadata_def)
  show ?thesis
  proof (cases "bit val 0 \<and> mojov_dcvalid h")
    case True
    obtain x b where x: "expand_core (le_word (sym_key_128 (mojov_dc h))) (mojov_destroy_metadata (?h\<lparr>secreg_mode := True\<rparr>))
        = (mojov_destroy_metadata (?h\<lparr>secreg_mode := True\<rparr>))\<lparr>cipher := x\<rparr>"
      "simon_128_128_keyexpand (cipher h) (le_word (sym_key_128 (mojov_dc h))) 68 = Some (x, b)"
      "length (key_schedule x) = 576"
      using expand_core_eq [OF len, of "le_word (sym_key_128 (mojov_dc h))"]
      by (auto simp: mojov_destroy_metadata_def)
    have "mojov_cfg_write val h = (mojov_destroy_metadata (?h\<lparr>secreg_mode := True\<rparr>))\<lparr>cipher := x\<rparr>"
      using True bit x(1) unfolding mojov_cfg_write_def Let_def set_secreg_mode_def and_1_bit(1)
      by (simp add: mojov_destroy_metadata_def)
    then show ?thesis
      using assms x(2,3) bit True unfolding hart_inv_def keyed_def by (auto simp: mojov_destroy_metadata_def)
  next
    case False
    then have "mojov_cfg_write val h
        = FP_SECREG_RESET (SECREG_RESET (mojov_destroy_metadata (?h\<lparr>secreg_mode := False\<rparr>)))"
      using bit unfolding mojov_cfg_write_def Let_def set_secreg_mode_def and_1_bit(1) by simp
    then show ?thesis
      using assms bit False unfolding hart_inv_def keyed_def
      by (auto simp: mojov_destroy_metadata_def SECREG_RESET_def FP_SECREG_RESET_def)
  qed
qed

lemma put_bytes_nth:
  "length (put_bytes idx bs m) = length m \<and>
   (k < idx \<longrightarrow> put_bytes idx bs m ! k = m ! k)"
proof -
  have "length (fold (\<lambda>b m. m[idx + b := bs ! b]) ns m) = length m \<and>
    (k < idx \<longrightarrow> fold (\<lambda>b m. m[idx + b := bs ! b]) ns m ! k = m ! k)" for ns
    by (induction ns arbitrary: m) auto
  then show ?thesis unfolding put_bytes_def .
qed

lemma take_put_bytes: "n \<le> idx \<Longrightarrow> take n (put_bytes idx bs m) = take n m"
  using put_bytes_nth by (intro nth_equalityI) (auto simp: min_def split: if_splits)

lemma kmsm_write_inv:
  assumes "hart_inv c h"
  shows "hart_inv c (mojov_kmsm_write_data val h)"
  using assms
  by (auto simp: hart_inv_def keyed_def mojov_kmsm_write_data_def Let_def put_bytes_nth take_put_bytes)


lemma open_components_ok:
  assumes "mojov_open_contract_from_components env pem x path kem msg exp dc0 = (True, status, dc)"
  shows "status = OK \<and> sig dc = sig_str"
  using assms
  by (auto simp: mojov_open_contract_from_components_def split: if_splits option.splits)

lemma open_contract_inv:
  assumes inv: "hart_inv c h"
  shows "hart_inv c (fst (mojov_kmsm_open_contract c env pem h))"
proof (cases "secreg_mode h \<or> mojov_sk_pem_path c = [] \<or> kmsm_encdc_bytes h \<noteq> 64 \<or> kmsm_enckey_bytes h = 0")
  case True
  have "mojov_cfg_read (h\<lparr>kmsm_ctrl_busy := True\<rparr>) AND 1 \<noteq> 0 \<longleftrightarrow> secreg_mode h"
    unfolding and_1_bit cfg_read_bits using inv by (simp add: hart_inv_def)
  then have "core (fst (mojov_kmsm_open_contract c env pem h)) = core h"
    using True unfolding mojov_kmsm_open_contract_def Let_def
    by (simp add: core_def split del: if_split) (auto simp: core_def)
  then show ?thesis using inv hart_inv_core by blast
next
  case False
  let ?kem = "take (kmsm_enckey_bytes h) (drop pubkey_bytes (kmsm_bytes h))"
  let ?msg = "take (kmsm_encdc_bytes h) (drop (pubkey_bytes + enckey_bytes) (kmsm_bytes h))"
  have off: "mojov_cfg_read (h\<lparr>kmsm_ctrl_busy := True\<rparr>) AND 1 = 0"
  proof -
    have "\<not> mojov_cfg_read (h\<lparr>kmsm_ctrl_busy := True\<rparr>) AND 1 \<noteq> 0"
      unfolding and_1_bit cfg_read_bits using False inv by (simp add: hart_inv_def)
    then show ?thesis by blast
  qed
  obtain ok status dc where o: "mojov_open_contract_from_components env pem (cipher h) (mojov_sk_pem_path c)
      ?kem ?msg None (mojov_dc h) = (ok, status, dc)"
    by (cases "mojov_open_contract_from_components env pem (cipher h) (mojov_sk_pem_path c) ?kem ?msg None (mojov_dc h)")
  let ?g = "h\<lparr>kmsm_ctrl_busy := True, mojov_dc := dc, kmsm_ctrl_status := mojov_kmsm_status_to_ctrl_field status\<rparr>"
  show ?thesis
  proof (cases ok)
    case False
    then have "core (fst (mojov_kmsm_open_contract c env pem h)) = core (?g\<lparr>mojov_dcvalid := False\<rparr>)"
      using \<open>\<not> (_ \<or> _)\<close> off o by (simp add: mojov_kmsm_open_contract_def Let_def core_def)
    moreover have "hart_inv c (?g\<lparr>mojov_dcvalid := False\<rparr>)"
      using inv \<open>\<not> (_ \<or> _)\<close> by (simp add: hart_inv_def)
    ultimately show ?thesis using hart_inv_core by blast
  next
    case True
    let ?h = "?g\<lparr>mojov_dcvalid := True\<rparr>"
    have "mojov_cfg_read ?h AND push_bit 1 1 \<noteq> 0" unfolding and_1_bit cfg_read_bits by simp
    then have run: "mojov_kmsm_open_contract c env pem h
        = ((expand_core (le_word (sym_key_128 dc)) ?h)\<lparr>kmsm_ctrl_busy := False\<rparr>, True)"
      using \<open>\<not> (_ \<or> _)\<close> off o True by (simp add: mojov_kmsm_open_contract_def Let_def)
    have "length (key_schedule (cipher ?h)) = 576" using inv by (simp add: hart_inv_def)
    from expand_core_eq [OF this, of "le_word (sym_key_128 dc)"] obtain x b where
      x: "expand_core (le_word (sym_key_128 dc)) ?h = ?h\<lparr>cipher := x\<rparr>"
      "simon_128_128_keyexpand (cipher h) (le_word (sym_key_128 dc)) 68 = Some (x, b)"
      "length (key_schedule x) = 576" by auto
    show ?thesis
      using inv \<open>\<not> (_ \<or> _)\<close> x(2,3) open_components_ok [of env pem "cipher h"] o True
      unfolding run x(1) by (auto simp: hart_inv_def keyed_def)
  qed
qed

lemma csr_write_inv: "hart_inv c h \<Longrightarrow> hart_inv c (csr_write c env pem r v h)"
  by (cases r) (simp_all add: cfg_write_inv kmsm_write_inv mojov_kmsm_write_ctrl_def open_contract_inv
      mojov_kmsm_set_addr_def, simp add: hart_inv_def keyed_def)

section \<open>Every instruction keeps the invariant\<close>

definition keeps_inv :: "config \<Rightarrow> 'a exec \<Rightarrow> bool" where
  "keeps_inv c p \<longleftrightarrow> (\<forall>h. hart_inv c h \<longrightarrow> hart_inv c (fst (p h)))"

lemma keeps_inv_core: "keeps_core p \<Longrightarrow> keeps_inv c p"
proof (unfold keeps_inv_def, intro allI impI)
  fix h assume "keeps_core p" "hart_inv c h"
  then show "hart_inv c (fst (p h))"
    using hart_inv_core [of "fst (p h)" h c] by (simp add: keeps_core_def)
qed

lemma keeps_inv_and_then:
  "keeps_inv c p \<Longrightarrow> (\<And>a. keeps_inv c (f a)) \<Longrightarrow> keeps_inv c (and_then p f)"
  by (auto simp: keeps_inv_def and_then_def split: prod.split sum.split)

lemma keeps_inv_csr: "keeps_inv c (modify (csr_write c env pem r v))"
  by (simp add: keeps_inv_def modify_def csr_write_inv)

lemma keeps_inv_if: "keeps_inv c p \<Longrightarrow> keeps_inv c q \<Longrightarrow> keeps_inv c (if b then p else q)"
  by simp

lemmas keeps_inv_atoms = keeps_core_basic [THEN keeps_inv_core] keeps_core_registers [THEN keeps_inv_core]

lemma keeps_inv_exec: "keeps_inv c (exec_insn c (csr_write c env pem) pc i)"
proof (cases "is_csr i")
  case False
  then show ?thesis by (intro keeps_inv_core keeps_core_exec)
next
  case True
  then show ?thesis
    by (cases i; simp add: insn_csrrw_def insn_csrrs_def insn_csrrc_def del: and_then_return)
       (intro conjI impI keeps_inv_and_then keeps_inv_if keeps_inv_csr keeps_inv_atoms)+
qed

lemma execute_insn_inv:
  "hart_inv c h \<Longrightarrow> hart_inv c (fst (execute_insn c (csr_write c env pem) pc bits len i h))"
  using keeps_inv_exec [of c env pem pc i]
    hart_inv_core [of "h\<lparr>dfhash_input := _, xpr_deps := _, npc := _\<rparr>" h c]
  unfolding keeps_inv_def execute_insn_def Let_def by (simp add: core_def)

text \<open>The harts a program can bring about from power on, by instructions and by single
  accesses of the control registers.\<close>

inductive reachable :: "config \<Rightarrow> ('pk, 'sk, 'r) ossl \<Rightarrow> (string \<Rightarrow> 'sk option) \<Rightarrow> hart \<Rightarrow> bool"
  for c env pem where
  start: "length (key_schedule (cipher h)) = 576 \<Longrightarrow> reachable c env pem (power_on c h)"
| step: "reachable c env pem h \<Longrightarrow>
    reachable c env pem (fst (execute_insn c (csr_write c env pem) pc bits len i h))"
| access: "reachable c env pem h \<Longrightarrow> reachable c env pem (csr_write c env pem r v h)"

lemma power_on_inv:
  assumes "length (key_schedule (cipher h)) = 576"
  shows "hart_inv c (power_on c h)"
proof -
  have "\<not> bit (mojov_cfg_init c) 0"
    by (simp add: mojov_cfg_init_def bit_simps FORMAT_SEL_FAST_def FORMAT_SEL_STRONG_def FORMAT_SEL_PROOFCARRYING_def)
  then show ?thesis
    using assms by (simp add: hart_inv_def power_on_def state_reset_def mojov_reset_def Let_def
        mojov_destroy_metadata_def kmsm_bytes_total_def pubkey_bytes_def enckey_bytes_def encdc_bytes_def
        take_replicate min_def)
qed

lemma reachable_inv: "reachable c env pem h \<Longrightarrow> hart_inv c h"
  by (induction rule: reachable.induct) (auto intro: power_on_inv execute_insn_inv csr_write_inv)

end
