(* ===== verification/Mojov_Isolation.thy ===== *)
theory Mojov_Isolation
  imports Mojov_Proofs
begin

text \<open>
  Isolation of the secret registers. Two harts that differ only in the values of secret
  registers behave alike under every instruction that does not encrypt or disclose a
  secret: the same traps, the same memory, the same public registers, the same next
  instruction. The proof is a relational one: a value read from a register is the same in
  both harts unless the instruction has become tainted by a secret register.
\<close>

section \<open>Harts that differ in secrets only\<close>

definition low :: "hart \<Rightarrow> hart \<Rightarrow> bool" where
  "low h h' \<longleftrightarrow> h' = h\<lparr>XPR := XPR h', FPR := FPR h'\<rparr> \<and> secreg_mode h \<and>
     (\<forall>r. \<not> IS_SECREG r \<longrightarrow> XPR h r = XPR h' r) \<and> (\<forall>r. \<not> IS_FP_SECREG r \<longrightarrow> FPR h r = FPR h' r)"

lemma lowE:
  assumes "low h h'"
  obtains x f where "h' = h\<lparr>XPR := x, FPR := f\<rparr>" "secreg_mode h"
    "\<And>r. \<not> IS_SECREG r \<Longrightarrow> x r = XPR h r" "\<And>r. \<not> IS_FP_SECREG r \<Longrightarrow> f r = FPR h r"
  using assms unfolding low_def by metis

lemma lowI:
  "secreg_mode h \<Longrightarrow> (\<And>r. \<not> IS_SECREG r \<Longrightarrow> x r = XPR h r) \<Longrightarrow> (\<And>r. \<not> IS_FP_SECREG r \<Longrightarrow> f r = FPR h r) \<Longrightarrow>
   low h (h\<lparr>XPR := x, FPR := f\<rparr>)"
  by (simp add: low_def)

lemma low_fields:
  assumes "low h h'"
  shows "dfhash_xpr h' = dfhash_xpr h" "dfhash_fpr h' = dfhash_fpr h" "datagrant_xpr h' = datagrant_xpr h"
    "dfhash_input h' = dfhash_input h" "xpr_deps h' = xpr_deps h" "npc h' = npc h" "memory h' = memory h"
    "draws h' = draws h" "secreg_mode h' = secreg_mode h" "secreg_mode h" "cipher h' = cipher h"
    "mojov_dc h' = mojov_dc h" "mojov_dcvalid h' = mojov_dcvalid h" "mojov_cfg_val h' = mojov_cfg_val h"
  using assms by (auto elim!: lowE)

text \<open>
  \<open>rel Z p q S Q\<close>: from harts that differ in secrets only, with \<open>Z\<close> or a tainted
  instruction, \<open>p\<close> and \<open>q\<close> end in the same way, their results satisfy \<open>S\<close>, and \<open>Q\<close> or the
  instruction is tainted.
\<close>

definition rel :: "bool \<Rightarrow> 'a exec \<Rightarrow> 'b exec \<Rightarrow> ('a \<Rightarrow> 'b \<Rightarrow> bool) \<Rightarrow> ('a \<Rightarrow> 'b \<Rightarrow> bool) \<Rightarrow> bool" where
  "rel Z p q S Q \<longleftrightarrow> (\<forall>h h'. low h h' \<longrightarrow> Z \<or> tainted h \<longrightarrow>
     low (fst (p h)) (fst (q h')) \<and>
     (case (snd (p h), snd (q h')) of
        (Inl t, Inl t') \<Rightarrow> t = t'
      | (Inr a, Inr b) \<Rightarrow> S a b \<and> (Q a b \<or> tainted (fst (p h)))
      | _ \<Rightarrow> False))"

abbreviation relT :: "bool \<Rightarrow> 'a exec \<Rightarrow> 'b exec \<Rightarrow> bool" where
  "relT Z p q \<equiv> rel Z p q (\<lambda>_ _. True) (\<lambda>_ _. True)"

named_theorems rel_rules \<open>relational rules of the steps\<close>

lemma rel_weaken: "rel Z p q S Q \<Longrightarrow> relT Z p q"
  unfolding rel_def by (fastforce split: prod.splits sum.splits)

lemma rel_return: "S a b \<Longrightarrow> (Z \<Longrightarrow> Q a b) \<Longrightarrow> rel Z (return a) (return b) S Q"
  by (auto simp: rel_def return_def)

lemma rel_abort: "rel Z (abort t) (abort t) S Q"
  by (simp add: rel_def abort_def)

lemma rel_and_then:
  assumes p: "rel Z p q S Q" and f: "\<And>a b. S a b \<Longrightarrow> rel (Q a b) (f a) (g b) S' Q'"
  shows "rel Z (and_then p f) (and_then q g) S' Q'"
proof (unfold rel_def, intro allI impI)
  fix h h' assume h: "low h h'" "Z \<or> tainted h"
  obtain k x k' x' where kx: "p h = (k, x)" "q h' = (k', x')" by (metis prod.exhaust)
  have r: "low k k'" "case (x, x') of (Inl t, Inl t') \<Rightarrow> t = t'
      | (Inr a, Inr b) \<Rightarrow> S a b \<and> (Q a b \<or> tainted k) | _ \<Rightarrow> False"
    using p [unfolded rel_def, rule_format, OF h] unfolding kx fst_conv snd_conv by simp_all
  show "low (fst (and_then p f h)) (fst (and_then q g h')) \<and>
     (case (snd (and_then p f h), snd (and_then q g h')) of
        (Inl t, Inl t') \<Rightarrow> t = t'
      | (Inr a, Inr b) \<Rightarrow> S' a b \<and> (Q' a b \<or> tainted (fst (and_then p f h)))
      | _ \<Rightarrow> False)"
  proof (cases x)
    case (Inl t)
    then show ?thesis using r kx by (cases x') (auto simp: and_then_def)
  next
    case (Inr a)
    then obtain b where b: "x' = Inr b" "S a b" "Q a b \<or> tainted k" using r by (cases x') auto
    have e: "and_then p f h = f a k" "and_then q g h' = g b k'" using kx Inr b by (simp_all add: and_then_def)
    show ?thesis unfolding e using f [OF b(2)] r(1) b(3) unfolding rel_def by blast
  qed
qed

lemma rel_require [rel_rules]:
  "(\<And>h h'. low h h' \<Longrightarrow> P h = P h') \<Longrightarrow> rel Z (require P t) (require P t) (\<lambda>_ _. True) (\<lambda>_ _. Z)"
  by (auto simp: rel_def require_def return_def abort_def)

lemma rel_require_fact:
  "(\<And>h h'. low h h' \<Longrightarrow> P h = P h') \<Longrightarrow> (\<And>h. secreg_mode h \<Longrightarrow> P h \<Longrightarrow> F) \<Longrightarrow>
   rel Z (require P t) (require P t) (\<lambda>_ _. F) (\<lambda>_ _. Z)"
  by (auto simp: rel_def require_def return_def abort_def low_def)

lemma rel_get [rel_rules]:
  "(\<And>h h'. low h h' \<Longrightarrow> g h = g h') \<Longrightarrow> rel Z (get g) (get g) (=) (\<lambda>_ _. Z)"
  by (auto simp: rel_def get_def)

lemma rel_modify:
  "(\<And>h h'. low h h' \<Longrightarrow> low (f h) (f h')) \<Longrightarrow> (\<And>h. tainted h \<Longrightarrow> tainted (f h)) \<Longrightarrow>
   rel Z (modify f) (modify f) (\<lambda>_ _. True) (\<lambda>_ _. Z)"
  by (auto simp: rel_def modify_def)

lemmas eval_checks = READ_REG_def READ_FREG_def READ_PUBLIC_def CHECK_REG_R_def CHECK_FREG_R_def
  CHECK_DATAGRANT_R_def CHECK_LEAKY_def DFHASH_REG_R_def DFHASH_FREG_R_def WRITE_REG_def WRITE_FREG_def
  CHECK_REG_W_def CHECK_FREG_W_def require_def modify_def get_def return_def abort_def and_then_def

lemma relI:
  assumes "\<And>h x f. secreg_mode h \<Longrightarrow> Z \<or> tainted h \<Longrightarrow> (\<And>r. \<not> IS_SECREG r \<Longrightarrow> x r = XPR h r) \<Longrightarrow>
      (\<And>r. \<not> IS_FP_SECREG r \<Longrightarrow> f r = FPR h r) \<Longrightarrow>
      low (fst (p h)) (fst (q (h\<lparr>XPR := x, FPR := f\<rparr>))) \<and>
      (case (snd (p h), snd (q (h\<lparr>XPR := x, FPR := f\<rparr>))) of
         (Inl t, Inl t') \<Rightarrow> t = t'
       | (Inr a, Inr b) \<Rightarrow> S a b \<and> (Q a b \<or> tainted (fst (p h)))
       | _ \<Rightarrow> False)"
  shows "rel Z p q S Q"
proof (unfold rel_def, intro allI impI)
  fix h h' assume "low h h'" and z: "Z \<or> tainted h"
  from this(1) obtain x f where e: "h' = h\<lparr>XPR := x, FPR := f\<rparr>" "secreg_mode h"
    "\<And>r. \<not> IS_SECREG r \<Longrightarrow> x r = XPR h r" "\<And>r. \<not> IS_FP_SECREG r \<Longrightarrow> f r = FPR h r"
    by (rule lowE) blast
  show "low (fst (p h)) (fst (q h')) \<and> (case (snd (p h), snd (q h')) of
         (Inl t, Inl t') \<Rightarrow> t = t' | (Inr a, Inr b) \<Rightarrow> S a b \<and> (Q a b \<or> tainted (fst (p h))) | _ \<Rightarrow> False)"
    unfolding e(1) by (rule assms [OF e(2) z e(3,4)])
qed

lemma rel_READ_REG [rel_rules]:
  assumes "ext_zkmojov c"
  shows "rel Z (READ_REG c r) (READ_REG c r) (\<lambda>a b. \<not> IS_SECREG r \<longrightarrow> a = b) (\<lambda>a b. Z \<and> a = b)"
  using assms taint_reg(1) [of r]
  by (cases "IS_SECREG r"; intro relI)
     (auto simp: low_def eval_checks tainted_def taint_or SECREG_REF_def simp del: push_bit_of_1)

lemma rel_READ_FREG [rel_rules]:
  assumes "ext_zkmojov c"
  shows "rel Z (READ_FREG c r) (READ_FREG c r) (\<lambda>a b. \<not> IS_FP_SECREG r \<longrightarrow> a = b) (\<lambda>a b. Z \<and> a = b)"
  using assms taint_reg(2) [of r]
  by (cases "IS_FP_SECREG r"; intro relI)
     (auto simp: low_def eval_checks tainted_def taint_or FP_SECREG_REF_def simp del: push_bit_of_1)

lemma rel_READ_PUBLIC [rel_rules]:
  assumes "ext_zkmojov c"
  shows "rel Z (READ_PUBLIC c r) (READ_PUBLIC c r) (=) (\<lambda>_ _. Z)"
  using assms
  by (intro relI) (auto simp: low_def eval_checks tainted_def taint_or SECREG_REF_def simp del: push_bit_of_1)

lemma rel_CHECK_REG_W [rel_rules]: "rel Z (CHECK_REG_W r) (CHECK_REG_W r) (\<lambda>_ _. True) (\<lambda>_ _. Z)"
  by (intro relI) (auto simp: low_def eval_checks tainted_def dfhash_gen_def)

lemma rel_WRITE_REG:
  assumes "Z \<Longrightarrow> v = w"
  shows "rel Z (WRITE_REG r v) (WRITE_REG r w) (\<lambda>_ _. True) (\<lambda>_ _. Z)"
  using assms by (intro relI) (auto simp: low_def eval_checks tainted_def dfhash_gen_def)

lemma rel_WRITE_FREG:
  assumes "Z \<Longrightarrow> v = w"
  shows "rel Z (WRITE_FREG r v) (WRITE_FREG r w) (\<lambda>_ _. True) (\<lambda>_ _. Z)"
  using assms by (intro relI) (auto simp: low_def eval_checks tainted_def dfhash_gen_def)

lemma rel_mmu_load [rel_rules]: "rel Z (mmu_load c n a) (mmu_load c n a) (=) (\<lambda>_ _. Z)"
  by (intro relI) (auto simp: low_def eval_checks mmu_load_def peek_def)

lemma rel_mmu_store [rel_rules]:
  "rel Z (mmu_store c a bs) (mmu_store c a bs) (\<lambda>_ _. True) (\<lambda>_ _. Z)"
  by (intro relI) (auto simp: low_def eval_checks mmu_store_def tainted_def)

lemma rel_set_pc [rel_rules]: "rel Z (set_pc c x) (set_pc c x) (\<lambda>_ _. True) (\<lambda>_ _. Z)"
  by (intro relI) (auto simp: low_def eval_checks set_pc_def tainted_def)

lemma rel_trng [rel_rules]: "rel Z (mojov_trng64 c) (mojov_trng64 c) (=) (\<lambda>_ _. Z)"
  by (intro relI) (auto simp: low_def mojov_trng64_def tainted_def Let_def)

lemma rel_run_core [rel_rules]:
  "(\<And>h h'. low h h' \<Longrightarrow> g h = g h') \<Longrightarrow> rel Z (run_core g) (run_core g) (=) (\<lambda>_ _. Z)"
  by (fastforce simp: rel_def run_core_def return_def abort_def split: option.splits)

lemma rel_by_format:
  assumes "rel Z p p S Q" "rel Z q q S Q" "rel Z r r S Q"
  shows "rel Z (by_format p q r) (by_format p q r) S Q"
proof -
  have "FORMAT_SEL h' = FORMAT_SEL h" if "low h h'" for h h'
    using that by (simp add: FORMAT_SEL_def mojov_cfg_read_def low_fields [OF that])
  with assms show ?thesis by (auto simp: rel_def by_format_def abort_def)
qed


section \<open>Packets\<close>

lemma rel_load_pair [rel_rules]:
  assumes "ext_zkmojov c"
  shows "rel Z (load_pair c r i) (load_pair c r i) (=) (\<lambda>_ _. Z)"
  unfolding load_pair_def using assms
  by (auto intro!: rel_and_then rel_rules rel_return)

lemma rel_decrypt_strong [rel_rules]: "rel Z (decrypt_strong ct) (decrypt_strong ct) (=) (\<lambda>_ _. Z)"
  unfolding decrypt_strong_def split_beta
  by (auto intro!: rel_and_then rel_rules rel_return simp: core_decrypt_def low_fields)

lemma rel_load_fast [rel_rules]:
  assumes "ext_zkmojov c"
  shows "rel Z (load_fast c r i) (load_fast c r i) (=) (\<lambda>_ _. Z)"
  unfolding load_fast_def using assms
  by (auto intro!: rel_and_then rel_rules rel_return simp: core_decrypt_def low_fields)

section \<open>Instructions\<close>

text \<open>The instructions that by design let something derived from a secret leave the
  registers, or change the mode.\<close>

fun may_release :: "insn \<Rightarrow> bool" where
  "may_release (I_sde _ _ _) = True"
| "may_release (I_fsde _ _ _) = True"
| "may_release (I_disc _ _ _) = True"
| "may_release (I_fdisc _ _ _) = True"
| "may_release i = is_csr i"

lemma relT_op_rr: "ext_zkmojov c \<Longrightarrow> relT Z (op_rr c f rd r1 r2) (op_rr c f rd r1 r2)"
  unfolding op_rr_def
  by (rule rel_and_then [OF rel_READ_REG], assumption, rule rel_and_then [OF rel_READ_REG], assumption,
      rule rel_weaken [OF rel_WRITE_REG]) simp

lemma relT_op_ri: "ext_zkmojov c \<Longrightarrow> relT Z (op_ri c f rd r1) (op_ri c f rd r1)"
  unfolding op_ri_def
  by (rule rel_and_then [OF rel_READ_REG], assumption, rule rel_weaken [OF rel_WRITE_REG]) simp

lemma relT_branch: "ext_zkmojov c \<Longrightarrow> relT Z (insn_branch c b pc r1 r2 i) (insn_branch c b pc r1 r2 i)"
  unfolding insn_branch_def
  by (rule rel_and_then [OF rel_READ_PUBLIC], assumption, rule rel_and_then [OF rel_READ_PUBLIC], assumption)
     (auto intro!: rel_weaken [OF rel_set_pc] rel_return)

lemma relT_jal: "relT Z (insn_jal c pc rd i) (insn_jal c pc rd i)"
  unfolding insn_jal_def
  by (rule rel_and_then [OF rel_CHECK_REG_W], rule rel_and_then [OF rel_get], simp add: low_fields,
      rule rel_and_then [OF rel_set_pc], rule rel_weaken [OF rel_WRITE_REG]) simp

lemma relT_jalr: "ext_zkmojov c \<Longrightarrow> relT Z (insn_jalr c rd r1 i) (insn_jalr c rd r1 i)"
  unfolding insn_jalr_def
  by (rule rel_and_then [OF rel_get], simp add: low_fields, rule rel_and_then [OF rel_READ_PUBLIC], assumption,
      simp, rule rel_and_then [OF rel_set_pc], rule rel_weaken [OF rel_WRITE_REG]) simp

lemma relT_load: "ext_zkmojov c \<Longrightarrow> relT Z (insn_load c w rd r1 i) (insn_load c w rd r1 i)"
  unfolding insn_load_def
  by (rule rel_and_then [OF rel_READ_PUBLIC], assumption, simp, rule rel_and_then [OF rel_mmu_load],
      rule rel_weaken [OF rel_WRITE_REG]) simp

lemma relT_fld: "ext_zkmojov c \<Longrightarrow> relT Z (insn_fld c rd r1 i) (insn_fld c rd r1 i)"
  unfolding insn_fld_def
  by (rule rel_and_then [OF rel_READ_PUBLIC], assumption, simp, rule rel_and_then [OF rel_mmu_load],
      rule rel_weaken [OF rel_WRITE_FREG]) simp

lemma relT_store: "ext_zkmojov c \<Longrightarrow> relT Z (insn_store c n r1 r2 i) (insn_store c n r1 r2 i)"
  unfolding insn_store_def
  by (rule rel_and_then [OF rel_require_fact [where F = "\<not> IS_SECREG r2"]],
      simp add: SECREG_REF_def low_fields, simp add: SECREG_REF_def,
      rule rel_and_then [OF rel_READ_PUBLIC], assumption, simp,
      rule rel_and_then [OF rel_READ_REG], assumption, simp, rule rel_weaken [OF rel_mmu_store])

lemma relT_fsd: "ext_zkmojov c \<Longrightarrow> relT Z (insn_fsd c r1 r2 i) (insn_fsd c r1 r2 i)"
  unfolding insn_fsd_def
  by (rule rel_and_then [OF rel_require_fact [where F = "\<not> IS_FP_SECREG r2"]],
      simp add: FP_SECREG_REF_def low_fields, simp add: FP_SECREG_REF_def,
      rule rel_and_then [OF rel_READ_PUBLIC], assumption, simp,
      rule rel_and_then [OF rel_READ_FREG], assumption, simp, rule rel_weaken [OF rel_mmu_store])

lemma relT_fmv_x_d: "ext_zkmojov c \<Longrightarrow> relT Z (insn_fmv_x_d c rd r1) (insn_fmv_x_d c rd r1)"
  unfolding insn_fmv_x_d_def
  by (rule rel_and_then [OF rel_READ_FREG], assumption, rule rel_weaken [OF rel_WRITE_REG]) simp

lemma relT_fmv_d_x: "ext_zkmojov c \<Longrightarrow> relT Z (insn_fmv_d_x c rd r1) (insn_fmv_d_x c rd r1)"
  unfolding insn_fmv_d_x_def
  by (rule rel_and_then [OF rel_READ_REG], assumption, rule rel_weaken [OF rel_WRITE_FREG]) simp

lemma relT_certrng: "relT Z (insn_certrng c rd r1) (insn_certrng c rd r1)"
  unfolding insn_certrng_def
  by (rule rel_and_then [OF rel_require], simp, rule rel_and_then [OF rel_require], simp add: low_fields,
      rule rel_and_then [OF rel_trng], rule rel_weaken [OF rel_WRITE_REG]) simp

lemma rel_modify_meta:
  "relT Z (modify (\<lambda>h. h\<lparr>datagrant_xpr := (datagrant_xpr h)(r := d), dfhash_xpr := (dfhash_xpr h)(r := m)\<rparr>))
     (modify (\<lambda>h. h\<lparr>datagrant_xpr := (datagrant_xpr h)(r := d), dfhash_xpr := (dfhash_xpr h)(r := m)\<rparr>))"
  "relT Z (modify (\<lambda>h. h\<lparr>dfhash_fpr := (dfhash_fpr h)(r := m)\<rparr>))
     (modify (\<lambda>h. h\<lparr>dfhash_fpr := (dfhash_fpr h)(r := m)\<rparr>))"
  by (intro relI; auto simp: low_def modify_def tainted_def)+

lemma relT_lde:
  assumes c: "ext_zkmojov c"
  shows "relT Z (insn_lde c rd r1 i) (insn_lde c rd r1 i)"
  unfolding insn_lde_def
proof (rule rel_and_then [OF rel_require], simp, rule rel_and_then [OF rel_require], simp add: low_fields,
    rule rel_by_format, goal_cases)
  case 1
  show ?case
    by (rule rel_and_then [OF rel_load_fast [OF c]], simp, rule rel_and_then [OF rel_require],
        simp add: low_fields, rule rel_weaken [OF rel_WRITE_REG]) simp
next
  case 2
  show ?case
    by (rule rel_and_then [OF rel_load_pair [OF c]], simp, rule rel_and_then [OF rel_decrypt_strong], simp,
        rule rel_and_then [OF rel_require], simp add: low_fields, rule rel_weaken [OF rel_WRITE_REG]) simp
next
  case 3
  show ?case
    by (rule rel_and_then [OF rel_load_pair [OF c]], simp, rule rel_and_then [OF rel_decrypt_strong], simp,
        rule rel_and_then [OF rel_get], simp add: low_fields, simp only: Let_def, rule rel_and_then [OF rel_require],
        simp, rule rel_and_then [OF rel_WRITE_REG], simp, rule rel_modify_meta)
qed

lemma relT_flde:
  assumes c: "ext_zkmojov c"
  shows "relT Z (insn_flde c rd r1 i) (insn_flde c rd r1 i)"
  unfolding insn_flde_def
proof (rule rel_and_then [OF rel_require], simp, rule rel_and_then [OF rel_require], simp add: low_fields,
    rule rel_by_format, goal_cases)
  case 1
  show ?case
    by (rule rel_and_then [OF rel_load_fast [OF c]], simp, rule rel_and_then [OF rel_require],
        simp add: low_fields, rule rel_weaken [OF rel_WRITE_FREG]) simp
next
  case 2
  show ?case
    by (rule rel_and_then [OF rel_load_pair [OF c]], simp, rule rel_and_then [OF rel_decrypt_strong], simp,
        rule rel_and_then [OF rel_require], simp add: low_fields, rule rel_weaken [OF rel_WRITE_FREG]) simp
next
  case 3
  show ?case
    by (rule rel_and_then [OF rel_load_pair [OF c]], simp, rule rel_and_then [OF rel_decrypt_strong], simp,
        rule rel_and_then [OF rel_require], simp add: low_fields, rule rel_and_then [OF rel_WRITE_FREG], simp,
        rule rel_modify_meta)
qed

lemma relT_exec:
  assumes "ext_zkmojov c" "\<not> may_release i"
  shows "relT Z (exec_insn c wr pc i) (exec_insn c wr pc i)"
  using assms
  by (cases i) (simp_all add: relT_op_rr relT_op_ri relT_branch relT_jal relT_jalr relT_load relT_fld relT_store
      relT_fsd relT_fmv_x_d relT_fmv_d_x relT_certrng relT_lde relT_flde rel_weaken [OF rel_WRITE_REG])

lemma execute_insn_low:
  assumes "ext_zkmojov c" "\<not> may_release i" "low h h'"
  shows "low (fst (execute_insn c wr pc bits len i h)) (fst (execute_insn c wr pc bits len i h'))
    \<and> snd (execute_insn c wr pc bits len i h) = snd (execute_insn c wr pc bits len i h')"
proof -
  let ?d = "\<lambda>h. h\<lparr>dfhash_input := [sm64_hash64 sm64_init (push_bit 32 bits OR bits)], xpr_deps := 0, npc := pc + len\<rparr>"
  have "low (?d h) (?d h')" using assms(3) by (elim lowE) (auto simp: low_def)
  from relT_exec [OF assms(1,2), of True wr pc, unfolded rel_def, rule_format, OF this]
  show ?thesis by (auto simp: execute_insn_def Let_def split: sum.splits)
qed

section \<open>Programs\<close>

text \<open>
  A program is run by fetching from the hart's memory at its next instruction and executing;
  a trap ends the run here. Both harts fetch the same instructions.
\<close>

fun run_hart :: "config \<Rightarrow> ((u64 \<Rightarrow> u8) \<Rightarrow> u64 \<Rightarrow> u64 \<times> u64 \<times> insn) \<Rightarrow> (csr \<Rightarrow> u64 \<Rightarrow> hart \<Rightarrow> hart) \<Rightarrow> nat \<Rightarrow>
    (hart, trap, unit) step" where
  "run_hart c fetch wr 0 h = return () h"
| "run_hart c fetch wr (Suc n) h = (let (bits, len, i) = fetch (memory h) (npc h) in
     and_then (execute_insn c wr (npc h) bits len i) (\<lambda>_. run_hart c fetch wr n) h)"

lemma run_hart_low:
  assumes "ext_zkmojov c" "\<And>m a. \<not> may_release (snd (snd (fetch m a)))" "low h h'"
  shows "low (fst (run_hart c fetch wr n h)) (fst (run_hart c fetch wr n h'))
    \<and> snd (run_hart c fetch wr n h) = snd (run_hart c fetch wr n h')"
  using assms(3)
proof (induction n arbitrary: h h')
  case 0
  then show ?case by (simp add: return_def)
next
  case (Suc n)
  obtain bits len i where f: "fetch (memory h) (npc h) = (bits, len, i)" by (cases "fetch (memory h) (npc h)")
  have i: "\<not> may_release i" using assms(2) [of "memory h" "npc h"] f by simp
  have f': "fetch (memory h') (npc h') = (bits, len, i)" "npc h' = npc h"
    using f by (simp_all add: low_fields [OF Suc.prems])
  obtain k x where k: "execute_insn c wr (npc h) bits len i h = (k, x)" by fastforce
  obtain k' x' where k': "execute_insn c wr (npc h) bits len i h' = (k', x')" by fastforce
  have "low k k'" "x' = x"
    using execute_insn_low [OF assms(1) i Suc.prems, of wr "npc h" bits len] k k' by auto
  with Suc.IH [of k k'] show ?case
    using f f' k k' by (cases x) (auto simp: and_then_def)
qed

end
