(* ===== verification/Mojov_Packets.thy ===== *)
theory Mojov_Packets
  imports Mojov_Proofs
begin

text \<open>
  Sealed values: what SDE stores LDE loads back, in each of the three memory formats, with
  the dataflow hash in the proof carrying one; a packet with a wrong signature traps; and
  DISC discloses only what a datagrant names.
\<close>

section \<open>Bytes in memory\<close>

lemma poke_upto:
  "n \<le> 2 ^ 64 \<Longrightarrow> fold (\<lambda>i m. m(a + of_nat i := bs ! i)) [0..<n] m x
    = (if unat (x - a :: u64) < n then bs ! unat (x - a) else m x)"
proof (induction n)
  case 0
  then show ?case by simp
next
  case (Suc n)
  have n: "n < 2 ^ 64" using Suc.prems by simp
  have "x = a + of_nat n \<longleftrightarrow> unat (x - a) = n"
  proof
    assume "x = a + of_nat n"
    then show "unat (x - a) = n" using n by (simp add: unat_of_nat take_bit_nat_eq_self)
  next
    assume "unat (x - a) = n"
    moreover have "of_nat (unat (x - a)) = x - a" by simp
    ultimately show "x = a + of_nat n" by simp
  qed
  then show ?case using Suc n by (auto simp: less_Suc_eq)
qed

lemma poke_at:
  "length bs \<le> 2 ^ 64 \<Longrightarrow> poke m a bs x = (if unat (x - a) < length bs then bs ! unat (x - a) else m x)"
  unfolding poke_def by (rule poke_upto)

lemma peek_poke:
  assumes "memory h = poke m a bs" "n = length bs" "n \<le> 2 ^ 64"
  shows "peek h a n = bs"
proof (rule nth_equalityI)
  show "length (peek h a n) = length bs" using assms by (simp add: peek_def)
next
  fix i assume "i < length (peek h a n)"
  then have i: "i < n" by (simp add: peek_def)
  then have "unat (of_nat i :: u64) = i" using assms(3) by (simp add: unat_of_nat take_bit_nat_eq_self)
  then show "peek h a n ! i = bs ! i" using i assms by (simp add: peek_def poke_at)
qed

lemma peek_poke_pair:
  assumes "memory h = poke (poke m a lo) (a + 16) hi" "length lo = 16" "length hi = 16"
  shows "peek h a 16 = lo" "peek h (a + 16) 16 = hi"
proof -
  show "peek h (a + 16) 16 = hi" using peek_poke [OF assms(1)] assms(3) by simp
  have "memory h (a + of_nat i) = poke m a lo (a + of_nat i)" if i: "i < 16" for i
  proof -
    have "(of_nat i :: u64) - 16 = of_nat i + of_nat (2 ^ 64 - 16)"
      by (simp add: of_nat_diff)
    also have "\<dots> = of_nat (i + (2 ^ 64 - 16))" by simp
    finally have "unat ((of_nat i :: u64) - 16) = i + (2 ^ 64 - 16)"
      using i by (simp add: unat_of_nat take_bit_nat_eq_self del: of_nat_add)
    then show ?thesis using assms by (simp add: poke_at)
  qed
  then have "peek h a 16 = peek (h\<lparr>memory := poke m a lo\<rparr>) a 16" by (simp add: peek_def)
  then show "peek h a 16 = lo" using peek_poke [of "h\<lparr>memory := poke m a lo\<rparr>"] assms(2) by simp
qed

section \<open>Packets as words\<close>

lemma fast_pt_ct: "fast_pt (fast_ct p) = p"
  by (simp add: fast_pt_def fast_ct_def byte_simps Let_def)

lemma strong_pt_ct: "strong_pt (strong_ct p) = p"
  by (simp add: strong_pt_def strong_ct_def byte_simps Let_def)

lemma strong_ct_pt: "strong_ct (strong_pt w) = w"
proof -
  have "le_word (take 8 (le_bytes 16 v) @ drop 8 (le_bytes 16 v)) = v" for v :: u128
    by (simp only: append_take_drop_id) (simp add: byte_simps)
  then show ?thesis by (cases w) (simp add: strong_pt_def strong_ct_def byte_simps Let_def)
qed

section \<open>Storing and loading sealed values\<close>

lemma FORMAT_SEL_update [simp]:
  "FORMAT_SEL (h\<lparr>dfhash_input := a\<rparr>) = FORMAT_SEL h" "FORMAT_SEL (h\<lparr>xpr_deps := d\<rparr>) = FORMAT_SEL h"
  "FORMAT_SEL (h\<lparr>npc := p\<rparr>) = FORMAT_SEL h" "FORMAT_SEL (h\<lparr>draws := n\<rparr>) = FORMAT_SEL h"
  "FORMAT_SEL (h\<lparr>memory := m\<rparr>) = FORMAT_SEL h"
  by (simp_all add: FORMAT_SEL_def mojov_cfg_read_def)

lemmas format_values = FORMAT_SEL_FAST_def FORMAT_SEL_STRONG_def FORMAT_SEL_PROOFCARRYING_def

text \<open>Steps that go through, as rewrite rules: the state after a register read is kept
  folded, with the fields it leaves alone.\<close>

definition after_read :: "config \<Rightarrow> nat \<Rightarrow> hart \<Rightarrow> hart" where
  "after_read c r h = h\<lparr>dfhash_input := dfhash_input h @ [if SECREG_REF c r h then dfhash_xpr h r else XPR h r],
     xpr_deps := xpr_deps h OR push_bit r 1\<rparr>"

lemma after_read_fields [simp]:
  "XPR (after_read c r h) = XPR h" "FPR (after_read c r h) = FPR h" "dfhash_xpr (after_read c r h) = dfhash_xpr h"
  "datagrant_xpr (after_read c r h) = datagrant_xpr h" "memory (after_read c r h) = memory h"
  "draws (after_read c r h) = draws h" "secreg_mode (after_read c r h) = secreg_mode h"
  "cipher (after_read c r h) = cipher h" "mojov_dc (after_read c r h) = mojov_dc h"
  "length (dfhash_input (after_read c r h)) = Suc (length (dfhash_input h))"
  "core (after_read c r h) = core h" "FORMAT_SEL (after_read c r h) = FORMAT_SEL h"
  by (simp_all add: after_read_def core_def)

lemma core_update [simp]:
  "core (h\<lparr>dfhash_input := a\<rparr>) = core h" "core (h\<lparr>xpr_deps := d\<rparr>) = core h" "core (h\<lparr>npc := p\<rparr>) = core h"
  "core (h\<lparr>draws := n\<rparr>) = core h" "core (h\<lparr>memory := m\<rparr>) = core h"
  by (simp_all add: core_def)

lemma step_eval:
  "p h = (h', Inr a) \<Longrightarrow> and_then p f h = f a h'"
  "P h \<Longrightarrow> require P t h = (h, Inr ())"
  "\<not> P h \<Longrightarrow> require P t h = (h, Inl t)"
  "modify g h = (g h, Inr ())"
  "get k h = (h, Inr (k h))"
  by (simp_all add: and_then_def require_def modify_def get_def return_def abort_def)

lemma READ_REG_eval:
  "\<not> datagrant_xpr h r \<Longrightarrow> length (dfhash_input h) < 4 \<Longrightarrow> READ_REG c r h = (after_read c r h, Inr (XPR h r))"
  by (simp add: READ_REG_def CHECK_REG_R_def CHECK_DATAGRANT_R_def DFHASH_REG_R_def step_eval after_read_def
      SECREG_REF_def)

lemma READ_PUBLIC_eval:
  "\<not> IS_SECREG r \<Longrightarrow> \<not> datagrant_xpr h r \<Longrightarrow> length (dfhash_input h) < 4 \<Longrightarrow>
   READ_PUBLIC c r h = (after_read c r h, Inr (XPR h r))"
  by (simp add: READ_PUBLIC_def CHECK_LEAKY_def step_eval READ_REG_eval)

lemma mmu_eval:
  "load_ok c a n \<Longrightarrow> mmu_load c n a h = (h, Inr (peek h a n))"
  "store_ok c a (length bs) \<Longrightarrow> mmu_store c a bs h = (h\<lparr>memory := poke (memory h) a bs\<rparr>, Inr ())"
  by (simp_all add: mmu_load_def mmu_store_def step_eval)

lemma run_core_eval: "g h = Some v \<Longrightarrow> run_core g h = (h, Inr v)"
  by (simp add: run_core_def return_def)

definition trng_value :: "config \<Rightarrow> nat \<Rightarrow> u64" where
  "trng_value c n = (let r = (\<lambda>i. ucast (host_rand c (n + i) AND 0xffff) :: u64) in
     r 0 OR push_bit 16 (r 1) OR push_bit 32 (r 2) OR push_bit 48 (r 3))"

lemma trng_eval: "mojov_trng64 c h = (h\<lparr>draws := draws h + 4\<rparr>, Inr (trng_value c (draws h)))"
  by (simp add: mojov_trng64_def trng_value_def Let_def)

text \<open>A write to a secret register goes through.\<close>

definition after_write :: "nat \<Rightarrow> u64 \<Rightarrow> hart \<Rightarrow> hart" where
  "after_write rd v h = h\<lparr>dfhash_xpr := (dfhash_xpr h)(rd := dfhash_gen h), XPR := (XPR h)(rd := v),
     datagrant_xpr := (datagrant_xpr h)(rd := False)\<rparr>"

lemma after_write_fields [simp]:
  "XPR (after_write rd v h) = (XPR h)(rd := v)" "datagrant_xpr (after_write rd v h) = (datagrant_xpr h)(rd := False)"
  "core (after_write rd v h) = core h" "memory (after_write rd v h) = memory h"
  by (simp_all add: after_write_def core_def)

lemma secreg_nonzero: "IS_SECREG r \<Longrightarrow> r \<noteq> 0"
  by (auto simp: IS_SECREG_iff)

lemma WRITE_REG_eval:
  "IS_SECREG rd \<Longrightarrow> 1 \<le> length (dfhash_input h) \<Longrightarrow> length (dfhash_input h) \<le> 4 \<Longrightarrow>
   WRITE_REG rd v h = (after_write rd v h, Inr ())"
  by (simp add: WRITE_REG_def CHECK_REG_W_def step_eval after_write_def secreg_nonzero)

lemmas eval_exec = step_eval READ_REG_eval READ_PUBLIC_eval mmu_eval run_core_eval trng_eval WRITE_REG_eval

text \<open>A hart in which SDE may seal a register at an address, or LDE load one.\<close>

definition may_store :: "config \<Rightarrow> hart \<Rightarrow> nat \<Rightarrow> nat \<Rightarrow> u64 \<Rightarrow> bool" where
  "may_store c h rs1 rs2 imm \<longleftrightarrow> ext_zkmojov c \<and> secreg_mode h \<and> simon_ready (cipher h) \<and>
     IS_SECREG rs2 \<and> \<not> IS_SECREG rs1 \<and> \<not> datagrant_xpr h rs1 \<and> \<not> datagrant_xpr h rs2 \<and>
     store_ok c (XPR h rs1 + imm) 16 \<and> store_ok c (XPR h rs1 + imm + 16) 16"

definition may_load :: "config \<Rightarrow> hart \<Rightarrow> nat \<Rightarrow> nat \<Rightarrow> u64 \<Rightarrow> bool" where
  "may_load c h rd rs1 imm \<longleftrightarrow> ext_zkmojov c \<and> secreg_mode h \<and> simon_ready (cipher h) \<and>
     IS_SECREG rd \<and> \<not> IS_SECREG rs1 \<and> \<not> datagrant_xpr h rs1 \<and>
     load_ok c (XPR h rs1 + imm) 16 \<and> load_ok c (XPR h rs1 + imm + 16) 16"

text \<open>The hart an instruction starts from.\<close>

definition begin_insn :: "u64 \<Rightarrow> u64 \<Rightarrow> u64 \<Rightarrow> hart \<Rightarrow> hart" where
  "begin_insn pc bits len h =
     h\<lparr>dfhash_input := [sm64_hash64 sm64_init (push_bit 32 bits OR bits)], xpr_deps := 0, npc := pc + len\<rparr>"

lemma begin_insn_fields [simp]:
  "XPR (begin_insn pc bits len h) = XPR h" "FPR (begin_insn pc bits len h) = FPR h"
  "dfhash_xpr (begin_insn pc bits len h) = dfhash_xpr h" "datagrant_xpr (begin_insn pc bits len h) = datagrant_xpr h"
  "memory (begin_insn pc bits len h) = memory h" "draws (begin_insn pc bits len h) = draws h"
  "secreg_mode (begin_insn pc bits len h) = secreg_mode h" "cipher (begin_insn pc bits len h) = cipher h"
  "mojov_dc (begin_insn pc bits len h) = mojov_dc h" "length (dfhash_input (begin_insn pc bits len h)) = 1"
  "core (begin_insn pc bits len h) = core h" "FORMAT_SEL (begin_insn pc bits len h) = FORMAT_SEL h"
  by (simp_all add: begin_insn_def)

lemma execute_begin: "execute_insn c wr pc bits len i h = exec_insn c wr pc i (begin_insn pc bits len h)"
  by (simp add: execute_insn_def begin_insn_def Let_def)

lemma by_format_eval:
  "FORMAT_SEL h = FORMAT_SEL_FAST \<Longrightarrow> by_format p q r h = p h"
  "FORMAT_SEL h = FORMAT_SEL_STRONG \<Longrightarrow> by_format p q r h = q h"
  "FORMAT_SEL h = FORMAT_SEL_PROOFCARRYING \<Longrightarrow> by_format p q r h = r h"
  by (simp_all add: by_format_def format_values)

lemma sde_fast:
  assumes "may_store c h rs1 rs2 imm" "FORMAT_SEL h = FORMAT_SEL_FAST"
  shows "\<exists>h1 ct r. execute_insn c wr pc bits len (I_sde rs1 rs2 imm) h = (h1, Inr ()) \<and>
    core h1 = core h \<and> memory h1 = poke (memory h) (XPR h rs1 + imm) (le_bytes 16 ct) \<and>
    simon_128_128_encrypt (cipher h)
      (fast_ct \<lparr>fval = XPR h rs2, fsalt = r, fauth_sig = ucast (contract_sig (mojov_dc h))\<rparr>) = Some ct \<and>
    XPR h1 = XPR h \<and> datagrant_xpr h1 = datagrant_xpr h"
proof -
  let ?salt = "ucast (trng_value c (draws h)) :: u32"
  let ?p = "\<lparr>fval = XPR h rs2, fsalt = ?salt, fauth_sig = ucast (contract_sig (mojov_dc h))\<rparr>"
  obtain ct where ct: "simon_128_128_encrypt (cipher h) (fast_ct ?p) = Some ct"
    using simon128.enc_total assms(1) unfolding may_store_def by blast
  let ?h = "after_read c rs1 ((after_read c rs2 (begin_insn pc bits len h))\<lparr>draws := draws h + 4\<rparr>)"
  have run: "execute_insn c wr pc bits len (I_sde rs1 rs2 imm) h
      = (?h\<lparr>memory := poke (memory h) (XPR h rs1 + imm) (le_bytes 16 ct)\<rparr>, Inr ())"
    using assms ct
    by (simp add: execute_begin insn_sde_def may_store_def eval_exec by_format_eval store_fast_def core_encrypt_def)
  show ?thesis by (intro exI conjI, rule run, simp, simp, rule ct) simp_all
qed


text \<open>The ciphertext pair of a two-word packet.\<close>

definition seals :: "simon_cipher \<Rightarrow> mojov_mem_strong \<Rightarrow> u128 \<times> u128 \<Rightarrow> bool" where
  "seals x p ct \<longleftrightarrow> simon_128_128_encrypt x (fst (strong_ct p)) = Some (fst ct) \<and>
     simon_128_128_encrypt x (snd (strong_ct p) XOR fst ct) = Some (snd ct)"

lemma encrypt_strong_eval:
  "seals (cipher h) p ct \<Longrightarrow> encrypt_strong p h = (h, Inr ct)"
  by (cases ct) (simp add: encrypt_strong_def seals_def split_beta eval_exec core_encrypt_def return_def)

lemma decrypt_strong_eval:
  assumes "simon_ready (cipher h)" "seals (cipher h) p ct"
  shows "decrypt_strong ct h = (h, Inr p)"
proof -
  have "simon_128_128_decrypt (cipher h) (fst ct) = Some (fst (strong_ct p))"
    "simon_128_128_decrypt (cipher h) (snd ct) = Some (snd (strong_ct p) XOR fst ct)"
    using simon128.dec_enc [OF assms(1)] assms(2) by (auto simp: seals_def)
  then show ?thesis
    by (cases ct) (simp add: decrypt_strong_def eval_exec core_decrypt_def return_def xor.assoc strong_pt_ct)
qed

lemma seals_exists: "simon_ready x \<Longrightarrow> \<exists>ct. seals x p ct"
  using simon128.enc_total by (force simp: seals_def)

lemma sde_pair:
  assumes "may_store c h rs1 rs2 imm"
    and "FORMAT_SEL h = FORMAT_SEL_STRONG \<and> m = 0 \<or> FORMAT_SEL h = FORMAT_SEL_PROOFCARRYING \<and> m = dfhash_xpr h rs2"
  shows "\<exists>h1 ct r. execute_insn c wr pc bits len (I_sde rs1 rs2 imm) h = (h1, Inr ()) \<and> core h1 = core h \<and>
    memory h1 = poke (poke (memory h) (XPR h rs1 + imm) (le_bytes 16 (fst ct))) (XPR h rs1 + imm + 16) (le_bytes 16 (snd ct)) \<and>
    seals (cipher h) \<lparr>sval = XPR h rs2, ssalt = r, sauth_sig = contract_sig (mojov_dc h), smetadata = m\<rparr> ct \<and>
    XPR h1 = XPR h \<and> datagrant_xpr h1 = datagrant_xpr h"
proof -
  let ?p = "\<lparr>sval = XPR h rs2, ssalt = trng_value c (draws h), sauth_sig = contract_sig (mojov_dc h), smetadata = m\<rparr>"
  obtain ct where ct: "seals (cipher h) ?p ct" using seals_exists assms(1) unfolding may_store_def by blast
  let ?h = "after_read c rs1 ((after_read c rs2 (begin_insn pc bits len h))\<lparr>draws := draws h + 4\<rparr>)"
  have run: "execute_insn c wr pc bits len (I_sde rs1 rs2 imm) h
      = (?h\<lparr>memory := poke (poke (memory h) (XPR h rs1 + imm) (le_bytes 16 (fst ct)))
           (XPR h rs1 + imm + 16) (le_bytes 16 (snd ct))\<rparr>, Inr ())"
    using assms(2)
  proof
    assume "FORMAT_SEL h = FORMAT_SEL_STRONG \<and> m = 0"
    then show ?thesis
      using assms(1) encrypt_strong_eval [of "(after_read c rs2 (begin_insn pc bits len h))\<lparr>draws := draws h + 4\<rparr>" ?p ct] ct
      by (cases ct) (simp add: execute_begin insn_sde_def may_store_def eval_exec by_format_eval store_pair_def)
  next
    assume "FORMAT_SEL h = FORMAT_SEL_PROOFCARRYING \<and> m = dfhash_xpr h rs2"
    then show ?thesis
      using assms(1) encrypt_strong_eval [of "(after_read c rs2 (begin_insn pc bits len h))\<lparr>draws := draws h + 4\<rparr>" ?p ct] ct
      by (cases ct) (simp add: execute_begin insn_sde_def may_store_def eval_exec by_format_eval store_pair_def)
  qed
  show ?thesis by (intro exI conjI, rule run, simp, simp, rule ct) simp_all
qed

lemma lde_fast:
  assumes "may_load c h rd rs1 imm" "FORMAT_SEL h = FORMAT_SEL_FAST"
    and "peek h (XPR h rs1 + imm) 16 = le_bytes 16 ct" "simon_128_128_encrypt (cipher h) (fast_ct p) = Some ct"
  shows "execute_insn c wr pc bits len (I_lde rd rs1 imm) h =
    (let g = after_read c rs1 (begin_insn pc bits len h) in
     if fauth_sig p = ucast (contract_sig (mojov_dc h)) then (after_write rd (fval p) g, Inr ()) else (g, Inl Security))"
proof -
  have "simon_128_128_decrypt (cipher h) ct = Some (fast_ct p)"
    using simon128.dec_enc assms(1,4) unfolding may_load_def by blast
  moreover have "peek (after_read c rs1 (begin_insn pc bits len h)) a n = peek h a n" for a n
    by (simp add: peek_def)
  ultimately show ?thesis
    using assms
    by (simp add: execute_begin insn_lde_def may_load_def eval_exec by_format_eval load_fast_def core_decrypt_def
        byte_simps fast_pt_ct return_def Let_def, simp add: and_then_def require_def abort_def return_def WRITE_REG_eval)
qed


lemma load_pair_eval:
  assumes "\<not> IS_SECREG r" "\<not> datagrant_xpr h r" "length (dfhash_input h) < 4"
    and "load_ok c (XPR h r + imm) 16" "load_ok c (XPR h r + imm + 16) 16"
    and "peek h (XPR h r + imm) 16 = le_bytes 16 lo" "peek h (XPR h r + imm + 16) 16 = le_bytes 16 hi"
  shows "load_pair c r imm h = (after_read c r h, Inr (lo, hi))"
proof -
  have "peek (after_read c r h) a n = peek h a n" for a n by (simp add: peek_def)
  then show ?thesis using assms by (simp add: load_pair_def eval_exec return_def byte_simps)
qed

lemma lde_strong:
  assumes "may_load c h rd rs1 imm" "FORMAT_SEL h = FORMAT_SEL_STRONG"
    and "peek h (XPR h rs1 + imm) 16 = le_bytes 16 (fst ct)" "peek h (XPR h rs1 + imm + 16) 16 = le_bytes 16 (snd ct)"
    and "seals (cipher h) p ct"
  shows "execute_insn c wr pc bits len (I_lde rd rs1 imm) h =
    (let g = after_read c rs1 (begin_insn pc bits len h) in
     if sauth_sig p = contract_sig (mojov_dc h) then (after_write rd (sval p) g, Inr ()) else (g, Inl Security))"
proof -
  let ?b = "begin_insn pc bits len h"
  have l: "load_pair c rs1 imm ?b = (after_read c rs1 ?b, Inr ct)"
    using assms by (cases ct) (auto intro!: load_pair_eval simp: may_load_def peek_def)
  have d: "decrypt_strong ct (after_read c rs1 ?b) = (after_read c rs1 ?b, Inr p)"
    using assms(1,5) by (intro decrypt_strong_eval) (auto simp: may_load_def)
  show ?thesis
    using assms(1,2)
    by (simp add: execute_begin insn_lde_def may_load_def step_eval by_format_eval l d Let_def,
        simp add: and_then_def require_def abort_def return_def WRITE_REG_eval)
qed

lemma lde_proof:
  assumes "may_load c h rd rs1 imm" "FORMAT_SEL h = FORMAT_SEL_PROOFCARRYING"
    and "peek h (XPR h rs1 + imm) 16 = le_bytes 16 (fst ct)" "peek h (XPR h rs1 + imm + 16) 16 = le_bytes 16 (snd ct)"
    and "seals (cipher h) p ct"
  shows "execute_insn c wr pc bits len (I_lde rd rs1 imm) h =
    (let g = after_read c rs1 (begin_insn pc bits len h); grant = (sauth_sig p = contract_sig (mojov_dc h) + 1);
         w = after_write rd (sval p) g in
     if sauth_sig p = contract_sig (mojov_dc h) \<or> grant
     then (w\<lparr>datagrant_xpr := (datagrant_xpr w)(rd := grant),
             dfhash_xpr := (dfhash_xpr w)(rd := if grant then 0 else smetadata p)\<rparr>, Inr ())
     else (g, Inl Security))"
proof -
  let ?b = "begin_insn pc bits len h"
  have l: "load_pair c rs1 imm ?b = (after_read c rs1 ?b, Inr ct)"
    using assms by (cases ct) (auto intro!: load_pair_eval simp: may_load_def peek_def)
  have d: "decrypt_strong ct (after_read c rs1 ?b) = (after_read c rs1 ?b, Inr p)"
    using assms(1,5) by (intro decrypt_strong_eval) (auto simp: may_load_def)
  show ?thesis
    using assms(1,2)
    by (simp add: execute_begin insn_lde_def may_load_def step_eval by_format_eval l d Let_def,
        simp add: and_then_def require_def abort_def return_def modify_def WRITE_REG_eval)
qed

text \<open>What a hart must share with the one that stored a packet to load it back.\<close>

definition same_seal :: "hart \<Rightarrow> hart \<Rightarrow> u64 \<Rightarrow> bool" where
  "same_seal h g a \<longleftrightarrow> core g = core h \<and> peek g a 16 = peek h a 16 \<and> peek g (a + 16) 16 = peek h (a + 16) 16"

lemma core_same:
  assumes "core g = core h"
  shows "FORMAT_SEL g = FORMAT_SEL h" "cipher g = cipher h" "mojov_dc g = mojov_dc h"
    "secreg_mode g = secreg_mode h"
  using assms by (simp_all add: core_def FORMAT_SEL_def mojov_cfg_read_def)

lemma sde_lde:
  assumes "may_store c h rs1 rs2 imm"
    and "FORMAT_SEL h \<in> {FORMAT_SEL_FAST, FORMAT_SEL_STRONG, FORMAT_SEL_PROOFCARRYING}"
  shows "\<exists>h1. execute_insn c wr pc bits len (I_sde rs1 rs2 imm) h = (h1, Inr ()) \<and> core h1 = core h \<and>
    (\<forall>g rd rb off pc' bits' len'. same_seal h1 g (XPR h rs1 + imm) \<longrightarrow> may_load c g rd rb off \<longrightarrow>
      XPR g rb + off = XPR h rs1 + imm \<longrightarrow>
      (\<exists>g'. execute_insn c wr pc' bits' len' (I_lde rd rb off) g = (g', Inr ()) \<and>
        XPR g' = (XPR g)(rd := XPR h rs2) \<and> \<not> datagrant_xpr g' rd \<and>
        (FORMAT_SEL h = FORMAT_SEL_PROOFCARRYING \<longrightarrow> dfhash_xpr g' rd = dfhash_xpr h rs2)))"
proof -
  let ?a = "XPR h rs1 + imm"
  consider (fast) "FORMAT_SEL h = FORMAT_SEL_FAST" | (strong) "FORMAT_SEL h = FORMAT_SEL_STRONG"
    | (carrying) "FORMAT_SEL h = FORMAT_SEL_PROOFCARRYING" using assms(2) by auto
  then show ?thesis
  proof cases
    case fast
    obtain h1 ct r where h1: "execute_insn c wr pc bits len (I_sde rs1 rs2 imm) h = (h1, Inr ())" "core h1 = core h"
      and m: "memory h1 = poke (memory h) ?a (le_bytes 16 ct)"
      and ct: "simon_128_128_encrypt (cipher h)
        (fast_ct \<lparr>fval = XPR h rs2, fsalt = r, fauth_sig = ucast (contract_sig (mojov_dc h))\<rparr>) = Some ct"
      using sde_fast [OF assms(1) fast] by blast
    have p: "peek h1 ?a 16 = le_bytes 16 ct" using peek_poke [OF m] by simp
    show ?thesis
    proof (rule exI [of _ h1], intro conjI allI impI, rule h1(1), rule h1(2), goal_cases)
      case (1 g rd rb off pc' bits' len')
      then have g: "core g = core h" "peek g (XPR g rb + off) 16 = le_bytes 16 ct"
        using h1(2) p by (auto simp: same_seal_def)
      have "FORMAT_SEL g = FORMAT_SEL_FAST" using core_same [OF g(1)] fast by simp
      from lde_fast [OF 1(2) this g(2), of _ wr pc' bits' len'] core_same [OF g(1)] ct
      show ?case using fast by (auto simp: Let_def format_values)
    qed
  next
    case strong
    obtain h1 ct r where h1: "execute_insn c wr pc bits len (I_sde rs1 rs2 imm) h = (h1, Inr ())" "core h1 = core h"
      and m: "memory h1 = poke (poke (memory h) ?a (le_bytes 16 (fst ct))) (?a + 16) (le_bytes 16 (snd ct))"
      and ct: "seals (cipher h) \<lparr>sval = XPR h rs2, ssalt = r, sauth_sig = contract_sig (mojov_dc h), smetadata = 0\<rparr> ct"
      using sde_pair [OF assms(1), of 0] strong by blast
    note p = peek_poke_pair [OF m]
    show ?thesis
    proof (rule exI [of _ h1], intro conjI allI impI, rule h1(1), rule h1(2), goal_cases)
      case (1 g rd rb off pc' bits' len')
      then have g: "core g = core h" "peek g (XPR g rb + off) 16 = le_bytes 16 (fst ct)"
        "peek g (XPR g rb + off + 16) 16 = le_bytes 16 (snd ct)"
        using h1(2) p by (auto simp: same_seal_def)
      have "FORMAT_SEL g = FORMAT_SEL_STRONG" using core_same [OF g(1)] strong by simp
      from lde_strong [OF 1(2) this g(2,3), of _ wr pc' bits' len'] core_same [OF g(1)] ct
      show ?case using strong by (auto simp: Let_def format_values)
    qed
  next
    case carrying
    obtain h1 ct r where h1: "execute_insn c wr pc bits len (I_sde rs1 rs2 imm) h = (h1, Inr ())" "core h1 = core h"
      and m: "memory h1 = poke (poke (memory h) ?a (le_bytes 16 (fst ct))) (?a + 16) (le_bytes 16 (snd ct))"
      and ct: "seals (cipher h) \<lparr>sval = XPR h rs2, ssalt = r, sauth_sig = contract_sig (mojov_dc h),
        smetadata = dfhash_xpr h rs2\<rparr> ct"
      using sde_pair [OF assms(1), of "dfhash_xpr h rs2"] carrying by blast
    note p = peek_poke_pair [OF m]
    show ?thesis
    proof (rule exI [of _ h1], intro conjI allI impI, rule h1(1), rule h1(2), goal_cases)
      case (1 g rd rb off pc' bits' len')
      then have g: "core g = core h" "peek g (XPR g rb + off) 16 = le_bytes 16 (fst ct)"
        "peek g (XPR g rb + off + 16) 16 = le_bytes 16 (snd ct)"
        using h1(2) p by (auto simp: same_seal_def)
      have "FORMAT_SEL g = FORMAT_SEL_PROOFCARRYING" using core_same [OF g(1)] carrying by simp
      from lde_proof [OF 1(2) this g(2,3), of _ wr pc' bits' len'] core_same [OF g(1)] ct
      show ?case by (auto simp: Let_def)
    qed
  qed
qed

section \<open>Disclosure\<close>

lemma disc_public:
  assumes "execute_insn c wr pc bits len (I_disc rd rs1 rs2) h = (h', Inr ())" "\<not> IS_SECREG rd" "rd \<noteq> 0"
  shows "secreg_mode h \<and> FORMAT_SEL h = FORMAT_SEL_PROOFCARRYING \<and> IS_SECREG rs1 \<and> datagrant_xpr h rs2 \<and>
    dfhash_xpr h rs1 = XPR h rs2 \<and> XPR h' = (XPR h)(rd := XPR h rs1)"
proof -
  let ?b = "begin_insn pc bits len h"
  have c: "ext_zkmojov c" "secreg_mode h" "FORMAT_SEL h = FORMAT_SEL_PROOFCARRYING" "IS_SECREG rs1"
    "datagrant_xpr h rs2" "dfhash_xpr h rs1 = XPR h rs2" and w: "WRITE_REG rd (XPR h rs1) ?b = (h', Inr ())"
    using assms(1,2)
    by (auto simp: execute_begin insn_disc_def and_then_Inr require_def return_def abort_def get_def split: if_splits)
  have "XPR h' = (XPR h)(rd := XPR h rs1)"
    using w assms(3)
    by (auto simp: WRITE_REG_def CHECK_REG_W_def and_then_Inr require_def return_def abort_def modify_def split: if_splits)
  then show ?thesis using c by simp
qed

end
