(* ===== verification/Mojov_Driver.thy ===== *)
theory Mojov_Driver
  imports Mojov_Packets "HOL-Library.While_Combinator"
begin

text \<open>
  The target library of \<^verbatim>\<open>bringup-bench/target/mojov-utils.c\<close>: a contract is loaded
  into the KMSM from its hex strings through the control registers, opened, and secret
  computation is switched on and checked. The routines take the accesses \<open>rd\<close> and \<open>wr\<close> of
  the control registers as arguments; a locale states what the loader needs of them, and it
  is interpreted on the registers of the simulated hart. A contract made by the contract
  tool, loaded by this library, opens in the hart.
\<close>

section \<open>The routines\<close>

definition hex_nibble :: "char \<Rightarrow> int" where
  "hex_nibble c =
    (if code CHR ''0'' \<le> code c \<and> code c \<le> code CHR ''9'' then code c - code CHR ''0''
     else if code CHR ''a'' \<le> code c \<and> code c \<le> code CHR ''f'' then 10 + (code c - code CHR ''a'')
     else if code CHR ''A'' \<le> code c \<and> code c \<le> code CHR ''F'' then 10 + (code c - code CHR ''A'')
     else -1)"

text \<open>The loop over the characters: the word so far, the number of its bytes and the pending
  high nibble (or -1).\<close>

fun load_hex_loop ::
  "(csr \<Rightarrow> u64 \<Rightarrow> 's \<Rightarrow> 's) \<Rightarrow> string \<Rightarrow> u64 \<Rightarrow> nat \<Rightarrow> int \<Rightarrow> 's \<Rightarrow> u64 \<times> nat \<times> int \<times> 's" where
  "load_hex_loop wr [] word byte_idx hi_nibble s = (word, byte_idx, hi_nibble, s)"
| "load_hex_loop wr (c # cs) word byte_idx hi_nibble s = (let hv = hex_nibble c in
     if hv < 0 then load_hex_loop wr cs word byte_idx hi_nibble s
     else if hi_nibble < 0 then load_hex_loop wr cs word byte_idx hv s
     else let byte = of_int (push_bit 4 hi_nibble OR hv) :: u8;
              word = word OR push_bit (byte_idx * 8) (ucast byte) in
          if byte_idx + 1 = 8 then load_hex_loop wr cs 0 0 (-1) (wr KMSM_DATA word s)
          else load_hex_loop wr cs word (byte_idx + 1) (-1) s)"

definition load_hex_words_to_kmsm :: "(csr \<Rightarrow> u64 \<Rightarrow> 's \<Rightarrow> 's) \<Rightarrow> string \<Rightarrow> u64 \<Rightarrow> 's \<Rightarrow> 's" where
  "load_hex_words_to_kmsm wr hex start_addr s =
    (let (word, byte_idx, hi_nibble, s) = load_hex_loop wr hex 0 0 (-1) (wr KMSM_ADDR start_addr s);
         (word, byte_idx) = (if hi_nibble \<ge> 0
           then (word OR push_bit (byte_idx * 8) (ucast (of_int (push_bit 4 hi_nibble) :: u8)), byte_idx + 1)
           else (word, byte_idx))
     in if byte_idx \<noteq> 0 then wr KMSM_DATA word s else s)"

definition KMSM_PUBKEY_BYTES :: u64 where "KMSM_PUBKEY_BYTES = 800"
definition KMSM_ENCKEY_BYTES :: u64 where "KMSM_ENCKEY_BYTES = 768"

definition cfg_text :: "u64 \<Rightarrow> string" where
  "cfg_text val = ''(mojov_en:'' @ (if val AND 1 \<noteq> 0 then ''t'' else ''f'') @
     '', key_valid:'' @ (if val AND 2 \<noteq> 0 then ''t'' else ''f'') @
     '', format_sel:'' @ (if drop_bit 2 val AND 3 = 2 then ''proof-carrying''
        else if drop_bit 2 val AND 3 = 1 then ''strong'' else ''fast'') @
     '', mojov_ver:'' @ decimal (unat (drop_bit 4 val AND 0xff)) @ '')''"

definition hex_lower :: "u64 \<Rightarrow> string" where
  "hex_lower v = (case dropWhile (\<lambda>c. c = CHR ''0'') (hex16 v) of [] \<Rightarrow> ''0'' | cs \<Rightarrow> cs)"

text \<open>A routine returns the state, its result and what it printed.\<close>

definition mojov_enable_and_verify ::
  "(csr \<Rightarrow> 's \<Rightarrow> u64) \<Rightarrow> (csr \<Rightarrow> u64 \<Rightarrow> 's \<Rightarrow> 's) \<Rightarrow> 's \<Rightarrow> 's \<times> int \<times> string" where
  "mojov_enable_and_verify rd wr s =
    (let enable = (\<lambda>s. let s = wr MOJOV_CFG 1 s; cfg = rd MOJOV_CFG s in
           if cfg AND 1 = 0
           then (s, -1, ''ERROR: failed to enable Mojo-V (mojov_en stayed 0).'' @ nl @ cfg_text cfg @ nl)
           else (s, 0, []))
     in if rd MOJOV_CFG s AND 2 = 0
        then let s = wr MOJOV_CFG 1 s; blocked = rd MOJOV_CFG s in
          if blocked AND 1 \<noteq> 0
          then (s, -1, ''ERROR: Mojo-V enabled without a valid open data contract.'' @ nl @ cfg_text blocked @ nl)
          else enable s
        else enable s)"

text \<open>Polling until the busy bit is clear; the reads do not change the state, so a busy bit
  that is set stays set and the result is None.\<close>

definition wait_kmsm :: "(csr \<Rightarrow> 's \<Rightarrow> u64) \<Rightarrow> 's \<Rightarrow> u64 option" where
  "wait_kmsm rd s = while_option (\<lambda>ctrl. ctrl AND 2 \<noteq> 0) (\<lambda>_. rd KMSM_CTRL s) (rd KMSM_CTRL s)"

definition mojov_configure_kmsm_from_dc ::
  "(csr \<Rightarrow> 's \<Rightarrow> u64) \<Rightarrow> (csr \<Rightarrow> u64 \<Rightarrow> 's \<Rightarrow> 's) \<Rightarrow> string \<Rightarrow> string \<Rightarrow> 's \<Rightarrow> ('s \<times> int \<times> string) option" where
  "mojov_configure_kmsm_from_dc rd wr kem_hex msg_hex s =
    (let s = load_hex_words_to_kmsm wr kem_hex KMSM_PUBKEY_BYTES s;
         s = load_hex_words_to_kmsm wr msg_hex (KMSM_PUBKEY_BYTES + KMSM_ENCKEY_BYTES) s;
         s = wr KMSM_CTRL 1 s
     in map_option (\<lambda>ctrl. let status = drop_bit 2 ctrl AND 7 in
          if status = 0 then
            let cfg = rd MOJOV_CFG s in
            if cfg AND 2 = 0
            then (s, -1, ''ERROR: KMSM contract open succeeded but key_valid stayed 0 (mojov_cfg=0x'' @
                     hex_lower cfg @ '').'' @ nl)
            else (s, 0, ''INFO: KMSM contract open succeeded.'' @ nl)
          else (s, -1, ''ERROR: KMSM contract open failed (kmsm_ctrl=0x'' @ hex_lower ctrl @ '', status='' @
                  decimal (unat status) @ '').'' @ nl))
        (wait_kmsm rd s))"

section \<open>Parsing the hex strings\<close>

lemma hex_nibble_eq: "hex_nibble = hex_to_nybble"
  by (rule ext) (simp add: hex_nibble_def hex_to_nybble_def)

fun kmsm_words :: "u8 list \<Rightarrow> u64 list" where
  "kmsm_words bs = (if bs = [] then [] else le_word (take 8 bs) # kmsm_words (drop 8 bs))"

declare kmsm_words.simps [simp del]

lemma le_word_snoc: "le_word (ps @ [b]) = (le_word ps OR push_bit (length ps * 8) (ucast b) :: 'a::len word)"
proof (induction ps)
  case Nil
  then show ?case by simp
next
  case (Cons p ps)
  then show ?case
    by (intro bit_word_eqI) (auto simp: bit_or_iff bit_push_bit_iff Cons.IH push_bit_push_bit ac_simps)
qed

definition flush_word :: "(csr \<Rightarrow> u64 \<Rightarrow> 's \<Rightarrow> 's) \<Rightarrow> u64 \<times> nat \<times> int \<times> 's \<Rightarrow> 's" where
  "flush_word wr = (\<lambda>(word, n, hi, s). if n \<noteq> 0 then wr KMSM_DATA word s else s)"

lemma load_hex_loop_bytes:
  "length ps < 8 \<Longrightarrow>
   (let r = load_hex_loop wr (bytes_to_hex bs) (le_word ps) (length ps) (-1) s in
    fst (snd (snd r)) = -1 \<and> flush_word wr r = fold (wr KMSM_DATA) (kmsm_words (ps @ bs)) s)"
proof (induction bs arbitrary: ps s)
  case Nil
  then show ?case
    by (cases "ps = []") (auto simp: bytes_to_hex_def flush_word_def kmsm_words.simps Let_def)
next
  case (Cons b bs)
  have hex: "bytes_to_hex (b # bs) = nybble_to_hex (unat (drop_bit 4 b AND 0xF)) #
      nybble_to_hex (unat (b AND 0xF)) # bytes_to_hex bs"
    by (simp add: bytes_to_hex_def)
  have word: "le_word ps OR push_bit (length ps * 8) (ucast b) = (le_word (ps @ [b]) :: u64)"
    by (simp only: le_word_snoc)
  have byte: "of_int (push_bit 4 (int (unat (drop_bit 4 b AND 0xF))) OR int (unat (b AND 0xF))) = b"
    by (simp add: nybbles_join)
  note step = hex load_hex_loop.simps hex_nibble_eq hex_nybble(1) [OF nybble_less] Let_def byte word
  show ?case
  proof (cases "length ps = 7")
    case True
    then have "kmsm_words (ps @ b # bs) = le_word (ps @ [b]) # kmsm_words bs"
      by (subst kmsm_words.simps) simp
    moreover have "load_hex_loop wr (bytes_to_hex (b # bs)) (le_word ps) (length ps) (-1) s
        = load_hex_loop wr (bytes_to_hex bs) (le_word []) (length []) (-1) (wr KMSM_DATA (le_word (ps @ [b])) s)"
      unfolding step using True by simp
    ultimately show ?thesis using Cons.IH [of "[]" "wr KMSM_DATA (le_word (ps @ [b])) s"] by simp
  next
    case False
    then have "load_hex_loop wr (bytes_to_hex (b # bs)) (le_word ps) (length ps) (-1) s
        = load_hex_loop wr (bytes_to_hex bs) (le_word (ps @ [b])) (length (ps @ [b])) (-1) s"
      unfolding step by simp
    then show ?thesis using Cons.IH [of "ps @ [b]" s] Cons.prems False by simp
  qed
qed

lemma load_hex_words:
  "load_hex_words_to_kmsm wr (bytes_to_hex bs) a s = fold (wr KMSM_DATA) (kmsm_words bs) (wr KMSM_ADDR a s)"
  using load_hex_loop_bytes [of "[]" wr bs "wr KMSM_ADDR a s"]
  by (cases "load_hex_loop wr (bytes_to_hex bs) 0 0 (-1) (wr KMSM_ADDR a s)")
     (simp add: load_hex_words_to_kmsm_def flush_word_def Let_def)

section \<open>What the loader needs of the registers\<close>

lemma put_bytes_append:
  assumes "idx + length bs \<le> length m"
  shows "put_bytes idx bs m = take idx m @ bs @ drop (idx + length bs) m"
proof -
  have "k \<le> length bs \<Longrightarrow> fold (\<lambda>b m. m[idx + b := bs ! b]) [0..<k] m = take idx m @ take k bs @ drop (idx + k) m" for k
  proof (induction k)
    case 0
    then show ?case by simp
  next
    case (Suc k)
    have "drop (idx + k) m = m ! (idx + k) # drop (idx + Suc k) m"
      using assms Suc.prems by (simp add: Cons_nth_drop_Suc)
    then show ?case using Suc assms by (simp add: list_update_append take_Suc_conv_app_nth)
  qed
  from this [of "length bs"] show ?thesis by (simp add: put_bytes_def)
qed

locale kmsm_port =
  fixes wr :: "csr \<Rightarrow> u64 \<Rightarrow> 's \<Rightarrow> 's"
    and ok :: "'s \<Rightarrow> bool"
    and pos :: "'s \<Rightarrow> nat"
    and window :: "'s \<Rightarrow> u8 list"
    and loaded :: "'s \<Rightarrow> nat \<times> nat"
    and kept :: "'s \<Rightarrow> 'k"
  assumes size: "ok s \<Longrightarrow> length (window s) = kmsm_bytes_total"
    and seek: "ok s \<Longrightarrow> s' = wr KMSM_ADDR a s \<Longrightarrow>
      ok s' \<and> pos s' = unat a \<and> window s' = window s \<and> loaded s' = loaded s \<and> kept s' = kept s"
    and store: "ok s \<Longrightarrow> s' = wr KMSM_DATA v s \<Longrightarrow> pos s mod 8 = 0 \<Longrightarrow> pubkey_bytes \<le> pos s \<Longrightarrow>
      pos s + 8 \<le> kmsm_bytes_total \<Longrightarrow>
      ok s' \<and> pos s' = (pos s + 8) mod kmsm_bytes_total \<and> window s' = put_bytes (pos s) (le_bytes 8 v) (window s) \<and>
      kept s' = kept s \<and>
      loaded s' = (if pos s < pubkey_bytes + enckey_bytes
        then (max (fst (loaded s)) (pos s + 8 - pubkey_bytes), snd (loaded s))
        else (fst (loaded s), max (snd (loaded s)) (pos s + 8 - (pubkey_bytes + enckey_bytes))))"
begin

text \<open>Words written from an aligned position on.\<close>

lemma store_words:
  assumes "ok s" "pos s = p" "p mod 8 = 0" "pubkey_bytes \<le> p" "length bs mod 8 = 0" "bs \<noteq> []"
    and "p + length bs \<le> kmsm_bytes_total"
  shows "let s' = fold (wr KMSM_DATA) (kmsm_words bs) s in ok s' \<and> kept s' = kept s \<and>
     pos s' = (p + length bs) mod kmsm_bytes_total \<and>
     window s' = take p (window s) @ bs @ drop (p + length bs) (window s) \<and>
     (p + length bs \<le> pubkey_bytes + enckey_bytes \<longrightarrow>
        loaded s' = (max (fst (loaded s)) (p + length bs - pubkey_bytes), snd (loaded s))) \<and>
     (pubkey_bytes + enckey_bytes \<le> p \<longrightarrow>
        loaded s' = (fst (loaded s), max (snd (loaded s)) (p + length bs - (pubkey_bytes + enckey_bytes))))"
  using assms
proof (induction "length bs div 8" arbitrary: bs s p)
  case 0
  then have "length bs = 0" using div_mult_mod_eq [of "length bs" 8] by linarith
  then show ?case using 0 by simp
next
  case (Suc n)
  have len: "8 \<le> length bs" using Suc.hyps(2) by (simp add: div_greater_zero_iff [symmetric] del: div_greater_zero_iff)
  then have w: "kmsm_words bs = le_word (take 8 bs) # kmsm_words (drop 8 bs)"
    by (subst kmsm_words.simps) (use len in auto)
  define t where "t = wr KMSM_DATA (le_word (take 8 bs)) s"
  have st: "ok t" "kept t = kept s" "pos t = (p + 8) mod kmsm_bytes_total"
    "window t = put_bytes p (le_bytes 8 (le_word (take 8 bs) :: u64)) (window s)"
    "loaded t = (if p < pubkey_bytes + enckey_bytes
        then (max (fst (loaded s)) (p + 8 - pubkey_bytes), snd (loaded s))
        else (fst (loaded s), max (snd (loaded s)) (p + 8 - (pubkey_bytes + enckey_bytes))))"
    using store [OF Suc.prems(1) t_def] Suc.prems len by auto
  have "le_bytes 8 (le_word (take 8 bs) :: u64) = take 8 bs" using len by (intro le_bytes_le_word) auto
  then have win: "window t = take p (window s) @ take 8 bs @ drop (p + 8) (window s)"
    using st(4) put_bytes_append [of p "take 8 bs" "window s"] size [OF Suc.prems(1)] Suc.prems len by simp
  have run: "fold (wr KMSM_DATA) (kmsm_words bs) s = fold (wr KMSM_DATA) (kmsm_words (drop 8 bs)) t"
    by (simp add: w t_def)
  show ?case
  proof (cases "drop 8 bs = []")
    case True
    then have "length bs = 8" "kmsm_words (drop 8 bs) = []" using len by (simp_all add: kmsm_words.simps)
    then show ?thesis using st win run by (auto simp: enckey_bytes_def)
  next
    case False
    then have more: "8 < length bs" "p + 8 < kmsm_bytes_total" using Suc.prems(7) by auto
    have "length (drop 8 bs) mod 8 = 0" "n = length (drop 8 bs) div 8"
      using Suc.prems(5) Suc.hyps(2) len by (auto simp: mod_if [of "length bs"] le_div_geq)
    from Suc.hyps(1) [OF this(2) st(1) _ _ _ this(1) False, of "p + 8"] more Suc.prems st(3)
    have ih: "let s' = fold (wr KMSM_DATA) (kmsm_words (drop 8 bs)) t in ok s' \<and> kept s' = kept t \<and>
        pos s' = (p + length bs) mod kmsm_bytes_total \<and>
        window s' = take (p + 8) (window t) @ drop 8 bs @ drop (p + length bs) (window t) \<and>
        (p + length bs \<le> pubkey_bytes + enckey_bytes \<longrightarrow>
          loaded s' = (max (fst (loaded t)) (p + length bs - pubkey_bytes), snd (loaded t))) \<and>
        (pubkey_bytes + enckey_bytes \<le> p + 8 \<longrightarrow>
          loaded s' = (fst (loaded t), max (snd (loaded t)) (p + length bs - (pubkey_bytes + enckey_bytes))))"
      by (simp add: mod_simps)
    have "take (p + 8) (window t) = take p (window s) @ take 8 bs"
      "drop (p + length bs) (window t) = drop (p + length bs) (window s)"
      using win size [OF Suc.prems(1)] more Suc.prems(7) by (simp_all add: add.commute)
    moreover have "take p (window s) @ take 8 bs @ drop 8 bs = take p (window s) @ bs" by simp
    ultimately have "take (p + 8) (window t) @ drop 8 bs @ drop (p + length bs) (window t)
        = take p (window s) @ bs @ drop (p + length bs) (window s)"
      by (metis append.assoc)
    then show ?thesis using ih run st(2,5) len Suc.prems(4) by (auto simp: Let_def max_def split: if_splits)
  qed
qed

text \<open>Both parts of a contract end up in their places.\<close>

theorem load_contract:
  assumes "ok s" "length kem = enckey_bytes" "length msg = encdc_bytes"
    and "fst (loaded s) \<le> enckey_bytes" "snd (loaded s) \<le> encdc_bytes"
  shows "let s' = load_hex_words_to_kmsm wr (bytes_to_hex msg) (KMSM_PUBKEY_BYTES + KMSM_ENCKEY_BYTES)
       (load_hex_words_to_kmsm wr (bytes_to_hex kem) KMSM_PUBKEY_BYTES s) in
     ok s' \<and> kept s' = kept s \<and> loaded s' = (enckey_bytes, encdc_bytes) \<and>
     window s' = take pubkey_bytes (window s) @ kem @ msg"
proof -
  note sizes = pubkey_bytes_def enckey_bytes_def encdc_bytes_def kmsm_bytes_total_def
  define s1 where "s1 = wr KMSM_ADDR KMSM_PUBKEY_BYTES s"
  define s2 where "s2 = fold (wr KMSM_DATA) (kmsm_words kem) s1"
  define s3 where "s3 = wr KMSM_ADDR (KMSM_PUBKEY_BYTES + KMSM_ENCKEY_BYTES) s2"
  have len: "length kem = 768" "length msg = 64" using assms(2,3) by (simp_all add: sizes)
  have s1: "ok s1" "pos s1 = 800" "window s1 = window s" "loaded s1 = loaded s" "kept s1 = kept s"
    using seek [OF assms(1) s1_def] by (simp_all add: KMSM_PUBKEY_BYTES_def)
  have "kem \<noteq> []" "msg \<noteq> []" using len by auto
  from store_words [OF s1(1,2), of kem] len this
  have s2: "ok s2" "kept s2 = kept s" "window s2 = take 800 (window s) @ kem @ drop 1568 (window s)"
    "loaded s2 = (768, snd (loaded s))"
    using s1 assms(4) by (auto simp: Let_def s2_def sizes)
  have s3: "ok s3" "pos s3 = 1568" "window s3 = window s2" "loaded s3 = loaded s2" "kept s3 = kept s2"
    using seek [OF s2(1) s3_def] by (simp_all add: KMSM_PUBKEY_BYTES_def KMSM_ENCKEY_BYTES_def)
  have "take 1568 (window s2) = take 800 (window s) @ kem"
    using size [OF assms(1)] s2(3) len by (simp add: sizes)
  with store_words [OF s3(1,2), of msg] len size [OF s2(1)] \<open>msg \<noteq> []\<close>
  show ?thesis
    using s3 s2 assms(5) unfolding load_hex_words s1_def [symmetric] s2_def [symmetric] s3_def [symmetric]
    by (auto simp: Let_def sizes)
qed

end


section \<open>The registers of the hart keep these laws\<close>

definition driver_frame :: "hart \<Rightarrow> bool \<times> bool \<times> u64 \<times> simon_cipher \<times> data_contract" where
  "driver_frame h = (secreg_mode h, mojov_dcvalid h, mojov_cfg_val h, cipher h, mojov_dc h)"

lemma and_7_mod: "(n :: nat) AND 7 = n mod 8"
  using take_bit_eq_mask [of 3 n] by (simp add: take_bit_eq_mod mask_eq_exp_minus_1)

interpretation port: kmsm_port "csr_write c env pem" "hart_inv c" "\<lambda>h. unat (kmsm_addr h)" kmsm_bytes
  "\<lambda>h. (kmsm_enckey_bytes h, kmsm_encdc_bytes h)" driver_frame
proof
  fix s assume "hart_inv c s"
  then show "length (kmsm_bytes s) = kmsm_bytes_total" by (simp add: hart_inv_def)
next
  fix s s' a assume s: "hart_inv c s" and s': "s' = csr_write c env pem KMSM_ADDR a s"
  show "hart_inv c s' \<and> unat (kmsm_addr s') = unat a \<and> kmsm_bytes s' = kmsm_bytes s \<and>
      (kmsm_enckey_bytes s', kmsm_encdc_bytes s') = (kmsm_enckey_bytes s, kmsm_encdc_bytes s) \<and>
      driver_frame s' = driver_frame s"
    using csr_write_inv [OF s, of env pem KMSM_ADDR a] s'
    by (simp add: mojov_kmsm_set_addr_def driver_frame_def)
next
  fix s s' v
  assume s: "hart_inv c s" and s': "s' = csr_write c env pem KMSM_DATA v s"
    and p: "unat (kmsm_addr s) mod 8 = 0" "pubkey_bytes \<le> unat (kmsm_addr s)"
      "unat (kmsm_addr s) + 8 \<le> kmsm_bytes_total"
  have len: "length (kmsm_bytes s) = 1632"
    using s by (simp add: hart_inv_def kmsm_bytes_total_def pubkey_bytes_def enckey_bytes_def encdc_bytes_def)
  have inv: "hart_inv c s'" unfolding s' by (rule csr_write_inv [OF s])
  have addr: "unat (of_nat (n mod 1632) :: u64) = n mod 1632" for n
    using mod_less_divisor [of 1632 n] by (simp add: unat_of_nat take_bit_nat_eq_self)
  have next8: "n + 8 \<le> 1632 \<Longrightarrow> unat (of_nat n + 8 :: u64) = n + 8" for n
    using addr [of "n + 8"] by (cases "n + 8 = 1632") (simp_all add: unat_word_ariths unat_of_nat take_bit_nat_eq_self)
  have near: "n mod 8 = 0 \<Longrightarrow> n < 1568 \<Longrightarrow> n - 800 + 8 \<le> 768"
    "n mod 8 = 0 \<Longrightarrow> n + 8 \<le> 1632 \<Longrightarrow> n - 1568 + 8 \<le> 64" for n :: nat
    by presburger+
  note sizes = kmsm_bytes_total_def pubkey_bytes_def enckey_bytes_def encdc_bytes_def kmsm_window_bytes_def
  show "hart_inv c s' \<and> unat (kmsm_addr s') = (unat (kmsm_addr s) + 8) mod kmsm_bytes_total \<and>
     kmsm_bytes s' = put_bytes (unat (kmsm_addr s)) (le_bytes 8 v) (kmsm_bytes s) \<and>
     driver_frame s' = driver_frame s \<and>
     (kmsm_enckey_bytes s', kmsm_encdc_bytes s') =
       (if unat (kmsm_addr s) < pubkey_bytes + enckey_bytes
        then (max (fst (kmsm_enckey_bytes s, kmsm_encdc_bytes s)) (unat (kmsm_addr s) + 8 - pubkey_bytes),
              snd (kmsm_enckey_bytes s, kmsm_encdc_bytes s))
        else (fst (kmsm_enckey_bytes s, kmsm_encdc_bytes s),
              max (snd (kmsm_enckey_bytes s, kmsm_encdc_bytes s))
                (unat (kmsm_addr s) + 8 - (pubkey_bytes + enckey_bytes))))"
    using inv p near [OF p(1)] len
    by (auto simp: s' mojov_kmsm_write_data_def Let_def sizes and_7_mod driver_frame_def put_bytes_nth addr min_def
        next8 [of "unat (kmsm_addr s)", simplified])
qed

section \<open>Opening a contract\<close>

text \<open>An encrypted contract for a secret key: what the contract tool produces.\<close>

definition sealed_contract ::
  "('pk, 'sk, 'r) ossl \<Rightarrow> 'sk \<Rightarrow> u8 list \<Rightarrow> u8 list \<Rightarrow> data_contract \<Rightarrow> bool" where
  "sealed_contract env sk kem msg dc \<longleftrightarrow> wf_contract dc \<and> sig dc = sig_str \<and>
    (\<exists>ss k key y x b. decap env sk kem = Some ss \<and> hkdf_sha256_key128 env ss = Some k \<and>
      ld_word 16 k 0 = Some key \<and> length (key_schedule y) = 576 \<and>
      simon_128_128_keyexpand y key 68 = Some (x, b) \<and>
      simon_encrypt x (wire dc) (replicate 64 0) = Some msg)"

lemma sealed_decrypt:
  assumes "simon_128_128_keyexpand y key 68 = Some (x, b)" "length (key_schedule y) = 576"
    and "simon_128_128_keyexpand y' key 68 = Some (x', b')" "length (key_schedule y') = 576"
    and "wf_contract dc" "simon_encrypt x (wire dc) (replicate 64 0) = Some msg"
  shows "length msg = 64 \<and> simon_decrypt x' msg (replicate 64 0) = Some (wire dc)"
proof -
  note det = simon_128_128_determined [OF assms(1-4)]
  from simon128.cbc_round_trip [OF det(1), of "wire dc" 4 "replicate 64 0" "replicate 64 0"]
  show ?thesis
    using assms(6) length_wire [OF assms(5)] det(3) by (auto simp: simon_encrypt_def simon_decrypt_def)
qed

lemma sealed_length: "sealed_contract env sk kem msg dc \<Longrightarrow> length msg = 64"
  unfolding sealed_contract_def using sealed_decrypt by blast

lemma open_sealed:
  assumes "sealed_contract env sk kem msg dc" "ready_to_check env sk" "\<And>bs. sha256 env bs \<noteq> None"
    and "path \<noteq> []" "pem path = Some sk" "kem \<noteq> []" "length (key_schedule z) = 576"
  shows "mojov_open_contract_from_components env pem z path kem msg None dc0 = (True, OK, dc)"
proof -
  obtain ss k key y x b where k: "decap env sk kem = Some ss" "hkdf_sha256_key128 env ss = Some k"
      "ld_word 16 k 0 = Some key" and y: "length (key_schedule y) = 576"
      "simon_128_128_keyexpand y key 68 = Some (x, b)" and wf: "wf_contract dc" "sig dc = sig_str"
    and m: "simon_encrypt x (wire dc) (replicate 64 0) = Some msg"
    using assms(1) unfolding sealed_contract_def by blast
  obtain x' b' where x': "simon_128_128_keyexpand z key 68 = Some (x', b')"
    using simon_128_128_expanded [OF assms(7), of key 68] by blast
  note d = sealed_decrypt [OF y(2,1) x' assms(7) wf(1) m]
  obtain hsh where "sha256 env (wire dc) = Some hsh" using assms(3) by blast
  moreover obtain l where "decap_size env sk kem = Some l" using assms(2) unfolding ready_to_check_def by blast
  ultimately show ?thesis
    using assms(2,4,5,6) k x' d wf dc_decode_wire [OF wf(1)]
    unfolding mojov_open_contract_from_components_def ready_to_check_def by simp
qed

text \<open>Opening from the loaded KMSM with secret mode off.\<close>

lemma kmsm_open_sealed:
  assumes "hart_inv c h" "\<not> secreg_mode h" "mojov_sk_pem_path c \<noteq> []" "pem (mojov_sk_pem_path c) = Some sk"
    and "ready_to_check env sk" "\<And>bs. sha256 env bs \<noteq> None" "sealed_contract env sk kem msg dc"
    and "length kem = enckey_bytes" "kmsm_enckey_bytes h = enckey_bytes" "kmsm_encdc_bytes h = encdc_bytes"
    and "kmsm_bytes h = take pubkey_bytes (kmsm_bytes h) @ kem @ msg"
  shows "\<exists>h'. csr_write c env pem KMSM_CTRL 1 h = h' \<and> hart_inv c h' \<and> \<not> secreg_mode h' \<and> mojov_dcvalid h' \<and>
    mojov_dc h' = dc \<and> kmsm_ctrl_busy h' = False \<and> kmsm_ctrl_status h' = 0"
proof -
  note sizes = pubkey_bytes_def enckey_bytes_def encdc_bytes_def kmsm_bytes_total_def
  let ?g = "h\<lparr>kmsm_ctrl_busy := True, mojov_dc := dc, kmsm_ctrl_status := 0, mojov_dcvalid := True\<rparr>"
  have len: "length (kmsm_bytes h) = 1632" "length (key_schedule (cipher h)) = 576"
    using assms(1) by (simp_all add: hart_inv_def sizes)
  have msg: "length msg = 64" by (rule sealed_length [OF assms(7)])
  obtain P where P: "kmsm_bytes h = P @ kem @ msg" "length P = 800"
    using assms(11) len(1) that [of "take 800 (kmsm_bytes h)"] by (simp add: sizes)
  then have part: "take 768 (drop 800 (kmsm_bytes h)) = kem" "take 64 (drop 1568 (kmsm_bytes h)) = msg"
    using assms(8) msg by (simp_all add: sizes)
  have off: "\<not> bit (mojov_cfg_val h) 0" using assms(1,2) by (simp add: hart_inv_def)
  have off': "mojov_cfg_read (h\<lparr>kmsm_ctrl_busy := True\<rparr>) AND 1 = 0"
  proof -
    have "\<not> mojov_cfg_read (h\<lparr>kmsm_ctrl_busy := True\<rparr>) AND 1 \<noteq> 0"
      unfolding and_1_bit cfg_read_bits using off by simp
    then show ?thesis by blast
  qed
  have on: "mojov_cfg_read ?g AND push_bit 1 1 \<noteq> 0" unfolding and_1_bit cfg_read_bits by simp
  have "kem \<noteq> []" using assms(8) by (auto simp: sizes)
  note opened = open_sealed [OF assms(7,5,6,3), of pem, OF assms(4) this len(2)]
  obtain x b where x: "expand_core (le_word (sym_key_128 dc)) ?g = ?g\<lparr>cipher := x\<rparr>"
    using expand_core_eq [of ?g "le_word (sym_key_128 dc)"] len by auto
  have "mojov_kmsm_open_contract c env pem h = (?g\<lparr>cipher := x, kmsm_ctrl_busy := False\<rparr>, True)"
    using assms(3,9,10) off' on opened part x
    by (simp add: mojov_kmsm_open_contract_def Let_def sizes mojov_kmsm_status_to_ctrl_field_def)
  then have w: "csr_write c env pem KMSM_CTRL 1 h = ?g\<lparr>cipher := x, kmsm_ctrl_busy := False\<rparr>"
    by (simp add: mojov_kmsm_write_ctrl_def)
  show ?thesis
    using csr_write_inv [OF assms(1), of env pem KMSM_CTRL 1] assms(2) unfolding w by simp
qed

section \<open>Configuring and enabling\<close>

lemmas cfg_bits = cfg_read_bits cfg_read_bits [unfolded One_nat_def]

lemma wait_idle: "rd KMSM_CTRL s AND 2 = 0 \<Longrightarrow> wait_kmsm rd s = Some (rd KMSM_CTRL s)"
  by (simp add: wait_kmsm_def while_option_unfold)

lemma and_2_bit: "(w :: u64) AND 2 = 0 \<longleftrightarrow> \<not> bit w 1" "(w :: u64) AND 1 = 0 \<longleftrightarrow> \<not> bit w 0"
  using and_1_bit [of w] by auto

lemma kmsm_frame:
  "driver_frame h' = driver_frame h \<Longrightarrow> secreg_mode h' = secreg_mode h \<and> mojov_dcvalid h' = mojov_dcvalid h"
  by (simp add: driver_frame_def)

lemma configure_sealed:
  assumes "hart_inv c h" "\<not> secreg_mode h" "mojov_sk_pem_path c \<noteq> []" "pem (mojov_sk_pem_path c) = Some sk"
    and "ready_to_check env sk" "\<And>bs. sha256 env bs \<noteq> None" "sealed_contract env sk kem msg dc"
    and "length kem = enckey_bytes"
  shows "\<exists>h'. mojov_configure_kmsm_from_dc csr_read (csr_write c env pem) (bytes_to_hex kem) (bytes_to_hex msg) h
      = Some (h', 0, ''INFO: KMSM contract open succeeded.'' @ nl) \<and>
    hart_inv c h' \<and> \<not> secreg_mode h' \<and> mojov_dcvalid h' \<and> mojov_dc h' = dc"
proof -
  define h1 where "h1 = load_hex_words_to_kmsm (csr_write c env pem) (bytes_to_hex msg)
    (KMSM_PUBKEY_BYTES + KMSM_ENCKEY_BYTES)
    (load_hex_words_to_kmsm (csr_write c env pem) (bytes_to_hex kem) KMSM_PUBKEY_BYTES h)"
  have msg: "length msg = encdc_bytes" using sealed_length [OF assms(7)] by (simp add: encdc_bytes_def)
  have bnd: "kmsm_enckey_bytes h \<le> enckey_bytes" "kmsm_encdc_bytes h \<le> encdc_bytes"
    using assms(1) by (simp_all add: hart_inv_def)
  have h1: "hart_inv c h1" "driver_frame h1 = driver_frame h" "kmsm_enckey_bytes h1 = enckey_bytes"
    "kmsm_encdc_bytes h1 = encdc_bytes" "kmsm_bytes h1 = take pubkey_bytes (kmsm_bytes h) @ kem @ msg"
    using port.load_contract [OF assms(1,8) msg, where env = env and pem = pem] bnd
    unfolding h1_def [symmetric] Let_def by simp_all
  have "length (take pubkey_bytes (kmsm_bytes h)) = pubkey_bytes"
    using assms(1) by (simp add: hart_inv_def kmsm_bytes_total_def)
  then have "kmsm_bytes h1 = take pubkey_bytes (kmsm_bytes h1) @ kem @ msg" using h1(5) by simp
  from kmsm_open_sealed [OF h1(1) _ assms(3), of pem, OF _ assms(4-8) h1(3,4) this] kmsm_frame [OF h1(2)] assms(2)
  obtain h2 where h2: "csr_write c env pem KMSM_CTRL 1 h1 = h2" "hart_inv c h2" "\<not> secreg_mode h2"
    "mojov_dcvalid h2" "mojov_dc h2 = dc" "\<not> kmsm_ctrl_busy h2" "kmsm_ctrl_status h2 = 0" by auto
  have ctrl: "csr_read KMSM_CTRL h2 = 0" using h2 by (simp add: mojov_kmsm_read_ctrl_def)
  have "mojov_cfg_read h2 AND 2 \<noteq> 0" using h2(4) by (simp add: and_2_bit cfg_bits)
  then have "mojov_configure_kmsm_from_dc csr_read (csr_write c env pem) (bytes_to_hex kem) (bytes_to_hex msg) h
      = Some (h2, 0, ''INFO: KMSM contract open succeeded.'' @ nl)"
    unfolding mojov_configure_kmsm_from_dc_def h1_def [symmetric] Let_def h2(1)
    using wait_idle [of csr_read h2] ctrl by simp
  then show ?thesis using h2 by blast
qed

text \<open>A write of 1 to the configuration switches secret mode on exactly when a contract is
  open.\<close>

lemma enable_write:
  assumes "hart_inv c h" "h' = csr_write c env pem MOJOV_CFG 1 h"
  shows "hart_inv c h'" "secreg_mode h' \<longleftrightarrow> mojov_dcvalid h" "mojov_dcvalid h' = mojov_dcvalid h"
    "mojov_dc h' = mojov_dc h"
proof -
  show inv: "hart_inv c h'" unfolding assms(2) by (rule csr_write_inv [OF assms(1)])
  have e: "expand_core k g = g\<lparr>cipher := cipher (expand_core k g)\<rparr>" for k g
    by (auto simp: expand_core_def split: option.split)
  have v: "mojov_cfg_read h AND push_bit 1 1 \<noteq> 0 \<longleftrightarrow> mojov_dcvalid h" unfolding and_1_bit cfg_read_bits ..
  have "((mojov_cfg_read h AND NOT 1) OR 1) AND 1 \<noteq> 0" "\<not> (mojov_cfg_read h AND NOT 1) AND 1 \<noteq> 0"
    unfolding and_1_bit by (simp_all add: bit_or_iff bit_and_iff bit_not_iff)
  then show "secreg_mode h' \<longleftrightarrow> mojov_dcvalid h" "mojov_dcvalid h' = mojov_dcvalid h" "mojov_dc h' = mojov_dc h"
    using v unfolding assms(2) csr_write.simps mojov_cfg_write_def Let_def set_secreg_mode_def
    by (auto simp: mojov_destroy_metadata_def SECREG_RESET_def FP_SECREG_RESET_def expand_core_def
        split: option.split)
qed

lemma enable_and_verify:
  assumes "hart_inv c h" "mojov_enable_and_verify csr_read (csr_write c env pem) h = (h', r, out)"
  shows "hart_inv c h' \<and> (r = 0 \<longleftrightarrow> mojov_dcvalid h) \<and> (secreg_mode h' \<longleftrightarrow> mojov_dcvalid h) \<and>
    mojov_dcvalid h' = mojov_dcvalid h \<and> mojov_dc h' = mojov_dc h \<and> (out = [] \<longleftrightarrow> r = 0)"
proof -
  define a where "a = csr_write c env pem MOJOV_CFG 1 h"
  define b where "b = csr_write c env pem MOJOV_CFG 1 a"
  note a = enable_write [OF assms(1) a_def]
  note b = enable_write [OF a(1) b_def]
  have "bit (mojov_cfg_val a) 0 \<longleftrightarrow> secreg_mode a" "bit (mojov_cfg_val b) 0 \<longleftrightarrow> secreg_mode b"
    using a(1) b(1) by (simp_all add: hart_inv_def)
  then show ?thesis
    using assms(2) a b unfolding mojov_enable_and_verify_def Let_def a_def [symmetric] b_def [symmetric]
    by (auto simp: and_2_bit cfg_bits nl_def split: if_splits)
qed

end
