(* ===== verification/Mojov_Properties.thy ===== *)
theory Mojov_Properties
  imports Mojov_Isolation Mojov_Driver
begin

text \<open>
  The properties of the simulated Mojo-V hart and of its target library, each with an
  instance on concrete harts and configurations.
\<close>

section \<open>Concrete harts\<close>

definition sample_config :: config where
  "sample_config = \<lparr>mojov_sk_pem_path = ''sk'', mojov_pk_der = replicate 800 7, mojov_arg = 0, mojov_strong = True,
     mojov_proofcarrying = False, ext_zkmojov = True, host_rand = of_nat, load_ok = (\<lambda>_ _. True),
     ialign16 = True, store_ok = (\<lambda>_ _. True)\<rparr>"

definition sample_pem :: "string \<Rightarrow> unit option" where
  "sample_pem path = (if path = ''sk'' then Some () else None)"

definition dark_hart :: hart where
  "dark_hart = \<lparr>XPR = (\<lambda>_. 0), FPR = (\<lambda>_. 0), dfhash_xpr = (\<lambda>_. 0), dfhash_fpr = (\<lambda>_. 0),
     datagrant_xpr = (\<lambda>_. False), dfhash_input = [], xpr_deps = 0, npc = 0x80000000, memory = (\<lambda>_. 0), draws = 0,
     secreg_mode = False, cipher = blank_cipher, mojov_cfg_val = 0, mojov_dcvalid = False,
     mojov_dc = blank_contract, kmsm_bytes = replicate 1632 0, kmsm_addr = 0, kmsm_ctrl_busy = False,
     kmsm_ctrl_status = 0, kmsm_status = [0, 0, 0, 0], kmsm_enckey_bytes = 0, kmsm_encdc_bytes = 0\<rparr>"

definition started :: hart where
  "started = power_on sample_config dark_hart"

definition secret_hart :: "simon_cipher \<Rightarrow> u8 \<Rightarrow> hart" where
  "secret_hart x fmt = dark_hart\<lparr>secreg_mode := True, cipher := x, mojov_cfg_val := 0x13, mojov_dcvalid := True,
     mojov_dc := sample_contract\<lparr>format_sel := fmt\<rparr>, XPR := (\<lambda>r. if r = 2 then 0x1000 else of_nat r)\<rparr>"

lemma started_reachable: "reachable sample_config env pem started"
  unfolding started_def by (rule reachable.start) (simp add: dark_hart_def blank_cipher_def)

lemma started_dark: "\<not> secreg_mode started" "mojov_dcvalid started = False"
  by (simp_all add: started_def power_on_def state_reset_def mojov_reset_def Let_def mojov_destroy_metadata_def)

section \<open>Driver steps are accesses\<close>

lemma load_hex_loop_keeps:
  assumes "\<And>r v s. P s \<Longrightarrow> P (wr r v s)" "P s"
  shows "P (snd (snd (snd (load_hex_loop wr hex w n hi s))))"
  using assms by (induction wr hex w n hi s rule: load_hex_loop.induct) (auto simp: Let_def)

lemma load_hex_keeps:
  assumes "\<And>r v s. P s \<Longrightarrow> P (wr r v s)" "P s"
  shows "P (load_hex_words_to_kmsm wr hex a s)"
  using load_hex_loop_keeps [of P wr "wr KMSM_ADDR a s" hex 0 0 "-1", OF assms(1) assms(1) [OF assms(2)]]
  by (cases "load_hex_loop wr hex 0 0 (-1) (wr KMSM_ADDR a s)")
     (auto simp: load_hex_words_to_kmsm_def Let_def assms(1))

lemma configure_keeps:
  assumes "\<And>r v s. P s \<Longrightarrow> P (wr r v s)" "P s"
    and "mojov_configure_kmsm_from_dc rd wr kem msg s = Some (s', r, out)"
  shows "P s'"
proof -
  have "P (wr KMSM_CTRL 1 (load_hex_words_to_kmsm wr msg (KMSM_PUBKEY_BYTES + KMSM_ENCKEY_BYTES)
      (load_hex_words_to_kmsm wr kem KMSM_PUBKEY_BYTES s)))"
    by (rule assms(1), rule load_hex_keeps [of P, OF assms(1)], assumption, rule load_hex_keeps [of P, OF assms(1)],
        assumption, rule assms(2))
  then show ?thesis
    using assms(3) by (auto simp: mojov_configure_kmsm_from_dc_def Let_def split: if_splits)
qed

lemma configure_reachable:
  assumes "reachable c env pem h"
    and "mojov_configure_kmsm_from_dc rd (csr_write c env pem) kem msg h = Some (h', r, out)"
  shows "reachable c env pem h'"
  by (rule configure_keeps [of "reachable c env pem", OF _ assms]) (rule reachable.access)

lemma enable_keeps:
  assumes "\<And>r v s. P s \<Longrightarrow> P (wr r v s)" "P s"
  shows "P (fst (mojov_enable_and_verify rd wr s))"
  using assms by (auto simp: mojov_enable_and_verify_def Let_def)

lemma enable_reachable:
  assumes "reachable c env pem h" "mojov_enable_and_verify rd (csr_write c env pem) h = (h', r, out)"
  shows "reachable c env pem h'"
  using enable_keeps [of "reachable c env pem" "csr_write c env pem" h rd] assms
  by (simp add: reachable.access del: csr_write.simps)

section \<open>From a contract to secret mode\<close>

lemma generated_sealed:
  assumes "generated env sk fmt ct_file w w' dc" "length (key_schedule (simon_state w)) = 576"
  shows "\<exists>kem msg hsh. files w' ct_file = Some (combined_text kem msg hsh) \<and> length kem = enckey_bytes \<and>
    sealed_contract env sk kem msg dc"
  using assms unfolding generated_def sealed_contract_def enckey_bytes_def by fastforce

text \<open>
  C2: from the contract tool to the hart. If OpenSSL keeps its laws and its calls are
  available, a dcgen run for a public key writes a file whose key and contract parts, loaded
  by the target library into a hart in normal mode that holds the matching secret key, open
  the contract there; switching on then succeeds silently, the hart is in secret mode under
  that contract, keyed by it, in the memory format chosen at generation.
\<close>

theorem contract_opens_secret_mode:
  assumes "ossl_laws env pk sk" "ready_to_generate env pk ct_file" "ready_to_check env sk"
    and "\<And>bs. sha256 env bs \<noteq> None"
    and "Option.bind (files w pk_file) (pem_read_pub env) = Some pk"
    and "length (key_schedule (simon_state w)) = 576"
    and "mode \<in> {''fast'', ''strong'', ''proof-carrying'', ''proofcarrying''}"
    and "reachable c env pem h" "\<not> secreg_mode h"
    and "mojov_sk_pem_path c \<noteq> []" "pem (mojov_sk_pem_path c) = Some sk"
  shows "\<exists>w1 kem msg hsh h1 h2 dc. main env [prog, ''dcgen'', pk_file, mode, ct_file] w = (w1, 0) \<and>
    files w1 ct_file = Some (combined_text kem msg hsh) \<and>
    mojov_configure_kmsm_from_dc csr_read (csr_write c env pem) (bytes_to_hex kem) (bytes_to_hex msg) h
      = Some (h1, 0, ''INFO: KMSM contract open succeeded.'' @ nl) \<and>
    mojov_enable_and_verify csr_read (csr_write c env pem) h1 = (h2, 0, []) \<and>
    reachable c env pem h2 \<and> secreg_mode h2 \<and> mojov_dc h2 = dc \<and> sig dc = sig_str \<and> keyed h2 \<and>
    format_sel dc = (if mode = ''fast'' then 0 else if mode = ''strong'' then 1 else 2)"
proof -
  define fmt where "fmt = (if mode = ''fast'' then 0 else if mode = ''strong'' then 1 else 2 :: u8)"
  have parse: "parse_format_sel mode w = (w, Inr fmt)"
    using assms(7) by (auto simp: parse_format_sel_def return_def fmt_def)
  obtain w1 where gen: "step_dcgen env pk_file fmt ct_file w = (w1, Inr ())"
    using step_dcgen_ok [OF assms(1,2,5,6)] by blast
  have run: "main env [prog, ''dcgen'', pk_file, mode, ct_file] w = (w1, 0)"
    by (simp add: main_def dispatch_def parse gen and_then_def)
  obtain dc where dc: "generated env sk fmt ct_file w w1 dc"
    using step_dcgen_Inr [OF assms(1) gen assms(5)] by blast
  obtain kem msg hsh where kem: "files w1 ct_file = Some (combined_text kem msg hsh)"
    "length kem = enckey_bytes" "sealed_contract env sk kem msg dc"
    using generated_sealed [OF dc assms(6)] by blast
  note inv = reachable_inv [OF assms(8)]
  obtain h1 where h1: "mojov_configure_kmsm_from_dc csr_read (csr_write c env pem) (bytes_to_hex kem)
      (bytes_to_hex msg) h = Some (h1, 0, ''INFO: KMSM contract open succeeded.'' @ nl)"
    "hart_inv c h1" "mojov_dcvalid h1" "mojov_dc h1 = dc"
    using configure_sealed [OF inv assms(9,10), of pem, OF assms(11,3,4) kem(3,2)] by blast
  obtain h2 r out where h2: "mojov_enable_and_verify csr_read (csr_write c env pem) h1 = (h2, r, out)"
    by (metis prod.exhaust)
  note e = enable_and_verify [OF h1(2) h2]
  have "reachable c env pem h2"
    using enable_reachable [OF configure_reachable [OF assms(8) h1(1)] h2] .
  moreover have "sig dc = sig_str" "format_sel dc = fmt" using dc unfolding generated_def by blast+
  moreover have "keyed h2" using e h1 unfolding hart_inv_def by blast
  ultimately show ?thesis
    using run kem(1) h1 h2 e unfolding fmt_def by blast
qed

lemma contract_opens_secret_mode_witness:
  "\<exists>w1 h1 h2 dc kem msg. main sample_ossl [''dc'', ''dcgen'', ''pk'', ''strong'', ''ct''] sample_world = (w1, 0) \<and>
    mojov_configure_kmsm_from_dc csr_read (csr_write sample_config sample_ossl sample_pem)
      (bytes_to_hex kem) (bytes_to_hex msg) started = Some (h1, 0, ''INFO: KMSM contract open succeeded.'' @ nl) \<and>
    mojov_enable_and_verify csr_read (csr_write sample_config sample_ossl sample_pem) h1 = (h2, 0, []) \<and>
    secreg_mode h2 \<and> mojov_dc h2 = dc \<and> format_sel dc = 1"
proof -
  have "ossl_laws sample_ossl () ()" "ready_to_generate sample_ossl () ''ct''" "ready_to_check sample_ossl ()"
    "\<And>bs. sha256 sample_ossl bs \<noteq> None"
    by (auto simp: ossl_laws_def ready_to_generate_def ready_to_check_def sample_ossl_def)
  from contract_opens_secret_mode [OF this, of sample_world "''pk''" "''strong''" sample_config sample_pem started "''dc''"]
  show ?thesis
    using started_reachable started_dark
    by (fastforce simp: sample_ossl_def sample_world_def blank_cipher_def sample_config_def sample_pem_def)
qed

section \<open>The secret mode invariant\<close>

text \<open>
  C3: in every hart a program can bring about, the enable bit that software reads tells
  whether secret mode is on; secret mode is on only while a contract with a valid signature
  is open and the cipher is keyed by that contract; and the public key region of the KMSM
  is as it was set at reset.
\<close>

theorem secret_mode_needs_contract:
  assumes "reachable c env pem h"
  shows "(secreg_mode h \<longleftrightarrow> bit (csr_read MOJOV_CFG h) 0) \<and>
    (secreg_mode h \<longrightarrow> mojov_dcvalid h \<and> sig (mojov_dc h) = sig_str \<and> keyed h) \<and>
    take pubkey_bytes (kmsm_bytes h) = take pubkey_bytes (mojov_pk_der c @ replicate pubkey_bytes 0)"
  using reachable_inv [OF assms] by (simp add: hart_inv_def cfg_read_bits)

text \<open>
  C33: the target library's enable routine reports success exactly when a contract is open,
  and the hart is then, and only then, in secret mode; it prints nothing on success.
\<close>

theorem enable_verdict:
  assumes "reachable c env pem h" "mojov_enable_and_verify csr_read (csr_write c env pem) h = (h', r, out)"
  shows "(r = 0 \<longleftrightarrow> mojov_dcvalid h) \<and> (secreg_mode h' \<longleftrightarrow> r = 0) \<and> (out = [] \<longleftrightarrow> r = 0) \<and>
    mojov_dc h' = mojov_dc h"
  using enable_and_verify [OF reachable_inv [OF assms(1)] assms(2)] by blast

lemma enable_verdict_witness:
  "\<exists>h' r out. mojov_enable_and_verify csr_read (csr_write sample_config sample_ossl sample_pem) started = (h', r, out) \<and>
    r \<noteq> 0 \<and> \<not> secreg_mode h' \<and> out \<noteq> []"
proof -
  obtain h' r out where e: "mojov_enable_and_verify csr_read (csr_write sample_config sample_ossl sample_pem) started
      = (h', r, out)" by (metis prod.exhaust)
  from enable_verdict [OF started_reachable e] started_dark show ?thesis using e by blast
qed

text \<open>
  C15: loading both parts of a contract from their hex strings leaves exactly these bytes in
  the key and contract regions of the KMSM, the counters full, and the public key region,
  the open contract, the mode and the cipher untouched.
\<close>

theorem load_contract_window:
  assumes "reachable c env pem h" "length kem = 768" "length msg = 64"
  shows "let h' = load_hex_words_to_kmsm (csr_write c env pem) (bytes_to_hex msg) (KMSM_PUBKEY_BYTES + KMSM_ENCKEY_BYTES)
      (load_hex_words_to_kmsm (csr_write c env pem) (bytes_to_hex kem) KMSM_PUBKEY_BYTES h) in
    kmsm_bytes h' = take 800 (kmsm_bytes h) @ kem @ msg \<and> kmsm_enckey_bytes h' = 768 \<and> kmsm_encdc_bytes h' = 64 \<and>
    secreg_mode h' = secreg_mode h \<and> mojov_dcvalid h' = mojov_dcvalid h \<and> mojov_dc h' = mojov_dc h \<and> cipher h' = cipher h"
proof -
  note sizes = pubkey_bytes_def enckey_bytes_def encdc_bytes_def
  have b: "fst (kmsm_enckey_bytes h, kmsm_encdc_bytes h) \<le> enckey_bytes"
    "snd (kmsm_enckey_bytes h, kmsm_encdc_bytes h) \<le> encdc_bytes"
    using reachable_inv [OF assms(1)] by (simp_all add: hart_inv_def)
  from port.load_contract [OF reachable_inv [OF assms(1)] _ _ b, of kem msg env pem] assms(2,3)
  show ?thesis by (simp add: Let_def sizes driver_frame_def)
qed

lemma load_contract_window_witness:
  "kmsm_encdc_bytes (load_hex_words_to_kmsm (csr_write sample_config sample_ossl sample_pem)
     (bytes_to_hex (replicate 64 3)) (KMSM_PUBKEY_BYTES + KMSM_ENCKEY_BYTES)
     (load_hex_words_to_kmsm (csr_write sample_config sample_ossl sample_pem)
       (bytes_to_hex (replicate 768 5)) KMSM_PUBKEY_BYTES started)) = 64"
  using load_contract_window [OF started_reachable, of "replicate 768 5" "replicate 64 3" sample_ossl sample_pem]
  by (simp add: Let_def)

lemma secret_mode_needs_contract_witness:
  "\<exists>h. secreg_mode h \<and> mojov_dcvalid h \<and> sig (mojov_dc h) = sig_str \<and> keyed h \<and> bit (csr_read MOJOV_CFG h) 0"
proof -
  have laws: "ossl_laws sample_ossl () ()" "ready_to_generate sample_ossl () ''ct''" "ready_to_check sample_ossl ()"
    "\<And>bs. sha256 sample_ossl bs \<noteq> None"
    by (auto simp: ossl_laws_def ready_to_generate_def ready_to_check_def sample_ossl_def)
  have "Option.bind (files sample_world ''pk'') (pem_read_pub sample_ossl) = Some ()"
    "length (key_schedule (simon_state sample_world)) = 576"
    by (simp_all add: sample_ossl_def sample_world_def blank_cipher_def)
  note gen = step_dcgen_ok [OF laws(1,2) this, of 1]
  obtain w1 where w1: "step_dcgen sample_ossl ''pk'' 1 ''ct'' sample_world = (w1, Inr ())" using gen by blast
  obtain dc where "generated sample_ossl () 1 ''ct'' sample_world w1 dc"
    using step_dcgen_Inr [OF laws(1) w1] by (auto simp: sample_ossl_def sample_world_def)
  then obtain kem msg hsh where kem: "length kem = enckey_bytes" "sealed_contract sample_ossl () kem msg dc"
    using generated_sealed by (fastforce simp: sample_world_def blank_cipher_def)
  have sk: "mojov_sk_pem_path sample_config \<noteq> []" "sample_pem (mojov_sk_pem_path sample_config) = Some ()"
    by (simp_all add: sample_config_def sample_pem_def)
  obtain h1 where h1: "mojov_configure_kmsm_from_dc csr_read (csr_write sample_config sample_ossl sample_pem)
      (bytes_to_hex kem) (bytes_to_hex msg) started = Some (h1, 0, ''INFO: KMSM contract open succeeded.'' @ nl)"
    "hart_inv sample_config h1" "mojov_dcvalid h1"
    using configure_sealed [OF reachable_inv [OF started_reachable] started_dark(1) sk(1), of sample_pem, OF sk(2)
        laws(3,4) kem(2,1)] by blast
  obtain h2 r out where h2: "mojov_enable_and_verify csr_read (csr_write sample_config sample_ossl sample_pem) h1
      = (h2, r, out)" by (metis prod.exhaust)
  have "reachable sample_config sample_ossl sample_pem h2"
    using enable_reachable [OF configure_reachable [OF started_reachable h1(1)] h2] .
  from secret_mode_needs_contract [OF this] enable_and_verify [OF h1(2) h2] h1(3) show ?thesis by blast
qed

section \<open>Isolation of secrets\<close>

text \<open>
  C1: isolation. Two harts in secret mode that differ only in the values of secret
  registers, running a program without releasing instructions (no encrypted store, no
  disclosure, no control register access), end alike after any number of steps: with the
  same trap or none, and differing only in secret registers; so their memories, public
  registers and next instructions agree.
\<close>

theorem secret_isolation:
  assumes "ext_zkmojov c" "\<And>m a. \<not> may_release (snd (snd (fetch m a)))" "low h h'"
  shows "snd (run_hart c fetch wr n h) = snd (run_hart c fetch wr n h') \<and>
    low (fst (run_hart c fetch wr n h)) (fst (run_hart c fetch wr n h')) \<and>
    memory (fst (run_hart c fetch wr n h)) = memory (fst (run_hart c fetch wr n h')) \<and>
    npc (fst (run_hart c fetch wr n h)) = npc (fst (run_hart c fetch wr n h'))"
proof -
  note r = run_hart_low [OF assms, where wr = wr and n = n]
  show ?thesis using r low_fields(6,7) [OF conjunct1 [OF r]] by simp
qed

lemma secret_isolation_witness:
  "\<exists>h h' fetch. XPR h 24 \<noteq> XPR h' 24 \<and> low h h' \<and>
    memory (fst (run_hart sample_config fetch (\<lambda>_ _ g. g) 2 h)) = memory (fst (run_hart sample_config fetch (\<lambda>_ _ g. g) 2 h'))"
proof -
  let ?h = "secret_hart blank_cipher 1" and ?fetch = "\<lambda>_ _. (0x33, 4, I_alu ADD 25 24 26) :: u64 \<times> u64 \<times> insn"
  let ?h' = "?h\<lparr>XPR := (XPR ?h)(24 := 99), FPR := FPR ?h\<rparr>"
  have l: "low ?h ?h'" by (rule lowI) (auto simp: secret_hart_def dark_hart_def IS_SECREG_iff)
  have "ext_zkmojov sample_config" "\<And>m a. \<not> may_release (snd (snd (?fetch m a)))"
    by (simp_all add: sample_config_def)
  from secret_isolation [OF this l, of "\<lambda>_ _ g. g" 2]
  have "memory (fst (run_hart sample_config ?fetch (\<lambda>_ _ g. g) 2 ?h)) =
      memory (fst (run_hart sample_config ?fetch (\<lambda>_ _ g. g) 2 ?h'))" by blast
  moreover have "XPR ?h 24 \<noteq> XPR ?h' 24" by (simp add: secret_hart_def)
  ultimately show ?thesis using l by blast
qed

section \<open>Sealed values\<close>

text \<open>
  C4: what SDE seals LDE unseals, in each memory format. A store of a secret register that
  the hart may perform goes through, and any later hart state under the same contract and
  key whose memory still holds the packet loads the stored value into the secret register
  named, without a datagrant mark, and in the proof carrying format with the dataflow hash
  of the value stored.
\<close>

theorem sealed_value_round_trip:
  assumes "may_store c h rs1 rs2 imm"
    and "FORMAT_SEL h \<in> {FORMAT_SEL_FAST, FORMAT_SEL_STRONG, FORMAT_SEL_PROOFCARRYING}"
  shows "\<exists>h1. execute_insn c wr pc bits len (I_sde rs1 rs2 imm) h = (h1, Inr ()) \<and> core h1 = core h \<and>
    (\<forall>g rd rb off pc' bits' len'. same_seal h1 g (XPR h rs1 + imm) \<longrightarrow> may_load c g rd rb off \<longrightarrow>
      XPR g rb + off = XPR h rs1 + imm \<longrightarrow>
      (\<exists>g'. execute_insn c wr pc' bits' len' (I_lde rd rb off) g = (g', Inr ()) \<and>
        XPR g' = (XPR g)(rd := XPR h rs2) \<and> \<not> datagrant_xpr g' rd \<and>
        (FORMAT_SEL h = FORMAT_SEL_PROOFCARRYING \<longrightarrow> dfhash_xpr g' rd = dfhash_xpr h rs2)))"
  by (rule sde_lde [OF assms])

lemma secret_hart_format:
  "FORMAT_SEL (secret_hart x 0) = FORMAT_SEL_FAST" "FORMAT_SEL (secret_hart x 1) = FORMAT_SEL_STRONG"
  "FORMAT_SEL (secret_hart x 2) = FORMAT_SEL_PROOFCARRYING"
  by (simp_all add: FORMAT_SEL_def mojov_cfg_read_def secret_hart_def dark_hart_def format_values)

lemma some_ready_cipher: "\<exists>x. simon_ready x"
proof -
  have "length (key_schedule blank_cipher) = 576" by (simp add: blank_cipher_def)
  from simon_128_128_expanded [OF this, of 1 68] simon_128_128_determined(1) this show ?thesis by blast
qed

lemma secret_hart_may:
  assumes "simon_ready x"
  shows "may_store sample_config (secret_hart x f) 2 26 8" "may_load sample_config ((secret_hart x f)\<lparr>memory := m\<rparr>) 27 2 8"
  using assms by (simp_all add: may_store_def may_load_def sample_config_def secret_hart_def dark_hart_def IS_SECREG_iff)

lemma sealed_value_round_trip_witness:
  "\<exists>h h1 g g'. execute_insn sample_config (\<lambda>_ _ g. g) 0 0 4 (I_sde 2 26 8) h = (h1, Inr ()) \<and> memory g = memory h1 \<and>
    execute_insn sample_config (\<lambda>_ _ g. g) 0 0 4 (I_lde 27 2 8) g = (g', Inr ()) \<and> XPR g' 27 = 26"
proof -
  obtain x where x: "simon_ready x" using some_ready_cipher by blast
  let ?h = "secret_hart x 1"
  have f: "FORMAT_SEL ?h \<in> {FORMAT_SEL_FAST, FORMAT_SEL_STRONG, FORMAT_SEL_PROOFCARRYING}"
    by (simp add: secret_hart_format)
  obtain h1 where h1: "execute_insn sample_config (\<lambda>_ _ g. g) 0 0 4 (I_sde 2 26 8) ?h = (h1, Inr ())" "core h1 = core ?h"
    and reload: "\<And>g rd rb off pc' bits' len'. same_seal h1 g (XPR ?h 2 + 8) \<Longrightarrow> may_load sample_config g rd rb off \<Longrightarrow>
      XPR g rb + off = XPR ?h 2 + 8 \<Longrightarrow>
      \<exists>g'. execute_insn sample_config (\<lambda>_ _ g. g) pc' bits' len' (I_lde rd rb off) g = (g', Inr ()) \<and>
        XPR g' = (XPR g)(rd := XPR ?h 26)"
    using sealed_value_round_trip [OF secret_hart_may(1) [OF x] f, of "\<lambda>_ _ g. g" 0 0 4] by blast
  let ?g = "?h\<lparr>memory := memory h1\<rparr>"
  have "same_seal h1 ?g (XPR ?h 2 + 8)" using h1(2) by (simp add: same_seal_def peek_def core_def)
  moreover have "XPR ?g 2 + 8 = XPR ?h 2 + 8" "XPR ?h 26 = 26" by (simp_all add: secret_hart_def)
  ultimately obtain g' where "execute_insn sample_config (\<lambda>_ _ g. g) 0 0 4 (I_lde 27 2 8) ?g = (g', Inr ())"
      "XPR g' 27 = 26"
    using reload [OF _ secret_hart_may(2) [OF x], of "memory h1" 1 0 0 4] by auto
  then show ?thesis using h1(1) by (intro exI [of _ ?h] exI [of _ h1] exI [of _ ?g] exI [of _ g']) simp
qed

text \<open>
  C5: a packet without the contract's signature does not load. In the two-word formats,
  whatever 32 bytes are at the address, there is exactly one plaintext they seal; LDE traps
  with a security exception, changing no register and no memory, when its signature word is
  neither the contract's nor (in the proof carrying format) the datagrant's, and otherwise
  succeeds with its value.
\<close>

theorem unsigned_packet_traps:
  assumes "may_load c h rd rs1 imm" "FORMAT_SEL h = FORMAT_SEL_STRONG \<or> FORMAT_SEL h = FORMAT_SEL_PROOFCARRYING"
  shows "\<exists>!p. \<exists>ct. peek h (XPR h rs1 + imm) 16 = le_bytes 16 (fst ct) \<and>
    peek h (XPR h rs1 + imm + 16) 16 = le_bytes 16 (snd ct) \<and> seals (cipher h) p ct \<and>
    (let (h', r) = execute_insn c wr pc bits len (I_lde rd rs1 imm) h;
         signed = (sauth_sig p = contract_sig (mojov_dc h) \<or>
           FORMAT_SEL h = FORMAT_SEL_PROOFCARRYING \<and> sauth_sig p = contract_sig (mojov_dc h) + 1)
     in memory h' = memory h \<and> (signed \<longrightarrow> r = Inr () \<and> XPR h' = (XPR h)(rd := sval p)) \<and>
        (\<not> signed \<longrightarrow> r = Inl Security \<and> XPR h' = XPR h \<and> FPR h' = FPR h))"
proof -
  have ready: "simon_ready (cipher h)" using assms(1) by (simp add: may_load_def)
  define lo where "lo = (le_word (peek h (XPR h rs1 + imm) 16) :: u128)"
  define hi where "hi = (le_word (peek h (XPR h rs1 + imm + 16) 16) :: u128)"
  have ct: "peek h (XPR h rs1 + imm) 16 = le_bytes 16 lo" "peek h (XPR h rs1 + imm + 16) 16 = le_bytes 16 hi"
    unfolding lo_def hi_def by (simp_all add: le_bytes_le_word peek_def)
  obtain a b where ab: "simon_128_128_decrypt (cipher h) lo = Some a" "simon_128_128_decrypt (cipher h) hi = Some b"
    using simon128.dec_total [OF ready] by blast
  define p where "p = strong_pt (a, b XOR lo)"
  have p: "seals (cipher h) p (lo, hi)"
    using simon128.enc_dec [OF ready ab(1)] simon128.enc_dec [OF ready ab(2)]
    by (simp add: seals_def p_def strong_ct_pt xor.assoc)
  have run: "let (h', r) = execute_insn c wr pc bits len (I_lde rd rs1 imm) h;
         signed = (sauth_sig p = contract_sig (mojov_dc h) \<or>
           FORMAT_SEL h = FORMAT_SEL_PROOFCARRYING \<and> sauth_sig p = contract_sig (mojov_dc h) + 1)
     in memory h' = memory h \<and> (signed \<longrightarrow> r = Inr () \<and> XPR h' = (XPR h)(rd := sval p)) \<and>
        (\<not> signed \<longrightarrow> r = Inl Security \<and> XPR h' = XPR h \<and> FPR h' = FPR h)"
    using assms(2)
  proof
    assume s: "FORMAT_SEL h = FORMAT_SEL_STRONG"
    show ?thesis using s lde_strong [OF assms(1) s, of "(lo, hi)" p wr pc bits len] ct p
      by (auto simp: Let_def format_values)
  next
    assume s: "FORMAT_SEL h = FORMAT_SEL_PROOFCARRYING"
    show ?thesis using s lde_proof [OF assms(1) s, of "(lo, hi)" p wr pc bits len] ct p by (auto simp: Let_def)
  qed
  have uniq: "q = p" if "peek h (XPR h rs1 + imm) 16 = le_bytes 16 (fst ct')"
      "peek h (XPR h rs1 + imm + 16) 16 = le_bytes 16 (snd ct')" "seals (cipher h) q ct'"
    for q and ct' :: "u128 \<times> u128"
  proof -
    have "ct' = (lo, hi)" using that(1,2) by (cases ct') (simp add: lo_def hi_def le_word_le_bytes_id)
    then show ?thesis
      using decrypt_strong_eval [OF ready, of q "(lo, hi)"] decrypt_strong_eval [OF ready p] that(3) by simp
  qed
  show ?thesis
  proof (rule ex1I)
    show "\<exists>ct. peek h (XPR h rs1 + imm) 16 = le_bytes 16 (fst ct) \<and>
      peek h (XPR h rs1 + imm + 16) 16 = le_bytes 16 (snd ct) \<and> seals (cipher h) p ct \<and>
      (let (h', r) = execute_insn c wr pc bits len (I_lde rd rs1 imm) h;
           signed = (sauth_sig p = contract_sig (mojov_dc h) \<or>
             FORMAT_SEL h = FORMAT_SEL_PROOFCARRYING \<and> sauth_sig p = contract_sig (mojov_dc h) + 1)
       in memory h' = memory h \<and> (signed \<longrightarrow> r = Inr () \<and> XPR h' = (XPR h)(rd := sval p)) \<and>
          (\<not> signed \<longrightarrow> r = Inl Security \<and> XPR h' = XPR h \<and> FPR h' = FPR h))"
      by (intro exI [of _ "(lo, hi)"] conjI run p) (simp_all add: ct)
  qed (use uniq in blast)
qed

lemma unsigned_packet_traps_witness:
  "\<exists>h h' r. execute_insn sample_config (\<lambda>_ _ g. g) 0 0 4 (I_lde 27 2 8) h = (h', r) \<and> memory h' = memory h \<and>
    (r = Inl Security \<or> r = Inr ())"
proof -
  obtain x where x: "simon_ready x" using some_ready_cipher by blast
  let ?h = "(secret_hart x 1)\<lparr>memory := (\<lambda>_. 7)\<rparr>"
  have "FORMAT_SEL ?h = FORMAT_SEL_STRONG" by (simp add: secret_hart_format)
  then have s: "FORMAT_SEL ?h = FORMAT_SEL_STRONG \<or> FORMAT_SEL ?h = FORMAT_SEL_PROOFCARRYING" by blast
  obtain h' r where e: "execute_insn sample_config (\<lambda>_ _ g. g) 0 0 4 (I_lde 27 2 8) ?h = (h', r)" by (metis prod.exhaust)
  from ex1_implies_ex [OF unsigned_packet_traps [OF secret_hart_may(2) [OF x] s, of "\<lambda>_ _ g. g" 0 0 4]]
  have "memory h' = memory ?h \<and> (r = Inl Security \<or> r = Inr ())"
    unfolding e Let_def prod.case by blast
  then show ?thesis using e by blast
qed

section \<open>Disclosure\<close>

text \<open>
  C6: a DISC that writes a public register discloses only by grant: the hart is in secret
  mode with the proof carrying format, the source is a secret register whose dataflow hash
  is the value of a register loaded as a datagrant, and the disclosed value is the source's.
\<close>

theorem disclosure_needs_grant:
  assumes "execute_insn c wr pc bits len (I_disc rd rs1 rs2) h = (h', Inr ())" "\<not> IS_SECREG rd" "rd \<noteq> 0"
  shows "secreg_mode h \<and> FORMAT_SEL h = FORMAT_SEL_PROOFCARRYING \<and> IS_SECREG rs1 \<and> datagrant_xpr h rs2 \<and>
    dfhash_xpr h rs1 = XPR h rs2 \<and> XPR h' = (XPR h)(rd := XPR h rs1)"
  by (rule disc_public [OF assms])

lemma disclosure_needs_grant_witness:
  "\<exists>h h'. execute_insn sample_config (\<lambda>_ _ g. g) 0 0 4 (I_disc 5 24 27) h = (h', Inr ()) \<and>
    datagrant_xpr h 27 \<and> dfhash_xpr h 24 = XPR h 27 \<and> XPR h' 5 = 24"
proof -
  let ?h = "(secret_hart blank_cipher 2)\<lparr>datagrant_xpr := (\<lambda>r. r = 27), dfhash_xpr := (\<lambda>_. 27)\<rparr>"
  have f: "FORMAT_SEL ?h = FORMAT_SEL_PROOFCARRYING"
    using secret_hart_format(3) [of blank_cipher] by (simp add: FORMAT_SEL_def mojov_cfg_read_def)
  have s: "secreg_mode ?h" "XPR ?h 27 = 27" "XPR ?h 24 = 24" by (simp_all add: secret_hart_def)
  obtain h' where e: "execute_insn sample_config (\<lambda>_ _ g. g) 0 0 4 (I_disc 5 24 27) ?h = (h', Inr ())"
    using f s by (simp add: execute_begin insn_disc_def step_eval sample_config_def IS_SECREG_iff WRITE_REG_def
        CHECK_REG_W_def begin_insn_def FORMAT_SEL_def mojov_cfg_read_def)
  have "datagrant_xpr ?h 27" "dfhash_xpr ?h 24 = XPR ?h 27" "XPR h' 5 = 24"
    using disclosure_needs_grant [OF e] s by (simp_all add: IS_SECREG_iff)
  then show ?thesis using e by blast
qed

section \<open>What reset and disabling leave behind\<close>

text \<open>
  C36: a reset does not leave secret mode. Whatever the hart was doing, after the reset no
  contract is open and the enable bit that software reads is clear, while the mode flag
  that every access check consults is the one from before: a hart in secret mode is still
  in it, without the contract the mode requires.
\<close>

theorem reset_keeps_secret_mode:
  "secreg_mode (state_reset c h) = secreg_mode h \<and> \<not> mojov_dcvalid (state_reset c h) \<and>
    \<not> bit (csr_read MOJOV_CFG (state_reset c h)) 0 \<and> XPR (state_reset c h) = (\<lambda>_. 0)"
proof -
  have "\<not> bit (mojov_cfg_init c) 0"
    by (simp add: mojov_cfg_init_def bit_simps format_values)
  then show ?thesis
    by (simp add: state_reset_def mojov_reset_def Let_def mojov_destroy_metadata_def cfg_read_bits)
qed

text \<open>
  C37: writing 0 to the configuration register leaves secret mode and clears all eight secret
  integer registers, but of the floating-point ones \<open>f25\<close>, \<open>f26\<close> and \<open>f27\<close> keep their
  secret values, which the hart, no longer in secret mode, lets every instruction read.
\<close>

theorem disable_leaves_fp_secrets:
  "\<not> secreg_mode (csr_write c env pem MOJOV_CFG 0 h) \<and>
    (\<forall>r. IS_SECREG r \<longrightarrow> XPR (csr_write c env pem MOJOV_CFG 0 h) r = 0) \<and>
    (\<forall>r. IS_FP_SECREG r \<longrightarrow> FPR (csr_write c env pem MOJOV_CFG 0 h) r = (if r \<in> {25, 26, 27} then FPR h r else 0))"
proof -
  have off: "(mojov_cfg_read h AND NOT 1) AND 1 = 0"
    using bit_iff_and_push_bit_not_eq_0 [of "mojov_cfg_read h AND NOT 1" 0] by (simp add: bit_and_iff bit_not_iff)
  have w: "csr_write c env pem MOJOV_CFG 0 h = FP_SECREG_RESET (SECREG_RESET (mojov_destroy_metadata
      (h\<lparr>mojov_cfg_val := mojov_cfg_read h AND NOT 1, secreg_mode := False\<rparr>)))"
    using off by (simp add: mojov_cfg_write_def set_secreg_mode_def Let_def)
  have r: "r \<in> {24, 25, 26, 27, 28, 29, 30, 31}" if "24 \<le> r" "r < 32" for r :: nat using that by auto
  show ?thesis
    unfolding w by (auto simp: FP_SECREG_RESET_def SECREG_RESET_def mojov_destroy_metadata_def
        IS_SECREG_iff IS_FP_SECREG_iff dest!: r)
qed

lemma disable_leaves_fp_secrets_witness:
  "FPR (csr_write sample_config sample_ossl sample_pem MOJOV_CFG 0 ((secret_hart blank_cipher 1)\<lparr>FPR := (\<lambda>_. 42)\<rparr>)) 26 = 42"
  using disable_leaves_fp_secrets [of sample_config sample_ossl sample_pem
      "(secret_hart blank_cipher 1)\<lparr>FPR := (\<lambda>_. 42)\<rparr>"] by (simp add: IS_FP_SECREG_iff)

end
