(* ===== verification/Libmin_Mem.thy ===== *)
theory Libmin_Mem
  imports Prelude
begin

text \<open>
  The memory routines of the benchmark library (src/bringup-bench/common: libmin_memcpy.c,
  libmin_memmove.c, libmin_memset.c, libmin_memcmp.c). The address space is one byte list,
  a pointer is an index into it, and an access past its end is the value None; objects may
  overlap. A routine returns the memory after it and its C result. Sizes and addresses are
  natural numbers; where the code computes with them as 64-bit words the model does so too.
\<close>

section \<open>Characterising block writes\<close>

lemma st_bytes_iff:
  "st_bytes m a bs = Some m' \<longleftrightarrow>
     a + length bs \<le> length m \<and> length m' = length m \<and>
     (\<forall>i < length m. m' ! i = (if a \<le> i \<and> i < a + length bs then bs ! (i - a) else m ! i))"
  (is "?L = ?R")
proof
  assume ?L
  then have "a + length bs \<le> length m"
    and m': "m' = take a m @ bs @ drop (a + length bs) m"
    by (auto simp: st_bytes_def split: if_splits)
  then show ?R by (auto simp: nth_append)
next
  assume R: ?R
  have "m' = take a m @ bs @ drop (a + length bs) m"
  proof (rule nth_equalityI)
    show "length m' = length (take a m @ bs @ drop (a + length bs) m)" using R by auto
  next
    fix i assume "i < length m'"
    with R show "m' ! i = (take a m @ bs @ drop (a + length bs) m) ! i"
      by (auto simp: nth_append)
  qed
  with R show ?L by (simp add: st_bytes_def)
qed

lemma st_bytes_Some: "a + length bs \<le> length m \<Longrightarrow> \<exists>m'. st_bytes m a bs = Some m'"
  by (simp add: st_bytes_def)

lemma st_bytes_Nil [simp]: "st_bytes m a [] = (if a \<le> length m then Some m else None)"
  by (simp add: st_bytes_def)

lemma st_bytes_step:
  "st_bytes m a (b # bs) = Option.bind (st m a b) (\<lambda>m'. st_bytes m' (Suc a) bs)"
  by (simp add: st_bytes_Cons)

lemma ld_bytes_Suc:
  "ld_bytes m a (Suc n) =
     (case ld m a of None \<Rightarrow> None | Some b \<Rightarrow> map_option ((#) b) (ld_bytes m (Suc a) n))"
  by (auto simp: ld_bytes_def ld_def Cons_nth_drop_Suc [symmetric] take_Suc_Cons)

lemma ld_bytes_0 [simp]: "ld_bytes m a 0 = (if a \<le> length m then Some [] else None)"
  by (simp add: ld_bytes_def)

lemma nth_ld_bytes: "ld_bytes m a n = Some bs \<Longrightarrow> i < n \<Longrightarrow> bs ! i = m ! (a + i)"
  by (auto simp: mem_simps)

section \<open>Definitions\<close>

fun memcpy_loop :: "nat \<Rightarrow> nat \<Rightarrow> nat \<Rightarrow> mem \<Rightarrow> mem option" where
  "memcpy_loop d s 0 m = Some m"
| "memcpy_loop d s (Suc n) m =
     do {
       b \<leftarrow> ld m s;
       m' \<leftarrow> st m d b;
       memcpy_loop (d + 1) (s + 1) n m'
     }"

definition libmin_memcpy :: "nat \<Rightarrow> nat \<Rightarrow> nat \<Rightarrow> mem \<Rightarrow> (mem \<times> nat) option" where
  "libmin_memcpy dest src n m = do { m' \<leftarrow> memcpy_loop dest src n m; Some (m', dest) }"

definition memmove_byte :: "nat \<Rightarrow> nat \<Rightarrow> nat \<Rightarrow> mem \<Rightarrow> mem option" where
  "memmove_byte dest src i m = do { b \<leftarrow> ld m (src + i); st m (dest + i) b }"

definition libmin_memmove :: "nat \<Rightarrow> nat \<Rightarrow> nat \<Rightarrow> mem \<Rightarrow> (mem \<times> nat) option" where
  "libmin_memmove dest src n m =
     do {
       m' \<leftarrow> (if dest < src then for_up 0 n (memmove_byte dest src) m
             else if dest > src then for_down n (memmove_byte dest src) m
             else Some m);
       Some (m', dest)
     }"

fun memset_loop :: "nat \<Rightarrow> u8 \<Rightarrow> nat \<Rightarrow> mem \<Rightarrow> mem option" where
  "memset_loop s c 0 m = Some m"
| "memset_loop s c (Suc n) m = do { m' \<leftarrow> st m s c; memset_loop (s + 1) c n m' }"

definition libmin_memset :: "nat \<Rightarrow> u32 \<Rightarrow> nat \<Rightarrow> mem \<Rightarrow> (mem \<times> nat) option" where
  "libmin_memset dest ci n m =
     (let s = dest; c = (ucast ci :: u8) in
      if n = 0 then Some (m, dest) else
      do {
        m \<leftarrow> st m (s + (n - 1)) c;
        m \<leftarrow> st m (s + 0) c;
        if n \<le> 2 then Some (m, dest) else do {
        m \<leftarrow> st m (s + (n - 2)) c;
        m \<leftarrow> st m (s + 1) c;
        m \<leftarrow> st m (s + (n - 3)) c;
        m \<leftarrow> st m (s + 2) c;
        if n \<le> 6 then Some (m, dest) else do {
        m \<leftarrow> st m (s + (n - 4)) c;
        m \<leftarrow> st m (s + 3) c;
        if n \<le> 8 then Some (m, dest) else do {
        let k = unat (- (of_nat s :: u64) AND 3);
        let n' = unat ((of_nat n - of_nat k :: u64) AND (- 4));
        m \<leftarrow> memset_loop (s + k) c n' m;
        Some (m, dest) }}}})"

fun memcmp_loop :: "mem \<Rightarrow> nat \<Rightarrow> nat \<Rightarrow> nat \<Rightarrow> int option" where
  "memcmp_loop m l r 0 = Some 0"
| "memcmp_loop m l r (Suc n) =
     do {
       x \<leftarrow> ld m l;
       y \<leftarrow> ld m r;
       if x = y then memcmp_loop m (l + 1) (r + 1) n else Some (uint x - uint y)
     }"

definition libmin_memcmp :: "nat \<Rightarrow> nat \<Rightarrow> nat \<Rightarrow> mem \<Rightarrow> int option" where
  "libmin_memcmp vl vr n m = memcmp_loop m vl vr n"

section \<open>Copying\<close>

lemma ld_bytes_update_outside:
  "j < a \<or> a + n \<le> j \<Longrightarrow> ld_bytes (m[j := x]) a n = ld_bytes m a n"
  by (auto simp: ld_bytes_def list_eq_iff_nth_eq)

lemma memcpy_loop_st_bytes:
  assumes "ld_bytes m s n = Some bs" "d + n \<le> length m" "d \<le> s \<or> s + n \<le> d"
  shows "memcpy_loop d s n m = st_bytes m d bs"
  using assms
proof (induction n arbitrary: d s m bs)
  case 0
  then show ?case by (auto split: if_splits)
next
  case (Suc n)
  from Suc.prems(1) obtain bs' where s: "s < length m" and bs: "bs = m ! s # bs'"
    and rest: "ld_bytes m (Suc s) n = Some bs'"
    by (auto simp: ld_bytes_Suc ld_eq_Some split: option.splits)
  have "ld_bytes (m[d := m ! s]) (Suc s) n = Some bs'"
    using rest Suc.prems(3) by (subst ld_bytes_update_outside) auto
  then have "memcpy_loop (Suc d) (Suc s) n (m[d := m ! s]) = st_bytes (m[d := m ! s]) (Suc d) bs'"
    using Suc.prems by (intro Suc.IH) auto
  with Suc.prems s show ?case by (simp add: bs st_bytes_step)
qed

lemma memcpy_loop_propagates:
  assumes "memcpy_loop d s n m = Some m'" "s < d"
  shows "(\<forall>i<n. m' ! (d + i) = m' ! (s + i)) \<and> (\<forall>j<length m. j < d \<or> d + n \<le> j \<longrightarrow> m' ! j = m ! j)
     \<and> length m' = length m"
  using assms
proof (induction n arbitrary: d s m)
  case 0
  then show ?case by simp
next
  case (Suc n)
  then have s: "s < length m" and d: "d < length m"
    and run: "memcpy_loop (Suc d) (Suc s) n (m[d := m ! s]) = Some m'"
    by (auto simp: ld_def st_def split: if_splits)
  have IH: "\<forall>i<n. m' ! (Suc d + i) = m' ! (Suc s + i)"
      "\<forall>j<length m. j < Suc d \<or> Suc d + n \<le> j \<longrightarrow> m' ! j = m[d := m ! s] ! j"
      "length m' = length m"
    using Suc.IH [OF run] Suc.prems(2) by auto
  have "m' ! d = m ! s" "m' ! s = m ! s" using IH(2) Suc.prems(2) s d by auto
  then have "m' ! (d + i) = m' ! (s + i)" if "i < Suc n" for i
    using that IH(1) by (cases i) auto
  with IH show ?case by auto
qed

lemma memcpy_loop_Some:
  "s + n \<le> length m \<Longrightarrow> d + n \<le> length m \<Longrightarrow> \<exists>m'. memcpy_loop d s n m = Some m'"
  by (induction n arbitrary: d s m) auto

lemma for_up_memcpy_loop:
  "for_up lo n (memmove_byte d s) m = memcpy_loop (d + lo) (s + lo) n m"
  by (induction n arbitrary: lo m) (auto simp: memmove_byte_def split: option.splits Option.bind_splits)

lemma for_down_st_bytes:
  assumes "ld_bytes m s n = Some bs" "d + n \<le> length m" "s < d"
  shows "for_down n (memmove_byte d s) m = st_bytes m d bs"
  using assms
proof (induction n arbitrary: m bs)
  case 0
  then show ?case by simp
next
  case (Suc n)
  let ?m = "m[d + n := m ! (s + n)]"
  from Suc.prems have bounds: "s + n < length m" "d + n < length m" and bs: "bs = take (Suc n) (drop s m)"
    by (auto simp: mem_simps)
  define bs' where "bs' = take n (drop s m)"
  have len: "length bs' = n" using bounds by (simp add: bs'_def)
  have "ld_bytes ?m s n = Some bs'"
    using Suc.prems(3) bounds by (subst ld_bytes_update_outside) (auto simp: ld_bytes_def bs'_def)
  then have "for_down n (memmove_byte d s) ?m = st_bytes ?m d bs'"
    using Suc.IH Suc.prems by simp
  also have "\<dots> = st_bytes m d bs"
  proof -
    have e: "bs = bs' @ [m ! (s + n)]"
      using bounds by (simp add: bs bs'_def take_Suc_conv_app_nth)
    obtain m2 where m2: "st_bytes ?m d bs' = Some m2"
      using st_bytes_Some [of d bs' ?m] bounds len by auto
    then have "st_bytes m d bs = Some m2"
      unfolding st_bytes_iff using bounds len by (auto simp: e nth_append nth_list_update)
    with m2 show ?thesis by simp
  qed
  finally show ?case using bounds by (simp add: memmove_byte_def [of d s n m])
qed

lemma memmove_st_bytes:
  assumes "ld_bytes m src n = Some bs" "dest + n \<le> length m"
  shows "libmin_memmove dest src n m = map_option (\<lambda>m'. (m', dest)) (st_bytes m dest bs)"
proof -
  have len: "length bs = n" and b: "bs = take n (drop src m)" "src + n \<le> length m"
    using assms by (auto simp: mem_simps)
  consider "dest < src" | "dest > src" | "dest = src" by linarith
  then show ?thesis
  proof cases
    case 1
    then show ?thesis
      using assms memcpy_loop_st_bytes [of m src n bs dest]
      by (auto simp: libmin_memmove_def for_up_memcpy_loop map_option_case split: option.splits Option.bind_splits)
  next
    case 2
    then show ?thesis
      using assms for_down_st_bytes [of m src n bs dest]
      by (auto simp: libmin_memmove_def map_option_case split: option.splits Option.bind_splits)
  next
    case 3
    have "st_bytes m src bs = Some m" using len b by (auto simp: st_bytes_iff)
    with 3 show ?thesis by (simp add: libmin_memmove_def)
  qed
qed

section \<open>Filling\<close>

lemma memset_loop_st_bytes:
  "s + n \<le> length m \<Longrightarrow> memset_loop s c n m = st_bytes m s (replicate n c)"
  by (induction n arbitrary: s m) (auto simp: st_bytes_step)

lemma unat_take_bit: "unat (take_bit n w :: 'a::len word) = unat w mod 2 ^ n"
  by (subst unsigned_take_bit_eq) (rule take_bit_eq_mod)

lemma unat_and_not_mask: "unat (w AND NOT (mask n) :: 'a::len word) = unat w - unat w mod 2 ^ n"
proof -
  have "(w AND NOT (mask n)) AND take_bit n w = 0"
    by (rule bit_word_eqI) (auto simp: bit_and_iff bit_not_iff bit_mask_iff bit_take_bit_iff)
  then have "(w AND NOT (mask n)) + take_bit n w = (w AND NOT (mask n)) OR take_bit n w"
    by (rule disjunctive_add_eq_or)
  also have "\<dots> = w"
    by (rule bit_word_eqI)
      (auto simp: bit_and_iff bit_or_iff bit_not_iff bit_mask_iff bit_take_bit_iff)
  finally have w: "w AND NOT (mask n) = w - take_bit n w" by (simp add: eq_diff_eq)
  show ?thesis unfolding w by (simp only: unat_sub_if' unat_take_bit) simp
qed

lemma unat_and_mask: "unat (w AND mask n :: 'a::len word) = unat w mod 2 ^ n"
  by (simp only: take_bit_eq_mask [symmetric] unat_take_bit)

lemma and_minus_4: "unat (w AND - 4 :: u64) = unat w - unat w mod 4"
  using unat_and_not_mask [of w 2] by (simp add: mask_eq_exp_minus_1)

lemma and_3: "unat (w AND 3 :: u64) < 4"
proof -
  have "w AND 3 = take_bit 2 w" by (simp add: take_bit_eq_mask mask_eq_exp_minus_1)
  moreover have "take_bit 2 (unat w) < 2 ^ 2" by (rule take_bit_nat_less_exp)
  ultimately show ?thesis by (simp add: unsigned_take_bit_eq)
qed

definition filled :: "'a \<Rightarrow> nat set \<Rightarrow> 'a list \<Rightarrow> 'a list \<Rightarrow> bool" where
  "filled c A m x \<longleftrightarrow>
     length x = length m \<and> (\<forall>i < length m. x ! i = (if i \<in> A then c else m ! i))"

lemma filled_empty: "filled c {} m m"
  by (simp add: filled_def)

lemma filled_update: "filled c A m x \<Longrightarrow> filled c (insert a A) m (x[a := c])"
  unfolding filled_def by (metis insert_iff length_list_update nth_list_update_eq nth_list_update_neq)

lemma filled_st_bytes:
  "filled c A m x \<Longrightarrow> st_bytes x a (replicate n c) = Some y \<Longrightarrow> filled c (A \<union> {a..<a + n}) m y"
  by (auto simp: filled_def st_bytes_iff)

lemma st_bytes_filled:
  assumes "filled c A m x" "A = {a..<a + n}" "a + n \<le> length m"
  shows "st_bytes m a (replicate n c) = Some x"
  using assms by (auto simp: filled_def st_bytes_iff)

lemmas fill_rules = filled_update filled_empty

lemma triple: "{a + 0, a + 1, a + 2} = {a..<a + (3 :: nat)}"
  by auto

lemma quadruple: "{a + 0, a + 1, a + 2, a + 3} = {a..<a + (4 :: nat)}"
  by auto

lemma interleave_sets:
  "{a2, b0, a1, b1, a0, b2} = {a0, a1, a2} \<union> {b0, b1, b2}"
  "{a3, b0, a2, b1, a1, b2, a0, b3} = {a0, a1, a2, a3} \<union> {b0, b1, b2, b3}"
  by (simp_all add: insert_commute)

lemma fill_sets:
  fixes a n :: nat
  shows "2 < n \<Longrightarrow> n \<le> 6 \<Longrightarrow>
      {a + 2, a + (n - 3), a + 1, a + (n - 2), a + 0, a + (n - 1)} = {a..<a + n}"
    and "6 < n \<Longrightarrow> n \<le> 8 \<Longrightarrow>
      {a + 3, a + (n - 4), a + 2, a + (n - 3), a + 1, a + (n - 2), a + 0, a + (n - 1)} = {a..<a + n}"
    and "8 < n \<Longrightarrow> k < 4 \<Longrightarrow> n' \<le> n - k \<Longrightarrow> n - k < n' + 4 \<Longrightarrow>
      {a + 3, a + (n - 4), a + 2, a + (n - 3), a + 1, a + (n - 2), a + 0, a + (n - 1)}
        \<union> {a + k..<a + k + n'} = {a..<a + n}"
proof -
  have three: "{a + 2, a + (n - 3), a + 1, a + (n - 2), a + 0, a + (n - 1)}
      = {a..<a + 3} \<union> {a + (n - 3)..<a + n}" if "2 < n"
  proof -
    have i: "a + (n - 2) = a + (n - 3) + 1" "a + (n - 1) = a + (n - 3) + 2" "a + n = a + (n - 3) + 3"
      "a + (n - 3) = a + (n - 3) + 0"
      using that by simp_all
    show ?thesis unfolding i(1-3) triple [symmetric] add_0_right by (rule interleave_sets)
  qed
  have four: "{a + 3, a + (n - 4), a + 2, a + (n - 3), a + 1, a + (n - 2), a + 0, a + (n - 1)}
      = {a..<a + 4} \<union> {a + (n - 4)..<a + n}" if "3 < n"
  proof -
    have i: "a + (n - 3) = a + (n - 4) + 1" "a + (n - 2) = a + (n - 4) + 2" "a + (n - 1) = a + (n - 4) + 3"
      "a + n = a + (n - 4) + 4" "a + (n - 4) = a + (n - 4) + 0"
      using that by simp_all
    show ?thesis unfolding i(1-4) quadruple [symmetric] add_0_right by (rule interleave_sets)
  qed
  show "{a + 2, a + (n - 3), a + 1, a + (n - 2), a + 0, a + (n - 1)} = {a..<a + n}"
    if "2 < n" "n \<le> 6"
    unfolding three [OF that(1)] using that by auto
  show "{a + 3, a + (n - 4), a + 2, a + (n - 3), a + 1, a + (n - 2), a + 0, a + (n - 1)} = {a..<a + n}"
    if n: "6 < n" "n \<le> 8"
  proof -
    have "3 < n" using n by simp
    from n show ?thesis unfolding four [OF \<open>3 < n\<close>] by auto
  qed
  show "{a + 3, a + (n - 4), a + 2, a + (n - 3), a + 1, a + (n - 2), a + 0, a + (n - 1)}
        \<union> {a + k..<a + k + n'} = {a..<a + n}"
    if n: "8 < n" "k < 4" "n' \<le> n - k" "n - k < n' + 4"
  proof -
    have "3 < n" using n by simp
    from n show ?thesis unfolding four [OF \<open>3 < n\<close>] by auto
  qed
qed

lemma memset_st_bytes:
  assumes "dest + n \<le> length m" "length m < 2 ^ 64"
  shows "libmin_memset dest ci n m =
     map_option (\<lambda>m'. (m', dest)) (st_bytes m dest (replicate n (ucast ci)))"
proof -
  let ?c = "ucast ci :: u8"
  define k where "k = unat (- (of_nat dest :: u64) AND 3)"
  define n' where "n' = unat ((of_nat n - of_nat k :: u64) AND (- 4))"
  have k: "k < 4" by (simp add: k_def and_3)
  have n': "n' \<le> n - k" "n - k < n' + 4" if "n > 8"
  proof -
    have "unat (of_nat n - of_nat k :: u64) = n - k"
      using assms that k by (simp add: unat_sub_if' unat_of_nat take_bit_nat_eq_self)
    then show "n' \<le> n - k" "n - k < n' + 4" by (auto simp: n'_def and_minus_4)
  qed
  define m2 where "m2 = m[dest + (n - 1) := ?c, dest + 0 := ?c]"
  define m6 where "m6 = m2[dest + (n - 2) := ?c, dest + 1 := ?c, dest + (n - 3) := ?c, dest + 2 := ?c]"
  define m8 where "m8 = m6[dest + (n - 4) := ?c, dest + 3 := ?c]"
  have len: "length m2 = length m" "length m6 = length m" "length m8 = length m"
    by (simp_all add: m2_def m6_def m8_def)
  have f2: "filled ?c {dest + 0, dest + (n - 1)} m m2"
    unfolding m2_def by (intro fill_rules)
  have f6: "filled ?c {dest + 2, dest + (n - 3), dest + 1, dest + (n - 2), dest + 0, dest + (n - 1)} m m6"
    unfolding m6_def by (intro filled_update f2)
  have f8: "filled ?c {dest + 3, dest + (n - 4), dest + 2, dest + (n - 3), dest + 1, dest + (n - 2),
      dest + 0, dest + (n - 1)} m m8"
    unfolding m8_def by (intro filled_update f6)
  have run: "libmin_memset dest ci n m =
    (if n = 0 then Some (m, dest) else if n \<le> 2 then Some (m2, dest)
     else if n \<le> 6 then Some (m6, dest) else if n \<le> 8 then Some (m8, dest)
     else map_option (\<lambda>m'. (m', dest)) (memset_loop (dest + k) ?c n' m8))"
    using assms(1)
    by (auto simp: libmin_memset_def k_def n'_def m2_def m6_def m8_def map_option_case Let_def
        split: option.splits Option.bind_splits)
  consider "n = 0" | "n = 1 \<or> n = 2" | "2 < n \<and> n \<le> 6" | "6 < n \<and> n \<le> 8" | "8 < n" by linarith
  then show ?thesis
  proof cases
    case 1
    then show ?thesis using run assms(1) by simp
  next
    case 2
    then have "st_bytes m dest (replicate n ?c) = Some m2"
      using assms(1) by (intro st_bytes_filled [OF f2]) auto
    with 2 show ?thesis by (auto simp: run)
  next
    case 3
    then have "st_bytes m dest (replicate n ?c) = Some m6"
      using assms(1) by (intro st_bytes_filled [OF f6] fill_sets) auto
    with 3 show ?thesis by (auto simp: run)
  next
    case 4
    then have "st_bytes m dest (replicate n ?c) = Some m8"
      using assms(1) by (intro st_bytes_filled [OF f8] fill_sets) auto
    with 4 show ?thesis by (auto simp: run)
  next
    case 5
    have b: "dest + k + n' \<le> length m8" using n' 5 k assms len by simp
    then obtain x where x: "memset_loop (dest + k) ?c n' m8 = Some x"
      and sx: "st_bytes m8 (dest + k) (replicate n' ?c) = Some x"
      using memset_loop_st_bytes [of "dest + k" n' m8 ?c] st_bytes_Some [of "dest + k" "replicate n' ?c" m8]
      by auto
    have "st_bytes m dest (replicate n ?c) = Some x"
      using assms(1) 5 k n' by (intro st_bytes_filled [OF filled_st_bytes [OF f8 sx]] fill_sets)
    with 5 x show ?thesis by (simp add: run)
  qed
qed

section \<open>Comparing\<close>

lemma memcmp_loop_equal:
  "ld_bytes m l n = Some xs \<Longrightarrow> ld_bytes m r n = Some ys \<Longrightarrow>
   \<exists>v. memcmp_loop m l r n = Some v \<and> (v = 0 \<longleftrightarrow> xs = ys) \<and>
       (v < 0 \<longleftrightarrow> ord_class.lexordp xs ys)"
proof (induction n arbitrary: l r xs ys)
  case 0
  then have "xs = []" "ys = []" by (auto simp: ld_bytes_def split: if_splits)
  then show ?case by simp
next
  case (Suc n)
  from Suc.prems obtain xs' ys' where
    x: "l < length m" "xs = m ! l # xs'" "ld_bytes m (Suc l) n = Some xs'" and
    y: "r < length m" "ys = m ! r # ys'" "ld_bytes m (Suc r) n = Some ys'"
    by (auto simp: ld_bytes_Suc ld_eq_Some split: option.splits)
  show ?case
  proof (cases "m ! l = m ! r")
    case True
    with Suc.IH [OF x(3) y(3)] x y show ?thesis by auto
  next
    case False
    then have "uint (m ! l) \<noteq> uint (m ! r)" by (metis word_uint_eq_iff)
    with False x y show ?thesis by (auto simp: word_less_def)
  qed
qed

section \<open>Properties\<close>

lemma memcpy_loop_periodic:
  assumes "memcpy_loop d s n m = Some m'" "s < d" "d \<le> length m" "i < n"
  shows "m' ! (d + i) = m ! (s + i mod (d - s))"
  using assms(4)
proof (induction i rule: less_induct)
  case (less i)
  note p = memcpy_loop_propagates [OF assms(1,2)]
  show ?case
  proof (cases "i < d - s")
    case True
    with p less.prems assms show ?thesis by auto
  next
    case False
    then have "s + i = d + (i - (d - s))" using assms(2) by simp
    moreover have "m' ! (d + i) = m' ! (s + i)" using p less.prems by blast
    ultimately have "m' ! (d + i) = m' ! (d + (i - (d - s)))" by simp
    also have "\<dots> = m ! (s + (i - (d - s)) mod (d - s))"
      using less.prems False assms(2) by (intro less.IH) auto
    finally show ?thesis using False by (simp add: le_mod_geq)
  qed
qed

text \<open>
  Memmove, for any two ranges inside memory, overlapping or not, stores at the
  destination the bytes the source held before the call, changes nothing else and returns
  the destination.
\<close>

lemma memmove_copies:
  assumes "src + n \<le> length m" and "dest + n \<le> length m"
  shows "libmin_memmove dest src n m =
    Some (take dest m @ take n (drop src m) @ drop (dest + n) m, dest)"
  using assms memmove_st_bytes [of m src n "take n (drop src m)" dest]
  by (simp add: ld_bytes_def st_bytes_def)

text \<open>
  Memcpy agrees with memmove unless the destination starts inside the source; there the
  forward copy reads bytes it has written, and repeats the first \<open>dest - src\<close> bytes of the
  source periodically over the destination.
\<close>

lemma memcpy_versus_memmove:
  assumes "src + n \<le> length m" and "dest + n \<le> length m"
  shows "if src < dest \<and> dest < src + n
    then \<exists>m'. libmin_memcpy dest src n m = Some (m', dest) \<and>
           (\<forall>i < n. m' ! (dest + i) = m ! (src + i mod (dest - src)))
    else libmin_memcpy dest src n m = libmin_memmove dest src n m"
proof (cases "src < dest \<and> dest < src + n")
  case True
  from memcpy_loop_Some [OF assms] obtain m' where "memcpy_loop dest src n m = Some m'" ..
  then show ?thesis
    using True assms by (auto simp: libmin_memcpy_def memcpy_loop_periodic)
next
  case False
  define bs where "bs = take n (drop src m)"
  have l: "ld_bytes m src n = Some bs" using assms by (simp add: bs_def ld_bytes_def)
  have "memcpy_loop dest src n m = st_bytes m dest bs"
    using False assms by (intro memcpy_loop_st_bytes [OF l]) auto
  with memmove_st_bytes [OF l assms(2)] False show ?thesis
    by (auto simp: libmin_memcpy_def map_option_case split: option.splits Option.bind_splits)
qed

text \<open>
  Memset, which writes the ends of the buffer one by one, aligns the pointer to four bytes
  and fills the truncated rest in a loop, sets exactly the n bytes at the destination to the
  low byte of its argument, for every size and alignment.
\<close>

lemma memset_fills:
  assumes "dest + n \<le> length m" and "length m < 2 ^ 64"
  shows "libmin_memset dest c n m =
    Some (take dest m @ replicate n (ucast c) @ drop (dest + n) m, dest)"
  using memset_st_bytes [OF assms] assms(1) by (simp add: st_bytes_def)

text \<open>
  Memcmp of two ranges inside memory is zero exactly when they hold the same bytes, and
  negative exactly when the first is lexicographically smaller as unsigned bytes.
\<close>

lemma memcmp_orders:
  assumes "ld_bytes m vl n = Some xs" and "ld_bytes m vr n = Some ys"
  shows "\<exists>v. libmin_memcmp vl vr n m = Some v \<and> (v = 0 \<longleftrightarrow> xs = ys) \<and>
    (v < 0 \<longleftrightarrow> ord_class.lexordp xs ys)"
  unfolding libmin_memcmp_def using assms by (rule memcmp_loop_equal)

end
