(* ===== verification/Libmin_Ctype.thy ===== *)
theory Libmin_Ctype
  imports Prelude
begin

text \<open>
  Character classes of the benchmark library (src/bringup-bench/common/libmin_ctype.c and
  the macros of libmin.h). The class table has one entry for EOF and one for each of the 256
  characters; the macros index it by a character, which is an unsigned byte on the RISC-V
  targets. On a host whose \<open>char\<close> is signed a negative character indexes before the table;
  that is not modelled.
\<close>

section \<open>Definitions\<close>

definition CT_UPPER :: u16 where "CT_UPPER = 0x1"
definition CT_LOWER :: u16 where "CT_LOWER = 0x2"
definition CT_DIGIT :: u16 where "CT_DIGIT = 0x4"
definition CT_SPACE :: u16 where "CT_SPACE = 0x8"
definition CT_PUNCT :: u16 where "CT_PUNCT = 0x10"
definition CT_CONTROL :: u16 where "CT_CONTROL = 0x20"
definition CT_BLANK :: u16 where "CT_BLANK = 0x40"
definition CT_HEX :: u16 where "CT_HEX = 0x80"

lemmas ct_masks = CT_UPPER_def CT_LOWER_def CT_DIGIT_def CT_SPACE_def CT_PUNCT_def
  CT_CONTROL_def CT_BLANK_def CT_HEX_def

definition ctype_table :: "u16 list" where
  "ctype_table = [
    0, CT_CONTROL, CT_CONTROL, CT_CONTROL, CT_CONTROL, CT_CONTROL, CT_CONTROL, CT_CONTROL,
    CT_CONTROL, CT_CONTROL, CT_SPACE + CT_CONTROL, CT_SPACE + CT_CONTROL,
    CT_SPACE + CT_CONTROL, CT_SPACE + CT_CONTROL, CT_SPACE + CT_CONTROL, CT_CONTROL,
    CT_CONTROL, CT_CONTROL, CT_CONTROL, CT_CONTROL, CT_CONTROL, CT_CONTROL, CT_CONTROL,
    CT_CONTROL, CT_CONTROL, CT_CONTROL, CT_CONTROL, CT_CONTROL, CT_CONTROL, CT_CONTROL,
    CT_CONTROL, CT_CONTROL, CT_CONTROL, CT_SPACE + CT_BLANK, CT_PUNCT, CT_PUNCT, CT_PUNCT,
    CT_PUNCT, CT_PUNCT, CT_PUNCT, CT_PUNCT, CT_PUNCT, CT_PUNCT, CT_PUNCT, CT_PUNCT,
    CT_PUNCT, CT_PUNCT, CT_PUNCT, CT_PUNCT, CT_DIGIT + CT_HEX, CT_DIGIT + CT_HEX,
    CT_DIGIT + CT_HEX, CT_DIGIT + CT_HEX, CT_DIGIT + CT_HEX, CT_DIGIT + CT_HEX,
    CT_DIGIT + CT_HEX, CT_DIGIT + CT_HEX, CT_DIGIT + CT_HEX, CT_DIGIT + CT_HEX, CT_PUNCT,
    CT_PUNCT, CT_PUNCT, CT_PUNCT, CT_PUNCT, CT_PUNCT, CT_PUNCT, CT_UPPER + CT_HEX,
    CT_UPPER + CT_HEX, CT_UPPER + CT_HEX, CT_UPPER + CT_HEX, CT_UPPER + CT_HEX,
    CT_UPPER + CT_HEX, CT_UPPER, CT_UPPER, CT_UPPER, CT_UPPER, CT_UPPER, CT_UPPER,
    CT_UPPER, CT_UPPER, CT_UPPER, CT_UPPER, CT_UPPER, CT_UPPER, CT_UPPER, CT_UPPER,
    CT_UPPER, CT_UPPER, CT_UPPER, CT_UPPER, CT_UPPER, CT_UPPER, CT_PUNCT, CT_PUNCT,
    CT_PUNCT, CT_PUNCT, CT_PUNCT, CT_PUNCT, CT_LOWER + CT_HEX, CT_LOWER + CT_HEX,
    CT_LOWER + CT_HEX, CT_LOWER + CT_HEX, CT_LOWER + CT_HEX, CT_LOWER + CT_HEX, CT_LOWER,
    CT_LOWER, CT_LOWER, CT_LOWER, CT_LOWER, CT_LOWER, CT_LOWER, CT_LOWER, CT_LOWER,
    CT_LOWER, CT_LOWER, CT_LOWER, CT_LOWER, CT_LOWER, CT_LOWER, CT_LOWER, CT_LOWER,
    CT_LOWER, CT_LOWER, CT_LOWER, CT_PUNCT, CT_PUNCT, CT_PUNCT, CT_PUNCT, CT_CONTROL] @ replicate 128 0"

definition pctype :: "u8 \<Rightarrow> u16" where
  "pctype c = ctype_table ! (unat c + 1)"

definition isctype :: "int \<Rightarrow> u16 \<Rightarrow> u16" where
  "isctype c msk =
     (if take_bit 32 (c + 1) \<le> 256 then ctype_table ! nat (c + 1) AND msk else 0)"

definition isalpha :: "u8 \<Rightarrow> bool" where "isalpha c = (pctype c AND (CT_UPPER OR CT_LOWER) \<noteq> 0)"
definition isupper :: "u8 \<Rightarrow> bool" where "isupper c = (pctype c AND CT_UPPER \<noteq> 0)"
definition islower :: "u8 \<Rightarrow> bool" where "islower c = (pctype c AND CT_LOWER \<noteq> 0)"
definition isdigit :: "u8 \<Rightarrow> bool" where "isdigit c = (pctype c AND CT_DIGIT \<noteq> 0)"
definition isxdigit :: "u8 \<Rightarrow> bool" where "isxdigit c = (pctype c AND CT_HEX \<noteq> 0)"
definition isspace :: "u8 \<Rightarrow> bool" where "isspace c = (pctype c AND CT_SPACE \<noteq> 0)"
definition ispunct :: "u8 \<Rightarrow> bool" where "ispunct c = (pctype c AND CT_PUNCT \<noteq> 0)"
definition isalnum :: "u8 \<Rightarrow> bool" where
  "isalnum c = (pctype c AND (CT_UPPER OR CT_LOWER OR CT_DIGIT) \<noteq> 0)"
definition isprint :: "u8 \<Rightarrow> bool" where
  "isprint c = (pctype c AND (CT_BLANK OR CT_PUNCT OR CT_UPPER OR CT_LOWER OR CT_DIGIT) \<noteq> 0)"
definition isgraph :: "u8 \<Rightarrow> bool" where
  "isgraph c = (pctype c AND (CT_PUNCT OR CT_UPPER OR CT_LOWER OR CT_DIGIT) \<noteq> 0)"
definition iscntrl :: "u8 \<Rightarrow> bool" where "iscntrl c = (pctype c AND CT_CONTROL \<noteq> 0)"

definition tolower :: "u8 \<Rightarrow> u8" where "tolower c = (if isupper c then c - 0x41 + 0x61 else c)"
definition toupper :: "u8 \<Rightarrow> u8" where "toupper c = (if islower c then c - 0x61 + 0x41 else c)"

lemmas ctype_macros = isalpha_def isupper_def islower_def isdigit_def isxdigit_def isspace_def
  ispunct_def isalnum_def isprint_def isgraph_def iscntrl_def

section \<open>The table\<close>

lemma length_ctype_table: "length ctype_table = 257"
  by (simp add: ctype_table_def)

definition ctype_spec :: "nat \<Rightarrow> u16" where
  "ctype_spec n =
    (if n < 9 then 0x20 else if n < 14 then 0x28 else if n < 32 then 0x20 else if n < 33
    then 0x48 else if n < 48 then 0x10 else if n < 58 then 0x84 else if n < 65 then 0x10
    else if n < 71 then 0x81 else if n < 91 then 1 else if n < 97 then 0x10 else if n < 103
    then 0x82 else if n < 123 then 2 else if n < 127 then 0x10 else if n < 128 then 0x20
    else 0)"

lemma replicate_numeral:
  "replicate (numeral k) x = x # replicate (pred_numeral k) x"
  by (simp add: numeral_eq_Suc)

lemma ctype_table_runs:
  "ctype_table = 0 # replicate 9 CT_CONTROL @ replicate 5 (CT_SPACE + CT_CONTROL) @
     replicate 18 CT_CONTROL @ replicate 1 (CT_SPACE + CT_BLANK) @ replicate 15 CT_PUNCT @
     replicate 10 (CT_DIGIT + CT_HEX) @ replicate 7 CT_PUNCT @ replicate 6 (CT_UPPER + CT_HEX) @
     replicate 20 CT_UPPER @ replicate 6 CT_PUNCT @ replicate 6 (CT_LOWER + CT_HEX) @
     replicate 20 CT_LOWER @ replicate 4 CT_PUNCT @ replicate 1 CT_CONTROL @ replicate 128 0"
  unfolding ctype_table_def replicate_numeral append.simps pred_numeral_simps BitM.simps
    numeral_One One_nat_def replicate_Suc replicate_0
  by (rule refl)

lemma run_skip: "(replicate k x @ ys) ! (k + n) = ys ! n"
  by (simp add: nth_append)

lemma run_hit: "n < k \<Longrightarrow> (replicate k x @ ys) ! n = x"
  by (simp add: nth_append)

lemma ctype_table_nth:
  shows
    "i < 9 \<Longrightarrow> ctype_table ! Suc (i) = CT_CONTROL"
    "i < 5 \<Longrightarrow> ctype_table ! Suc (9 + i) = CT_SPACE + CT_CONTROL"
    "i < 18 \<Longrightarrow> ctype_table ! Suc (9 + (5 + i)) = CT_CONTROL"
    "i < 1 \<Longrightarrow> ctype_table ! Suc (9 + (5 + (18 + i))) = CT_SPACE + CT_BLANK"
    "i < 15 \<Longrightarrow> ctype_table ! Suc (9 + (5 + (18 + (1 + i)))) = CT_PUNCT"
    "i < 10 \<Longrightarrow> ctype_table ! Suc (9 + (5 + (18 + (1 + (15 + i))))) = CT_DIGIT + CT_HEX"
    "i < 7 \<Longrightarrow> ctype_table ! Suc (9 + (5 + (18 + (1 + (15 + (10 + i)))))) = CT_PUNCT"
    "i < 6 \<Longrightarrow> ctype_table ! Suc (9 + (5 + (18 + (1 + (15 + (10 + (7 + i))))))) = CT_UPPER + CT_HEX"
    "i < 20 \<Longrightarrow> ctype_table ! Suc (9 + (5 + (18 + (1 + (15 + (10 + (7 + (6 + i)))))))) = CT_UPPER"
    "i < 6 \<Longrightarrow> ctype_table ! Suc (9 + (5 + (18 + (1 + (15 + (10 + (7 + (6 + (20 + i))))))))) = CT_PUNCT"
    "i < 6 \<Longrightarrow> ctype_table ! Suc (9 + (5 + (18 + (1 + (15 + (10 + (7 + (6 + (20 + (6 + i)))))))))) = CT_LOWER + CT_HEX"
    "i < 20 \<Longrightarrow> ctype_table ! Suc (9 + (5 + (18 + (1 + (15 + (10 + (7 + (6 + (20 + (6 + (6 + i))))))))))) = CT_LOWER"
    "i < 4 \<Longrightarrow> ctype_table ! Suc (9 + (5 + (18 + (1 + (15 + (10 + (7 + (6 + (20 + (6 + (6 + (20 + i)))))))))))) = CT_PUNCT"
    "i < 1 \<Longrightarrow> ctype_table ! Suc (9 + (5 + (18 + (1 + (15 + (10 + (7 + (6 + (20 + (6 + (6 + (20 + (4 + i))))))))))))) = CT_CONTROL"
    "i < 128 \<Longrightarrow> ctype_table ! Suc (9 + (5 + (18 + (1 + (15 + (10 + (7 + (6 + (20 + (6 + (6 + (20 + (4 + (1 + i)))))))))))))) = 0"
  unfolding ctype_table_runs
  by (simp_all only: nth_Cons_Suc run_skip run_hit nth_replicate)

lemma ctype_table_spec:
  shows
    "n < 9 \<Longrightarrow> ctype_table ! Suc n = ctype_spec n"
    "9 \<le> n \<Longrightarrow> n < 14 \<Longrightarrow> ctype_table ! Suc n = ctype_spec n"
    "14 \<le> n \<Longrightarrow> n < 32 \<Longrightarrow> ctype_table ! Suc n = ctype_spec n"
    "32 \<le> n \<Longrightarrow> n < 33 \<Longrightarrow> ctype_table ! Suc n = ctype_spec n"
    "33 \<le> n \<Longrightarrow> n < 48 \<Longrightarrow> ctype_table ! Suc n = ctype_spec n"
    "48 \<le> n \<Longrightarrow> n < 58 \<Longrightarrow> ctype_table ! Suc n = ctype_spec n"
    "58 \<le> n \<Longrightarrow> n < 65 \<Longrightarrow> ctype_table ! Suc n = ctype_spec n"
    "65 \<le> n \<Longrightarrow> n < 71 \<Longrightarrow> ctype_table ! Suc n = ctype_spec n"
    "71 \<le> n \<Longrightarrow> n < 91 \<Longrightarrow> ctype_table ! Suc n = ctype_spec n"
    "91 \<le> n \<Longrightarrow> n < 97 \<Longrightarrow> ctype_table ! Suc n = ctype_spec n"
    "97 \<le> n \<Longrightarrow> n < 103 \<Longrightarrow> ctype_table ! Suc n = ctype_spec n"
    "103 \<le> n \<Longrightarrow> n < 123 \<Longrightarrow> ctype_table ! Suc n = ctype_spec n"
    "123 \<le> n \<Longrightarrow> n < 127 \<Longrightarrow> ctype_table ! Suc n = ctype_spec n"
    "127 \<le> n \<Longrightarrow> n < 128 \<Longrightarrow> ctype_table ! Suc n = ctype_spec n"
    "128 \<le> n \<Longrightarrow> n < 256 \<Longrightarrow> ctype_table ! Suc n = ctype_spec n"
  subgoal using ctype_table_nth(1) [of "n - 0"] by (simp add: ctype_spec_def ct_masks)
  subgoal using ctype_table_nth(2) [of "n - 9"] by (simp add: ctype_spec_def ct_masks)
  subgoal using ctype_table_nth(3) [of "n - 14"] by (simp add: ctype_spec_def ct_masks)
  subgoal using ctype_table_nth(4) [of "n - 32"] by (cases "n = 32") (simp_all add: ctype_spec_def ct_masks)
  subgoal using ctype_table_nth(5) [of "n - 33"] by (simp add: ctype_spec_def ct_masks)
  subgoal using ctype_table_nth(6) [of "n - 48"] by (simp add: ctype_spec_def ct_masks)
  subgoal using ctype_table_nth(7) [of "n - 58"] by (simp add: ctype_spec_def ct_masks)
  subgoal using ctype_table_nth(8) [of "n - 65"] by (simp add: ctype_spec_def ct_masks)
  subgoal using ctype_table_nth(9) [of "n - 71"] by (simp add: ctype_spec_def ct_masks)
  subgoal using ctype_table_nth(10) [of "n - 91"] by (simp add: ctype_spec_def ct_masks)
  subgoal using ctype_table_nth(11) [of "n - 97"] by (simp add: ctype_spec_def ct_masks)
  subgoal using ctype_table_nth(12) [of "n - 103"] by (simp add: ctype_spec_def ct_masks)
  subgoal using ctype_table_nth(13) [of "n - 123"] by (simp add: ctype_spec_def ct_masks)
  subgoal using ctype_table_nth(14) [of "n - 127"] by (cases "n = 127") (simp_all add: ctype_spec_def ct_masks)
  subgoal using ctype_table_nth(15) [of "n - 128"] by (auto simp: ctype_spec_def le_iff_add)
  done

lemma pctype_spec: "pctype c = ctype_spec (unat c)"
proof -
  have "unat c < 256" using unsigned_less [of c, where ?'a = nat] by simp
  then show ?thesis unfolding pctype_def by (metis ctype_table_spec not_less Suc_eq_plus1)
qed

lemmas ctype_eval = pctype_spec ctype_spec_def ct_masks

lemma isdigit_iff: "isdigit c \<longleftrightarrow> unat c \<in> {48..57}"
  by (simp add: isdigit_def ctype_eval)

lemma isupper_iff: "isupper c \<longleftrightarrow> unat c \<in> {65..90}"
  by (auto simp: isupper_def ctype_eval)

lemma islower_iff: "islower c \<longleftrightarrow> unat c \<in> {97..122}"
  by (auto simp: islower_def ctype_eval)

lemma isspace_iff: "isspace c \<longleftrightarrow> unat c \<in> {9..13} \<or> unat c = 32"
  by (auto simp: isspace_def ctype_eval)

lemma isprint_iff: "isprint c \<longleftrightarrow> unat c \<in> {32..126}"
  by (auto simp: isprint_def ctype_eval)

lemma iscntrl_iff: "iscntrl c \<longleftrightarrow> unat c < 32 \<or> unat c = 127"
  by (auto simp: iscntrl_def ctype_eval)

lemma isxdigit_iff: "isxdigit c \<longleftrightarrow> unat c \<in> {48..57} \<union> {65..70} \<union> {97..102}"
  by (auto simp: isxdigit_def ctype_eval)

lemma isalnum_iff: "isalnum c \<longleftrightarrow> isalpha c \<or> isdigit c"
  by (auto simp: isalnum_def isalpha_def isdigit_def ctype_eval)

lemma isgraph_iff: "isgraph c \<longleftrightarrow> isalnum c \<or> ispunct c"
  by (auto simp: isgraph_def ispunct_def isalnum_def ctype_eval)

lemma not_isspace_0 [simp]: "\<not> isspace 0"
  by (simp add: isspace_iff)

lemma not_isdigit_0 [simp]: "\<not> isdigit 0"
  by (simp add: isdigit_iff)

section \<open>Properties\<close>

text \<open>
  The class table and its masks give the ASCII classes: a character is a digit, upper or
  lower case letter, hexadecimal digit, white space, control or printing character exactly
  for the ASCII codes of that class; printing characters are the blank, letters, digits and
  punctuation; no character above 127 and not EOF is in any class.
\<close>

lemma ctype_classes:
  "(isdigit c \<longleftrightarrow> unat c \<in> {48..57}) \<and> (isupper c \<longleftrightarrow> unat c \<in> {65..90}) \<and>
   (islower c \<longleftrightarrow> unat c \<in> {97..122}) \<and> (isspace c \<longleftrightarrow> unat c \<in> {9..13} \<or> unat c = 32) \<and>
   (isxdigit c \<longleftrightarrow> unat c \<in> {48..57} \<union> {65..70} \<union> {97..102}) \<and>
   (iscntrl c \<longleftrightarrow> unat c < 32 \<or> unat c = 127) \<and> (isprint c \<longleftrightarrow> unat c \<in> {32..126}) \<and>
   (isgraph c \<longleftrightarrow> isprint c \<and> unat c \<noteq> 32) \<and> (isgraph c \<longleftrightarrow> isalpha c \<or> isdigit c \<or> ispunct c) \<and>
   isctype (uint c) msk = pctype c AND msk \<and> isctype (- 1) msk = 0"
proof -
  have "isgraph c \<longleftrightarrow> unat c \<in> {33..126}"
    by (auto simp: isgraph_def ctype_eval)
  moreover have "isctype (uint c) msk = pctype c AND msk"
  proof -
    have "uint c < 256" using uint_lt2p [of c] by simp
    then have "take_bit 32 (uint c + 1) = uint c + 1" by (intro take_bit_int_eq_self) simp_all
    moreover have "nat (uint c + 1) = unat c + 1" by (simp add: nat_add_distrib)
    ultimately show ?thesis using \<open>uint c < 256\<close> by (simp add: isctype_def pctype_def)
  qed
  moreover have "isctype (- 1) msk = 0"
    by (simp add: isctype_def ctype_table_def)
  ultimately show ?thesis
    by (auto simp: isdigit_iff isupper_iff islower_iff isspace_iff isxdigit_iff iscntrl_iff
        isprint_iff isgraph_iff isalnum_iff)
qed

end
