(* ===== verification/Libmin_Str.thy ===== *)
theory Libmin_Str
  imports Libmin_Mem Libmin_Ctype
begin

text \<open>
  The string routines of the benchmark library (src/bringup-bench/common/libmin_str*.c) on
  the flat memory of Libmin_Mem. A string starts at an address and ends at its first NUL; a
  scan that runs past the end of memory is None, so every loop here terminates. The null
  pointer is address 0. \<open>char\<close> is unsigned, as on the RISC-V targets.
\<close>

section \<open>Strings in memory\<close>

definition NULL :: nat where "NULL = 0"

fun cstr :: "mem \<Rightarrow> nat \<Rightarrow> u8 list \<Rightarrow> bool" where
  "cstr m a [] \<longleftrightarrow> ld m a = Some 0"
| "cstr m a (x # xs) \<longleftrightarrow> ld m a = Some x \<and> x \<noteq> 0 \<and> cstr m (a + 1) xs"

section \<open>Definitions\<close>

subsection \<open>Length and copying\<close>

function str_end :: "mem \<Rightarrow> nat \<Rightarrow> nat option" where
  "str_end m str = (case ld m str of None \<Rightarrow> None
     | Some c \<Rightarrow> if c \<noteq> 0 then str_end m (str + 1) else Some str)"
  by auto
termination
  by (relation "measure (\<lambda>(m, a). length m - a)") (auto simp: ld_eq_Some)

definition libmin_strlen :: "mem \<Rightarrow> nat \<Rightarrow> nat option" where
  "libmin_strlen m str =
     (if str = NULL then Some 0 else do { e \<leftarrow> str_end m str; Some (e - str) })"

function strcpy_loop :: "nat \<Rightarrow> nat \<Rightarrow> mem \<Rightarrow> mem option" where
  "strcpy_loop d s m = (case ld m s of None \<Rightarrow> None
     | Some c \<Rightarrow> (case st m d c of None \<Rightarrow> None
        | Some m' \<Rightarrow> if c \<noteq> 0 then strcpy_loop (d + 1) (s + 1) m' else Some m'))"
  by auto
termination
  by (relation "measure (\<lambda>(d, s, m). length m - s)") (auto simp: mem_simps)

definition libmin_strcpy :: "nat \<Rightarrow> nat \<Rightarrow> mem \<Rightarrow> (mem \<times> nat) option" where
  "libmin_strcpy dest src m = do { m' \<leftarrow> strcpy_loop dest src m; Some (m', dest) }"

fun strncpy_pad :: "nat \<Rightarrow> nat \<Rightarrow> mem \<Rightarrow> mem option" where
  "strncpy_pad d 0 m = Some m"
| "strncpy_pad d (Suc n) m = do { m' \<leftarrow> st m d 0; strncpy_pad (d + 1) n m' }"

fun strncpy_loop :: "nat \<Rightarrow> nat \<Rightarrow> nat \<Rightarrow> mem \<Rightarrow> mem option" where
  "strncpy_loop d s 0 m = Some m"
| "strncpy_loop d s (Suc n) m =
     do {
       c \<leftarrow> ld m s;
       m' \<leftarrow> st m d c;
       if c = 0 then strncpy_pad (d + 1) n m' else strncpy_loop (d + 1) (s + 1) n m'
     }"

definition libmin_strncpy :: "nat \<Rightarrow> nat \<Rightarrow> nat \<Rightarrow> mem \<Rightarrow> (mem \<times> nat) option" where
  "libmin_strncpy dst src n m =
     (if n \<noteq> 0 then do { m' \<leftarrow> strncpy_loop dst src n m; Some (m', dst) } else Some (m, dst))"

definition libmin_strcat :: "nat \<Rightarrow> nat \<Rightarrow> mem \<Rightarrow> (mem \<times> nat) option" where
  "libmin_strcat dest src m =
     do {
       len \<leftarrow> libmin_strlen m dest;
       (m', _) \<leftarrow> libmin_strcpy (dest + len) src m;
       Some (m', dest)
     }"

fun strncat_loop :: "nat \<Rightarrow> nat \<Rightarrow> nat \<Rightarrow> mem \<Rightarrow> (mem \<times> nat) option" where
  "strncat_loop d s 0 m = Some (m, d)"
| "strncat_loop d s (Suc n) m =
     do {
       c \<leftarrow> ld m s;
       if c = 0 then Some (m, d) else do {
       m' \<leftarrow> st m d c;
       strncat_loop (d + 1) (s + 1) n m' }
     }"

definition libmin_strncat :: "nat \<Rightarrow> nat \<Rightarrow> nat \<Rightarrow> mem \<Rightarrow> (mem \<times> nat) option" where
  "libmin_strncat dst src n m =
     do {
       len \<leftarrow> libmin_strlen m dst;
       (m', d) \<leftarrow> strncat_loop (dst + len) src n m;
       m'' \<leftarrow> st m' d 0;
       Some (m'', dst)
     }"

subsection \<open>Comparing\<close>

function libmin_strcmp :: "mem \<Rightarrow> nat \<Rightarrow> nat \<Rightarrow> int option" where
  "libmin_strcmp m l r = (case ld m l of None \<Rightarrow> None
     | Some x \<Rightarrow> (case ld m r of None \<Rightarrow> None
        | Some y \<Rightarrow> if x = y \<and> x \<noteq> 0 \<and> y \<noteq> 0 then libmin_strcmp m (l + 1) (r + 1)
                    else Some (uint x - uint y)))"
  by auto
termination
  by (relation "measure (\<lambda>(m, l, r). length m - l)") (auto simp: ld_eq_Some)

fun libmin_strncmp :: "mem \<Rightarrow> nat \<Rightarrow> nat \<Rightarrow> nat \<Rightarrow> int option" where
  "libmin_strncmp m s1 s2 0 = Some 0"
| "libmin_strncmp m s1 s2 (Suc n) =
     do {
       u1 \<leftarrow> ld m s1;
       u2 \<leftarrow> ld m s2;
       if u1 \<noteq> u2 then Some (uint u1 - uint u2)
       else if u1 = 0 then Some 0
       else libmin_strncmp m (s1 + 1) (s2 + 1) n
     }"

fun strncasecmp_loop :: "mem \<Rightarrow> nat \<Rightarrow> nat \<Rightarrow> nat \<Rightarrow> (nat \<times> nat) option" where
  "strncasecmp_loop m l r n =
     do {
       x \<leftarrow> ld m l;
       if x = 0 then Some (l, r) else do {
       y \<leftarrow> ld m r;
       if y = 0 then Some (l, r) else
       case n of 0 \<Rightarrow> Some (l, r)
       | Suc n' \<Rightarrow> if x = y \<or> tolower x = tolower y then strncasecmp_loop m (l + 1) (r + 1) n'
                  else Some (l, r) }
     }"

definition libmin_strncasecmp :: "mem \<Rightarrow> nat \<Rightarrow> nat \<Rightarrow> nat \<Rightarrow> int option" where
  "libmin_strncasecmp m l r n =
     (case n of 0 \<Rightarrow> Some 0
      | Suc n' \<Rightarrow> do {
          (l', r') \<leftarrow> strncasecmp_loop m l r n';
          x \<leftarrow> ld m l';
          y \<leftarrow> ld m r';
          Some (uint (tolower x) - uint (tolower y)) })"

subsection \<open>Searching for a character\<close>

function libmin_strchr :: "mem \<Rightarrow> nat \<Rightarrow> u8 \<Rightarrow> nat option" where
  "libmin_strchr m s c = (case ld m s of None \<Rightarrow> None
     | Some x \<Rightarrow> if x = c then Some s else if x \<noteq> 0 then libmin_strchr m (s + 1) c else Some NULL)"
  by auto
termination
  by (relation "measure (\<lambda>(m, s, c). length m - s)") (auto simp: ld_eq_Some)

function strrchr_loop :: "mem \<Rightarrow> nat \<Rightarrow> int \<Rightarrow> nat \<Rightarrow> nat option" where
  "strrchr_loop m s c rtnval = (case ld m s of None \<Rightarrow> None
     | Some x \<Rightarrow> let rtnval' = (if uint x = c then s else rtnval) in
         if x \<noteq> 0 then strrchr_loop m (s + 1) c rtnval' else Some rtnval')"
  by auto
termination
  by (relation "measure (\<lambda>(m, s, c, r). length m - s)") (auto simp: ld_eq_Some)

definition libmin_strrchr :: "mem \<Rightarrow> nat \<Rightarrow> int \<Rightarrow> nat option" where
  "libmin_strrchr m s c = strrchr_loop m s c NULL"

declare str_end.simps [simp del] strcpy_loop.simps [simp del] libmin_strcmp.simps [simp del]
  strncasecmp_loop.simps [simp del] libmin_strchr.simps [simp del] strrchr_loop.simps [simp del]

subsection \<open>Character sets\<close>

definition bitop_set :: "u64 list \<Rightarrow> u8 \<Rightarrow> u64 list" where
  "bitop_set byteset b = byteset[unat b div 64 :=
     byteset ! (unat b div 64) OR push_bit (unat b mod 64) 1]"

definition bitop_test :: "u64 list \<Rightarrow> u8 \<Rightarrow> u64" where
  "bitop_test byteset b = byteset ! (unat b div 64) AND push_bit (unat b mod 64) 1"

function byteset_fill :: "mem \<Rightarrow> nat \<Rightarrow> u64 list \<Rightarrow> u64 list option" where
  "byteset_fill m c byteset = (case ld m c of None \<Rightarrow> None
     | Some x \<Rightarrow> if x = 0 then Some byteset else
         let byteset' = bitop_set byteset x in
         if byteset' ! (unat x div 64) \<noteq> 0 then byteset_fill m (c + 1) byteset' else Some byteset')"
  by auto
termination
  by (relation "measure (\<lambda>(m, c, bs). length m - c)") (auto simp: ld_eq_Some)

function strspn_same :: "mem \<Rightarrow> nat \<Rightarrow> u8 \<Rightarrow> nat option" where
  "strspn_same m s c = (case ld m s of None \<Rightarrow> None
     | Some x \<Rightarrow> if x = c then strspn_same m (s + 1) c else Some s)"
  by auto
termination
  by (relation "measure (\<lambda>(m, s, c). length m - s)") (auto simp: ld_eq_Some)

function strspn_set :: "mem \<Rightarrow> nat \<Rightarrow> u64 list \<Rightarrow> nat option" where
  "strspn_set m s byteset = (case ld m s of None \<Rightarrow> None
     | Some x \<Rightarrow> if x \<noteq> 0 \<and> bitop_test byteset x \<noteq> 0 then strspn_set m (s + 1) byteset else Some s)"
  by auto
termination
  by (relation "measure (\<lambda>(m, s, c). length m - s)") (auto simp: ld_eq_Some)

definition libmin_strspn :: "mem \<Rightarrow> nat \<Rightarrow> nat \<Rightarrow> nat option" where
  "libmin_strspn m s c =
     do {
       c0 \<leftarrow> ld m c;
       if c0 = 0 then Some 0 else do {
       c1 \<leftarrow> ld m (c + 1);
       if c1 = 0 then do { e \<leftarrow> strspn_same m s c0; Some (e - s) } else do {
       byteset \<leftarrow> byteset_fill m c (replicate 4 0);
       e \<leftarrow> strspn_set m s byteset;
       Some (e - s) }}
     }"

definition ONES :: u64 where "ONES = 0x0101010101010101"
definition HIGHS :: u64 where "HIGHS = ONES * 128"
definition HASZERO :: "u64 \<Rightarrow> bool" where
  "HASZERO x \<longleftrightarrow> (x - ONES) AND NOT x AND HIGHS \<noteq> 0"

function strchrnul_tail :: "mem \<Rightarrow> nat \<Rightarrow> u8 \<Rightarrow> nat option" where
  "strchrnul_tail m s c = (case ld m s of None \<Rightarrow> None
     | Some x \<Rightarrow> if x \<noteq> 0 \<and> x \<noteq> c then strchrnul_tail m (s + 1) c else Some s)"
  by auto
termination
  by (relation "measure (\<lambda>(m, s, c). length m - s)") (auto simp: ld_eq_Some)

function strchrnul_words :: "mem \<Rightarrow> nat \<Rightarrow> u64 \<Rightarrow> nat option" where
  "strchrnul_words m w k = (case ld_word 8 m w of None \<Rightarrow> None
     | Some x \<Rightarrow> if \<not> HASZERO x \<and> \<not> HASZERO (x XOR k) then strchrnul_words m (w + 8) k else Some w)"
  by auto
termination
  by (relation "measure (\<lambda>(m, w, k). length m - w)") (auto simp: ld_word_def ld_bytes_def split: if_splits)

function strchrnul_align :: "mem \<Rightarrow> nat \<Rightarrow> u8 \<Rightarrow> nat option" where
  "strchrnul_align m s c =
     (if s mod 8 \<noteq> 0 then
        (case ld m s of None \<Rightarrow> None
         | Some x \<Rightarrow> if x = 0 \<or> x = c then Some s else strchrnul_align m (s + 1) c)
      else
        (case strchrnul_words m s (ONES * ucast c) of None \<Rightarrow> None
         | Some w \<Rightarrow> strchrnul_tail m w c))"
  by auto
termination
  by (relation "measure (\<lambda>(m, s, c). length m - s)") (auto simp: ld_eq_Some)

definition strchrnul :: "mem \<Rightarrow> nat \<Rightarrow> u8 \<Rightarrow> nat option" where
  "strchrnul m s c =
     (if c = 0 then do { len \<leftarrow> libmin_strlen m s; Some (s + len) } else strchrnul_align m s c)"

function strcspn_set :: "mem \<Rightarrow> nat \<Rightarrow> u64 list \<Rightarrow> nat option" where
  "strcspn_set m s byteset = (case ld m s of None \<Rightarrow> None
     | Some x \<Rightarrow> if x \<noteq> 0 \<and> bitop_test byteset x = 0 then strcspn_set m (s + 1) byteset else Some s)"
  by auto
termination
  by (relation "measure (\<lambda>(m, s, c). length m - s)") (auto simp: ld_eq_Some)

definition libmin_strcspn :: "mem \<Rightarrow> nat \<Rightarrow> nat \<Rightarrow> nat option" where
  "libmin_strcspn m s c =
     do {
       c0 \<leftarrow> ld m c;
       c1 \<leftarrow> (if c0 = 0 then Some 0 else ld m (c + 1));
       if c0 = 0 \<or> c1 = 0 then do { e \<leftarrow> strchrnul m s c0; Some (e - s) } else do {
       byteset \<leftarrow> byteset_fill m c (replicate 4 0);
       e \<leftarrow> strcspn_set m s byteset;
       Some (e - s) }
     }"

definition libmin_strpbrk :: "mem \<Rightarrow> nat \<Rightarrow> nat \<Rightarrow> nat option" where
  "libmin_strpbrk m s b =
     do {
       n \<leftarrow> libmin_strcspn m s b;
       x \<leftarrow> ld m (s + n);
       Some (if x \<noteq> 0 then s + n else NULL)
     }"

declare byteset_fill.simps [simp del] strspn_same.simps [simp del] strspn_set.simps [simp del]
  strchrnul_tail.simps [simp del] strchrnul_words.simps [simp del] strchrnul_align.simps [simp del]
  strcspn_set.simps [simp del]

subsection \<open>Searching for a string, tokens\<close>

lemma strchr_bounds:
  "libmin_strchr m s c = Some p \<Longrightarrow> p \<noteq> NULL \<Longrightarrow> s \<le> p \<and> p < length m"
  by (induction m s c rule: libmin_strchr.induct)
    (subst (asm) (2) libmin_strchr.simps, auto simp: ld_eq_Some split: option.splits if_splits)

function strstr_loop :: "mem \<Rightarrow> nat \<Rightarrow> nat \<Rightarrow> nat \<Rightarrow> u8 \<Rightarrow> nat option" where
  "strstr_loop m p s2 len c = (case libmin_strchr m p c of None \<Rightarrow> None
     | Some q \<Rightarrow> if q = NULL then Some NULL else
         (case libmin_strncmp m q s2 len of None \<Rightarrow> None
          | Some v \<Rightarrow> if v = 0 then Some q else strstr_loop m (q + 1) s2 len c))"
  by auto
termination
  by (relation "measure (\<lambda>(m, p, s2, len, c). length m - p)") (auto dest!: strchr_bounds)

definition libmin_strstr :: "mem \<Rightarrow> nat \<Rightarrow> nat \<Rightarrow> nat option" where
  "libmin_strstr m s1 s2 =
     do {
       len \<leftarrow> libmin_strlen m s2;
       if len = 0 then Some s1 else do {
       c \<leftarrow> ld m s2;
       strstr_loop m s1 s2 len c }
     }"

function strcasestr_loop :: "mem \<Rightarrow> nat \<Rightarrow> nat \<Rightarrow> nat \<Rightarrow> nat option" where
  "strcasestr_loop m h n l = (case ld m h of None \<Rightarrow> None
     | Some x \<Rightarrow> if x = 0 then Some NULL else
         (case libmin_strncasecmp m h n l of None \<Rightarrow> None
          | Some v \<Rightarrow> if v = 0 then Some h else strcasestr_loop m (h + 1) n l))"
  by auto
termination
  by (relation "measure (\<lambda>(m, h, n, l). length m - h)") (auto simp: ld_eq_Some)

definition libmin_strcasestr :: "mem \<Rightarrow> nat \<Rightarrow> nat \<Rightarrow> nat option" where
  "libmin_strcasestr m h n = do { l \<leftarrow> libmin_strlen m n; strcasestr_loop m h n l }"

declare strstr_loop.simps [simp del] strcasestr_loop.simps [simp del]

text \<open>
  \<open>libmin_strtok\<close> keeps the rest of the string in a static pointer: it maps the memory and
  that pointer to the memory after, the pointer after, and the token (or the null pointer).
\<close>

definition libmin_strtok :: "nat \<Rightarrow> nat \<Rightarrow> mem \<times> nat \<Rightarrow> ((mem \<times> nat) \<times> nat) option" where
  "libmin_strtok s sep = (\<lambda>(m, p).
     let s = (if s = NULL then p else s) in
     if s = NULL then Some ((m, p), NULL) else
     do {
       n \<leftarrow> libmin_strspn m s sep;
       let s = s + n;
       x \<leftarrow> ld m s;
       if x = 0 then Some ((m, NULL), NULL) else do {
       k \<leftarrow> libmin_strcspn m s sep;
       let p = s + k;
       y \<leftarrow> ld m p;
       if y \<noteq> 0 then do { m' \<leftarrow> st m p 0; Some ((m', p + 1), s) }
       else Some ((m, NULL), s) }
     })"

end
