(* ===== verification/Libmin_Malloc.thy ===== *)
theory Libmin_Malloc
  imports Libmin_Str
begin

text \<open>
  The allocator of the benchmark library (src/bringup-bench/common/libmin_malloc.c) over the
  break pointer of the embedded targets (libtarg_sbrk in src/bringup-bench/target/libtarg.c),
  built with LIBMIN_MALLOC_ALIGN_BYTES = 8 for a 64-bit target. A block header is a record
  stored at its address (\<open>hdrs\<close>); the bytes of the blocks are in the flat memory \<open>heap_mem\<close>.
  A routine returns None when it follows a pointer to no header or never returns, and
  otherwise the state after it with either the exit status of a failed program or its result.
\<close>

section \<open>State\<close>

record memhdr =
  hsize :: u64
  is_free :: u32
  next_hdr :: nat

record heap =
  head :: nat
  tail :: nat
  hdrs :: "nat \<Rightarrow> memhdr option"
  heap_base :: nat
  heap_ptr :: u32
  heap_mem :: mem

type_synonym 'a prog = "heap \<Rightarrow> (heap \<times> (int + 'a)) option"

definition ok :: "'a \<Rightarrow> 'a prog" where
  "ok a h = Some (h, Inr a)"

definition fail :: "int \<Rightarrow> 'a prog" where
  "fail e h = Some (h, Inl e)"

definition seq :: "'a prog \<Rightarrow> ('a \<Rightarrow> 'b prog) \<Rightarrow> 'b prog" where
  "seq p f h = (case p h of None \<Rightarrow> None
     | Some (h', Inl e) \<Rightarrow> Some (h', Inl e)
     | Some (h', Inr a) \<Rightarrow> f a h')"

text \<open>An operation on the bytes of memory, as a step of the program.\<close>

definition on_mem :: "(mem \<Rightarrow> (mem \<times> 'a) option) \<Rightarrow> 'a prog" where
  "on_mem f h = (case f (heap_mem h) of None \<Rightarrow> None
     | Some (m, a) \<Rightarrow> Some (h\<lparr>heap_mem := m\<rparr>, Inr a))"

definition read_mem :: "(mem \<Rightarrow> 'a option) \<Rightarrow> 'a prog" where
  "read_mem f h = (case f (heap_mem h) of None \<Rightarrow> None | Some a \<Rightarrow> Some (h, Inr a))"

lemma seq_ok [simp]: "seq (ok a) f = f a"
  by (simp add: seq_def ok_def fun_eq_iff)

lemma seq_Some:
  "seq p f h = Some r \<longleftrightarrow> (\<exists>h' e. p h = Some (h', Inl e) \<and> r = (h', Inl e)) \<or>
     (\<exists>h' a. p h = Some (h', Inr a) \<and> f a h' = Some r)"
  by (auto simp: seq_def split: option.splits sum.splits)

section \<open>Definitions\<close>

definition MAX_HEAP :: u32 where "MAX_HEAP = 32 * 1024"

definition libtarg_sbrk :: "u64 \<Rightarrow> nat prog" where
  "libtarg_sbrk inc h =
     (let ptr = heap_base h + unat (heap_ptr h) in
      if inc = 0 then ok ptr h else
      let h' = h\<lparr>heap_ptr := heap_ptr h + ucast inc\<rparr> in
      if heap_ptr h' \<ge> MAX_HEAP then fail 1 h' else ok ptr h')"

definition MALLOC_ALIGN_MASK :: u64 where "MALLOC_ALIGN_MASK = 7"

definition sizeof_memhdr :: nat where "sizeof_memhdr = 24"

partial_function (option) get_free_block_loop :: "nat \<Rightarrow> u64 \<Rightarrow> heap \<Rightarrow> nat option" where
  "get_free_block_loop current sz h =
     (if current = NULL then Some NULL else
      case hdrs h current of None \<Rightarrow> None
      | Some b \<Rightarrow> if is_free b \<noteq> 0 \<and> hsize b \<ge> sz then Some current
                  else get_free_block_loop (next_hdr b) sz h)"

definition get_free_block :: "u64 \<Rightarrow> nat prog" where
  "get_free_block sz h = map_option (\<lambda>p. (h, Inr p)) (get_free_block_loop (head h) sz h)"

definition put_hdr :: "nat \<Rightarrow> (memhdr \<Rightarrow> memhdr) \<Rightarrow> unit prog" where
  "put_hdr a f h = (case hdrs h a of None \<Rightarrow> None
     | Some b \<Rightarrow> Some (h\<lparr>hdrs := (hdrs h)(a \<mapsto> f b)\<rparr>, Inr ()))"

definition malloc_size :: "u64 \<Rightarrow> u64" where
  "malloc_size sz =
     (if sz AND MALLOC_ALIGN_MASK \<noteq> 0
      then (sz AND NOT MALLOC_ALIGN_MASK) + (MALLOC_ALIGN_MASK + 1) else sz)"

definition append_hdr :: "nat \<Rightarrow> u64 \<Rightarrow> nat prog" where
  "append_hdr header sz h =
     (let h1 = h\<lparr>hdrs := (hdrs h)(header \<mapsto> \<lparr>hsize = sz, is_free = 0, next_hdr = NULL\<rparr>)\<rparr>;
          h2 = (if head h1 = NULL then h1\<lparr>head := header\<rparr> else h1) in
      seq (if tail h2 \<noteq> NULL then put_hdr (tail h2) (\<lambda>b. b\<lparr>next_hdr := header\<rparr>) else ok ())
        (\<lambda>_ h3. ok (header + sizeof_memhdr) (h3\<lparr>tail := header\<rparr>)) h2)"

definition libmin_malloc :: "u64 \<Rightarrow> nat prog" where
  "libmin_malloc sz0 =
     (let sz = malloc_size sz0 in
      if sz = 0 then ok NULL else
      seq (get_free_block sz) (\<lambda>header.
      if header \<noteq> NULL then
        seq (put_hdr header (\<lambda>b. b\<lparr>is_free := 0\<rparr>)) (\<lambda>_. ok (header + sizeof_memhdr))
      else
        seq (libtarg_sbrk (of_nat sizeof_memhdr + sz)) (\<lambda>block.
        if block = unat (- 1 :: u64) then ok NULL else append_hdr block sz)))"

partial_function (option) free_walk :: "nat \<Rightarrow> heap \<Rightarrow> heap option" where
  "free_walk tmp h =
     (if tmp = NULL then Some h else
      case hdrs h tmp of None \<Rightarrow> None
      | Some b \<Rightarrow> if next_hdr b = tail h
                  then free_walk NULL (h\<lparr>hdrs := (hdrs h)(tmp \<mapsto> b\<lparr>next_hdr := NULL\<rparr>), tail := tmp\<rparr>)
                  else free_walk (next_hdr b) h)"

definition libmin_free :: "nat \<Rightarrow> unit prog" where
  "libmin_free block =
     (if block = NULL then ok () else
      let header = block - sizeof_memhdr in
      seq (libtarg_sbrk 0) (\<lambda>pbreak h.
      case hdrs h header of None \<Rightarrow> None
      | Some b \<Rightarrow>
        if block + unat (hsize b) = pbreak then
          seq (if head h = tail h then (\<lambda>h. ok () (h\<lparr>head := NULL, tail := NULL\<rparr>))
               else (\<lambda>h. map_option (\<lambda>h'. (h', Inr ())) (free_walk (head h) h)))
            (\<lambda>_. seq (libtarg_sbrk (0 - of_nat sizeof_memhdr - hsize b)) (\<lambda>_. ok ())) h
        else put_hdr header (\<lambda>b. b\<lparr>is_free := 1\<rparr>) h))"

definition libmin_calloc :: "u64 \<Rightarrow> u64 \<Rightarrow> nat prog" where
  "libmin_calloc num nsize =
     (if num = 0 \<or> nsize = 0 then ok NULL else
      let sz = num * nsize in
      if nsize \<noteq> sz div num then ok NULL else
      seq (libmin_malloc sz) (\<lambda>block.
      if block = NULL then ok NULL else
      seq (on_mem (libmin_memset block 0 (unat sz))) (\<lambda>_. ok block)))"

definition libmin_realloc :: "nat \<Rightarrow> u64 \<Rightarrow> nat prog" where
  "libmin_realloc block sz =
     (if block = NULL \<or> sz = 0 then libmin_malloc sz else
      (\<lambda>h. case hdrs h (block - sizeof_memhdr) of None \<Rightarrow> None
       | Some b \<Rightarrow>
         if hsize b \<ge> sz then ok block h else
         seq (libmin_malloc sz) (\<lambda>ret h'.
         if ret \<noteq> NULL then
           (case hdrs h' (block - sizeof_memhdr) of None \<Rightarrow> None
            | Some b' \<Rightarrow> seq (on_mem (libmin_memcpy ret block (unat (hsize b')))) (\<lambda>_.
                seq (libmin_free block) (\<lambda>_. ok ret)) h')
         else ok ret h') h))"

definition libmin_strdup :: "nat \<Rightarrow> nat prog" where
  "libmin_strdup s =
     seq (read_mem (\<lambda>m. libmin_strlen m s)) (\<lambda>n.
     let len = (of_nat n + 1 :: u64) in
     seq (libmin_malloc len) (\<lambda>new.
     if new = NULL then ok NULL
     else on_mem (libmin_memcpy new s (unat len))))"

end
