(* ===== verification/Libmin_Malloc_Proofs.thy ===== *)
theory Libmin_Malloc_Proofs
  imports Libmin_Malloc
begin

text \<open>
  The heap as a list of blocks. The headers tile the heap from its base to the break and are
  linked in address order; malloc is first fit on the block list with growth at the end, free
  marks a block or cuts the last one. The abstract operations and the interface the clients
  use (a locale, interpreted on the model) follow from that.
\<close>

section \<open>The header list\<close>

definition brk :: "heap \<Rightarrow> nat" where
  "brk h = heap_base h + unat (heap_ptr h)"

fun layout :: "(nat \<Rightarrow> memhdr option) \<Rightarrow> nat \<Rightarrow> nat list \<Rightarrow> nat \<Rightarrow> bool" where
  "layout H a [] e \<longleftrightarrow> a = e"
| "layout H a (x # xs) e \<longleftrightarrow> x = a \<and> (case map_option hsize (H a) of None \<Rightarrow> False
     | Some k \<Rightarrow> k \<noteq> 0 \<and> layout H (a + 24 + unat k) xs e)"

definition first :: "nat list \<Rightarrow> nat" where
  "first xs = (if xs = [] then NULL else hd xs)"

fun links :: "(nat \<Rightarrow> memhdr option) \<Rightarrow> nat list \<Rightarrow> bool" where
  "links H [] \<longleftrightarrow> True"
| "links H (x # xs) \<longleftrightarrow> map_option next_hdr (H x) = Some (first xs) \<and> links H xs"

lemma first_simps [simp]: "first [] = NULL" "first (x # xs) = x" "first ((x # xs) @ ys) = x"
  by (simp_all add: first_def)

lemma first_append: "first (xs @ ys) = (if xs = [] then first ys else first xs)"
  by (simp add: first_def)

definition heap_ok :: "heap \<Rightarrow> nat list \<Rightarrow> bool" where
  "heap_ok h xs \<longleftrightarrow> heap_base h \<noteq> NULL \<and> heap_ptr h < MAX_HEAP \<and>
     layout (hdrs h) (heap_base h) xs (brk h) \<and> links (hdrs h) xs \<and>
     head h = first xs \<and> tail h = (if xs = [] then NULL else last xs) \<and>
     heap_base h + 2 ^ 32 < 2 ^ 64"

lemma layout_append: "layout H a (xs @ ys) e \<longleftrightarrow> (\<exists>m. layout H a xs m \<and> layout H m ys e)"
  by (induction xs arbitrary: a) (auto split: option.splits)

lemma layout_le: "layout H a xs e \<Longrightarrow> a \<le> e"
  by (induction xs arbitrary: a) (fastforce split: option.splits)+

lemma layout_mem:
  "layout H a xs e \<Longrightarrow> x \<in> set xs \<Longrightarrow>
   \<exists>b. H x = Some b \<and> hsize b \<noteq> 0 \<and> a \<le> x \<and> x + 24 + unat (hsize b) \<le> e"
  by (induction xs arbitrary: a) (fastforce split: option.splits dest: layout_le)+

lemma layout_distinct: "layout H a xs e \<Longrightarrow> distinct xs"
proof (induction xs arbitrary: a)
  case (Cons x xs)
  then show ?case by (fastforce split: option.splits dest: layout_mem)
qed simp

lemma layout_disjoint:
  "layout H a xs e \<Longrightarrow> x \<in> set xs \<Longrightarrow> y \<in> set xs \<Longrightarrow> x < y \<Longrightarrow> H x = Some b \<Longrightarrow>
   x + 24 + unat (hsize b) \<le> y"
proof (induction xs arbitrary: a)
  case (Cons z xs)
  then obtain c where z: "z = a" "H a = Some c" "layout H (a + 24 + unat (hsize c)) xs e"
    by (auto split: option.splits)
  consider "x = z" "y \<in> set xs" | "x \<in> set xs" "y \<in> set xs" | "x \<in> set xs" "y = z" | "x = y"
    using Cons.prems by auto
  then show ?case
  proof cases
    case 1
    then show ?thesis using layout_mem [OF z(3), of y] z Cons.prems by auto
  next
    case 2
    then show ?thesis using Cons.IH [OF z(3)] Cons.prems by blast
  next
    case 3
    then show ?thesis using layout_mem [OF z(3), of x] z Cons.prems by auto
  next
    case 4
    then show ?thesis using Cons.prems by simp
  qed
qed simp

lemma layout_unique: "layout H a xs e \<Longrightarrow> layout H a ys e \<Longrightarrow> xs = ys"
proof (induction xs arbitrary: a ys)
  case Nil
  then show ?case by (cases ys) (auto split: option.splits dest: layout_le)
next
  case (Cons x xs)
  then show ?case
    by (cases ys) (auto split: option.splits dest: layout_le)
qed

lemma layout_cong:
  "(\<And>x. x \<in> set xs \<Longrightarrow> map_option hsize (H' x) = map_option hsize (H x)) \<Longrightarrow>
   layout H' a xs e = layout H a xs e"
proof (induction xs arbitrary: a)
  case (Cons x xs)
  have eq: "map_option hsize (H' x) = map_option hsize (H x)" using Cons.prems by simp
  have IH: "layout H' c xs e = layout H c xs e" for c using Cons by simp
  show ?case unfolding layout.simps IH
  proof (rule conj_cong [OF refl])
    assume "x = a"
    with eq show "(case map_option hsize (H' a) of None \<Rightarrow> False
        | Some k \<Rightarrow> k \<noteq> 0 \<and> layout H (a + 24 + unat k) xs e) =
      (case map_option hsize (H a) of None \<Rightarrow> False
        | Some k \<Rightarrow> k \<noteq> 0 \<and> layout H (a + 24 + unat k) xs e)" by (simp only:)
  qed
qed simp

lemma links_cong:
  "(\<And>x. x \<in> set xs \<Longrightarrow> map_option next_hdr (H' x) = map_option next_hdr (H x)) \<Longrightarrow>
   links H' xs = links H xs"
  by (induction xs) auto

lemma links_snoc:
  assumes "links H (xs @ [x])" "e \<notin> set (xs @ [x])" "distinct (xs @ [x])" "H x = Some b"
    "H' = H(x \<mapsto> b\<lparr>next_hdr := e\<rparr>, e \<mapsto> c)" "next_hdr c = NULL"
  shows "links H' (xs @ [x, e])"
  using assms by (induction xs) (auto simp: first_append)

lemma links_butlast:
  assumes "links H (xs @ [x, y])" "distinct (xs @ [x, y])" "H x = Some b"
  shows "links (H(x \<mapsto> b\<lparr>next_hdr := NULL\<rparr>)) (xs @ [x])"
  using assms by (induction xs) (auto simp: first_append)

section \<open>Walking the list\<close>

definition fits :: "(nat \<Rightarrow> memhdr option) \<Rightarrow> u64 \<Rightarrow> nat \<Rightarrow> bool" where
  "fits H sz x \<longleftrightarrow> (case H x of None \<Rightarrow> False | Some b \<Rightarrow> is_free b \<noteq> 0 \<and> hsize b \<ge> sz)"

lemma get_free_block_loop_find:
  assumes "layout (hdrs h) a xs e" "links (hdrs h) xs" "a \<noteq> NULL"
  shows "get_free_block_loop (first xs) sz h =
    Some (case find (fits (hdrs h) sz) xs of None \<Rightarrow> NULL | Some x \<Rightarrow> x)"
  using assms
proof (induction xs arbitrary: a)
  case Nil
  then show ?case by (subst get_free_block_loop.simps) simp
next
  case (Cons x xs)
  then obtain b where b: "hdrs h x = Some b" "next_hdr b = first xs"
    "x = a" "layout (hdrs h) (a + 24 + unat (hsize b)) xs e" "links (hdrs h) xs"
    by (auto split: option.splits)
  have "get_free_block_loop (next_hdr b) sz h =
      Some (case find (fits (hdrs h) sz) xs of None \<Rightarrow> NULL | Some x \<Rightarrow> x)"
    unfolding b(2) by (rule Cons.IH [OF b(4,5)]) (simp add: NULL_def)
  with b Cons.prems(3) show ?case
    by (subst get_free_block_loop.simps) (auto simp: fits_def)
qed

lemma free_walk_last:
  assumes "links (hdrs h) (xs @ [x, y])" "distinct (xs @ [x, y])" "NULL \<notin> set (xs @ [x, y])"
    "tail h = y" "hdrs h x = Some b"
  shows "free_walk (first (xs @ [x])) h =
    Some (h\<lparr>hdrs := (hdrs h)(x \<mapsto> b\<lparr>next_hdr := NULL\<rparr>), tail := x\<rparr>)"
  using assms
proof (induction xs)
  case Nil
  then show ?case by (subst free_walk.simps) (auto simp: free_walk.simps)
next
  case (Cons z zs)
  then obtain c where c: "hdrs h z = Some c" "next_hdr c = first (zs @ [x])"
    by (auto simp: first_append split: if_splits)
  have "next_hdr c \<noteq> tail h" using c(2) Cons.prems(2,4) by (cases zs) (auto simp: first_append)
  moreover have "free_walk (next_hdr c) h =
      Some (h\<lparr>hdrs := (hdrs h)(x \<mapsto> b\<lparr>next_hdr := NULL\<rparr>), tail := x\<rparr>)"
    unfolding c(2) using Cons.prems by (intro Cons.IH) auto
  ultimately show ?case using c(1) Cons.prems(3) by (subst free_walk.simps) simp
qed

section \<open>Sizes and the break\<close>

definition round8 :: "nat \<Rightarrow> nat" where
  "round8 n = (n + 7) div 8 * 8"

lemma round8: "n \<le> round8 n" "round8 n < n + 8" "round8 n mod 8 = 0" "0 < n \<Longrightarrow> 0 < round8 n"
  by (auto simp: round8_def)

lemma unat_malloc_size:
  assumes "unat sz < 2 ^ 31" shows "unat (malloc_size sz) = round8 (unat sz)"
proof -
  have m: "MALLOC_ALIGN_MASK = mask 3" by (simp add: MALLOC_ALIGN_MASK_def mask_eq_exp_minus_1)
  have z: "sz AND MALLOC_ALIGN_MASK \<noteq> 0 \<longleftrightarrow> unat sz mod 8 \<noteq> 0"
    unfolding m unat_eq_zero [symmetric] unat_and_mask by simp
  show ?thesis
  proof (cases "unat sz mod 8 = 0")
    case True
    then show ?thesis using z by (auto simp: malloc_size_def round8_def)
  next
    case False
    then have "unat (malloc_size sz) = unat ((sz AND NOT MALLOC_ALIGN_MASK) + 8)"
      using z by (simp add: malloc_size_def m mask_eq_exp_minus_1)
    also have "\<dots> = unat sz - unat sz mod 8 + 8"
      using assms unat_and_not_mask [of sz 3] by (simp add: m unat_word_ariths)
    also have "\<dots> = round8 (unat sz)"
      using False by (simp add: round8_def minus_mod_eq_mult_div) presburger
    finally show ?thesis .
  qed
qed

lemma sbrk_grow:
  assumes "0 < unat inc" "unat inc < 2 ^ 31 + 2 ^ 30" "heap_ptr h < MAX_HEAP"
  defines "h' \<equiv> h\<lparr>heap_ptr := heap_ptr h + ucast inc\<rparr>"
  shows "libtarg_sbrk inc h =
     (if unat (heap_ptr h) + unat inc < 32768 then ok (brk h) h' else fail 1 h')"
    and "unat (heap_ptr h) + unat inc < 32768 \<Longrightarrow> brk h' = brk h + unat inc"
    and "unat (heap_ptr h) + unat inc < 32768 \<Longrightarrow> heap_ptr h' < MAX_HEAP"
proof -
  have "unat (ucast inc :: u32) = unat inc"
    using assms(2) by (simp add: unsigned_ucast_eq take_bit_nat_eq_self)
  moreover have b: "unat (heap_ptr h) < 32768"
    using assms(3) by (simp add: MAX_HEAP_def word_less_nat_alt)
  ultimately have u: "unat (heap_ptr h + ucast inc) = unat (heap_ptr h) + unat inc"
    using assms(2) by (simp add: unat_word_ariths)
  have "inc \<noteq> 0" using assms(1) by auto
  then show "libtarg_sbrk inc h =
     (if unat (heap_ptr h) + unat inc < 32768 then ok (brk h) h' else fail 1 h')"
    using u by (simp add: libtarg_sbrk_def h'_def brk_def MAX_HEAP_def word_le_nat_alt)
  show "unat (heap_ptr h) + unat inc < 32768 \<Longrightarrow> brk h' = brk h + unat inc"
    using u by (simp add: h'_def brk_def)
  show "unat (heap_ptr h) + unat inc < 32768 \<Longrightarrow> heap_ptr h' < MAX_HEAP"
    using u by (simp add: h'_def MAX_HEAP_def word_less_nat_alt)
qed

lemma sbrk_shrink:
  assumes "0 < k" "k \<le> unat (heap_ptr h)" "heap_ptr h < MAX_HEAP" "unat w = k"
  defines "h' \<equiv> h\<lparr>heap_ptr := heap_ptr h + ucast (0 - w)\<rparr>"
  shows "libtarg_sbrk (0 - w) h = ok (brk h) h'" "brk h' = brk h - k" "heap_ptr h' < MAX_HEAP"
proof -
  have b: "unat (heap_ptr h) < 32768"
    using assms(3) by (simp add: MAX_HEAP_def word_less_nat_alt)
  have n: "unat (0 - w) = 2 ^ 64 - k" using assms(1,4) by (simp only: unat_sub_if') simp
  have "unat (ucast (0 - w) :: u32) = (2 ^ 64 - k) mod 2 ^ 32"
    unfolding n [symmetric] by (simp add: unsigned_ucast_eq take_bit_eq_mod)
  also have "\<dots> = 2 ^ 32 - k"
  proof -
    have "(2 :: nat) ^ 64 - k = (2 ^ 32 - k) + 2 ^ 32 * (2 ^ 32 - 1)" using assms(2) b by simp
    then have "(2 ^ 64 - k) mod 2 ^ 32 = (2 ^ 32 - k) mod 2 ^ 32" by (metis mod_mult_self2)
    then show ?thesis using assms(1) by simp
  qed
  finally have "unat (heap_ptr h + ucast (0 - w)) = (unat (heap_ptr h) + (2 ^ 32 - k)) mod 2 ^ 32"
    by (simp only: unat_word_ariths) simp
  also have "\<dots> = unat (heap_ptr h) - k"
  proof -
    have e: "unat (heap_ptr h) + (2 ^ 32 - k) = (unat (heap_ptr h) - k) + 2 ^ 32"
      using assms(2) b by simp
    show ?thesis unfolding e using b by (simp only: mod_add_self2) simp
  qed
  finally have u: "unat (heap_ptr h + ucast (0 - w)) = unat (heap_ptr h) - k" .
  have "0 - w \<noteq> 0" using assms(1,4) by auto
  then show "libtarg_sbrk (0 - w) h = ok (brk h) h'"
    using u b unfolding libtarg_sbrk_def h'_def brk_def
    by (auto simp: MAX_HEAP_def word_le_nat_alt Let_def)
  show "brk h' = brk h - k" using u assms(2) by (simp add: h'_def brk_def)
  show "heap_ptr h' < MAX_HEAP" using u b by (simp add: h'_def MAX_HEAP_def word_less_nat_alt)
qed

section \<open>Blocks\<close>

text \<open>A block is its address, its size and whether it is free.\<close>

type_synonym blk = "nat \<times> nat \<times> bool"

definition blk_of :: "(nat \<Rightarrow> memhdr option) \<Rightarrow> nat \<Rightarrow> blk" where
  "blk_of H x = (case H x of None \<Rightarrow> (x + 24, 0, False)
     | Some b \<Rightarrow> (x + 24, unat (hsize b), is_free b \<noteq> 0))"

definition blocks :: "heap \<Rightarrow> nat list \<Rightarrow> blk list" where
  "blocks h xs = map (blk_of (hdrs h)) xs"

fun first_fit :: "nat \<Rightarrow> blk list \<Rightarrow> (blk list \<times> nat) option" where
  "first_fit n [] = None"
| "first_fit n ((p, k, f) # bs) =
     (if f \<and> n \<le> k then Some ((p, k, False) # bs, p)
      else map_option (\<lambda>(bs', q). ((p, k, f) # bs', q)) (first_fit n bs))"

definition mark_free :: "nat \<Rightarrow> blk list \<Rightarrow> blk list" where
  "mark_free p = map (\<lambda>(q, k, f). (q, k, f \<or> q = p))"

lemma find_mem: "find P xs = Some x \<Longrightarrow> x \<in> set xs"
  by (auto simp: find_Some_iff)

lemma first_fit_find:
  "layout H a xs e \<Longrightarrow> distinct xs \<Longrightarrow>
   first_fit (unat sz) (map (blk_of H) xs) =
     (case find (fits H sz) xs of None \<Rightarrow> None
      | Some x \<Rightarrow> (case H x of None \<Rightarrow> None
          | Some b \<Rightarrow> Some (map (blk_of (H(x \<mapsto> b\<lparr>is_free := 0\<rparr>))) xs, x + 24)))"
proof (induction xs arbitrary: a)
  case (Cons x xs)
  then obtain b where b: "H x = Some b" "layout H (a + 24 + unat (hsize b)) xs e"
    by (auto split: option.splits)
  have other: "map (blk_of (H(x \<mapsto> c))) xs = map (blk_of H) xs" for c
    using Cons.prems(2) by (auto simp: blk_of_def)
  have hd: "blk_of (H(y \<mapsto> c)) x = blk_of H x" if "y \<in> set xs" for y c
    using that Cons.prems(2) by (auto simp: blk_of_def)
  have fits: "fits H sz x \<longleftrightarrow> is_free b \<noteq> 0 \<and> unat sz \<le> unat (hsize b)"
    using b(1) by (simp add: fits_def word_le_nat_alt)
  have bx: "blk_of H x = (x + 24, unat (hsize b), is_free b \<noteq> 0)" using b(1) by (simp add: blk_of_def)
  show ?case
  proof (cases "fits H sz x")
    case True
    then show ?thesis using fits b(1) bx other by (simp add: blk_of_def)
  next
    case False
    have "first_fit (unat sz) (map (blk_of H) (x # xs))
        = map_option (\<lambda>(bs', q). (blk_of H x # bs', q)) (first_fit (unat sz) (map (blk_of H) xs))"
      using False fits by (auto simp: bx)
    also have "\<dots> = (case find (fits H sz) (x # xs) of None \<Rightarrow> None
      | Some y \<Rightarrow> (case H y of None \<Rightarrow> None
          | Some b \<Rightarrow> Some (map (blk_of (H(y \<mapsto> b\<lparr>is_free := 0\<rparr>))) (x # xs), y + 24)))"
      using Cons.IH [OF b(2)] Cons.prems(2) False hd
      by (auto split: option.splits dest: find_mem)
    finally show ?thesis .
  qed
qed simp

definition alloc_done :: "heap \<Rightarrow> heap \<Rightarrow> nat list \<Rightarrow> blk list \<Rightarrow> bool" where
  "alloc_done h h' xs bs \<longleftrightarrow> heap_ok h' xs \<and> blocks h' xs = bs \<and>
     heap_base h' = heap_base h \<and> heap_mem h' = heap_mem h"

lemma heap_ok_not_NULL: "heap_ok h xs \<Longrightarrow> NULL \<notin> set xs"
  by (auto simp: heap_ok_def NULL_def dest: layout_mem)

lemma heap_ok_brk: "heap_ok h xs \<Longrightarrow> brk h < heap_base h + 32768 \<and> heap_base h \<le> brk h"
  by (simp add: heap_ok_def brk_def MAX_HEAP_def word_less_nat_alt)

lemma heap_ok_mem:
  assumes "heap_ok h xs" "x \<in> set xs"
  obtains b where "hdrs h x = Some b" "hsize b \<noteq> 0" "heap_base h \<le> x"
    "x + 24 + unat (hsize b) \<le> brk h" "x \<noteq> NULL"
  using assms layout_mem [of "hdrs h" "heap_base h" xs "brk h" x] heap_ok_not_NULL [OF assms(1)]
  by (auto simp: heap_ok_def)

lemma heap_ok_distinct: "heap_ok h xs \<Longrightarrow> distinct xs"
  by (auto simp: heap_ok_def dest: layout_distinct)

lemma heap_ok_is_free:
  assumes "heap_ok h xs" "x \<in> set xs" "hdrs h x = Some b"
  shows "heap_ok (h\<lparr>hdrs := (hdrs h)(x \<mapsto> b\<lparr>is_free := f\<rparr>)\<rparr>) xs"
proof -
  let ?H = "(hdrs h)(x \<mapsto> b\<lparr>is_free := f\<rparr>)"
  have "layout ?H (heap_base h) xs (brk h) = layout (hdrs h) (heap_base h) xs (brk h)"
    using assms(3) by (intro layout_cong) auto
  moreover have "links ?H xs = links (hdrs h) xs"
    using assms(3) by (intro links_cong) auto
  ultimately show ?thesis using assms(1) by (simp add: heap_ok_def brk_def)
qed

lemma get_free_block_ok:
  assumes "heap_ok h xs"
  shows "get_free_block sz h =
    Some (h, Inr (case find (fits (hdrs h) sz) xs of None \<Rightarrow> NULL | Some x \<Rightarrow> x))"
  using assms get_free_block_loop_find [of h "heap_base h" xs "brk h" sz]
  by (simp add: get_free_block_def heap_ok_def)

lemma malloc_reuse:
  assumes "heap_ok h xs" "find (fits (hdrs h) (malloc_size sz)) xs = Some x" "malloc_size sz \<noteq> 0"
    "first_fit (unat (malloc_size sz)) (blocks h xs) = Some (bs, p)"
  shows "\<exists>h'. libmin_malloc sz h = Some (h', Inr p) \<and> alloc_done h h' xs bs \<and> brk h' = brk h"
proof -
  have x: "x \<in> set xs" using assms(2) by (rule find_mem)
  from heap_ok_mem [OF assms(1) x] obtain b where b: "hdrs h x = Some b" "x \<noteq> NULL" by blast
  let ?h = "h\<lparr>hdrs := (hdrs h)(x \<mapsto> b\<lparr>is_free := 0\<rparr>)\<rparr>"
  have l: "layout (hdrs h) (heap_base h) xs (brk h)" using assms(1) by (simp add: heap_ok_def)
  have "blocks ?h xs = bs" "p = x + 24"
    using first_fit_find [OF l heap_ok_distinct [OF assms(1)], of "malloc_size sz"] assms(2,4) b(1)
    by (simp_all add: blocks_def)
  moreover have "libmin_malloc sz h = Some (?h, Inr (x + 24))"
    using assms(2,3) b get_free_block_ok [OF assms(1), of "malloc_size sz"]
    by (simp add: libmin_malloc_def Let_def seq_def put_hdr_def sizeof_memhdr_def ok_def)
  ultimately show ?thesis
    using heap_ok_is_free [OF assms(1) x b(1), of 0] by (auto simp: alloc_done_def brk_def)
qed

lemma append_hdr_ok:
  assumes "heap_ok h xs" "heap_ptr h1 < MAX_HEAP" "hdrs h1 = hdrs h" "heap_base h1 = heap_base h"
    "head h1 = head h" "tail h1 = tail h" "heap_mem h1 = heap_mem h"
    and k: "brk h1 = brk h + 24 + unat sz" "sz \<noteq> 0"
  shows "\<exists>h'. append_hdr (brk h) sz h1 = Some (h', Inr (brk h + 24)) \<and>
     alloc_done h h' (xs @ [brk h]) (blocks h xs @ [(brk h + 24, unat sz, False)]) \<and> brk h' = brk h1"
proof -
  let ?e = "brk h" and ?c = "\<lparr>hsize = sz, is_free = 0, next_hdr = NULL\<rparr>"
  have l: "layout (hdrs h) (heap_base h) xs ?e" and lk: "links (hdrs h) xs"
    and base: "heap_base h \<noteq> NULL" and hd: "head h = first xs"
    and tl: "tail h = (if xs = [] then NULL else last xs)" and w: "heap_base h + 2 ^ 32 < 2 ^ 64"
    using assms(1) by (simp_all add: heap_ok_def)
  have ne: "x \<noteq> ?e" if "x \<in> set xs" for x using layout_mem [OF l that] by auto
  have e: "?e \<noteq> NULL" using base heap_ok_brk [OF assms(1)] by (simp add: NULL_def)
  show ?thesis
  proof (cases xs rule: rev_cases)
    case Nil
    let ?h = "h1\<lparr>hdrs := (hdrs h)(?e \<mapsto> ?c), head := ?e, tail := ?e\<rparr>"
    have "append_hdr ?e sz h1 = Some (?h, Inr (?e + 24))"
      using Nil hd tl assms(3,5,6) by (simp add: append_hdr_def seq_def ok_def sizeof_memhdr_def)
    moreover have "heap_ok ?h [?e]"
      using l Nil base assms(2,4) k e w by (simp add: heap_ok_def brk_def)
    ultimately show ?thesis using Nil assms(4,7)
      by (auto simp: alloc_done_def blocks_def blk_of_def brk_def)
  next
    case (snoc ys x)
    then obtain b where b: "hdrs h x = Some b" "x \<noteq> NULL"
      using heap_ok_mem [OF assms(1), of x] by auto
    let ?H = "(hdrs h)(x \<mapsto> b\<lparr>next_hdr := ?e\<rparr>, ?e \<mapsto> ?c)"
    let ?h = "h1\<lparr>hdrs := ?H, tail := ?e\<rparr>"
    have xe: "x \<noteq> ?e" using ne snoc by simp
    have "first xs \<noteq> NULL" using heap_ok_not_NULL [OF assms(1)] snoc by (cases ys) auto
    then have "append_hdr ?e sz h1 = Some (?h, Inr (?e + 24))"
      using snoc hd tl assms(3,5,6) b xe
      by (simp add: append_hdr_def seq_def ok_def sizeof_memhdr_def put_hdr_def fun_upd_twist)
    moreover have "layout ?H (heap_base h) (xs @ [?e]) (brk h1)"
    proof -
      have "layout ?H (heap_base h) xs ?e = layout (hdrs h) (heap_base h) xs ?e"
        using b ne by (intro layout_cong) auto
      then show ?thesis using l k by (auto simp: layout_append)
    qed
    moreover have "links ?H (xs @ [?e])"
      using lk ne heap_ok_distinct [OF assms(1)] b unfolding snoc append.assoc append.simps
      by (intro links_snoc [of "hdrs h"]) (auto simp: snoc)
    moreover have "map (blk_of ?H) xs = map (blk_of (hdrs h)) xs"
      using b ne by (auto simp: blk_of_def)
    ultimately show ?thesis
      using base assms hd e w snoc
      by (auto simp: alloc_done_def heap_ok_def brk_def blocks_def blk_of_def first_append)
  qed
qed

lemma malloc_grow:
  assumes h: "heap_ok h xs" and "find (fits (hdrs h) (malloc_size sz)) xs = None"
    and n: "unat (malloc_size sz) = n" "0 < n" "n < 2 ^ 31 + 8"
  shows "if brk h + 24 + n < heap_base h + 32768
    then \<exists>h'. libmin_malloc sz h = Some (h', Inr (brk h + 24)) \<and>
       alloc_done h h' (xs @ [brk h]) (blocks h xs @ [(brk h + 24, n, False)]) \<and> brk h' = brk h + 24 + n
    else \<exists>h'. libmin_malloc sz h = Some (h', Inl 1)"
proof -
  let ?inc = "of_nat sizeof_memhdr + malloc_size sz :: u64"
  let ?h = "h\<lparr>heap_ptr := heap_ptr h + ucast ?inc\<rparr>"
  have inc: "unat ?inc = 24 + n"
    using n by (simp add: sizeof_memhdr_def unat_word_ariths)
  have hp: "heap_ptr h < MAX_HEAP" using h by (simp add: heap_ok_def)
  have sb: "libtarg_sbrk ?inc h =
     (if unat (heap_ptr h) + (24 + n) < 32768 then ok (brk h) ?h else fail 1 ?h)"
    "unat (heap_ptr h) + (24 + n) < 32768 \<Longrightarrow> brk ?h = brk h + (24 + n)"
    "unat (heap_ptr h) + (24 + n) < 32768 \<Longrightarrow> heap_ptr ?h < MAX_HEAP"
    using sbrk_grow [of ?inc h] hp n unfolding inc by simp_all
  have nz: "malloc_size sz \<noteq> 0" using n by auto
  have run: "libmin_malloc sz h = seq (libtarg_sbrk ?inc) (\<lambda>block.
      if block = unat (- 1 :: u64) then ok NULL else append_hdr block (malloc_size sz)) h"
    using get_free_block_ok [OF h, of "malloc_size sz"] assms(2) nz
    by (simp add: libmin_malloc_def Let_def seq_def [of "get_free_block _"])
  show ?thesis
  proof (cases "brk h + 24 + n < heap_base h + 32768")
    case True
    then have r: "unat (heap_ptr h) + (24 + n) < 32768" by (simp add: brk_def)
    have "brk h \<noteq> unat (- 1 :: u64)"
      using heap_ok_brk [OF h] h
      by (simp add: heap_ok_def unsigned_minus_1_eq_mask mask_eq_exp_minus_1)
    then have "libmin_malloc sz h = append_hdr (brk h) (malloc_size sz) ?h"
      using run sb(1) r by (simp add: seq_def ok_def)
    moreover have "\<exists>h'. append_hdr (brk h) (malloc_size sz) ?h = Some (h', Inr (brk h + 24)) \<and>
       alloc_done h h' (xs @ [brk h]) (blocks h xs @ [(brk h + 24, unat (malloc_size sz), False)]) \<and>
       brk h' = brk ?h"
      using sb(2,3) r nz n(1) by (intro append_hdr_ok [OF h]) simp_all
    ultimately show ?thesis using True sb(2) r n(1) by (auto simp: add.assoc)
  next
    case False
    then have "\<not> unat (heap_ptr h) + (24 + n) < 32768" by (simp add: brk_def)
    then show ?thesis using False run sb(1) by (simp add: seq_def fail_def)
  qed
qed

lemma last_block:
  assumes "heap_ok h xs" "x \<in> set xs" "hdrs h x = Some b"
  shows "x + 24 + unat (hsize b) = brk h \<longleftrightarrow> x = last xs"
proof -
  have l: "layout (hdrs h) (heap_base h) xs (brk h)" using assms(1) by (simp add: heap_ok_def)
  obtain ys y where xs: "xs = ys @ [y]" using assms(2) by (cases xs rule: rev_cases) auto
  with l obtain c where c: "hdrs h y = Some c" "y + 24 + unat (hsize c) = brk h"
    "layout (hdrs h) (heap_base h) ys y"
    by (auto simp: layout_append split: option.splits)
  show ?thesis
  proof (cases "x = y")
    case True
    with c assms(3) xs show ?thesis by simp
  next
    case False
    then have "x \<in> set ys" using assms(2) xs by simp
    with c(2) layout_mem [OF c(3), of x] assms(3) xs False show ?thesis by auto
  qed
qed

definition unlink_last :: "unit prog" where
  "unlink_last h = (if head h = tail h then (\<lambda>h. ok () (h\<lparr>head := NULL, tail := NULL\<rparr>))
     else (\<lambda>h. map_option (\<lambda>h'. (h', Inr ())) (free_walk (head h) h))) h"

lemma unlink_last_ok:
  assumes h: "heap_ok h (ys @ [x])" and l: "layout (hdrs h) (heap_base h) ys x"
  shows "\<exists>h1. unlink_last h = Some (h1, Inr ()) \<and> heap_ptr h1 = heap_ptr h \<and>
    heap_base h1 = heap_base h \<and> heap_mem h1 = heap_mem h \<and> links (hdrs h1) ys \<and>
    layout (hdrs h1) (heap_base h) ys x \<and> head h1 = first ys \<and>
    tail h1 = (if ys = [] then NULL else last ys) \<and> blocks h1 ys = blocks h ys"
proof (cases ys rule: rev_cases)
  case Nil
  then show ?thesis using h l by (simp add: unlink_last_def heap_ok_def ok_def blocks_def)
next
  case (snoc zs y)
  obtain c where c: "hdrs h y = Some c" using heap_ok_mem [OF h, of y] snoc by auto
  have d: "distinct (zs @ [y, x])" using heap_ok_distinct [OF h] snoc by simp
  have lk: "links (hdrs h) (zs @ [y, x])" and tx: "tail h = x" and hd: "head h = first (zs @ [y])"
    using h snoc by (simp_all add: heap_ok_def first_append)
  have nn: "NULL \<notin> set (zs @ [y, x])" using heap_ok_not_NULL [OF h] snoc by simp
  let ?h1 = "h\<lparr>hdrs := (hdrs h)(y \<mapsto> c\<lparr>next_hdr := NULL\<rparr>), tail := y\<rparr>"
  have "layout (hdrs ?h1) (heap_base h) ys x = layout (hdrs h) (heap_base h) ys x"
    using c by (intro layout_cong) auto
  moreover have "blocks ?h1 ys = blocks h ys" using c by (auto simp: blocks_def blk_of_def)
  moreover have "head h \<noteq> tail h" using hd tx d by (cases zs) auto
  then have "unlink_last h = Some (?h1, Inr ())"
    using free_walk_last [OF lk d nn tx c] hd by (simp add: unlink_last_def)
  ultimately show ?thesis using links_butlast [OF lk d c] l snoc hd by auto
qed

lemma free_last:
  assumes h: "heap_ok h (ys @ [x])" and b: "hdrs h x = Some b"
  shows "\<exists>h'. libmin_free (x + 24) h = Some (h', Inr ()) \<and> alloc_done h h' ys (blocks h ys) \<and> brk h' = x"
proof -
  let ?k = "24 + unat (hsize b)"
  have l: "layout (hdrs h) (heap_base h) ys x" "x + ?k = brk h"
    using h b by (auto simp: heap_ok_def layout_append split: option.splits)
  have xb: "heap_base h \<le> x" "heap_base h \<noteq> NULL" "heap_ptr h < MAX_HEAP" "heap_base h + 2 ^ 32 < 2 ^ 64"
    using layout_le [OF l(1)] h by (auto simp: heap_ok_def)
  have kp: "?k \<le> unat (heap_ptr h)" "brk h - ?k = x" using l(2) xb(1) by (auto simp: brk_def)
  from unlink_last_ok [OF h l(1)] obtain h1 where h1: "unlink_last h = Some (h1, Inr ())"
    "heap_ptr h1 = heap_ptr h" "heap_base h1 = heap_base h" "heap_mem h1 = heap_mem h"
    "links (hdrs h1) ys" "layout (hdrs h1) (heap_base h) ys x" "head h1 = first ys"
    "tail h1 = (if ys = [] then NULL else last ys)" "blocks h1 ys = blocks h ys"
    by blast
  define h2 where "h2 = h1\<lparr>heap_ptr := heap_ptr h1 + ucast (0 - (24 + hsize b))\<rparr>"
  have "unat (hsize b) < 2 ^ 32" using kp(1) xb(3) by (simp add: MAX_HEAP_def word_less_nat_alt)
  then have "unat (24 + hsize b) = ?k" by (simp add: unat_word_ariths)
  from sbrk_shrink [of ?k h1 "24 + hsize b"] this kp xb h1(2,3)
  have sb: "libtarg_sbrk (0 - (24 + hsize b)) h1 = Some (h2, Inr (brk h))" "brk h2 = x"
    "heap_ptr h2 < MAX_HEAP"
    by (simp_all add: h2_def ok_def brk_def)
  have "libmin_free (x + 24) h = seq unlink_last
      (\<lambda>_. seq (libtarg_sbrk (0 - of_nat sizeof_memhdr - hsize b)) (\<lambda>_. ok ())) h"
    using b l(2) by (simp add: libmin_free_def NULL_def sizeof_memhdr_def Let_def ok_def brk_def
        libtarg_sbrk_def [of 0] add.assoc seq_def unlink_last_def)
  also have "\<dots> = Some (h2, Inr ())"
    using h1(1) sb(1) by (simp add: seq_def ok_def sizeof_memhdr_def diff_diff_eq)
  finally have "libmin_free (x + 24) h = Some (h2, Inr ())" .
  moreover have "alloc_done h h2 ys (blocks h ys)"
    using h1 xb sb(2,3) by (auto simp: alloc_done_def heap_ok_def h2_def blocks_def brk_def)
  ultimately show ?thesis using sb(2) by blast
qed

lemma free_mark:
  assumes h: "heap_ok h xs" and x: "x \<in> set xs" "x \<noteq> last xs"
  shows "\<exists>h'. libmin_free (x + 24) h = Some (h', Inr ()) \<and>
    alloc_done h h' xs (mark_free (x + 24) (blocks h xs)) \<and> brk h' = brk h"
proof -
  from heap_ok_mem [OF h x(1)] obtain b where b: "hdrs h x = Some b" by blast
  let ?h = "h\<lparr>hdrs := (hdrs h)(x \<mapsto> b\<lparr>is_free := 1\<rparr>)\<rparr>"
  have "x + 24 + unat (hsize b) \<noteq> brk h" using last_block [OF h x(1) b] x(2) by simp
  then have "libmin_free (x + 24) h = Some (?h, Inr ())"
    using b by (simp add: libmin_free_def NULL_def sizeof_memhdr_def Let_def seq_def ok_def brk_def
        libtarg_sbrk_def [of 0] put_hdr_def)
  moreover have "blocks ?h xs = mark_free (x + 24) (blocks h xs)"
    using b by (auto simp: blocks_def mark_free_def blk_of_def split: option.splits)
  ultimately show ?thesis using heap_ok_is_free [OF h x(1) b, of 1] by (auto simp: alloc_done_def brk_def)
qed

end
