(* ===== verification/Libmin_Str_Proofs.thy ===== *)
theory Libmin_Str_Proofs
  imports Libmin_Str "HOL-Library.Sublist"
begin

text \<open>
  What the string routines compute on strings: their results as list functions, the word
  trick of strcspn, the first occurrence found by strstr, and the tokens strtok cuts.
\<close>

section \<open>Strings in memory\<close>

lemma cstr_iff: "cstr m a xs \<longleftrightarrow> ld_bytes m a (Suc (length xs)) = Some (xs @ [0]) \<and> 0 \<notin> set xs"
proof (induction xs arbitrary: a)
  case Nil
  then show ?case by (auto simp: ld_bytes_Suc ld_def)
next
  case (Cons x xs)
  then show ?case by (subst ld_bytes_Suc) (auto split: option.splits)
qed

lemma cstr_bound: "cstr m a xs \<Longrightarrow> a + length xs < length m"
  by (induction xs arbitrary: a) (fastforce simp: ld_eq_Some)+

lemma cstr_ld: "cstr m a xs \<Longrightarrow> i \<le> length xs \<Longrightarrow> ld m (a + i) = Some ((xs @ [0]) ! i)"
proof (induction xs arbitrary: a i)
  case (Cons x xs)
  then show ?case using Cons.IH [of "Suc a" "i - 1"] by (cases i) auto
qed simp

lemma cstr_append: "cstr m a (xs @ ys) \<longleftrightarrow>
    (\<forall>i<length xs. ld m (a + i) = Some (xs ! i)) \<and> 0 \<notin> set xs \<and> cstr m (a + length xs) ys"
  by (induction xs arbitrary: a) (auto simp: All_less_Suc2)

lemma cstr_cong:
  "(\<And>i. i \<le> length xs \<Longrightarrow> ld m' (a + i) = ld m (a + i)) \<Longrightarrow> cstr m' a xs = cstr m a xs"
proof (induction xs arbitrary: a)
  case Nil
  then show ?case using Nil [of 0] by simp
next
  case (Cons x xs)
  have "cstr m' (Suc a) xs = cstr m (Suc a) xs"
    using Cons.prems [of "Suc i" for i] by (intro Cons.IH) simp
  then show ?case using Cons.prems [of 0] by simp
qed

lemma cstr_update [simp]:
  "j < a \<or> a + length xs < j \<Longrightarrow> cstr (m[j := x]) a xs = cstr m a xs"
  by (rule cstr_cong) (auto simp: ld_def)

lemma cstr_inject: "cstr m a xs \<Longrightarrow> cstr m a ys \<Longrightarrow> xs = ys"
proof (induction xs arbitrary: a ys)
  case Nil
  then show ?case by (cases ys) auto
next
  case (Cons x xs)
  then show ?case by (cases ys) auto
qed

lemma cstr_st_bytes:
  assumes "st_bytes m (d + length xs) (ys @ [0]) = Some m'"
    and "\<forall>i<length xs. ld m (d + i) = Some (xs ! i)" "0 \<notin> set xs" "0 \<notin> set ys"
  shows "cstr m' d (xs @ ys)"
  unfolding cstr_append
proof (intro conjI allI impI)
  fix i assume i: "i < length xs"
  have len: "length m' = length m" and old: "m' ! (d + i) = m ! (d + i)"
    using assms(1) i by (auto simp: st_bytes_iff)
  with assms(2) i show "ld m' (d + i) = Some (xs ! i)" by (auto simp: ld_eq_Some)
next
  show "0 \<notin> set xs" by fact
  show "cstr m' (d + length xs) ys"
    using ld_bytes_st_bytes_same [OF assms(1)] assms(4) by (simp add: cstr_iff)
qed

lemma cstr_st_bytes_other:
  assumes "st_bytes m d bs = Some m'" and "s + length xs < d \<or> d + length bs \<le> s"
  shows "cstr m' s xs = cstr m s xs"
  using ld_bytes_st_bytes_other [OF assms(1), of s "Suc (length xs)"] assms(2)
  by (auto simp: cstr_iff)

section \<open>Length and copying\<close>

lemma str_end_cstr: "cstr m a xs \<Longrightarrow> str_end m a = Some (a + length xs)"
  by (induction xs arbitrary: a) (subst str_end.simps, auto)+

lemma strlen_cstr: "cstr m a xs \<Longrightarrow> a \<noteq> NULL \<Longrightarrow> libmin_strlen m a = Some (length xs)"
  by (simp add: libmin_strlen_def str_end_cstr)

lemma strcpy_loop_cstr:
  "cstr m s xs \<Longrightarrow> d + length xs < length m \<Longrightarrow> d \<le> s \<or> s + length xs < d \<Longrightarrow>
   strcpy_loop d s m = st_bytes m d (xs @ [0])"
proof (induction xs arbitrary: d s m)
  case Nil
  then show ?case by (subst strcpy_loop.simps) (simp add: st_bytes_step)
next
  case (Cons x xs)
  have "strcpy_loop (Suc d) (Suc s) (m[d := x]) = st_bytes (m[d := x]) (Suc d) (xs @ [0])"
    using Cons.prems by (intro Cons.IH) auto
  with Cons.prems show ?case by (subst strcpy_loop.simps) (simp add: st_bytes_step)
qed

lemma strncpy_pad_st_bytes:
  "d + n \<le> length m \<Longrightarrow> strncpy_pad d n m = st_bytes m d (replicate n 0)"
  by (induction n arbitrary: d m) (auto simp: st_bytes_step)

lemma strncpy_loop_cstr:
  "cstr m s xs \<Longrightarrow> d + n \<le> length m \<Longrightarrow> d + n \<le> s \<or> s + length xs < d \<Longrightarrow>
   strncpy_loop d s n m = st_bytes m d (take n (xs @ replicate n 0))"
proof (induction n arbitrary: d s m xs)
  case 0
  then show ?case by simp
next
  case (Suc n)
  show ?case
  proof (cases xs)
    case Nil
    with Suc.prems show ?thesis
      by (simp add: st_bytes_step strncpy_pad_st_bytes)
  next
    case (Cons x xs')
    have "strncpy_loop (Suc d) (Suc s) n (m[d := x])
        = st_bytes (m[d := x]) (Suc d) (take n (xs' @ replicate n 0))"
      using Suc.prems Cons by (intro Suc.IH) auto
    moreover have "take n (xs' @ 0 # replicate n 0) = take n (xs' @ replicate n 0)"
      by (cases n) (simp_all add: replicate_append_same [symmetric] del: replicate_Suc flip: replicate_Suc)
    ultimately show ?thesis using Suc.prems Cons by (simp add: st_bytes_step)
  qed
qed

lemma strncat_loop_cstr:
  "cstr m s ys \<Longrightarrow> d + length (take n ys) < length m \<Longrightarrow> d + n < s \<or> s + length ys < d \<Longrightarrow>
   strncat_loop d s n m = map_option (\<lambda>m'. (m', d + length (take n ys))) (st_bytes m d (take n ys))"
proof (induction n arbitrary: d s m ys)
  case 0
  then show ?case by simp
next
  case (Suc n)
  show ?case
  proof (cases ys)
    case Nil
    with Suc.prems show ?thesis by simp
  next
    case (Cons y ys')
    have "strncat_loop (Suc d) (Suc s) n (m[d := y]) = map_option (\<lambda>m'. (m', Suc d + length (take n ys')))
        (st_bytes (m[d := y]) (Suc d) (take n ys'))"
      using Suc.prems Cons by (intro Suc.IH) auto
    with Suc.prems Cons show ?thesis by (simp add: st_bytes_step)
  qed
qed

section \<open>Comparing\<close>

definition cmp_result :: "int \<Rightarrow> u8 list \<Rightarrow> u8 list \<Rightarrow> bool" where
  "cmp_result v xs ys \<longleftrightarrow> (v = 0 \<longleftrightarrow> xs = ys) \<and> (v < 0 \<longleftrightarrow> ord_class.lexordp xs ys)"

lemma cmp_result_diff:
  assumes "x \<noteq> y" shows "cmp_result (uint x - uint y) (x # xs) (y # ys)"
proof -
  have "uint x \<noteq> uint y" using assms by (metis word_uint_eq_iff)
  then show ?thesis using assms by (auto simp: cmp_result_def word_less_def)
qed

lemma cmp_result_same: "cmp_result v xs ys \<Longrightarrow> cmp_result v (x # xs) (x # ys)"
  by (simp add: cmp_result_def)

lemma uint_pos: "x \<noteq> 0 \<Longrightarrow> 0 < uint (x :: u8)"
  by (metis uint_0_iff uint_nonnegative order_le_less)

lemma strcmp_cstr:
  "cstr m l xs \<Longrightarrow> cstr m r ys \<Longrightarrow> \<exists>v. libmin_strcmp m l r = Some v \<and> cmp_result v xs ys"
proof (induction xs arbitrary: l r ys)
  case Nil
  then show ?case
    by (cases ys; subst libmin_strcmp.simps) (auto simp: cmp_result_def dest: uint_pos)
next
  case (Cons x xs)
  show ?case
  proof (cases ys)
    case Nil
    with Cons.prems uint_pos [of x] show ?thesis
      by (subst libmin_strcmp.simps) (auto simp: cmp_result_def)
  next
    case ys: (Cons y ys')
    show ?thesis
    proof (cases "x = y")
      case True
      with Cons ys obtain v where "libmin_strcmp m (Suc l) (Suc r) = Some v" "cmp_result v xs ys'"
        by fastforce
      with True Cons.prems ys show ?thesis
        by (subst libmin_strcmp.simps) (auto intro: cmp_result_same)
    next
      case False
      with Cons.prems ys show ?thesis
        by (subst libmin_strcmp.simps) (auto intro: cmp_result_diff)
    qed
  qed
qed

lemma strncmp_cstr:
  "cstr m l xs \<Longrightarrow> cstr m r ys \<Longrightarrow>
   \<exists>v. libmin_strncmp m l r n = Some v \<and> cmp_result v (take n xs) (take n ys)"
proof (induction n arbitrary: l r xs ys)
  case 0
  then show ?case by (simp add: cmp_result_def)
next
  case (Suc n)
  show ?case
  proof (cases xs)
    case Nil
    with Suc.prems show ?thesis by (cases ys) (auto simp: cmp_result_def dest: uint_pos)
  next
    case xs: (Cons x xs')
    show ?thesis
    proof (cases ys)
      case Nil
      with Suc.prems xs uint_pos [of x] show ?thesis by (auto simp: cmp_result_def)
    next
      case ys: (Cons y ys')
      show ?thesis
      proof (cases "x = y")
        case True
        with Suc xs ys obtain v where
          "libmin_strncmp m (Suc l) (Suc r) n = Some v" "cmp_result v (take n xs') (take n ys')"
          by fastforce
        with True Suc.prems xs ys show ?thesis by (auto intro: cmp_result_same)
      next
        case False
        with Suc.prems xs ys show ?thesis by (auto intro: cmp_result_diff)
      qed
    qed
  qed
qed

section \<open>The zero-byte test\<close>

text \<open>
  Subtracting one from every byte of a word: a borrow reaches a byte only from a lower zero
  byte, so the lowest zero byte is always exposed and no byte is when none is zero.
\<close>

fun byte_borrow :: "bool \<Rightarrow> u8 list \<Rightarrow> bool" where
  "byte_borrow c [] = c"
| "byte_borrow c (b # bs) = byte_borrow (b < 1 + of_bool c) bs"

fun byte_dec :: "bool \<Rightarrow> u8 list \<Rightarrow> u8 list" where
  "byte_dec c [] = []"
| "byte_dec c (b # bs) = (b - (1 + of_bool c)) # byte_dec (b < 1 + of_bool c) bs"

lemma length_byte_dec [simp]: "length (byte_dec c bs) = length bs"
  by (induction bs arbitrary: c) auto

lemma le_word_Cons_arith: "(le_word (b # bs) :: u64) = ucast b + 256 * le_word bs"
proof -
  have "(ucast b :: u64) AND push_bit 8 (le_word bs) = 0"
    by (rule bit_word_eqI) (auto simp: bit_and_iff bit_push_bit_iff bit_ucast_iff dest: bit_imp_le_length)
  then have "(le_word (b # bs) :: u64) = ucast b + push_bit 8 (le_word bs)"
    by (simp add: disjunctive_add_eq_or)
  then show ?thesis by (simp add: push_bit_eq_mult mult.commute)
qed

lemma ucast_dec:
  "(ucast (b - k :: u8) :: u64) = ucast b - ucast k + 256 * of_bool (b < k)"
proof -
  have "uint (b - k) = uint b - uint k + 256 * of_bool (b < k)"
    by (auto simp: uint_sub_if' word_less_def word_le_def)
  then have "(word_of_int (uint (b - k)) :: u64) = word_of_int (uint b - uint k + 256 * of_bool (b < k))"
    by simp
  then show ?thesis by (simp split: if_splits)
qed

lemma le_word_byte_dec:
  "(le_word (byte_dec c bs) :: u64) = le_word bs - le_word (replicate (length bs) 1) - of_bool c
     + 256 ^ length bs * of_bool (byte_borrow c bs)"
proof (induction bs arbitrary: c)
  case Nil
  then show ?case by simp
next
  case (Cons b bs)
  let ?c = "b < 1 + of_bool c"
  have k: "(ucast (1 + of_bool c :: u8) :: u64) = 1 + of_bool c" by (cases c) simp_all
  have "(le_word (byte_dec c (b # bs)) :: u64)
      = ucast b - (1 + of_bool c) + 256 * of_bool ?c + 256 * le_word (byte_dec ?c bs)"
    unfolding byte_dec.simps le_word_Cons_arith ucast_dec k by simp
  also have "\<dots> = ucast b + 256 * le_word bs - (1 + 256 * le_word (replicate (length bs) 1)) - of_bool c
      + 256 ^ Suc (length bs) * of_bool (byte_borrow ?c bs)"
    unfolding Cons.IH by (simp add: algebra_simps)
  also have "\<dots> = le_word (b # bs) - le_word (replicate (length (b # bs)) 1) - of_bool c
      + 256 ^ length (b # bs) * of_bool (byte_borrow c (b # bs))"
    unfolding le_word_Cons_arith length_Cons replicate_Suc byte_borrow.simps by simp
  finally show ?case .
qed

lemma bit_7: "bit (b :: u8) 7 \<longleftrightarrow> 128 \<le> uint b"
proof -
  have u: "0 \<le> uint b" "uint b < 256" using uint_lt2p [of b] by auto
  have "bit b 7 \<longleftrightarrow> bit (uint b) 7" by (simp add: bit_uint_iff)
  then have "bit b 7 \<longleftrightarrow> odd (uint b div 128)" by (simp add: bit_iff_odd [of "uint b"])
  moreover have "uint b div 128 = (if 128 \<le> uint b then 1 else 0)"
    using u by (auto simp: div_pos_pos_trivial int_div_pos_eq [of _ _ 1 "uint b - 128"])
  ultimately show ?thesis by simp
qed

lemma byte_dec_high:
  "(\<exists>i<length bs. bit (byte_dec False bs ! i) 7 \<and> \<not> bit (bs ! i) 7) \<longleftrightarrow> 0 \<in> set bs"
proof (induction bs)
  case Nil
  then show ?case by simp
next
  case (Cons b bs)
  show ?case
  proof (cases "b = 0")
    case True
    then show ?thesis
      by (auto intro!: exI [of _ 0] simp: bit_7 unsigned_minus_1_eq_mask mask_eq_exp_minus_1)
  next
    case False
    then have n: "\<not> b < 1" by (simp add: word_less_1)
    have "1 \<le> uint b" using uint_pos [OF False] by simp
    then have "\<not> (bit (b - 1) 7 \<and> \<not> bit b 7)"
      by (simp add: bit_7 uint_sub_if' word_le_def)
    with n False Cons.IH show ?thesis
      by (auto simp: Ex_less_Suc2)
  qed
qed

lemma le_word_replicate: "(le_word (replicate 8 c) :: u64) = ucast c * ONES"
  by (simp add: ONES_def replicate_numeral le_word_Cons_arith algebra_simps del: le_word.simps(2))

lemma HASZERO_le_word:
  assumes "length bs = 8"
  shows "HASZERO (le_word bs) \<longleftrightarrow> 0 \<in> set bs"
proof -
  let ?x = "le_word bs :: u64"
  have ones: "ONES = le_word (replicate 8 1)" unfolding le_word_replicate by simp
  have highs: "HIGHS = le_word (replicate 8 0x80)" unfolding le_word_replicate HIGHS_def by simp
  have "?x - ONES = le_word (byte_dec False bs)"
    using assms by (simp add: le_word_byte_dec ones)
  then have "HASZERO ?x \<longleftrightarrow> le_word (byte_dec False bs) AND NOT ?x AND HIGHS \<noteq> 0"
    unfolding HASZERO_def by (simp only:)
  also have "\<dots> \<longleftrightarrow> (\<exists>n. bit (le_word (byte_dec False bs) AND NOT ?x AND HIGHS) n)"
    unfolding bit_eq_iff using bit_imp_le_length [where ?'a = 64] by fastforce
  also have "\<dots> \<longleftrightarrow> (\<exists>n<64. bit (byte_dec False bs ! (n div 8)) (n mod 8) \<and> \<not> bit (bs ! (n div 8)) (n mod 8)
      \<and> bit (0x80 :: u8) (n mod 8))"
    using assms by (auto simp: highs bit_and_iff bit_not_iff bit_le_word less_mult_imp_div_less)
  also have "\<dots> \<longleftrightarrow> (\<exists>i<8. bit (byte_dec False bs ! i) 7 \<and> \<not> bit (bs ! i) 7)"
  proof -
    have b128: "bit (0x80 :: u8) k \<longleftrightarrow> k = 7" for k
      using bit_push_bit_iff [of 7 "1 :: u8" k] by (auto simp: bit_1_iff)
    show ?thesis
    proof (intro iffI; elim exE conjE)
      fix n assume n: "n < 64" "bit (byte_dec False bs ! (n div 8)) (n mod 8)"
        "\<not> bit (bs ! (n div 8)) (n mod 8)" "bit (0x80 :: u8) (n mod 8)"
      then have "n mod 8 = 7" using b128 by blast
      with n show "\<exists>i<8. bit (byte_dec False bs ! i) 7 \<and> \<not> bit (bs ! i) 7"
        by (intro exI [of _ "n div 8"]) (simp add: less_mult_imp_div_less)
    next
      fix i :: nat assume "i < 8" "bit (byte_dec False bs ! i) 7" "\<not> bit (bs ! i) 7"
      moreover have "bit (0x80 :: u8) 7" using b128 by blast
      ultimately show "\<exists>n<64. bit (byte_dec False bs ! (n div 8)) (n mod 8) \<and>
          \<not> bit (bs ! (n div 8)) (n mod 8) \<and> bit (0x80 :: u8) (n mod 8)"
        by (intro exI [of _ "8 * i + 7"]) simp
    qed
  qed
  also have "\<dots> \<longleftrightarrow> 0 \<in> set bs" using byte_dec_high [of bs] assms by simp
  finally show ?thesis .
qed

lemma le_word_XOR_ONES:
  assumes "length bs = 8"
  shows "(le_word bs XOR ONES * ucast c :: u64) = le_word (map (\<lambda>b. b XOR c) bs)"
proof -
  have "(ONES * ucast c :: u64) = le_word (replicate 8 c)"
    unfolding le_word_replicate by (rule mult.commute)
  then show ?thesis
    using assms by (intro bit_word_eqI) (auto simp: bit_xor_iff bit_le_word less_mult_imp_div_less)
qed

section \<open>Searching for characters\<close>

lemma strchr_cstr:
  "cstr m s xs \<Longrightarrow> libmin_strchr m s c =
     Some (if c \<in> set xs \<or> c = 0 then s + length (takeWhile (\<lambda>x. x \<noteq> c) xs) else NULL)"
  by (induction xs arbitrary: s) (subst libmin_strchr.simps, auto)+

lemma strrchr_loop_cstr:
  "cstr m s xs \<Longrightarrow> strrchr_loop m s c r =
     Some (if \<exists>y\<in>set (xs @ [0]). uint y = c
           then s + length xs - length (takeWhile (\<lambda>x. uint x \<noteq> c) (rev (xs @ [0]))) else r)"
proof (induction xs arbitrary: s r)
  case Nil
  then show ?case by (subst strrchr_loop.simps) auto
next
  case (Cons x xs)
  have "strrchr_loop m (Suc s) c r' = Some (if \<exists>y\<in>set (xs @ [0]). uint y = c
      then Suc s + length xs - length (takeWhile (\<lambda>x. uint x \<noteq> c) (rev (xs @ [0]))) else r')" for r'
    using Cons.prems by (intro Cons.IH) simp
  moreover have "takeWhile (\<lambda>x. uint x \<noteq> c) (rev (xs @ [0]) @ [x]) = (if \<exists>y\<in>set (xs @ [0]). uint y = c
      then takeWhile (\<lambda>x. uint x \<noteq> c) (rev (xs @ [0]))
      else rev (xs @ [0]) @ takeWhile (\<lambda>x. uint x \<noteq> c) [x])"
    by (auto simp: takeWhile_append)
  ultimately show ?case using Cons.prems
    by (subst strrchr_loop.simps) auto
qed

lemma bitop_test_iff: "bitop_test bs x \<noteq> 0 \<longleftrightarrow> bit (bs ! (unat x div 64)) (unat x mod 64)"
  by (simp add: bitop_test_def and_exp_eq_0_iff_not_bit)

lemma byte_index: "unat (x :: u8) div 64 < 4"
  using unsigned_less [of x, where ?'a = nat] by (simp add: less_mult_imp_div_less)

lemma bitop_set_test:
  assumes "length bs = 4"
  shows "bitop_test (bitop_set bs b) x \<noteq> 0 \<longleftrightarrow> x = b \<or> bitop_test bs x \<noteq> 0"
proof -
  have "x = b \<longleftrightarrow> unat x div 64 = unat b div 64 \<and> unat x mod 64 = unat b mod 64"
    by (metis div_mod_decomp word_unat_eq_iff)
  then show ?thesis
    using assms byte_index [of b] unfolding bitop_test_iff
    by (auto simp: bitop_set_def nth_list_update bit_or_iff bit_exp_iff)
qed

lemma bitop_set_nonzero:
  assumes "length bs = 4" shows "bitop_set bs x ! (unat x div 64) \<noteq> 0"
  using bitop_set_test [OF assms, of x x] by (auto simp: bitop_test_def)

lemma byteset_fill_cstr:
  "cstr m c cs \<Longrightarrow> length bs = 4 \<Longrightarrow>
   \<exists>bs'. byteset_fill m c bs = Some bs' \<and> length bs' = 4 \<and>
     (\<forall>x. bitop_test bs' x \<noteq> 0 \<longleftrightarrow> x \<in> set cs \<or> bitop_test bs x \<noteq> 0)"
proof (induction cs arbitrary: c bs)
  case Nil
  then show ?case by (subst byteset_fill.simps) auto
next
  case (Cons x cs)
  have len: "length (bitop_set bs x) = 4" using Cons.prems by (simp add: bitop_set_def)
  with Cons.IH [of "Suc c" "bitop_set bs x"] Cons.prems obtain bs' where
    "byteset_fill m (Suc c) (bitop_set bs x) = Some bs'" "length bs' = 4"
    "\<forall>y. bitop_test bs' y \<noteq> 0 \<longleftrightarrow> y \<in> set cs \<or> bitop_test (bitop_set bs x) y \<noteq> 0"
    by auto
  with Cons.prems bitop_set_test [of bs x] bitop_set_nonzero [of bs x] show ?case
    by (subst byteset_fill.simps) (auto simp: Let_def)
qed

lemma bitop_test_empty: "bitop_test (replicate 4 0) x = 0"
  using byte_index [of x] by (simp add: bitop_test_def)

lemma strspn_set_cstr:
  "cstr m s xs \<Longrightarrow>
   strspn_set m s bs = Some (s + length (takeWhile (\<lambda>x. bitop_test bs x \<noteq> 0) xs))"
  by (induction xs arbitrary: s) (subst strspn_set.simps, auto)+

lemma strcspn_set_cstr:
  "cstr m s xs \<Longrightarrow>
   strcspn_set m s bs = Some (s + length (takeWhile (\<lambda>x. bitop_test bs x = 0) xs))"
  by (induction xs arbitrary: s) (subst strcspn_set.simps, auto)+

lemma strspn_same_cstr:
  "cstr m s xs \<Longrightarrow> c \<noteq> 0 \<Longrightarrow> strspn_same m s c = Some (s + length (takeWhile (\<lambda>x. x = c) xs))"
  by (induction xs arbitrary: s) (subst strspn_same.simps, auto)+

lemma cstr_cases3:
  assumes "cstr m c cs"
  obtains "cs = []" "ld m c = Some 0"
  | c0 where "cs = [c0]" "ld m c = Some c0" "c0 \<noteq> 0" "ld m (Suc c) = Some 0"
  | c0 c1 cs' where "cs = c0 # c1 # cs'" "ld m c = Some c0" "c0 \<noteq> 0" "ld m (Suc c) = Some c1" "c1 \<noteq> 0"
  using assms by (cases cs rule: remdups_adj.cases) auto

lemma strspn_cstr:
  assumes "cstr m s xs" "cstr m c cs"
  shows "libmin_strspn m s c = Some (length (takeWhile (\<lambda>x. x \<in> set cs) xs))"
  using assms(2)
proof (cases rule: cstr_cases3)
  case 1
  then show ?thesis by (cases xs) (simp_all add: libmin_strspn_def)
next
  case (2 c0)
  then show ?thesis using strspn_same_cstr [OF assms(1), of c0] by (simp add: libmin_strspn_def)
next
  case (3 c0 c1 cs')
  obtain bs where "byteset_fill m c (replicate 4 0) = Some bs"
    and "\<And>x. bitop_test bs x \<noteq> 0 \<longleftrightarrow> x \<in> set cs"
    using byteset_fill_cstr [OF assms(2), of "replicate 4 0"] by (auto simp: bitop_test_empty)
  then show ?thesis
    using strspn_set_cstr [OF assms(1), of bs] 3(2-5) by (simp add: libmin_strspn_def)
qed

subsection \<open>The word-wise scan of strcspn\<close>

lemma strchrnul_tail_cstr:
  "cstr m s xs \<Longrightarrow> strchrnul_tail m s c = Some (s + length (takeWhile (\<lambda>x. x \<noteq> c) xs))"
  by (induction xs arbitrary: s) (subst strchrnul_tail.simps, auto)+

lemma cstr_drop: "cstr m a xs \<Longrightarrow> k \<le> length xs \<Longrightarrow> cstr m (a + k) (drop k xs)"
  using cstr_append [of m a "take k xs" "drop k xs"] by simp

lemma word_without_zero:
  assumes c: "cstr m w xs" and x: "ld_word 8 m w = Some x" and z: "\<not> HASZERO x" "\<not> HASZERO (x XOR ONES * ucast c)"
  shows "8 \<le> length (takeWhile (\<lambda>b. b \<noteq> c) xs)"
proof -
  define bs where "bs = take 8 (drop w m)"
  have len: "length bs = 8" and xb: "x = le_word bs" and b: "w + 8 \<le> length m"
    using x by (auto simp: ld_word_def ld_bytes_def bs_def split: if_splits)
  have n0: "0 \<notin> set bs" using z(1) HASZERO_le_word [OF len] xb by simp
  have nc: "c \<notin> set bs"
  proof -
    have "0 \<notin> set (map (\<lambda>b. b XOR c) bs)"
      using z(2) HASZERO_le_word [of "map (\<lambda>b. b XOR c) bs"] len by (simp add: xb le_word_XOR_ONES)
    then show ?thesis by (auto simp: image_iff)
  qed
  have nth: "bs ! i = m ! (w + i)" if "i < 8" for i using that b by (simp add: bs_def)
  have "8 \<le> length xs"
  proof (rule ccontr)
    assume "\<not> 8 \<le> length xs"
    then have "bs ! length xs = 0"
      using nth [of "length xs"] cstr_ld [OF c, of "length xs"] by (simp add: ld_eq_Some nth_append)
    with n0 len \<open>\<not> 8 \<le> length xs\<close> show False by (metis not_le nth_mem)
  qed
  then have "xs ! i \<noteq> c" if "i < 8" for i
  proof -
    have "bs ! i = xs ! i"
      using nth [OF that] cstr_ld [OF c, of i] that \<open>8 \<le> length xs\<close> by (simp add: ld_eq_Some nth_append)
    then show ?thesis using nc nth_mem [of i bs] that len by auto
  qed
  with \<open>8 \<le> length xs\<close> show ?thesis by (intro length_takeWhile_less_P_nth)
qed

lemma drop_takeWhile_length:
  "k \<le> length (takeWhile P xs) \<Longrightarrow>
   k + length (takeWhile P (drop k xs)) = length (takeWhile P xs)"
proof (induction xs arbitrary: k)
  case (Cons x xs)
  then show ?case by (cases k) (auto split: if_splits)
qed simp

lemma strchrnul_words_cstr:
  assumes "cstr m w xs" "w mod 8 = 0" "length m mod 8 = 0"
  shows "\<exists>k. strchrnul_words m w (ONES * ucast c) = Some (w + k) \<and>
     k \<le> length (takeWhile (\<lambda>x. x \<noteq> c) xs)"
  using assms
proof (induction xs arbitrary: w rule: length_induct)
  case (1 xs)
  have "w < length m" using cstr_bound [OF 1(2)] by simp
  then have "w + 8 \<le> length m" using 1(3,4) by presburger
  then obtain x :: u64 where x: "ld_word 8 m w = Some x" by (metis ld_word_Some)
  show ?case
  proof (cases "\<not> HASZERO x \<and> \<not> HASZERO (x XOR ONES * ucast c)")
    case True
    then have n: "8 \<le> length (takeWhile (\<lambda>b. b \<noteq> c) xs)"
      using word_without_zero [OF 1(2) x] by blast
    then have "8 \<le> length xs" by (meson le_trans length_takeWhile_le)
    then have "\<exists>k. strchrnul_words m (w + 8) (ONES * ucast c) = Some (w + 8 + k) \<and>
        k \<le> length (takeWhile (\<lambda>x. x \<noteq> c) (drop 8 xs))"
      using 1 cstr_drop [OF 1(2), of 8] by (intro 1(1) [rule_format]) simp_all
    then obtain k where k: "strchrnul_words m (w + 8) (ONES * ucast c) = Some (w + 8 + k)"
        "k \<le> length (takeWhile (\<lambda>x. x \<noteq> c) (drop 8 xs))" by blast
    with x True drop_takeWhile_length [OF n] show ?thesis
      by (subst strchrnul_words.simps) (intro exI [of _ "8 + k"], simp)
  next
    case False
    with x show ?thesis by (subst strchrnul_words.simps) (intro exI [of _ 0], auto)
  qed
qed

lemma strchrnul_align_cstr:
  assumes "cstr m s xs" "length m mod 8 = 0" "c \<noteq> 0"
  shows "strchrnul_align m s c = Some (s + length (takeWhile (\<lambda>x. x \<noteq> c) xs))"
  using assms(1)
proof (induction xs arbitrary: s)
  case Nil
  show ?case
  proof (cases "s mod 8 = 0")
    case True
    then obtain k where "strchrnul_words m s (ONES * ucast c) = Some (s + k)" "k = 0"
      using strchrnul_words_cstr [OF Nil, of c] assms(2) by auto
    with True Nil strchrnul_tail_cstr [OF Nil, of c] show ?thesis
      by (subst strchrnul_align.simps) simp
  next
    case False
    with Nil show ?thesis by (subst strchrnul_align.simps) simp
  qed
next
  case (Cons x xs)
  show ?case
  proof (cases "s mod 8 = 0")
    case True
    then obtain k where k: "strchrnul_words m s (ONES * ucast c) = Some (s + k)"
      "k \<le> length (takeWhile (\<lambda>y. y \<noteq> c) (x # xs))"
      using strchrnul_words_cstr [OF Cons.prems, of c] assms(2) by auto
    then have "cstr m (s + k) (drop k (x # xs))"
      using cstr_drop [OF Cons.prems, of k] by (meson le_trans length_takeWhile_le)
    from strchrnul_tail_cstr [OF this, of c] drop_takeWhile_length [OF k(2)] True k(1) show ?thesis
      by (subst strchrnul_align.simps) simp
  next
    case False
    with Cons show ?thesis by (subst strchrnul_align.simps) simp
  qed
qed

lemma strchrnul_cstr:
  assumes "cstr m s xs" "length m mod 8 = 0" "s \<noteq> NULL"
  shows "strchrnul m s c = Some (s + length (takeWhile (\<lambda>x. x \<noteq> c) xs))"
proof (cases "c = 0")
  case True
  have "0 \<notin> set xs" using assms(1) by (simp add: cstr_iff)
  then have "takeWhile (\<lambda>x. x \<noteq> 0) xs = xs" by (auto simp: takeWhile_eq_all_conv)
  then have l: "length (takeWhile (\<lambda>x. x \<noteq> 0) xs) = length xs" by (rule arg_cong)
  show ?thesis unfolding True l using assms by (simp add: strchrnul_def strlen_cstr)
next
  case False
  with assms show ?thesis by (simp add: strchrnul_def strchrnul_align_cstr)
qed

lemma strcspn_cstr:
  assumes "cstr m s xs" "cstr m c cs" "length m mod 8 = 0" "s \<noteq> NULL"
  shows "libmin_strcspn m s c = Some (length (takeWhile (\<lambda>x. x \<notin> set cs) xs))"
  using assms(2)
proof (cases rule: cstr_cases3)
  case 1
  have "0 \<notin> set xs" using assms(1) by (simp add: cstr_iff)
  then have "takeWhile (\<lambda>x. x \<noteq> 0) xs = takeWhile (\<lambda>x. x \<notin> set cs) xs"
    using 1 by (intro takeWhile_cong) auto
  with 1 strchrnul_cstr [OF assms(1,3,4), of 0] show ?thesis by (simp add: libmin_strcspn_def)
next
  case (2 c0)
  then show ?thesis using strchrnul_cstr [OF assms(1,3,4), of c0] by (simp add: libmin_strcspn_def)
next
  case (3 c0 c1 cs')
  obtain bs where "byteset_fill m c (replicate 4 0) = Some bs"
    and "\<And>x. bitop_test bs x \<noteq> 0 \<longleftrightarrow> x \<in> set cs"
    using byteset_fill_cstr [OF assms(2), of "replicate 4 0"] by (auto simp: bitop_test_empty)
  moreover from this(2) have "bitop_test bs x = 0 \<longleftrightarrow> x \<notin> set cs" for x by blast
  ultimately show ?thesis
    using strcspn_set_cstr [OF assms(1), of bs] 3(2-5) by (simp add: libmin_strcspn_def)
qed

lemma strpbrk_cstr:
  assumes "cstr m s xs" "cstr m b cs" "length m mod 8 = 0" "s \<noteq> NULL"
  shows "libmin_strpbrk m s b = Some (if set xs \<inter> set cs = {} then NULL
     else s + length (takeWhile (\<lambda>x. x \<notin> set cs) xs))"
proof -
  let ?n = "length (takeWhile (\<lambda>x. x \<notin> set cs) xs)"
  have "?n \<le> length xs" by (rule length_takeWhile_le)
  then have l: "ld m (s + ?n) = Some ((xs @ [0]) ! ?n)" by (rule cstr_ld [OF assms(1)])
  have "0 \<notin> set xs" using assms(1) by (simp add: cstr_iff)
  moreover have "?n < length xs \<longleftrightarrow> set xs \<inter> set cs \<noteq> {}"
    by (metis (no_types, lifting) disjoint_iff length_takeWhile_le nat_less_le takeWhile_eq_all_conv
        takeWhile_eq_take take_all_iff)
  moreover have "(xs @ [0]) ! ?n \<noteq> 0 \<longleftrightarrow> ?n < length xs"
  proof (cases "?n < length xs")
    case True
    with \<open>0 \<notin> set xs\<close> nth_mem [OF True] show ?thesis by (metis nth_append)
  next
    case False
    with \<open>?n \<le> length xs\<close> have "?n = length xs" by simp
    then show ?thesis by (metis nth_append_length less_irrefl)
  qed
  ultimately have "(xs @ [0]) ! ?n \<noteq> 0 \<longleftrightarrow> set xs \<inter> set cs \<noteq> {}" by blast
  then show ?thesis using l by (simp add: libmin_strpbrk_def strcspn_cstr [OF assms])
qed

end
