(* ===== verification/Libmin_Str_Props.thy ===== *)
theory Libmin_Str_Props
  imports Libmin_Str_Proofs
begin

text \<open>
  Substring search and tokenising: the loops of strstr and strcasestr, the tokens of strtok
  over successive calls, and the properties of the string routines.
\<close>

section \<open>Substring search\<close>

fun find_sub :: "'a list \<Rightarrow> 'a list \<Rightarrow> nat option" where
  "find_sub ys [] = (if ys = [] then Some 0 else None)"
| "find_sub ys (x # xs) = (if prefix ys (x # xs) then Some 0 else map_option Suc (find_sub ys xs))"

lemma find_sub_Some:
  "find_sub ys xs = Some i \<longleftrightarrow>
     i \<le> length xs \<and> prefix ys (drop i xs) \<and> (\<forall>j<i. \<not> prefix ys (drop j xs))"
proof (induction xs arbitrary: i)
  case (Cons x xs)
  then show ?case by (cases i) (auto simp: All_less_Suc2)
qed auto

lemma find_sub_None: "find_sub ys xs = None \<longleftrightarrow> \<not> sublist ys xs"
proof (induction xs)
  case Nil
  then show ?case by auto
next
  case (Cons x xs)
  then show ?case by (simp add: sublist_Cons_right)
qed

lemma find_sub_skip:
  "find_sub (c # ys) xs = map_option ((+) (length (takeWhile (\<lambda>x. x \<noteq> c) xs)))
     (find_sub (c # ys) (dropWhile (\<lambda>x. x \<noteq> c) xs))"
  by (induction xs) (auto simp: option.map_comp comp_def map_option.identity cong: map_option_cong)

lemma prefix_take: "prefix ys xs \<longleftrightarrow> take (length ys) xs = ys"
  by (metis append_eq_conv_conj prefix_def take_is_prefix)

lemma strstr_loop_cstr:
  assumes "cstr m p xs" "cstr m s2 (c # ys)" "p \<noteq> NULL"
  shows "strstr_loop m p s2 (Suc (length ys)) c =
    Some (case find_sub (c # ys) xs of None \<Rightarrow> NULL | Some i \<Rightarrow> p + i)"
  using assms(1,3)
proof (induction xs arbitrary: p rule: length_induct)
  case (1 xs)
  let ?n = "length (takeWhile (\<lambda>x. x \<noteq> c) xs)"
  have c: "c \<noteq> 0" using assms(2) by simp
  show ?case
  proof (cases "c \<in> set xs")
    case False
    then have "find_sub (c # ys) xs = None"
      unfolding find_sub_None by (auto dest: set_mono_sublist)
    with False c strchr_cstr [OF 1(2), of c] show ?thesis
      by (subst strstr_loop.simps) (simp add: NULL_def)
  next
    case True
    then obtain zs where zs: "dropWhile (\<lambda>x. x \<noteq> c) xs = c # zs"
      by (metis (mono_tags, lifting) dropWhile_eq_Nil_conv hd_dropWhile list.exhaust_sel)
    then have n: "?n < length xs" and dr: "drop ?n xs = c # zs"
      by (metis dropWhile_eq_drop dropWhile_eq_Nil_conv list.distinct(1) drop_all not_le)+
    have q: "cstr m (p + ?n) (c # zs)" using cstr_drop [OF 1(2), of ?n] n dr by simp
    obtain v where v: "libmin_strncmp m (p + ?n) s2 (Suc (length ys)) = Some v"
      "v = 0 \<longleftrightarrow> prefix (c # ys) (c # zs)"
      using strncmp_cstr [OF q assms(2), of "Suc (length ys)"] prefix_take [of "c # ys" "c # zs"]
      by (auto simp: cmp_result_def)
    have chr: "libmin_strchr m p c = Some (p + ?n)" "p + ?n \<noteq> NULL"
      using strchr_cstr [OF 1(2), of c] True 1(3) by (auto simp: NULL_def)
    have fs: "find_sub (c # ys) xs = map_option ((+) ?n) (find_sub (c # ys) (c # zs))"
      using find_sub_skip [of c ys xs] zs by simp
    show ?thesis
    proof (cases "prefix (c # ys) (c # zs)")
      case True
      with v chr fs show ?thesis by (subst strstr_loop.simps) simp
    next
      case False
      have "length (drop ?n xs) = Suc (length zs)" using dr by simp
      then have "length zs < length xs" using n by simp
      then have IH: "strstr_loop m (p + ?n + 1) s2 (Suc (length ys)) c =
        Some (case find_sub (c # ys) zs of None \<Rightarrow> NULL | Some i \<Rightarrow> p + ?n + 1 + i)"
        using q 1(3) by (intro 1(1) [rule_format]) (simp_all add: NULL_def)
      have "strstr_loop m p s2 (Suc (length ys)) c = strstr_loop m (p + ?n + 1) s2 (Suc (length ys)) c"
        unfolding strstr_loop.simps [of m p] using v chr False by simp
      moreover have "find_sub (c # ys) xs = map_option (\<lambda>i. ?n + Suc i) (find_sub (c # ys) zs)"
        using fs False by (simp add: option.map_comp comp_def)
      ultimately show ?thesis unfolding IH by (cases "find_sub (c # ys) zs") simp_all
    qed
  qed
qed

lemma strstr_cstr:
  assumes "cstr m s1 xs" "cstr m s2 ys" "s1 \<noteq> NULL" "s2 \<noteq> NULL"
  shows "libmin_strstr m s1 s2 = Some (case find_sub ys xs of None \<Rightarrow> NULL | Some i \<Rightarrow> s1 + i)"
proof (cases ys)
  case Nil
  then have "find_sub ys xs = Some 0" by (simp add: find_sub_Some)
  with Nil strlen_cstr [OF assms(2,4)] show ?thesis by (simp add: libmin_strstr_def)
next
  case (Cons c ys')
  with assms strstr_loop_cstr [OF assms(1), of s2 c ys'] strlen_cstr [OF assms(2,4)] show ?thesis
    by (simp add: libmin_strstr_def)
qed

section \<open>Tokens\<close>

function tokens :: "('a \<Rightarrow> bool) \<Rightarrow> 'a list \<Rightarrow> 'a list list" where
  "tokens P xs = (case dropWhile P xs of [] \<Rightarrow> []
     | y # ys \<Rightarrow> (y # takeWhile (\<lambda>x. \<not> P x) ys) # tokens P (dropWhile (\<lambda>x. \<not> P x) ys))"
  by auto
termination
proof (relation "measure (\<lambda>(P, xs). length xs)", simp)
  fix P :: "'a \<Rightarrow> bool" and xs y ys assume "dropWhile P xs = y # ys"
  then have "length ys < length xs" using length_dropWhile_le [of P xs] by simp
  moreover have "length (dropWhile (\<lambda>x. \<not> P x) ys) \<le> length ys" by (rule length_dropWhile_le)
  ultimately show "((P, dropWhile (\<lambda>x. \<not> P x) ys), P, xs) \<in> measure (\<lambda>(P, xs). length xs)" by simp
qed

text \<open>The callers' loop \<open>for (t = strtok(s, sep); t; t = strtok(NULL, sep))\<close>.\<close>

fun strtok_run :: "nat \<Rightarrow> nat \<Rightarrow> nat \<Rightarrow> mem \<times> nat \<Rightarrow> ((mem \<times> nat) \<times> nat list) option" where
  "strtok_run 0 s sep w = None"
| "strtok_run (Suc fuel) s sep w =
     do {
       (w', t) \<leftarrow> libmin_strtok s sep w;
       if t = NULL then Some (w', []) else do {
       (w'', ts) \<leftarrow> strtok_run fuel NULL sep w';
       Some (w'', t # ts) }
     }"

lemma strtok_cstr:
  assumes s: "cstr m s xs" "s \<noteq> NULL" and sep: "cstr m sep cs" and al: "length m mod 8 = 0"
    and x: "x = (if a = NULL then p else a)" "x = s"
    and P: "P = (\<lambda>c. c \<in> set cs)"
  shows "libmin_strtok a sep (m, p) = Some (case dropWhile P xs of [] \<Rightarrow> ((m, NULL), NULL)
    | y # ys \<Rightarrow>
       let t = s + length (takeWhile P xs); k = length (takeWhile (\<lambda>c. \<not> P c) (y # ys)) in
       if dropWhile (\<lambda>c. \<not> P c) (y # ys) = [] then ((m, NULL), t) else ((m[t + k := 0], t + k + 1), t))"
proof -
  let ?n = "length (takeWhile P xs)"
  have n: "libmin_strspn m s sep = Some ?n" using strspn_cstr [OF s(1) sep] P by simp
  have nl: "?n \<le> length xs" by (rule length_takeWhile_le)
  have t: "cstr m (s + ?n) (dropWhile P xs)"
    using cstr_drop [OF s(1) nl] by (simp add: dropWhile_eq_drop)
  have a: "(if a = NULL then p else a) = s" using x by simp
  show ?thesis
  proof (cases "dropWhile P xs")
    case Nil
    with t have "ld m (s + ?n) = Some 0" by simp
    with n a s(2) show ?thesis unfolding Nil by (simp add: libmin_strtok_def)
  next
    case (Cons y ys)
    let ?k = "length (takeWhile (\<lambda>c. \<not> P c) (y # ys))"
    have k: "libmin_strcspn m (s + ?n) sep = Some ?k"
      using strcspn_cstr [OF t sep al] s(2) Cons P by (simp add: NULL_def)
    have kl: "?k \<le> length (y # ys)" by (rule length_takeWhile_le)
    have r: "cstr m (s + ?n + ?k) (dropWhile (\<lambda>c. \<not> P c) (y # ys))"
      using cstr_drop [OF t, of ?k] kl unfolding Cons by (simp add: dropWhile_eq_drop del: takeWhile.simps dropWhile.simps)
    have y: "ld m (s + ?n) = Some y" "y \<noteq> 0" using t Cons by auto
    show ?thesis
    proof (cases "dropWhile (\<lambda>c. \<not> P c) (y # ys)")
      case Nil
      with r have "ld m (s + ?n + ?k) = Some 0" by simp
      with Nil Cons n k a y s(2) show ?thesis
        by (simp add: libmin_strtok_def Let_def del: takeWhile.simps dropWhile.simps)
    next
      case rest: (Cons z zs)
      with r have "ld m (s + ?n + ?k) = Some z" "z \<noteq> 0" by auto
      moreover from this have "s + ?n + ?k < length m" by (simp add: ld_eq_Some)
      ultimately show ?thesis using rest Cons n k a y s(2)
        by (simp add: libmin_strtok_def Let_def del: takeWhile.simps dropWhile.simps dropWhile_eq_Nil_conv)
    qed
  qed
qed

declare tokens.simps [simp del] strtok_run.simps(2) [simp del]

lemma tokens_Nil: "dropWhile P xs = [] \<Longrightarrow> tokens P xs = []"
  by (subst tokens.simps) (simp del: dropWhile_eq_Nil_conv)

lemma tokens_sep: "P z \<Longrightarrow> tokens P (z # zs) = tokens P zs"
  by (subst (1 2) tokens.simps) simp

lemma tokens_Cons:
  assumes "dropWhile P xs = y # ys"
  shows "tokens P xs = takeWhile (\<lambda>c. \<not> P c) (y # ys) # tokens P (dropWhile (\<lambda>c. \<not> P c) (y # ys))"
proof -
  have "\<not> P y" using assms by (metis hd_dropWhile list.distinct(1) list.sel(1))
  with assms show ?thesis by (subst tokens.simps) simp
qed

lemma length_dropWhile_split:
  "dropWhile P xs = ys \<Longrightarrow> length xs = length (takeWhile P xs) + length ys"
  by (metis length_append takeWhile_dropWhile_id)

lemma cstr_take_stop:
  assumes "cstr m a xs" "k \<le> length xs" "m' ! (a + k) = 0"
    "\<And>i. i < a + k \<Longrightarrow> m' ! i = m ! i" "length m' = length m"
  shows "cstr m' a (take k xs)"
proof -
  have "cstr m (a + length (take k xs)) (drop k xs)" and nz: "0 \<notin> set (take k xs)"
    and l: "\<And>i. i < k \<Longrightarrow> ld m (a + i) = Some (xs ! i)"
    using assms(1,2) cstr_append [of m a "take k xs" "drop k xs"] by auto
  then have "a + k < length m'" using assms(2,5) cstr_bound by fastforce
  have "ld m' (a + i) = Some (take k xs ! i)" if "i < length (take k xs)" for i
    using l [of i] that assms(4) [of "a + i"] assms(5) by (simp add: ld_eq_Some)
  then show ?thesis
    using nz cstr_append [of m' a "take k xs" "[]"] assms(2,3) \<open>a + k < length m'\<close> by (simp add: ld_eq_Some)
qed

lemma strtok_run_tokens:
  assumes "cstr m s xs" "s \<noteq> NULL" "cstr m sep cs" "length m mod 8 = 0"
    and "sep + length cs < s \<or> s + length xs < sep" "length xs < fuel"
    and "s = (if a = NULL then p else a)" and P: "P = (\<lambda>c. c \<in> set cs)"
  shows "\<exists>m' ts. strtok_run fuel a sep (m, p) = Some ((m', NULL), ts) \<and>
    list_all2 (cstr m') ts (tokens P xs) \<and> length m' = length m \<and>
    (\<forall>i. i < s \<or> s + length xs \<le> i \<longrightarrow> m' ! i = m ! i)"
  using assms(1-7)
proof (induction fuel arbitrary: m s xs a p)
  case 0
  then show ?case by simp
next
  case (Suc fuel)
  note tok = strtok_cstr [OF Suc.prems(1-4) Suc.prems(7) refl P]
  show ?case
  proof (cases "dropWhile P xs")
    case Nil
    then have "libmin_strtok a sep (m, p) = Some ((m, NULL), NULL)"
      using tok by (simp del: dropWhile_eq_Nil_conv)
    with tokens_Nil [OF Nil] show ?thesis by (simp add: strtok_run.simps)
  next
    case (Cons y ys)
    define n where "n = length (takeWhile P xs)"
    define k where "k = length (takeWhile (\<lambda>c. \<not> P c) (y # ys))"
    have lxs: "length xs = n + length (y # ys)" using length_dropWhile_split [OF Cons] by (simp add: n_def)
    have t: "cstr m (s + n) (y # ys)"
      using cstr_drop [OF Suc.prems(1), of n] lxs Cons by (simp add: n_def dropWhile_eq_drop)
    have tk: "takeWhile (\<lambda>c. \<not> P c) (y # ys) = take k (y # ys)"
      unfolding k_def by (rule takeWhile_eq_take)
    show ?thesis
    proof (cases "dropWhile (\<lambda>c. \<not> P c) (y # ys)")
      case Nil
      then have "libmin_strtok a sep (m, p) = Some ((m, NULL), s + n)"
        using tok Cons by (simp add: Let_def n_def)
      moreover obtain f where "fuel = Suc f" using Suc.prems(6) lxs by (cases fuel) auto
      moreover have "libmin_strtok NULL sep (m, NULL) = Some ((m, NULL), NULL)"
        by (simp add: libmin_strtok_def)
      moreover have "tokens P xs = [y # ys]"
        unfolding tokens_Cons [OF Cons] Nil using Nil
        by (metis append_Nil2 takeWhile_dropWhile_id tokens_Nil dropWhile.simps(1))
      ultimately show ?thesis using t Suc.prems(2) by (simp add: strtok_run.simps NULL_def)
    next
      case rest: (Cons z zs)
      define m1 where "m1 = m[s + n + k := 0]"
      have lys: "length (y # ys) = k + Suc (length zs)"
        using length_dropWhile_split [OF rest] by (simp add: k_def)
      have "libmin_strtok a sep (m, p) = Some ((m1, s + n + k + 1), s + n)"
        using tok Cons rest by (simp add: Let_def n_def k_def m1_def del: dropWhile_eq_Nil_conv
            takeWhile.simps dropWhile.simps)
      moreover
      have "cstr m (s + n + k) (z # zs)"
        using cstr_drop [OF t, of k] lys rest by (simp add: k_def dropWhile_eq_drop)
      then have z: "cstr m1 (s + n + k + 1) zs" and b: "s + n + k < length m"
        by (auto simp: m1_def ld_eq_Some)
      have sep1: "cstr m1 sep cs"
        unfolding m1_def using Suc.prems(3,5) lxs lys by (subst cstr_update) auto
      have "\<exists>m' ts. strtok_run fuel NULL sep (m1, s + n + k + 1) = Some ((m', NULL), ts) \<and>
        list_all2 (cstr m') ts (tokens P zs) \<and> length m' = length m1 \<and>
        (\<forall>i. i < s + n + k + 1 \<or> s + n + k + 1 + length zs \<le> i \<longrightarrow> m' ! i = m1 ! i)"
        by (rule Suc.IH [OF z _ sep1])
          (use Suc.prems(4-6) lxs lys in \<open>auto simp: NULL_def m1_def\<close>)
      then obtain m' ts where IH: "strtok_run fuel NULL sep (m1, s + n + k + 1) = Some ((m', NULL), ts)"
        "list_all2 (cstr m') ts (tokens P zs)" "length m' = length m1"
        "\<And>i. i < s + n + k + 1 \<or> s + n + k + 1 + length zs \<le> i \<Longrightarrow> m' ! i = m1 ! i"
        by blast
      moreover have "cstr m' (s + n) (take k (y # ys))"
        using IH(3,4) b lys by (intro cstr_take_stop [OF t]) (auto simp: m1_def)
      moreover have "tokens P xs = take k (y # ys) # tokens P zs"
      proof -
        have "P z" using rest by (metis hd_dropWhile list.distinct(1) list.sel(1))
        then show ?thesis using tokens_Cons [OF Cons] rest tk by (simp add: tokens_sep)
      qed
      moreover have "m' ! i = m ! i" if "i < s \<or> s + length xs \<le> i" for i
        using IH(4) [of i] that lxs lys by (auto simp: m1_def)
      ultimately show ?thesis
        using Suc.prems(2) by (subst strtok_run.simps) (simp add: NULL_def m1_def)
    qed
  qed
qed

section \<open>Properties\<close>

text \<open>
  With room behind the destination and a source apart from it, strcat appends the source
  string to the destination string and strncat appends its first n characters; both end the
  result with a NUL, return the destination and leave the source as it was.
\<close>

lemma strcat_appends:
  assumes "cstr m dest xs" and "cstr m src ys" and "dest \<noteq> NULL"
    and "dest + length xs + length ys < length m"
    and "src + length ys < dest \<or> dest + length xs + n < src \<and> dest + length xs + length ys < src"
  shows "(\<exists>m'. libmin_strcat dest src m = Some (m', dest) \<and> length m' = length m \<and>
           cstr m' dest (xs @ ys) \<and> cstr m' src ys) \<and>
         (\<exists>m'. libmin_strncat dest src n m = Some (m', dest) \<and> length m' = length m \<and>
           cstr m' dest (xs @ take n ys) \<and> cstr m' src ys)"
proof
  let ?d = "dest + length xs"
  have nz: "0 \<notin> set xs" "0 \<notin> set ys" using assms(1,2) by (auto simp: cstr_iff)
  have pre: "\<forall>i<length xs. ld m (dest + i) = Some (xs ! i)"
    using cstr_append [of m dest xs "[]"] assms(1) by simp
  have len: "libmin_strlen m dest = Some (length xs)" using assms(1,3) by (rule strlen_cstr)
  obtain m1 where m1: "st_bytes m ?d (ys @ [0]) = Some m1"
    using st_bytes_Some [of ?d "ys @ [0]" m] assms(4) by auto
  have "strcpy_loop ?d src m = Some m1"
    using strcpy_loop_cstr [OF assms(2), of ?d] assms(4,5) m1 by auto
  moreover have "cstr m1 dest (xs @ ys)" using cstr_st_bytes [OF m1 pre nz] .
  moreover have "cstr m1 src ys"
    using cstr_st_bytes_other [OF m1, of src ys] assms(2,5) by auto
  ultimately show "\<exists>m'. libmin_strcat dest src m = Some (m', dest) \<and> length m' = length m \<and>
      cstr m' dest (xs @ ys) \<and> cstr m' src ys"
    using len st_bytes_length [OF m1] by (simp add: libmin_strcat_def libmin_strcpy_def)
  let ?ys = "take n ys"
  have b: "?d + length ?ys < length m" using assms(4) by auto
  then obtain m2 where m2: "st_bytes m ?d ?ys = Some m2"
    using st_bytes_Some [of ?d ?ys m] by auto
  have l2: "length m2 = length m" using m2 by (rule st_bytes_length)
  let ?m3 = "m2[?d + length ?ys := 0]"
  have m3: "st_bytes m ?d (?ys @ [0]) = Some ?m3"
    using m2 b unfolding st_bytes_iff by (auto simp: nth_append nth_list_update)
  have "strncat_loop ?d src n m = Some (m2, ?d + length ?ys)"
    using strncat_loop_cstr [OF assms(2) b] assms(5) m2 by auto
  then have "libmin_strncat dest src n m = Some (?m3, dest)"
    using len b l2 by (simp add: libmin_strncat_def)
  moreover have "0 \<notin> set ?ys" using nz(2) by (auto dest: in_set_takeD)
  then have "cstr ?m3 dest (xs @ ?ys)" using cstr_st_bytes [OF m3 pre nz(1)] by simp
  moreover have "src + length ys < ?d \<or> ?d + length (?ys @ [0]) \<le> src" using assms(5) by auto
  then have "cstr ?m3 src ys"
    using cstr_st_bytes_other [OF m3] assms(2) by blast
  ultimately show "\<exists>m'. libmin_strncat dest src n m = Some (m', dest) \<and> length m' = length m \<and>
      cstr m' dest (xs @ ?ys) \<and> cstr m' src ys"
    using l2 by auto
qed

text \<open>
  Strncpy always writes exactly n bytes at the destination, the first n characters of the
  source padded with NULs; so the copy is a string exactly when the source is shorter than n.
\<close>

lemma strncpy_pads:
  assumes "cstr m src xs" and "dst + n \<le> length m" and "dst + n \<le> src \<or> src + length xs < dst"
  shows "libmin_strncpy dst src n m =
      Some (take dst m @ take n (xs @ replicate n 0) @ drop (dst + n) m, dst)
    \<and> (0 \<in> set (take n (xs @ replicate n 0)) \<longleftrightarrow> length xs < n)"
proof
  have "length (take n (xs @ replicate n (0 :: u8))) = n" by simp
  then show "libmin_strncpy dst src n m =
      Some (take dst m @ take n (xs @ replicate n 0) @ drop (dst + n) m, dst)"
    using strncpy_loop_cstr [OF assms] assms(2) by (simp add: libmin_strncpy_def st_bytes_def)
  have "0 \<notin> set xs" using assms(1) by (simp add: cstr_iff)
  then show "0 \<in> set (take n (xs @ replicate n 0)) \<longleftrightarrow> length xs < n"
    by (auto dest: in_set_takeD)
qed

text \<open>
  Strcmp is zero exactly for equal strings and negative exactly when the first is
  lexicographically smaller as unsigned characters; strncmp says the same of the first n
  characters.
\<close>

lemma strings_compare:
  assumes "cstr m l xs" and "cstr m r ys"
  shows "(\<exists>v. libmin_strcmp m l r = Some v \<and> (v = 0 \<longleftrightarrow> xs = ys) \<and>
            (v < 0 \<longleftrightarrow> ord_class.lexordp xs ys)) \<and>
         (\<exists>v. libmin_strncmp m l r n = Some v \<and> (v = 0 \<longleftrightarrow> take n xs = take n ys) \<and>
            (v < 0 \<longleftrightarrow> ord_class.lexordp (take n xs) (take n ys)))"
  using strcmp_cstr [OF assms] strncmp_cstr [OF assms, of n] by (simp add: cmp_result_def)

text \<open>
  C22: strspn is the length of the longest prefix of characters from the set and strcspn of the
  longest prefix of characters outside it; the bit set and the word-at-a-time scan, which
  reads whole aligned words past the end of the string, agree with this definition; strpbrk
  returns the first character of the set or the null pointer.
\<close>

theorem set_scans:
  assumes "cstr m s xs" and "cstr m c cs" and "s \<noteq> NULL" and "length m mod 8 = 0"
  shows "libmin_strspn m s c = Some (length (takeWhile (\<lambda>x. x \<in> set cs) xs)) \<and>
    libmin_strcspn m s c = Some (length (takeWhile (\<lambda>x. x \<notin> set cs) xs)) \<and>
    libmin_strpbrk m s c = Some (if set xs \<inter> set cs = {} then NULL
       else s + length (takeWhile (\<lambda>x. x \<notin> set cs) xs))"
  using strspn_cstr [OF assms(1,2)] strcspn_cstr [OF assms(1,2,4,3)] strpbrk_cstr [OF assms(1,2,4,3)]
  by blast

theorem set_scans_witness:
  "libmin_strspn [0, 97, 97, 98, 0, 98, 0, 0] 1 5 = Some 0 \<and>
   libmin_strcspn [0, 97, 97, 98, 0, 98, 0, 0] 1 5 = Some 2 \<and>
   libmin_strpbrk [0, 97, 97, 98, 0, 98, 0, 0] 1 5 = Some 3"
  using set_scans [of "[0, 97, 97, 98, 0, 98, 0, 0]" 1 "[97, 97, 98]" 5 "[98]"]
  by (simp add: NULL_def ld_def)

text \<open>
  Strstr returns the address of the first occurrence of the second string in the first,
  and the null pointer exactly when it does not occur.
\<close>

lemma strstr_finds:
  assumes "cstr m s1 xs" and "cstr m s2 ys" and "s1 \<noteq> NULL" and "s2 \<noteq> NULL"
  shows "\<exists>p. libmin_strstr m s1 s2 = Some p \<and> (p = NULL \<longleftrightarrow> \<not> sublist ys xs) \<and>
    (p \<noteq> NULL \<longrightarrow> s1 \<le> p \<and> prefix ys (drop (p - s1) xs) \<and>
       (\<forall>j < p - s1. \<not> prefix ys (drop j xs)))"
proof (cases "find_sub ys xs")
  case None
  with strstr_cstr [OF assms] find_sub_None [of ys xs] show ?thesis by simp
next
  case (Some i)
  then have "sublist ys xs" using find_sub_None [of ys xs] by simp
  with strstr_cstr [OF assms] Some find_sub_Some [of ys xs i] assms(3) show ?thesis
    by (simp add: NULL_def)
qed

text \<open>
  C18: calling strtok on a string and then with the null pointer until it returns null yields,
  in order, the addresses of exactly the maximal runs of non-separator characters, each a
  string of its own at the end, and the state is ready for the next string; the loop ends
  within one call per character, and nothing outside the string is written.
\<close>

theorem strtok_tokens:
  assumes "cstr m s xs" and "s \<noteq> NULL" and "cstr m sep cs" and "length m mod 8 = 0"
    and "sep + length cs < s \<or> s + length xs < sep" and "length xs < fuel"
  shows "\<exists>m' ts. strtok_run fuel s sep (m, p) = Some ((m', NULL), ts) \<and>
    list_all2 (cstr m') ts (tokens (\<lambda>c. c \<in> set cs) xs) \<and> length m' = length m \<and>
    (\<forall>i. i < s \<or> s + length xs \<le> i \<longrightarrow> m' ! i = m ! i)"
  using strtok_run_tokens [OF assms, of s p] assms(2) by simp

theorem strtok_tokens_witness:
  "\<exists>m' ts. strtok_run 4 3 1 ([0, 44, 0, 97, 44, 98, 0, 0], 0) = Some ((m', NULL), ts) \<and>
    list_all2 (cstr m') ts (tokens (\<lambda>c. c \<in> set [44]) [97, 44, 98]) \<and>
    length m' = length [0, 44, 0, 97, 44, 98, 0, 0 :: u8] \<and>
    (\<forall>i. i < 3 \<or> 3 + length [97, 44, 98 :: u8] \<le> i \<longrightarrow>
       m' ! i = [0, 44, 0, 97, 44, 98, 0, 0] ! i)"
  by (rule strtok_tokens) (simp_all add: NULL_def ld_def)

end
