(* ===== verification/Libmin_Alloc.thy ===== *)
theory Libmin_Alloc
  imports Libmin_Malloc_Proofs Libmin_Str_Props
begin

text \<open>
  The allocator as its clients see it: the live blocks, an interface of laws stated as a
  locale and discharged for libmin_malloc and libmin_free, a scratch-buffer lemma proved once
  inside it, and the properties of malloc, free, calloc, realloc and strdup.
\<close>

section \<open>Live blocks\<close>

definition wf_heap :: "heap \<Rightarrow> bool" where
  "wf_heap h \<longleftrightarrow> (\<exists>xs. heap_ok h xs)"

definition live :: "heap \<Rightarrow> nat \<Rightarrow> nat option" where
  "live h p = (case hdrs h (p - 24) of None \<Rightarrow> None
     | Some b \<Rightarrow> if 24 \<le> p \<and> is_free b = 0 \<and> (\<exists>xs. heap_ok h xs \<and> p - 24 \<in> set xs)
                then Some (unat (hsize b)) else None)"

definition heap_limit :: "heap \<Rightarrow> nat" where
  "heap_limit h = heap_base h + 32768"

lemma heap_ok_unique: "heap_ok h xs \<Longrightarrow> heap_ok h ys \<Longrightarrow> xs = ys"
  by (auto simp: heap_ok_def intro: layout_unique)

lemma live_iff:
  assumes "heap_ok h xs"
  shows "live h p = Some k \<longleftrightarrow> (p, k, False) \<in> set (blocks h xs)"
proof
  assume "live h p = Some k"
  then obtain b where "hdrs h (p - 24) = Some b" "24 \<le> p" "is_free b = 0" "p - 24 \<in> set xs"
    "k = unat (hsize b)"
    using heap_ok_unique [OF assms] by (auto simp: live_def split: option.splits if_splits)
  then show "(p, k, False) \<in> set (blocks h xs)"
    by (auto simp: blocks_def blk_of_def intro!: image_eqI [of _ _ "p - 24"])
next
  assume "(p, k, False) \<in> set (blocks h xs)"
  then obtain x where x: "x \<in> set xs" "(p, k, False) = blk_of (hdrs h) x" by (auto simp: blocks_def)
  from heap_ok_mem [OF assms x(1)] obtain b where "hdrs h x = Some b" by blast
  with x assms show "live h p = Some k" by (auto simp: live_def blk_of_def)
qed

lemma blocks_unique:
  assumes "heap_ok h xs" "(p, k, f) \<in> set (blocks h xs)" "(p, k', f') \<in> set (blocks h xs)"
  shows "k = k' \<and> f = f'"
  using assms(2,3) by (auto simp: blocks_def blk_of_def split: option.splits)

lemma blocks_mem:
  assumes "heap_ok h xs" "(p, k, f) \<in> set (blocks h xs)"
  shows "p - 24 \<in> set xs \<and> heap_base h + 24 \<le> p \<and> 0 < k \<and> p + k \<le> brk h \<and>
    (\<exists>b. hdrs h (p - 24) = Some b \<and> k = unat (hsize b) \<and> f = (is_free b \<noteq> 0))"
proof -
  obtain x where x: "x \<in> set xs" "(p, k, f) = blk_of (hdrs h) x" using assms(2) by (auto simp: blocks_def)
  from heap_ok_mem [OF assms(1) x(1)] obtain b where "hdrs h x = Some b" "hsize b \<noteq> 0"
    "heap_base h \<le> x" "x + 24 + unat (hsize b) \<le> brk h" by blast
  with x show ?thesis by (auto simp: blk_of_def unat_gt_0)
qed

lemma live_bounds:
  assumes "wf_heap h" "live h p = Some k"
  shows "heap_base h + 24 \<le> p \<and> 0 < k \<and> p + k \<le> brk h \<and> brk h < heap_limit h"
  using assms blocks_mem [of h _ p k False] heap_ok_brk
  by (auto simp: wf_heap_def live_iff heap_limit_def)

lemma live_disjoint:
  assumes "wf_heap h" "live h p = Some k" "live h q = Some l" "p \<noteq> q"
  shows "p + k \<le> q - 24 \<or> q + l \<le> p - 24"
proof -
  obtain xs where h: "heap_ok h xs" using assms(1) by (auto simp: wf_heap_def)
  have p: "(p, k, False) \<in> set (blocks h xs)" and q: "(q, l, False) \<in> set (blocks h xs)"
    using assms(2,3) live_iff [OF h] by auto
  note bp = blocks_mem [OF h p] and bq = blocks_mem [OF h q]
  have l: "layout (hdrs h) (heap_base h) xs (brk h)" using h by (simp add: heap_ok_def)
  from bp obtain b where b: "hdrs h (p - 24) = Some b" "k = unat (hsize b)" by blast
  from bq obtain c where c: "hdrs h (q - 24) = Some c" "l = unat (hsize c)" by blast
  consider "p - 24 < q - 24" | "q - 24 < p - 24" using assms(4) bp bq by linarith
  then show ?thesis
  proof cases
    case 1
    then show ?thesis using layout_disjoint [OF l, of "p - 24" "q - 24" b] bp bq b by auto
  next
    case 2
    then show ?thesis using layout_disjoint [OF l, of "q - 24" "p - 24" c] bp bq c by auto
  qed
qed

text \<open>A block of the list, live or free: its header at x, followed by n bytes.\<close>

definition block_at :: "heap \<Rightarrow> nat \<Rightarrow> nat \<Rightarrow> bool" where
  "block_at h x n \<longleftrightarrow> (\<exists>xs b. heap_ok h xs \<and> x \<in> set xs \<and> hdrs h x = Some b \<and> n = unat (hsize b))"

lemma live_block_apart:
  assumes "wf_heap h" "live h p = Some k" "block_at h x n" "x \<noteq> p - 24"
  shows "p + k \<le> x \<or> x + 24 + n \<le> p - 24"
proof -
  obtain xs b where h: "heap_ok h xs" and x: "x \<in> set xs" "hdrs h x = Some b" "n = unat (hsize b)"
    using assms(3) by (auto simp: block_at_def)
  have p: "(p, k, False) \<in> set (blocks h xs)" using assms(2) live_iff [OF h] by auto
  note bp = blocks_mem [OF h p]
  then obtain c where c: "hdrs h (p - 24) = Some c" "k = unat (hsize c)" by blast
  have l: "layout (hdrs h) (heap_base h) xs (brk h)" using h by (simp add: heap_ok_def)
  consider "p - 24 < x" | "x < p - 24" using assms(4) by linarith
  then show ?thesis
  proof cases
    case 1
    then show ?thesis using layout_disjoint [OF l, of "p - 24" x c] bp x c by auto
  next
    case 2
    then show ?thesis using layout_disjoint [OF l, of x "p - 24" b] bp x by auto
  qed
qed

lemma first_fit_set:
  "first_fit n bs = Some (bs', p) \<Longrightarrow> distinct (map fst bs) \<Longrightarrow>
   \<exists>k. (p, k, True) \<in> set bs \<and> n \<le> k \<and>
     (\<forall>q l. (q, l, False) \<in> set bs' \<longleftrightarrow> (q, l, False) \<in> set bs \<or> (q, l) = (p, k))"
proof (induction n bs arbitrary: bs' rule: first_fit.induct)
  case (2 n p' k f bs)
  show ?case
  proof (cases "f \<and> n \<le> k")
    case True
    with 2 show ?thesis by auto
  next
    case False
    with "2.prems" obtain bs2 where "first_fit n bs = Some (bs2, p)" "bs' = (p', k, f) # bs2"
      by auto
    with "2.IH" [OF False] "2.prems" show ?thesis by fastforce
  qed
qed simp

lemma blocks_distinct: "heap_ok h xs \<Longrightarrow> distinct (map fst (blocks h xs))"
  using heap_ok_distinct [of h xs]
  by (auto simp: blocks_def distinct_map inj_on_def blk_of_def split: option.splits)

lemma live_eqI:
  assumes "heap_ok h xs" "heap_ok h' ys"
    "\<And>q l. (q, l, False) \<in> set (blocks h' ys) \<longleftrightarrow> (q, l, False) \<in> set (blocks h xs) \<and> q \<noteq> p \<or> (q, Some l) = (p, k)"
  shows "live h' = (live h)(p := k)"
proof
  fix q
  have "live h' q = Some l \<longleftrightarrow> ((live h)(p := k)) q = Some l" for l
    using assms(3) [of q l] live_iff [OF assms(1), of q l] live_iff [OF assms(2), of q l] by auto
  then show "live h' q = ((live h)(p := k)) q" by (metis option.exhaust)
qed

lemma malloc_live:
  assumes h: "wf_heap h" and n: "0 < unat sz" "unat sz < 2 ^ 31"
  shows "(\<exists>h'. libmin_malloc sz h = Some (h', Inl 1)) \<and> heap_limit h \<le> brk h + 24 + round8 (unat sz) \<or>
    (\<exists>h' p k. libmin_malloc sz h = Some (h', Inr p) \<and> wf_heap h' \<and> unat sz \<le> k \<and>
       live h p = None \<and> live h' = (live h)(p \<mapsto> k) \<and> heap_mem h' = heap_mem h \<and>
       heap_base h' = heap_base h \<and>
       (brk h' = brk h \<or> k = round8 (unat sz) \<and> p = brk h + 24 \<and> brk h' = p + k))"
proof -
  obtain xs where ok: "heap_ok h xs" using h by (auto simp: wf_heap_def)
  define n where "n = unat (malloc_size sz)"
  have r: "n = round8 (unat sz)" using unat_malloc_size n(2) by (simp add: n_def)
  then have b: "0 < n" "n < 2 ^ 31 + 8" "unat sz \<le> n" using round8 [of "unat sz"] n by auto
  have l: "layout (hdrs h) (heap_base h) xs (brk h)" using ok by (simp add: heap_ok_def)
  have ff: "first_fit n (blocks h xs) = None \<longleftrightarrow> find (fits (hdrs h) (malloc_size sz)) xs = None"
    using first_fit_find [OF l heap_ok_distinct [OF ok], of "malloc_size sz"] layout_mem [OF l]
    by (fastforce simp: n_def blocks_def split: option.splits dest: find_mem)
  show ?thesis
  proof (cases "first_fit n (blocks h xs)")
    case None
    show ?thesis
    proof (cases "brk h + 24 + n < heap_base h + 32768")
      case True
      then obtain h' where h': "libmin_malloc sz h = Some (h', Inr (brk h + 24))"
        "alloc_done h h' (xs @ [brk h]) (blocks h xs @ [(brk h + 24, n, False)])" "brk h' = brk h + 24 + n"
        using malloc_grow [OF ok _ n_def [symmetric]] None ff b(1,2) by auto
      have "live h (brk h + 24) = None"
        using live_bounds [OF h, of "brk h + 24"] by (cases "live h (brk h + 24)") auto
      moreover from this have "(brk h + 24, k, False) \<notin> set (blocks h xs)" for k
        using live_iff [OF ok] by (metis option.distinct(1))
      then have "live h' = (live h)(brk h + 24 \<mapsto> n)"
        using h'(2) by (intro live_eqI [OF ok]) (auto simp: alloc_done_def)
      ultimately show ?thesis using h' b r by (auto simp: alloc_done_def wf_heap_def)
    next
      case False
      then show ?thesis using malloc_grow [OF ok _ n_def [symmetric]] None ff b r
        by (auto simp: heap_limit_def)
    qed
  next
    case (Some y)
    then obtain bs p x where f: "first_fit n (blocks h xs) = Some (bs, p)"
      "find (fits (hdrs h) (malloc_size sz)) xs = Some x" using ff by (cases y) auto
    have "malloc_size sz \<noteq> 0" using b(1) by (auto simp: n_def)
    then obtain h' where h': "libmin_malloc sz h = Some (h', Inr p)" "alloc_done h h' xs bs" "brk h' = brk h"
      using malloc_reuse [OF ok f(2) _ f(1) [unfolded n_def]] by blast
    obtain k where k: "(p, k, True) \<in> set (blocks h xs)" "n \<le> k"
      "\<And>q l. (q, l, False) \<in> set bs \<longleftrightarrow> (q, l, False) \<in> set (blocks h xs) \<or> (q, l) = (p, k)"
      using first_fit_set [OF f(1) blocks_distinct [OF ok]] by blast
    then have pn: "(p, l, False) \<notin> set (blocks h xs)" for l using blocks_unique [OF ok] by blast
    then have "live h p = None" using live_iff [OF ok] by (metis option.exhaust)
    moreover have "live h' = (live h)(p \<mapsto> k)"
      using h'(2) k(3) pn by (intro live_eqI [OF ok]) (auto simp: alloc_done_def)
    ultimately show ?thesis using h' k(2) b(3)
      by (intro disjI2 exI [of _ h'] exI [of _ p] exI [of _ k]) (auto simp: alloc_done_def wf_heap_def)
  qed
qed

lemma mark_free_set:
  "(q, l, False) \<in> set (mark_free p bs) \<longleftrightarrow> (q, l, False) \<in> set bs \<and> q \<noteq> p"
  by (induction bs) (auto simp: mark_free_def)

lemma free_live:
  assumes h: "wf_heap h" and p: "live h p = Some k"
  shows "\<exists>h'. libmin_free p h = Some (h', Inr ()) \<and> wf_heap h' \<and> live h' = (live h)(p := None) \<and>
    heap_mem h' = heap_mem h \<and> heap_base h' = heap_base h \<and>
    brk h' = (if p + k = brk h then p - 24 else brk h)"
proof -
  obtain xs where ok: "heap_ok h xs" using h by (auto simp: wf_heap_def)
  have pk: "(p, k, False) \<in> set (blocks h xs)" using p live_iff [OF ok] by simp
  define x where "x = p - 24"
  from blocks_mem [OF ok pk] obtain b where x: "p = x + 24" "x \<in> set xs" "hdrs h x = Some b"
    "k = unat (hsize b)" by (auto simp: x_def)
  have last: "p + k = brk h \<longleftrightarrow> x = last xs"
    using last_block [OF ok x(2,3)] x(1,4) by (simp add: add.assoc)
  show ?thesis
  proof (cases "x = last xs")
    case True
    then obtain ys where ys: "xs = ys @ [x]" using x(2) by (metis append_butlast_last_id empty_iff list.set(1))
    from free_last [OF ok [unfolded ys] x(3)] obtain h' where
      h': "libmin_free (x + 24) h = Some (h', Inr ())" "alloc_done h h' ys (blocks h ys)" "brk h' = x" by blast
    have "blocks h xs = blocks h ys @ [(p, k, False)]"
      using pk x(1,3,4) ys blocks_unique [OF ok pk, of k] by (auto simp: blocks_def blk_of_def)
    moreover from this have "(p, l, False) \<notin> set (blocks h ys)" for l
      using blocks_distinct [OF ok] by (force simp: image_iff)
    ultimately have "live h' = (live h)(p := None)"
      using h'(2) by (intro live_eqI [OF ok]) (auto simp: alloc_done_def)
    with h' True last x(1) show ?thesis by (auto simp: alloc_done_def wf_heap_def)
  next
    case False
    from free_mark [OF ok x(2) False] obtain h' where
      h': "libmin_free (x + 24) h = Some (h', Inr ())"
      "alloc_done h h' xs (mark_free (x + 24) (blocks h xs))" "brk h' = brk h" by blast
    have "live h' = (live h)(p := None)"
      using h'(2) x(1) by (intro live_eqI [OF ok]) (auto simp: alloc_done_def mark_free_set)
    with h' False last x(1) show ?thesis by (auto simp: alloc_done_def wf_heap_def)
  qed
qed

section \<open>The interface of the allocator\<close>

text \<open>
  What a client relies on: the blocks handed out are live, apart from each other and inside
  the heap; handing out a block or taking one back changes no byte of memory and no other
  block; a request fails only when the heap cannot grow by it; and the break moves up only
  for the new last block and down only when the last block is released.
\<close>

locale allocator_contract =
  fixes wf :: "'h \<Rightarrow> bool" and lives :: "'h \<Rightarrow> nat \<Rightarrow> nat option" and bytes :: "'h \<Rightarrow> mem"
    and bottom :: "'h \<Rightarrow> nat" and top :: "'h \<Rightarrow> nat" and limit :: "'h \<Rightarrow> nat"
    and alloc :: "u64 \<Rightarrow> 'h \<Rightarrow> ('h \<times> (int + nat)) option"
    and release :: "nat \<Rightarrow> 'h \<Rightarrow> ('h \<times> (int + unit)) option"
    and store :: "mem \<Rightarrow> 'h \<Rightarrow> 'h"
  assumes alloc: "wf h \<Longrightarrow> 0 < unat n \<Longrightarrow> unat n < 2 ^ 31 \<Longrightarrow>
      (\<exists>h'. alloc n h = Some (h', Inl 1)) \<and> limit h \<le> top h + 24 + round8 (unat n) \<or>
      (\<exists>h' p k. alloc n h = Some (h', Inr p) \<and> wf h' \<and> unat n \<le> k \<and> lives h p = None \<and>
         lives h' = (lives h)(p \<mapsto> k) \<and> bytes h' = bytes h \<and> bottom h' = bottom h \<and>
         limit h' = limit h \<and>
         (top h' = top h \<or> k = round8 (unat n) \<and> p = top h + 24 \<and> top h' = p + k))"
    and release: "wf h \<Longrightarrow> lives h p = Some k \<Longrightarrow>
      \<exists>h'. release p h = Some (h', Inr ()) \<and> wf h' \<and> lives h' = (lives h)(p := None) \<and>
        bytes h' = bytes h \<and> bottom h' = bottom h \<and> limit h' = limit h \<and>
        top h' = (if p + k = top h then p - 24 else top h)"
    and bounds: "wf h \<Longrightarrow> lives h p = Some k \<Longrightarrow>
      bottom h + 24 \<le> p \<and> 0 < k \<and> p + k \<le> top h \<and> top h < limit h"
    and disjoint: "wf h \<Longrightarrow> lives h p = Some k \<Longrightarrow> lives h q = Some l \<Longrightarrow> p \<noteq> q \<Longrightarrow>
      p + k \<le> q - 24 \<or> q + l \<le> p - 24"
    and store: "wf (store m h) = wf h" "lives (store m h) = lives h" "bytes (store m h) = m"
      "bottom (store m h) = bottom h" "top (store m h) = top h" "limit (store m h) = limit h"
begin

definition apart :: "'h \<Rightarrow> nat \<Rightarrow> nat \<Rightarrow> bool" where
  "apart h p k \<longleftrightarrow> bottom h \<le> p \<and> p + k \<le> limit h \<and> 0 < p \<and>
     (\<forall>q l. lives h q = Some l \<longrightarrow> p + k \<le> q \<or> q + l \<le> p)"

lemma alloc_apart:
  assumes "wf h" "0 < unat n" "unat n < 2 ^ 31" "alloc n h = Some (h', Inr p)"
  obtains k where "wf h'" "unat n \<le> k" "apart h p k" "lives h' = (lives h)(p \<mapsto> k)" "bytes h' = bytes h"
    "bottom h' = bottom h" "limit h' = limit h" "lives h p = None"
    "top h' = top h \<or> k = round8 (unat n) \<and> p = top h + 24 \<and> top h' = p + k"
proof -
  from alloc [OF assms(1-3)] assms(4) obtain k where k: "wf h'" "unat n \<le> k" "lives h p = None"
    "lives h' = (lives h)(p \<mapsto> k)" "bytes h' = bytes h" "bottom h' = bottom h" "limit h' = limit h"
    "top h' = top h \<or> k = round8 (unat n) \<and> p = top h + 24 \<and> top h' = p + k" by auto
  have p: "lives h' p = Some k" using k(4) by simp
  have "p + k \<le> q \<or> q + l \<le> p" if "lives h q = Some l" for q l
  proof -
    have "p \<noteq> q" using that k(3) by auto
    moreover from this have "lives h' q = Some l" using that k(4) by simp
    ultimately show ?thesis using disjoint [OF k(1) p, of q l] by auto
  qed
  with bounds [OF k(1) p] k(6,7) have "apart h p k" by (auto simp: apart_def)
  with k that show thesis by blast
qed

lemma alloc_no_room:
  assumes "wf h" "0 < unat n" "unat n < 2 ^ 31"
  shows "(\<exists>h'. alloc n h = Some (h', Inl 1)) \<and> limit h \<le> top h + 24 + round8 (unat n) \<or>
    (\<exists>h' p. alloc n h = Some (h', Inr p))"
  using alloc [OF assms] by blast

lemma scratch:
  assumes "wf h" "0 < unat n" "unat n < 2 ^ 31" "alloc n h = Some (h1, Inr p)"
  shows "\<exists>h2. release p (store m h1) = Some (h2, Inr ()) \<and> wf h2 \<and> lives h2 = lives h \<and>
    bytes h2 = m \<and> bottom h2 = bottom h \<and> limit h2 = limit h \<and> top h2 \<le> top h \<and>
    (\<forall>q l. lives h q = Some l \<longrightarrow> q + l = top h \<longrightarrow> top h2 = top h)"
proof -
  from alloc_apart [OF assms] obtain k where k: "wf h1" "unat n \<le> k" "apart h p k"
    "lives h1 = (lives h)(p \<mapsto> k)" "bytes h1 = bytes h" "bottom h1 = bottom h" "limit h1 = limit h"
    "lives h p = None" "top h1 = top h \<or> k = round8 (unat n) \<and> p = top h + 24 \<and> top h1 = p + k" .
  have p: "lives (store m h1) p = Some k" and w: "wf (store m h1)" using k(1,4) by (simp_all add: store)
  from release [OF w p] obtain h2 where h2: "release p (store m h1) = Some (h2, Inr ())" "wf h2"
    "lives h2 = (lives h1)(p := None)" "bytes h2 = m" "bottom h2 = bottom h1" "limit h2 = limit h1"
    "top h2 = (if p + k = top h1 then p - 24 else top h1)" by (auto simp: store)
  have b: "24 \<le> p" "0 < k" "p + k \<le> top h1" using bounds [OF k(1), of p k] k(4) by auto
  have "lives h2 = lives h" using h2(3) k(4,8) by (simp add: fun_upd_idem)
  moreover have "top h2 \<le> top h" using h2(7) k(9) b by (auto split: if_splits)
  moreover have "top h2 = top h" if q: "lives h q = Some l" "q + l = top h" for q l
  proof -
    have "p \<noteq> q" using q(1) k(8) by auto
    then have "lives h1 q = Some l" using q(1) k(4) by simp
    then have "p + k \<le> q - 24 \<or> q + l \<le> p - 24" and "0 < l"
      using disjoint [OF k(1) _ _ \<open>p \<noteq> q\<close>, of k l] bounds [OF k(1), of q l] k(4) by auto
    then show ?thesis using h2(7) k(9) b q(2) by (auto split: if_splits)
  qed
  ultimately show ?thesis using h2(1,2,4-6) k(6,7) by (intro exI [of _ h2]) simp
qed

end

lemma heap_ok_write: "heap_ok (h\<lparr>heap_mem := m\<rparr>) xs = heap_ok h xs"
  by (simp add: heap_ok_def brk_def)

lemma live_write: "live (h\<lparr>heap_mem := m\<rparr>) = live h"
  by (rule ext) (simp add: live_def heap_ok_write cong: option.case_cong)

interpretation libmin: allocator_contract wf_heap live heap_mem heap_base brk heap_limit
  libmin_malloc libmin_free "\<lambda>m h. h\<lparr>heap_mem := m\<rparr>"
proof
  show "(\<exists>h'. libmin_malloc n h = Some (h', Inl 1)) \<and> heap_limit h \<le> brk h + 24 + round8 (unat n) \<or>
    (\<exists>h' p k. libmin_malloc n h = Some (h', Inr p) \<and> wf_heap h' \<and> unat n \<le> k \<and> live h p = None \<and>
      live h' = (live h)(p \<mapsto> k) \<and> heap_mem h' = heap_mem h \<and> heap_base h' = heap_base h \<and>
      heap_limit h' = heap_limit h \<and>
      (brk h' = brk h \<or> k = round8 (unat n) \<and> p = brk h + 24 \<and> brk h' = p + k))"
    if "wf_heap h" "0 < unat n" "unat n < 2 ^ 31" for h n
    using malloc_live [OF that] by (auto simp: heap_limit_def)
  show "\<exists>h'. libmin_free p h = Some (h', Inr ()) \<and> wf_heap h' \<and> live h' = (live h)(p := None) \<and>
      heap_mem h' = heap_mem h \<and> heap_base h' = heap_base h \<and> heap_limit h' = heap_limit h \<and>
      brk h' = (if p + k = brk h then p - 24 else brk h)"
    if "wf_heap h" "live h p = Some k" for h p k
    using free_live [OF that] by (auto simp: heap_limit_def)
  show "p + k \<le> q - 24 \<or> q + l \<le> p - 24"
    if "wf_heap h" "live h p = Some k" "live h q = Some l" "p \<noteq> q" for h p k q l
    using that by (rule live_disjoint)
  show "heap_base h + 24 \<le> p \<and> 0 < k \<and> p + k \<le> brk h \<and> brk h < heap_limit h"
    if "wf_heap h" "live h p = Some k" for h p k
    using that by (rule live_bounds)
qed (simp_all add: live_write, simp_all add: wf_heap_def heap_ok_write heap_limit_def brk_def)

section \<open>Clients of the allocator\<close>

lemma mul_overflow_check:
  fixes a b :: u64
  assumes "a \<noteq> 0"
  shows "b = a * b div a \<longleftrightarrow> unat a * unat b < 2 ^ 64"
proof
  assume "unat a * unat b < 2 ^ 64"
  then have "unat (a * b) = unat a * unat b" by (simp add: unat_word_ariths)
  then have "unat (a * b div a) = unat b"
    using assms by (simp add: unat_div unat_eq_zero)
  then show "b = a * b div a" by (simp add: word_unat_eq_iff)
next
  assume e: "b = a * b div a"
  let ?p = "unat a * unat b"
  have a: "0 < unat a" using assms by (simp add: unat_gt_0)
  have b: "unat b = ?p mod 2 ^ 64 div unat a"
    using arg_cong [OF e, of unat] by (simp add: unat_div unat_word_ariths)
  show "?p < 2 ^ 64"
  proof (rule ccontr)
    assume "\<not> ?p < 2 ^ 64"
    then have "?p mod 2 ^ 64 < ?p" by (meson mod_less_divisor not_le order_less_le_trans zero_less_power zero_less_numeral)
    then have "?p mod 2 ^ 64 div unat a < unat b"
      using a by (simp add: less_mult_imp_div_less mult.commute)
    with b show False by simp
  qed
qed

lemma calloc_ok:
  assumes h: "wf_heap h" and m: "heap_limit h \<le> length (heap_mem h)" "length (heap_mem h) < 2 ^ 64"
    and nz: "num \<noteq> 0" "nsize \<noteq> 0" and p: "unat num * unat nsize < 2 ^ 31"
  shows "(\<exists>h'. libmin_calloc num nsize h = Some (h', Inl 1)) \<or>
    (\<exists>h' p k. libmin_calloc num nsize h = Some (h', Inr p) \<and> wf_heap h' \<and>
       heap_base h' = heap_base h \<and> libmin.apart h p k \<and> unat num * unat nsize \<le> k \<and> live h' = (live h)(p \<mapsto> k) \<and>
       heap_mem h' = take p (heap_mem h) @ replicate (unat num * unat nsize) 0 @
         drop (p + unat num * unat nsize) (heap_mem h))"
proof -
  have u: "unat (num * nsize) = unat num * unat nsize" using p by (simp add: unat_word_ariths)
  have run: "libmin_calloc num nsize = seq (libmin_malloc (num * nsize)) (\<lambda>block.
      if block = NULL then ok NULL else
      seq (on_mem (libmin_memset block 0 (unat (num * nsize)))) (\<lambda>_. ok block))"
    using nz mul_overflow_check [OF nz(1), of nsize] p by (simp add: libmin_calloc_def Let_def)
  have n: "0 < unat (num * nsize)" "unat (num * nsize) < 2 ^ 31"
    using nz p by (simp_all add: u unat_gt_0)
  from libmin.alloc_no_room [OF h n] show ?thesis
  proof (elim disjE exE conjE)
    fix h' assume "libmin_malloc (num * nsize) h = Some (h', Inl 1)"
    then show ?thesis by (simp add: run seq_def)
  next
    fix h' q assume a: "libmin_malloc (num * nsize) h = Some (h', Inr q)"
    from libmin.alloc_apart [OF h n a] obtain k where k: "wf_heap h'" "unat (num * nsize) \<le> k"
      "libmin.apart h q k" "live h' = (live h)(q \<mapsto> k)" "heap_mem h' = heap_mem h"
      "heap_base h' = heap_base h" .
    have q: "q \<noteq> NULL" "q + unat (num * nsize) \<le> length (heap_mem h)"
      using k(2,3) m(1) by (auto simp: libmin.apart_def NULL_def)
    let ?m = "take q (heap_mem h) @ replicate (unat (num * nsize)) 0 @ drop (q + unat (num * nsize)) (heap_mem h)"
    have "libmin_memset q 0 (unat (num * nsize)) (heap_mem h) = Some (?m, q)"
      using memset_st_bytes [OF q(2) m(2), of 0] q(2) by (simp add: st_bytes_def)
    then have "libmin_calloc num nsize h = Some (h'\<lparr>heap_mem := ?m\<rparr>, Inr q)"
      using a q(1) k(5) by (simp add: run seq_def on_mem_def ok_def)
    moreover have "wf_heap (h'\<lparr>heap_mem := ?m\<rparr>)" using k(1) by (simp add: wf_heap_def heap_ok_write)
    ultimately show ?thesis using k(2-4,6) u live_write [of ?m h']
      by (intro disjI2 exI [of _ "h'\<lparr>heap_mem := ?m\<rparr>"] exI [of _ q] exI [of _ k]) simp
  qed
qed

lemma live_hdr:
  assumes "live h p = Some k"
  shows "24 \<le> p \<and> (\<exists>b. hdrs h (p - 24) = Some b \<and> unat (hsize b) = k)"
  using assms by (auto simp: live_def split: option.splits if_splits)

lemma realloc_ok:
  assumes h: "wf_heap h" and m: "heap_limit h \<le> length (heap_mem h)"
    and p: "live h p = Some k" and n: "0 < unat sz" "unat sz < 2 ^ 31"
  shows "if unat sz \<le> k then libmin_realloc p sz h = Some (h, Inr p) else
    (\<exists>h'. libmin_realloc p sz h = Some (h', Inl 1)) \<or>
    (\<exists>h' q l. libmin_realloc p sz h = Some (h', Inr q) \<and> wf_heap h' \<and>
       heap_base h' = heap_base h \<and> libmin.apart h q l \<and>
       unat sz \<le> l \<and> live h' = (live h)(q \<mapsto> l, p := None) \<and>
       heap_mem h' = take q (heap_mem h) @ take k (drop p (heap_mem h)) @ drop (q + k) (heap_mem h))"
proof -
  from live_hdr [OF p] obtain b where b: "hdrs h (p - 24) = Some b" "unat (hsize b) = k" "24 \<le> p" by blast
  have nz: "p \<noteq> NULL" "sz \<noteq> 0" using b(3) n(1) by (auto simp: NULL_def)
  have cmp: "sz \<le> hsize b \<longleftrightarrow> unat sz \<le> k" using b(2) by (simp add: word_le_nat_alt)
  show ?thesis
  proof (cases "unat sz \<le> k")
    case True
    then show ?thesis using nz b(1) cmp by (simp add: libmin_realloc_def sizeof_memhdr_def ok_def)
  next
    case False
    let ?move = "\<lambda>ret h'. if ret \<noteq> NULL then
           (case hdrs h' (p - sizeof_memhdr) of None \<Rightarrow> None
            | Some b' \<Rightarrow> seq (on_mem (libmin_memcpy ret p (unat (hsize b')))) (\<lambda>_.
                seq (libmin_free p) (\<lambda>_. ok ret)) h')
         else ok ret h'"
    have run: "libmin_realloc p sz h = seq (libmin_malloc sz) ?move h"
      using nz b(1) cmp False by (simp add: libmin_realloc_def sizeof_memhdr_def)
    from libmin.alloc_no_room [OF h n] show ?thesis
    proof (elim disjE exE conjE)
      fix h' assume "libmin_malloc sz h = Some (h', Inl 1)"
      then show ?thesis using False by (simp add: run seq_def)
    next
      fix h1 q assume a: "libmin_malloc sz h = Some (h1, Inr q)"
      from libmin.alloc_apart [OF h n a] obtain l where l: "wf_heap h1" "unat sz \<le> l"
        "libmin.apart h q l" "live h1 = (live h)(q \<mapsto> l)" "heap_mem h1 = heap_mem h" "live h q = None"
        "heap_base h1 = heap_base h" .
      have pq: "p \<noteq> q" using p l(6) by auto
      have p1: "live h1 p = Some k" using p pq l(4) by simp
      from live_hdr [OF this] obtain c where c: "hdrs h1 (p - 24) = Some c" "unat (hsize c) = k" by blast
      have apart: "q + l \<le> p \<or> p + k \<le> q" and bnd: "q + l \<le> heap_limit h" "q \<noteq> NULL"
        using l(3) p by (auto simp: libmin.apart_def NULL_def)
      have pk: "p + k \<le> heap_limit h" using live_bounds [OF h p] by auto
      define bs where "bs = take k (drop p (heap_mem h))"
      have bs: "ld_bytes (heap_mem h) p k = Some bs" "length bs = k"
        using pk m by (auto simp: bs_def ld_bytes_def)
      let ?m = "take q (heap_mem h) @ bs @ drop (q + k) (heap_mem h)"
      have "memcpy_loop q p k (heap_mem h) = Some ?m"
        using memcpy_loop_st_bytes [OF bs(1), of q] apart bnd m False l(2) bs(2)
        by (auto simp: st_bytes_def)
      then have cp: "libmin_memcpy q p k (heap_mem h) = Some (?m, q)" by (simp add: libmin_memcpy_def)
      let ?h1 = "h1\<lparr>heap_mem := ?m\<rparr>"
      have "wf_heap ?h1" "live ?h1 p = Some k" using l(1) p1 by (simp_all add: wf_heap_def heap_ok_write live_write)
      from free_live [OF this] obtain h2 where h2: "libmin_free p ?h1 = Some (h2, Inr ())" "wf_heap h2"
        "live h2 = (live ?h1)(p := None)" "heap_mem h2 = ?m" "heap_base h2 = heap_base h" using l(7) by auto
      have "libmin_realloc p sz h = Some (h2, Inr q)"
        unfolding run using a bnd(2) c cp h2(1) l(5)
        by (simp add: seq_def on_mem_def ok_def sizeof_memhdr_def)
      then show ?thesis using False h2 l(2-4,7) unfolding bs_def by (auto simp: live_write)
    qed
  qed
qed

lemma strdup_ok:
  assumes h: "wf_heap h" and m: "heap_limit h \<le> length (heap_mem h)"
    and s: "cstr (heap_mem h) s xs" "s \<noteq> NULL" "Suc (length xs) < 2 ^ 31"
    and out: "s + length xs < heap_base h \<or> heap_limit h \<le> s"
  shows "(\<exists>h'. libmin_strdup s h = Some (h', Inl 1)) \<and>
       heap_limit h \<le> brk h + 24 + round8 (Suc (length xs)) \<or>
    (\<exists>h' p k. libmin_strdup s h = Some (h', Inr p) \<and> wf_heap h' \<and> libmin.apart h p k \<and>
       length xs < k \<and> live h' = (live h)(p \<mapsto> k) \<and> cstr (heap_mem h') p xs \<and> cstr (heap_mem h') s xs)"
proof -
  let ?n = "of_nat (length xs) + 1 :: u64"
  have u: "unat ?n = Suc (length xs)"
  proof -
    have "?n = of_nat (Suc (length xs))" by simp
    moreover have "unat (of_nat (Suc (length xs)) :: u64) = Suc (length xs)"
      using s(3) by (subst unat_of_nat) simp
    ultimately show ?thesis by (simp only:)
  qed
  have run: "libmin_strdup s h = seq (libmin_malloc ?n) (\<lambda>new.
     if new = NULL then ok NULL else on_mem (libmin_memcpy new s (unat ?n))) h"
    using strlen_cstr [OF s(1,2)] by (simp add: libmin_strdup_def read_mem_def seq_def Let_def)
  have n: "0 < unat ?n" "unat ?n < 2 ^ 31" using s(3) unfolding u by simp_all
  from libmin.alloc [OF h n] consider
    h' where "libmin_malloc ?n h = Some (h', Inl 1)" "heap_limit h \<le> brk h + 24 + round8 (unat ?n)"
    | h' q where "libmin_malloc ?n h = Some (h', Inr q)" by blast
  then show ?thesis
  proof cases
    case (1 h')
    then show ?thesis unfolding run u by (simp add: seq_def)
  next
    case (2 h1 q)
    from libmin.alloc_apart [OF h n this] obtain k where k: "wf_heap h1" "unat ?n \<le> k"
      "libmin.apart h q k" "live h1 = (live h)(q \<mapsto> k)" "heap_mem h1 = heap_mem h" .
    have b: "q \<noteq> NULL" "heap_base h \<le> q" "q + k \<le> heap_limit h" using k(3) by (auto simp: libmin.apart_def NULL_def)
    have l: "ld_bytes (heap_mem h) s (Suc (length xs)) = Some (xs @ [0])" and nz: "0 \<notin> set xs"
      using s(1) by (auto simp: cstr_iff)
    have room: "q + length (xs @ [0]) \<le> length (heap_mem h)" using b m k(2) unfolding u by simp
    then obtain m2 where m2: "st_bytes (heap_mem h) q (xs @ [0]) = Some m2" using st_bytes_Some by blast
    have "memcpy_loop q s (Suc (length xs)) (heap_mem h) = Some m2"
      using memcpy_loop_st_bytes [OF l, of q] room b k(2) out m2 unfolding u by auto
    then have "libmin_strdup s h = Some (h1\<lparr>heap_mem := m2\<rparr>, Inr q)"
      unfolding run u using 2 b(1) k(5) by (simp add: seq_def on_mem_def libmin_memcpy_def)
    moreover have "cstr m2 q ([] @ xs)" using m2 nz by (intro cstr_st_bytes [of "heap_mem h" q "[]"]) simp_all
    moreover have "cstr m2 s xs"
      using cstr_st_bytes_other [OF m2, of s xs] s(1) out b k(2) unfolding u by auto
    moreover have "wf_heap (h1\<lparr>heap_mem := m2\<rparr>)" using k(1) by (simp add: wf_heap_def heap_ok_write)
    moreover have "length xs < k" using k(2) unfolding u by simp
    ultimately show ?thesis using k(3,4) live_write [of m2 h1]
      by (intro disjI2 exI [of _ "h1\<lparr>heap_mem := m2\<rparr>"] exI [of _ q] exI [of _ k]) simp
  qed
qed

section \<open>Reachable heaps\<close>

definition initial_heap :: "nat \<Rightarrow> mem \<Rightarrow> heap" where
  "initial_heap base m = \<lparr>head = NULL, tail = NULL, hdrs = Map.empty, heap_base = base,
     heap_ptr = 0, heap_mem = m\<rparr>"

text \<open>
  A program that frees and resizes only live blocks, asks for less than 2 GiB at a time and, in
  the heap, writes only to bytes of live blocks. The headers of the code are in the same memory:
  that such a write leaves them alone is part of what the invariant says.
\<close>

definition in_live_block :: "heap \<Rightarrow> nat \<Rightarrow> bool" where
  "in_live_block h i \<longleftrightarrow> (\<exists>p k. live h p = Some k \<and> p \<le> i \<and> i < p + k)"

inductive heap_step :: "heap \<Rightarrow> heap \<Rightarrow> bool" where
  malloc: "libmin_malloc sz h = Some (h', Inr p) \<Longrightarrow> unat sz < 2 ^ 31 \<Longrightarrow> heap_step h h'"
| free: "libmin_free p h = Some (h', Inr ()) \<Longrightarrow> p = NULL \<or> live h p \<noteq> None \<Longrightarrow> heap_step h h'"
| realloc: "libmin_realloc p sz h = Some (h', Inr q) \<Longrightarrow> unat sz < 2 ^ 31 \<Longrightarrow>
    p = NULL \<or> live h p \<noteq> None \<Longrightarrow> heap_step h h'"
| calloc: "libmin_calloc a b h = Some (h', Inr p) \<Longrightarrow> unat a * unat b < 2 ^ 31 \<Longrightarrow> heap_step h h'"
| store: "length m = length (heap_mem h) \<Longrightarrow>
    (\<And>i. i < length m \<Longrightarrow> m ! i \<noteq> heap_mem h ! i \<Longrightarrow> in_live_block h i \<or> i < heap_base h \<or> heap_limit h \<le> i) \<Longrightarrow>
    heap_step h (h\<lparr>heap_mem := m\<rparr>)"

inductive_cases heap_stepE [consumes 1, case_names malloc free realloc calloc store]:
  "heap_step h h'"

definition heap_inv :: "heap \<Rightarrow> bool" where
  "heap_inv h \<longleftrightarrow> wf_heap h \<and> heap_limit h \<le> length (heap_mem h) \<and> length (heap_mem h) < 2 ^ 64"

lemma heap_inv_initial:
  assumes "base \<noteq> NULL" "base + 32768 \<le> length m" "length m < 2 ^ 64" "base + 2 ^ 32 < 2 ^ 64"
  shows "heap_inv (initial_heap base m)"
proof -
  have "heap_ok (initial_heap base m) []"
    using assms by (simp add: heap_ok_def initial_heap_def brk_def MAX_HEAP_def)
  then show ?thesis using assms by (auto simp: heap_inv_def wf_heap_def heap_limit_def initial_heap_def)
qed

lemma malloc_0: "sz = 0 \<Longrightarrow> libmin_malloc sz h = Some (h, Inr NULL)"
  by (simp add: libmin_malloc_def malloc_size_def ok_def)

lemma heap_inv_malloc:
  assumes "heap_inv h" "libmin_malloc sz h = Some (h', Inr p)" "unat sz < 2 ^ 31"
  shows "heap_inv h'"
proof (cases "sz = 0")
  case True
  then show ?thesis using assms malloc_0 by simp
next
  case False
  then have n: "0 < unat sz" by (simp add: unat_gt_0)
  have h: "wf_heap h" using assms(1) by (simp add: heap_inv_def)
  from libmin.alloc_apart [OF h n assms(3,2)]
  have "wf_heap h'" "heap_mem h' = heap_mem h" "heap_limit h' = heap_limit h" by metis+
  with assms(1) show ?thesis by (simp add: heap_inv_def)
qed

lemma heap_inv_step:
  assumes "heap_inv h" "heap_step h h'" shows "heap_inv h'"
  using assms(2)
proof (cases rule: heap_stepE)
  case (malloc sz p)
  then show ?thesis using heap_inv_malloc [OF assms(1), of sz h' p] by simp
next
  case (free p)
  show ?thesis
  proof (cases "p = NULL")
    case True
    then show ?thesis using free assms(1) by (simp add: libmin_free_def ok_def)
  next
    case False
    with free obtain k where "live h p = Some k" by auto
    with libmin.release [of h p k] free assms(1) show ?thesis
      by (auto simp: heap_inv_def heap_limit_def)
  qed
next
  case (realloc p sz q)
  show ?thesis
  proof (cases "p = NULL \<or> sz = 0")
    case True
    then have "libmin_malloc sz h = Some (h', Inr q)" using realloc by (auto simp: libmin_realloc_def)
    then show ?thesis using heap_inv_malloc [OF assms(1), of sz h' q] realloc by simp
  next
    case False
    with realloc obtain k where p: "live h p = Some k" by auto
    have n: "0 < unat sz" "unat sz < 2 ^ 31" using False realloc by (auto simp: unat_gt_0)
    have i: "wf_heap h" "heap_limit h \<le> length (heap_mem h)" using assms(1) by (auto simp: heap_inv_def)
    show ?thesis
    proof (cases "unat sz \<le> k")
      case True
      then show ?thesis using realloc_ok [OF i p n] realloc assms(1) by simp
    next
      case False
      then obtain l where l: "wf_heap h'" "libmin.apart h q l" "unat sz \<le> l" "heap_mem h' = take q (heap_mem h) @
          take k (drop p (heap_mem h)) @ drop (q + k) (heap_mem h)" "heap_base h' = heap_base h"
        using realloc_ok [OF i p n] realloc by auto
      have "q + k \<le> length (heap_mem h)" "p + k \<le> length (heap_mem h)"
        using l(2,3) False i(2) live_bounds [OF i(1) p] by (auto simp: libmin.apart_def)
      then have len: "length (heap_mem h') = length (heap_mem h)" using l(4) by simp
      with l(1,5) assms(1) show ?thesis by (simp add: heap_inv_def heap_limit_def)
    qed
  qed
next
  case (calloc a b p)
  show ?thesis
  proof (cases "a = 0 \<or> b = 0")
    case True
    then show ?thesis using calloc assms(1) by (auto simp: libmin_calloc_def ok_def)
  next
    case False
    have i: "wf_heap h" "heap_limit h \<le> length (heap_mem h)" "length (heap_mem h) < 2 ^ 64"
      using assms(1) by (auto simp: heap_inv_def)
    from calloc_ok [OF i, of a b] False calloc obtain k where
      k: "wf_heap h'" "libmin.apart h p k" "unat a * unat b \<le> k"
        "heap_mem h' = take p (heap_mem h) @ replicate (unat a * unat b) 0 @
         drop (p + unat a * unat b) (heap_mem h)" "heap_base h' = heap_base h" by auto
    have "p + unat a * unat b \<le> length (heap_mem h)" using k(2,3) i(2) by (auto simp: libmin.apart_def)
    then have "length (heap_mem h') = length (heap_mem h)" using k(4) by simp
    with k(1,5) assms(1) show ?thesis by (simp add: heap_inv_def heap_limit_def)
  qed
next
  case (store m)
  then show ?thesis using assms(1) by (simp add: heap_inv_def wf_heap_def heap_ok_write heap_limit_def)
qed

lemma heap_inv_reachable: "heap_step\<^sup>*\<^sup>* h h' \<Longrightarrow> heap_inv h \<Longrightarrow> heap_inv h'"
  by (induction rule: rtranclp_induct) (auto intro: heap_inv_step)

section \<open>Sample heaps\<close>

definition one_block :: "mem \<Rightarrow> heap" where
  "one_block m = (initial_heap 64 m)\<lparr>head := 64, tail := 64, heap_ptr := 32,
     hdrs := [64 \<mapsto> \<lparr>hsize = 8, is_free = 0, next_hdr = NULL\<rparr>]\<rparr>"

definition two_blocks :: "mem \<Rightarrow> heap" where
  "two_blocks m = (initial_heap 64 m)\<lparr>head := 64, tail := 96, heap_ptr := 64,
     hdrs := [64 \<mapsto> \<lparr>hsize = 8, is_free = 0, next_hdr = 96\<rparr>,
              96 \<mapsto> \<lparr>hsize = 8, is_free = 0, next_hdr = NULL\<rparr>]\<rparr>"

lemma one_block_ok: "heap_ok (one_block m) [64]"
  by (simp add: one_block_def heap_ok_def initial_heap_def brk_def MAX_HEAP_def NULL_def)

lemma two_blocks_ok: "heap_ok (two_blocks m) [64, 96]"
  by (simp add: two_blocks_def heap_ok_def initial_heap_def brk_def MAX_HEAP_def NULL_def)

lemma initial_ok: "heap_ok (initial_heap 64 m) []"
  by (simp add: heap_ok_def initial_heap_def brk_def MAX_HEAP_def NULL_def)

lemma one_block_live: "live (one_block m) 88 = Some 8"
  unfolding live_iff [OF one_block_ok] by (simp add: blocks_def blk_of_def one_block_def)

lemma two_blocks_live: "live (two_blocks m) 88 = Some 8" "live (two_blocks m) 120 = Some 8"
  unfolding live_iff [OF two_blocks_ok] by (simp_all add: blocks_def blk_of_def two_blocks_def)

lemma two_blocks_reachable: "heap_step\<^sup>*\<^sup>* (initial_heap 64 m) (two_blocks m)"
proof -
  have sz: "malloc_size 8 = 8" by (simp add: malloc_size_def MALLOC_ALIGN_MASK_def)
  have g0: "get_free_block_loop 0 s h = Some 0" for s h
    by (subst get_free_block_loop.simps) (simp add: NULL_def)
  have g1: "get_free_block_loop 64 8 (one_block m) = Some 0"
    by (subst get_free_block_loop.simps) (simp add: one_block_def NULL_def g0)
  note eval = libmin_malloc_def sz seq_def get_free_block_def libtarg_sbrk_def append_hdr_def ok_def
    sizeof_memhdr_def MAX_HEAP_def put_hdr_def initial_heap_def NULL_def Let_def
    unsigned_minus_1_eq_mask mask_eq_exp_minus_1
  have "libmin_malloc 8 (initial_heap 64 m) = Some (one_block m, Inr 88)"
    using g0 by (simp add: eval one_block_def)
  moreover have "libmin_malloc 8 (one_block m) = Some (two_blocks m, Inr 120)"
    using g1 by (simp add: eval one_block_def two_blocks_def fun_upd_twist)
  moreover have small: "unat (8 :: u64) < 2 ^ 31" by simp
  ultimately show ?thesis
    by (meson heap_step.malloc [of 8] r_into_rtranclp rtranclp.rtrancl_into_rtrancl small)
qed

section \<open>Properties\<close>

text \<open>
  C23: for a request below 2 GiB, on the list of blocks malloc is first fit: it takes the first
  free block that is large enough for the request rounded up to eight bytes, else appends a block
  of exactly that size at the break, else (when the heap cannot grow by the block and its header)
  ends the program with status 1. Requests near 2^32 wrap the break pointer instead.
\<close>

theorem malloc_first_fit:
  assumes "heap_ok h xs" and "0 < unat sz" and "unat sz < 2 ^ 31"
  shows "case first_fit (round8 (unat sz)) (blocks h xs) of
      Some (bs, p) \<Rightarrow> \<exists>h'. libmin_malloc sz h = Some (h', Inr p) \<and> heap_ok h' xs \<and>
        blocks h' xs = bs \<and> brk h' = brk h
    | None \<Rightarrow> if brk h + 24 + round8 (unat sz) < heap_limit h
        then \<exists>h'. libmin_malloc sz h = Some (h', Inr (brk h + 24)) \<and> heap_ok h' (xs @ [brk h]) \<and>
          blocks h' (xs @ [brk h]) = blocks h xs @ [(brk h + 24, round8 (unat sz), False)] \<and>
          brk h' = brk h + 24 + round8 (unat sz)
        else \<exists>h'. libmin_malloc sz h = Some (h', Inl 1)"
proof -
  have r: "unat (malloc_size sz) = round8 (unat sz)" using assms(3) by (rule unat_malloc_size)
  have b: "0 < round8 (unat sz)" "round8 (unat sz) < 2 ^ 31 + 8"
    using round8 [of "unat sz"] assms(2,3) by auto
  have l: "layout (hdrs h) (heap_base h) xs (brk h)" using assms(1) by (simp add: heap_ok_def)
  note ff = first_fit_find [OF l heap_ok_distinct [OF assms(1)], of "malloc_size sz",
      folded blocks_def, unfolded r]
  show ?thesis
  proof (cases "find (fits (hdrs h) (malloc_size sz)) xs")
    case None
    then show ?thesis
      using ff malloc_grow [OF assms(1) None r b] by (auto simp: alloc_done_def heap_limit_def)
  next
    case (Some x)
    from heap_ok_mem [OF assms(1) find_mem [OF Some]] obtain c where "hdrs h x = Some c" by blast
    with ff Some obtain bs p where f: "first_fit (round8 (unat sz)) (blocks h xs) = Some (bs, p)" by simp
    have "malloc_size sz \<noteq> 0" using r b by auto
    from malloc_reuse [OF assms(1) Some this, unfolded r, OF f] f show ?thesis
      by (auto simp: alloc_done_def)
  qed
qed

theorem malloc_first_fit_witness:
  "heap_ok (initial_heap 64 []) [] \<and>
   (case first_fit (round8 (unat (5 :: u64))) (blocks (initial_heap 64 []) []) of
      Some (bs, p) \<Rightarrow> \<exists>h'. libmin_malloc 5 (initial_heap 64 []) = Some (h', Inr p) \<and> heap_ok h' [] \<and>
        blocks h' [] = bs \<and> brk h' = brk (initial_heap 64 [])
    | None \<Rightarrow> if brk (initial_heap 64 []) + 24 + round8 (unat (5 :: u64)) < heap_limit (initial_heap 64 [])
        then \<exists>h'. libmin_malloc 5 (initial_heap 64 []) = Some (h', Inr (brk (initial_heap 64 []) + 24)) \<and>
          heap_ok h' ([] @ [brk (initial_heap 64 [])]) \<and>
          blocks h' ([] @ [brk (initial_heap 64 [])]) = blocks (initial_heap 64 []) [] @
            [(brk (initial_heap 64 []) + 24, round8 (unat (5 :: u64)), False)] \<and>
          brk h' = brk (initial_heap 64 []) + 24 + round8 (unat (5 :: u64))
        else \<exists>h'. libmin_malloc 5 (initial_heap 64 []) = Some (h', Inl 1))"
proof
  show h: "heap_ok (initial_heap 64 []) []"
    by (simp add: heap_ok_def initial_heap_def brk_def MAX_HEAP_def NULL_def)
  show "case first_fit (round8 (unat (5 :: u64))) (blocks (initial_heap 64 []) []) of
      Some (bs, p) \<Rightarrow> \<exists>h'. libmin_malloc 5 (initial_heap 64 []) = Some (h', Inr p) \<and> heap_ok h' [] \<and>
        blocks h' [] = bs \<and> brk h' = brk (initial_heap 64 [])
    | None \<Rightarrow> if brk (initial_heap 64 []) + 24 + round8 (unat (5 :: u64)) < heap_limit (initial_heap 64 [])
        then \<exists>h'. libmin_malloc 5 (initial_heap 64 []) = Some (h', Inr (brk (initial_heap 64 []) + 24)) \<and>
          heap_ok h' ([] @ [brk (initial_heap 64 [])]) \<and>
          blocks h' ([] @ [brk (initial_heap 64 [])]) = blocks (initial_heap 64 []) [] @
            [(brk (initial_heap 64 []) + 24, round8 (unat (5 :: u64)), False)] \<and>
          brk h' = brk (initial_heap 64 []) + 24 + round8 (unat (5 :: u64))
        else \<exists>h'. libmin_malloc 5 (initial_heap 64 []) = Some (h', Inl 1)"
    by (rule malloc_first_fit [OF h]) simp_all
qed

text \<open>
  Free of a block in the list cuts it off when it is the last one, moving the break back to
  its header, and otherwise marks it free and keeps everything else; no byte changes.
\<close>

lemma free_gives_back:
  assumes "heap_ok h xs" and "x \<in> set xs"
  shows "\<exists>h'. libmin_free (x + 24) h = Some (h', Inr ()) \<and> heap_mem h' = heap_mem h \<and>
    (if x = last xs then heap_ok h' (butlast xs) \<and> blocks h' (butlast xs) = butlast (blocks h xs) \<and> brk h' = x
     else heap_ok h' xs \<and> blocks h' xs = mark_free (x + 24) (blocks h xs) \<and> brk h' = brk h)"
proof (cases "x = last xs")
  case True
  then obtain ys where ys: "xs = ys @ [x]" using assms(2) by (metis append_butlast_last_id empty_iff list.set(1))
  from heap_ok_mem [OF assms] obtain b where "hdrs h x = Some b" by blast
  with free_last [of h ys x b] assms(1) show ?thesis
    by (auto simp: ys alloc_done_def blocks_def)
next
  case False
  with free_mark [OF assms] show ?thesis by (auto simp: alloc_done_def)
qed

text \<open>
  C17: from the empty heap, after any sequence of malloc, calloc and realloc of sizes below 2 GiB
  and free, where realloc and free are given live blocks or the null pointer, and of writes that
  stay, in the heap, inside live blocks, every live block with its
  header lies inside the heap and apart from every other block with its header, live or free. So
  a write inside a live block changes no header and no other block.
\<close>

theorem allocator_invariant:
  assumes "heap_step\<^sup>*\<^sup>* (initial_heap base m) h" and "base \<noteq> NULL" and "base + 32768 \<le> length m"
    and "length m < 2 ^ 64" and "base + 2 ^ 32 < 2 ^ 64"
    and "live h p = Some k" and "block_at h x n" and "x \<noteq> p - 24"
  shows "(p + k \<le> x \<or> x + 24 + n \<le> p - 24) \<and> heap_base h + 24 \<le> p \<and> 0 < k \<and> p + k < heap_limit h"
proof -
  have "heap_inv h" using heap_inv_reachable [OF assms(1)] heap_inv_initial assms(2-5) by blast
  then have "wf_heap h" by (simp add: heap_inv_def)
  from live_block_apart [OF this assms(6-8)] live_bounds [OF this assms(6)] show ?thesis by auto
qed

theorem allocator_invariant_witness:
  "(88 + 8 \<le> (96 :: nat) \<or> 96 + 24 + 8 \<le> 88 - (24 :: nat)) \<and>
   heap_base (two_blocks (replicate 40000 0)) + 24 \<le> 88 \<and> 0 < (8 :: nat) \<and>
   88 + 8 < heap_limit (two_blocks (replicate 40000 0))"
proof (rule allocator_invariant [of 64 "replicate 40000 0"])
  show "block_at (two_blocks (replicate 40000 0)) 96 8"
    unfolding block_at_def
    by (intro exI [of _ "[64, 96]"] exI [of _ "\<lparr>hsize = 8, is_free = 0, next_hdr = NULL\<rparr>"] conjI, rule two_blocks_ok)
      (simp_all add: two_blocks_def)
qed (simp_all add: two_blocks_reachable two_blocks_live NULL_def)

text \<open>
  C38: libtarg_sbrk adds a 64-bit increment to a 32-bit heap pointer. A request of 2^32 - 24
  bytes, in a heap of 32768, therefore succeeds without moving the break, and the next request
  is given the same address: the two blocks overlap.
\<close>

theorem huge_request_overlaps:
  assumes "base \<noteq> NULL" and "base + 2 ^ 32 < 2 ^ 64"
  shows "\<exists>h1 h2. libmin_malloc (2 ^ 32 - 24) (initial_heap base m) = Some (h1, Inr (base + 24)) \<and>
    brk h1 = brk (initial_heap base m) \<and> libmin_malloc 8 h1 = Some (h2, Inr (base + 24))"
proof -
  let ?h1 = "(initial_heap base m)\<lparr>head := base, tail := base,
     hdrs := [base \<mapsto> \<lparr>hsize = 2 ^ 32 - 24, is_free = 0, next_hdr = NULL\<rparr>]\<rparr>"
  have ms: "malloc_size (2 ^ 32 - 24) = 2 ^ 32 - 24" "malloc_size 8 = 8"
    by (simp_all add: malloc_size_def MALLOC_ALIGN_MASK_def)
  have nm: "base \<noteq> unat (- 1 :: u64)"
    using assms(2) by (simp add: unsigned_minus_1_eq_mask mask_eq_exp_minus_1)
  have g1: "get_free_block_loop NULL sz h = Some NULL" for sz h
    by (subst get_free_block_loop.simps) simp
  have g2: "get_free_block_loop base 8 ?h1 = Some NULL"
    by (subst get_free_block_loop.simps) (use assms(1) g1 in \<open>simp\<close>)
  have "libmin_malloc (2 ^ 32 - 24) (initial_heap base m) = Some (?h1, Inr (base + 24))"
    using nm g1 ms(1) unfolding libmin_malloc_def
    by (simp add: seq_def get_free_block_def initial_heap_def libtarg_sbrk_def append_hdr_def
        ok_def sizeof_memhdr_def MAX_HEAP_def Let_def)
  moreover have "\<exists>h2. libmin_malloc 8 ?h1 = Some (h2, Inr (base + 24))"
    using nm g2 ms(2) assms(1) unfolding libmin_malloc_def
    by (simp add: seq_def get_free_block_def initial_heap_def libtarg_sbrk_def append_hdr_def
        ok_def sizeof_memhdr_def MAX_HEAP_def put_hdr_def Let_def)
  moreover have "brk ?h1 = brk (initial_heap base m)" by (simp add: brk_def initial_heap_def)
  ultimately show ?thesis by blast
qed

theorem huge_request_overlaps_witness:
  "\<exists>h1 h2. libmin_malloc (2 ^ 32 - 24) (initial_heap 64 []) = Some (h1, Inr (64 + 24)) \<and>
    brk h1 = brk (initial_heap 64 []) \<and> libmin_malloc 8 h1 = Some (h2, Inr (64 + 24))"
  by (rule huge_request_overlaps) (simp_all add: NULL_def)

text \<open>
  Calloc of a non-zero number of non-empty items below 2 GiB either ends the program for
  lack of room or returns a fresh block whose first \<open>num * nsize\<close> bytes are zero, with nothing
  else changed; and it returns the null pointer when the product does not fit in 64 bits.
\<close>

lemma calloc_zeroes:
  assumes "wf_heap h" and "heap_limit h \<le> length (heap_mem h)" and "length (heap_mem h) < 2 ^ 64"
    and "num \<noteq> 0" and "nsize \<noteq> 0"
  shows "if 2 ^ 64 \<le> unat num * unat nsize then libmin_calloc num nsize h = Some (h, Inr NULL)
    else unat num * unat nsize < 2 ^ 31 \<longrightarrow>
      (\<exists>h'. libmin_calloc num nsize h = Some (h', Inl 1)) \<or>
      (\<exists>h' p k. libmin_calloc num nsize h = Some (h', Inr p) \<and> wf_heap h' \<and>
         heap_base h' = heap_base h \<and> libmin.apart h p k \<and> unat num * unat nsize \<le> k \<and>
         live h' = (live h)(p \<mapsto> k) \<and>
         heap_mem h' = take p (heap_mem h) @ replicate (unat num * unat nsize) 0 @
           drop (p + unat num * unat nsize) (heap_mem h))"
proof (cases "2 ^ 64 \<le> unat num * unat nsize")
  case True
  then have "nsize \<noteq> num * nsize div num" using mul_overflow_check [OF assms(4), of nsize] by auto
  with True assms(4,5) show ?thesis by (simp add: libmin_calloc_def Let_def ok_def)
next
  case False
  with calloc_ok [OF assms] show ?thesis by simp
qed

text \<open>
  Realloc of a live block to a non-zero size below 2 GiB returns the block itself when it is
  large enough, and otherwise ends the program for lack of room or moves it: the result is a
  fresh large enough block that starts with all the bytes of the old one, which is freed.
\<close>

lemma realloc_moves:
  assumes "wf_heap h" and "heap_limit h \<le> length (heap_mem h)" and "live h p = Some k"
    and "0 < unat sz" and "unat sz < 2 ^ 31"
  shows "if unat sz \<le> k then libmin_realloc p sz h = Some (h, Inr p) else
    (\<exists>h'. libmin_realloc p sz h = Some (h', Inl 1)) \<or>
    (\<exists>h' q l. libmin_realloc p sz h = Some (h', Inr q) \<and> wf_heap h' \<and>
       heap_base h' = heap_base h \<and> libmin.apart h q l \<and> unat sz \<le> l \<and>
       live h' = (live h)(q \<mapsto> l, p := None) \<and>
       heap_mem h' = take q (heap_mem h) @ take k (drop p (heap_mem h)) @ drop (q + k) (heap_mem h))"
  using assms by (rule realloc_ok)

text \<open>
  Strdup of a string outside the heap fails only when the heap has no room for it, and
  otherwise returns a fresh block that holds an equal string; the original is unchanged.
\<close>

lemma strdup_copies:
  assumes "wf_heap h" and "heap_limit h \<le> length (heap_mem h)" and "cstr (heap_mem h) s xs"
    and "s \<noteq> NULL" and "Suc (length xs) < 2 ^ 31" and "s + length xs < heap_base h \<or> heap_limit h \<le> s"
  shows "(\<exists>h'. libmin_strdup s h = Some (h', Inl 1)) \<and>
       heap_limit h \<le> brk h + 24 + round8 (Suc (length xs)) \<or>
    (\<exists>h' p k. libmin_strdup s h = Some (h', Inr p) \<and> wf_heap h' \<and> libmin.apart h p k \<and>
       length xs < k \<and> live h' = (live h)(p \<mapsto> k) \<and> cstr (heap_mem h') p xs \<and> cstr (heap_mem h') s xs)"
  using assms by (rule strdup_ok)

end
