(* ===== verification/Libmin_Qsort.thy ===== *)
theory Libmin_Qsort
  imports Libmin_Alloc
begin

text \<open>
  The sorting routine of the benchmark library (src/bringup-bench/common/libmin_qsort.c): an
  in-place quicksort with the Hoare partition scheme over elements of any size. The pivot and
  the temporary of every exchange are blocks of the allocator. The comparison function is an
  argument that reads the memory through two pointers.
\<close>

section \<open>Definitions\<close>

type_synonym comparison = "mem \<Rightarrow> nat \<Rightarrow> nat \<Rightarrow> int option"

definition qsort_swap :: "nat \<Rightarrow> nat \<Rightarrow> u64 \<Rightarrow> unit prog" where
  "qsort_swap a b esize =
     seq (libmin_malloc esize) (\<lambda>tmp.
     if tmp = NULL then fail 1 else
     seq (on_mem (libmin_memcpy tmp a (unat esize))) (\<lambda>_.
     seq (on_mem (libmin_memcpy a b (unat esize))) (\<lambda>_.
     seq (on_mem (libmin_memcpy b tmp (unat esize))) (\<lambda>_.
     libmin_free tmp))))"

text \<open>The two inner loops move the indices; both step before they compare.\<close>

function scan_up :: "comparison \<Rightarrow> nat \<Rightarrow> nat \<Rightarrow> nat \<Rightarrow> nat \<Rightarrow> nat \<Rightarrow> mem \<Rightarrow> nat option" where
  "scan_up compar base n pivot high i m =
     (let i = i + 1 in
      if i \<le> high then
        (case compar m (base + i * n) pivot of None \<Rightarrow> None
         | Some r \<Rightarrow> if r < 0 then scan_up compar base n pivot high i m else Some i)
      else Some i)"
  by auto
termination
  by (relation "measure (\<lambda>(compar, base, n, pivot, high, i, m). high - i)") auto

fun scan_down :: "comparison \<Rightarrow> nat \<Rightarrow> nat \<Rightarrow> nat \<Rightarrow> nat \<Rightarrow> mem \<Rightarrow> nat option" where
  "scan_down compar base n pivot 0 m = None"
| "scan_down compar base n pivot (Suc j) m =
     (case compar m (base + j * n) pivot of None \<Rightarrow> None
      | Some r \<Rightarrow> if r > 0 then scan_down compar base n pivot j m else Some j)"

lemma scan_down_less: "scan_down compar base n pivot j m = Some j' \<Longrightarrow> j' < j"
  by (induction compar base n pivot j m rule: scan_down.induct) (auto split: option.splits if_splits)

function part_loop :: "comparison \<Rightarrow> nat \<Rightarrow> u64 \<Rightarrow> nat \<Rightarrow> nat \<Rightarrow> nat \<Rightarrow> nat \<Rightarrow> nat prog" where
  "part_loop compar base esize pivot high i j h =
     (case scan_up compar base (unat esize) pivot high i (heap_mem h) of None \<Rightarrow> None
      | Some i \<Rightarrow>
     (case scan_down compar base (unat esize) pivot j (heap_mem h) of None \<Rightarrow> None
      | Some j \<Rightarrow>
        if i \<ge> j then ok j h else
     (case qsort_swap (base + i * unat esize) (base + j * unat esize) esize h of None \<Rightarrow> None
      | Some (h, Inl e) \<Rightarrow> Some (h, Inl e)
      | Some (h, Inr _) \<Rightarrow> part_loop compar base esize pivot high i j h)))"
  by auto
termination
  by (relation "measure (\<lambda>(compar, base, esize, pivot, high, i, j, h). j)")
    (auto dest: scan_down_less)

definition qsort_partition :: "comparison \<Rightarrow> nat \<Rightarrow> nat \<Rightarrow> nat \<Rightarrow> u64 \<Rightarrow> nat prog" where
  "qsort_partition compar base low high esize =
     seq (libmin_malloc esize) (\<lambda>pivot.
     if pivot = NULL then fail 1 else
     seq (on_mem (libmin_memcpy pivot (base + low * unat esize) (unat esize))) (\<lambda>_.
     seq (part_loop compar base esize pivot high low (high + 1)) (\<lambda>j.
     seq (qsort_swap (base + low * unat esize) (base + j * unat esize) esize) (\<lambda>_.
     seq (libmin_free pivot) (\<lambda>_. ok j)))))"

text \<open>The recursion is a least fixed point, so a call that did not return would be None.\<close>

lemma seq_mono [partial_function_mono]:
  assumes "\<And>h. mono_option (\<lambda>f. p f h)" and "\<And>a h. mono_option (\<lambda>f. q f a h)"
  shows "mono_option (\<lambda>f. seq (p f) (q f) h)"
proof -
  have "seq (p f) (q f) h = Option.bind (p f h) (\<lambda>(h', r). case r of Inl e \<Rightarrow> Some (h', Inl e) | Inr a \<Rightarrow> q f a h')"
    for f by (auto simp: seq_def split: option.splits sum.splits)
  moreover have "mono_option (\<lambda>f. Option.bind (p f h)
      (\<lambda>(h', r). case r of Inl e \<Rightarrow> Some (h', Inl e) | Inr a \<Rightarrow> q f a h'))"
  proof (intro bind_mono assms(1))
    fix y
    show "mono_option (\<lambda>f. case y of (h', r) \<Rightarrow> (case r of Inl e \<Rightarrow> Some (h', Inl e) | Inr a \<Rightarrow> q f a h'))"
      by (cases y; cases "snd y") (auto intro: assms(2) option.const_mono)
  qed
  ultimately show ?thesis by simp
qed

partial_function (option) qsort_internal ::
  "comparison \<Rightarrow> nat \<Rightarrow> nat \<Rightarrow> nat \<Rightarrow> u64 \<Rightarrow> heap \<Rightarrow> (heap \<times> (int + unit)) option" where
  "qsort_internal compar base low high esize h =
     (if low \<ge> high then ok () h else
      seq (qsort_partition compar base low high esize) (\<lambda>j.
      seq (\<lambda>h. if j > 0 then qsort_internal compar base low (j - 1) esize h else ok () h) (\<lambda>_.
      qsort_internal compar base (j + 1) high esize)) h)"

definition libmin_qsort :: "nat \<Rightarrow> u64 \<Rightarrow> u64 \<Rightarrow> comparison \<Rightarrow> unit prog" where
  "libmin_qsort base nmemb esize compar =
     (if nmemb < 2 then ok () else qsort_internal compar base 0 (unat nmemb - 1) esize)"

declare scan_up.simps [simp del] scan_down.simps [simp del] part_loop.simps [simp del]

end
