(* ===== verification/Libmin_Sorting.thy ===== *)
theory Libmin_Sorting
  imports Libmin_Qsort "HOL-Library.Multiset"
begin

text \<open>
  Correctness of the quicksort of the benchmark library: rearrangements of a range of a list,
  the exchange of two elements in memory through an allocated temporary, the contract of a
  comparison function as a locale, the Hoare partition and the recursion.
\<close>

section \<open>Rearranging a range of a list\<close>

definition rearr :: "nat \<Rightarrow> nat \<Rightarrow> 'a list \<Rightarrow> 'a list \<Rightarrow> bool" where
  "rearr lo hi xs ys \<longleftrightarrow> length ys = length xs \<and> mset ys = mset xs \<and>
     (\<forall>k < length xs. k < lo \<or> hi \<le> k \<longrightarrow> ys ! k = xs ! k)"

lemma rearr_refl [simp]: "rearr lo hi xs xs"
  by (simp add: rearr_def)

lemma rearr_trans: "rearr lo hi xs ys \<Longrightarrow> rearr lo hi ys zs \<Longrightarrow> rearr lo hi xs zs"
  by (auto simp: rearr_def)

lemma rearr_widen: "rearr lo hi xs ys \<Longrightarrow> lo' \<le> lo \<Longrightarrow> hi \<le> hi' \<Longrightarrow> rearr lo' hi' xs ys"
  by (auto simp: rearr_def)

lemma rearr_outside: "rearr lo hi xs ys \<Longrightarrow> k < length xs \<Longrightarrow> k < lo \<or> hi \<le> k \<Longrightarrow> ys ! k = xs ! k"
  by (auto simp: rearr_def)

definition exchange :: "nat \<Rightarrow> nat \<Rightarrow> 'a list \<Rightarrow> 'a list" where
  "exchange i j xs = xs[i := xs ! j, j := xs ! i]"

lemma rearr_exchange:
  "lo \<le> i \<Longrightarrow> i < hi \<Longrightarrow> lo \<le> j \<Longrightarrow> j < hi \<Longrightarrow> hi \<le> length xs \<Longrightarrow> rearr lo hi xs (exchange i j xs)"
  by (auto simp: rearr_def exchange_def mset_swap)

lemma rearr_split:
  assumes "rearr lo hi xs ys" "lo \<le> hi" "hi \<le> length xs"
  shows "mset (take (hi - lo) (drop lo ys)) = mset (take (hi - lo) (drop lo xs))"
proof -
  have split: "zs = take lo zs @ take (hi - lo) (drop lo zs) @ drop hi zs" for zs :: "'a list"
    using assms(2) by (metis append_take_drop_id drop_drop le_add_diff_inverse2)
  have "take lo ys = take lo xs" "drop hi ys = drop hi xs"
    using assms by (auto simp: rearr_def intro!: nth_equalityI)
  moreover have "mset (take lo ys) + mset (take (hi - lo) (drop lo ys)) + mset (drop hi ys) =
    mset (take lo xs) + mset (take (hi - lo) (drop lo xs)) + mset (drop hi xs)"
    using assms(1) split [of xs] split [of ys] by (metis rearr_def mset_append add.assoc)
  ultimately show ?thesis by simp
qed

text \<open>An element of the range comes from the range.\<close>

lemma rearr_inside:
  assumes "rearr lo hi xs ys" "lo \<le> k" "k < hi" "hi \<le> length xs"
  obtains l where "lo \<le> l" "l < hi" "ys ! k = xs ! l"
proof -
  let ?f = "\<lambda>zs. take (hi - lo) (drop lo zs)"
  have l: "length ys = length xs" using assms(1) by (simp add: rearr_def)
  have "ys ! k = ?f ys ! (k - lo)" "k - lo < length (?f ys)" using assms(2-4) l by auto
  then have "ys ! k \<in> set (?f ys)" by (metis nth_mem)
  also have "set (?f ys) = set (?f xs)"
    using rearr_split [OF assms(1)] assms(2-4) by (metis le_trans less_or_eq_imp_le set_mset_mset)
  finally obtain n where "n < length (?f xs)" "ys ! k = ?f xs ! n" by (metis in_set_conv_nth)
  then show thesis using assms(2-4) that [of "lo + n"] by auto
qed

section \<open>Exchanging two elements in memory\<close>

text \<open>The addresses a caller may rely on: outside the heap, or in a live block.\<close>

definition owned :: "heap \<Rightarrow> nat \<Rightarrow> bool" where
  "owned h a \<longleftrightarrow> a < heap_base h \<or> heap_limit h \<le> a \<or> (\<exists>q l. live h q = Some l \<and> q \<le> a \<and> a < q + l)"

definition keeps_except :: "nat set \<Rightarrow> heap \<Rightarrow> heap \<Rightarrow> bool" where
  "keeps_except R h h' \<longleftrightarrow> wf_heap h' \<and> live h' = live h \<and> heap_base h' = heap_base h \<and>
     brk h' \<le> brk h \<and> length (heap_mem h') = length (heap_mem h) \<and>
     (\<forall>a < length (heap_mem h). owned h a \<and> a \<notin> R \<longrightarrow> heap_mem h' ! a = heap_mem h ! a)"

lemma owned_cong: "live h' = live h \<Longrightarrow> heap_base h' = heap_base h \<Longrightarrow> owned h' = owned h"
  by (simp add: owned_def heap_limit_def fun_eq_iff)

lemma keeps_except_refl: "wf_heap h \<Longrightarrow> keeps_except R h h"
  by (simp add: keeps_except_def)

lemma keeps_except_trans:
  assumes "keeps_except R h h'" "keeps_except R h' h''"
  shows "keeps_except R h h''"
  using assms owned_cong [of h' h] by (auto simp: keeps_except_def)

lemma keeps_except_mono: "keeps_except R h h' \<Longrightarrow> R \<subseteq> S \<Longrightarrow> keeps_except S h h'"
  by (auto simp: keeps_except_def)

definition bytes_at :: "nat \<Rightarrow> nat \<Rightarrow> 'a list \<Rightarrow> 'a list" where
  "bytes_at a n m = take n (drop a m)"

lemma bytes_at_eq_iff:
  "a + n \<le> length m \<Longrightarrow> b + n \<le> length m' \<Longrightarrow>
   bytes_at a n m = bytes_at b n m' \<longleftrightarrow> (\<forall>i < n. m ! (a + i) = m' ! (b + i))"
  by (auto simp: bytes_at_def list_eq_iff_nth_eq)

lemma ld_bytes_at: "a + n \<le> length m \<Longrightarrow> ld_bytes m a n = Some (bytes_at a n m)"
  by (simp add: ld_bytes_def bytes_at_def)

text \<open>A copy onto itself, downwards or between separate ranges.\<close>

lemma memcpy_copies:
  assumes "s + n \<le> length m" "d + n \<le> length m" "d \<le> s \<or> s + n \<le> d"
  shows "\<exists>m'. libmin_memcpy d s n m = Some (m', d) \<and> length m' = length m \<and>
    bytes_at d n m' = bytes_at s n m \<and> (\<forall>a < length m. a < d \<or> d + n \<le> a \<longrightarrow> m' ! a = m ! a)"
proof -
  have l: "length (bytes_at s n m) = n" using assms(1) by (simp add: bytes_at_def)
  have "memcpy_loop d s n m = st_bytes m d (bytes_at s n m)"
    using assms by (intro memcpy_loop_st_bytes) (simp_all add: ld_bytes_at)
  moreover obtain m' where m': "st_bytes m d (bytes_at s n m) = Some m'"
    using st_bytes_Some [of d "bytes_at s n m" m] l assms(2) by auto
  ultimately have "libmin_memcpy d s n m = Some (m', d)" by (simp add: libmin_memcpy_def)
  moreover from m' have "length m' = length m \<and> bytes_at d n m' = bytes_at s n m \<and>
    (\<forall>a < length m. a < d \<or> d + n \<le> a \<longrightarrow> m' ! a = m ! a)"
    using l assms by (auto simp: st_bytes_iff bytes_at_def list_eq_iff_nth_eq)
  ultimately show ?thesis by blast
qed

lemma apart_owned:
  assumes "libmin.apart h p k" "owned h a"
  shows "a < p \<or> p + k \<le> a"
  using assms unfolding libmin.apart_def owned_def by (meson le_trans not_le)

lemma wf_heap_write [simp]: "wf_heap (h\<lparr>heap_mem := m\<rparr>) = wf_heap h"
  by (simp add: wf_heap_def heap_ok_write)

lemma bytes_at_cong:
  "length m' = length m \<Longrightarrow> a + n \<le> length m \<Longrightarrow> (\<And>i. a \<le> i \<Longrightarrow> i < a + n \<Longrightarrow> m' ! i = m ! i) \<Longrightarrow>
   bytes_at a n m' = bytes_at a n m"
  by (simp add: bytes_at_eq_iff)

lemma owned_apart:
  fixes a n t :: nat
  assumes "\<forall>i. a \<le> i \<and> i < a + n \<longrightarrow> P i" "0 < n" "\<And>i. P i \<Longrightarrow> i < t \<or> t + n \<le> i"
  shows "a + n \<le> t \<or> t + n \<le> a"
proof (rule ccontr)
  assume c: "\<not> ?thesis"
  show False
  proof (cases "a \<le> t")
    case True
    with c assms(1) have "P t" by simp
    from assms(3) [OF this] assms(2) show False by simp
  next
    case False
    from assms(1,2) have "P a" by simp
    from assms(3) [OF this] False c show False by simp
  qed
qed

lemma qsort_swap_ok:
  fixes esize :: u64
  defines "n \<equiv> unat esize"
  assumes h: "wf_heap h" and lim: "heap_limit h \<le> length (heap_mem h)"
    and n: "0 < n" "n < 2 ^ 31" and room: "brk h + 24 + round8 n < heap_limit h"
    and a: "a + n \<le> length (heap_mem h)" "\<forall>i. a \<le> i \<and> i < a + n \<longrightarrow> owned h i"
    and b: "b + n \<le> length (heap_mem h)" "\<forall>i. b \<le> i \<and> i < b + n \<longrightarrow> owned h i"
    and ab: "a = b \<or> a + n \<le> b \<or> b + n \<le> a"
  shows "\<exists>h'. qsort_swap a b esize h = Some (h', Inr ()) \<and>
    keeps_except ({a..<a + n} \<union> {b..<b + n}) h h' \<and>
    bytes_at a n (heap_mem h') = bytes_at b n (heap_mem h) \<and> bytes_at b n (heap_mem h') = bytes_at a n (heap_mem h)"
proof -
  obtain h1 t where alloc: "libmin_malloc esize h = Some (h1, Inr t)"
    using libmin.alloc_no_room [OF h, of esize] n room by (auto simp: n_def)
  from libmin.alloc_apart [OF h n [unfolded n_def] alloc] obtain k where
    k: "n \<le> k" "libmin.apart h t k" "heap_mem h1 = heap_mem h"
    "heap_base h1 = heap_base h" unfolding n_def by blast
  have t: "t \<noteq> NULL" "t + n \<le> length (heap_mem h)"
    using k(1,2) lim by (auto simp: libmin.apart_def NULL_def)
  have ta: "i < t \<or> t + n \<le> i" if "owned h i" for i using apart_owned [OF k(2) that] k(1) by linarith
  have at: "a + n \<le> t \<or> t + n \<le> a" by (rule owned_apart [OF a(2) n(1) ta])
  have bt: "b + n \<le> t \<or> t + n \<le> b" by (rule owned_apart [OF b(2) n(1) ta])
  let ?m = "heap_mem h"
  obtain m1 where m1: "libmin_memcpy t a n ?m = Some (m1, t)" "length m1 = length ?m"
    "bytes_at t n m1 = bytes_at a n ?m" "\<forall>i < length ?m. i < t \<or> t + n \<le> i \<longrightarrow> m1 ! i = ?m ! i"
    using memcpy_copies [of a n ?m t] a(1) t(2) at by auto
  obtain m2 where m2: "libmin_memcpy a b n m1 = Some (m2, a)" "length m2 = length m1"
    "bytes_at a n m2 = bytes_at b n m1" "\<forall>i < length m1. i < a \<or> a + n \<le> i \<longrightarrow> m2 ! i = m1 ! i"
    using memcpy_copies [of b n m1 a] a(1) b(1) ab m1(2) by auto
  obtain m3 where m3: "libmin_memcpy b t n m2 = Some (m3, b)" "length m3 = length m2"
    "bytes_at b n m3 = bytes_at t n m2" "\<forall>i < length m2. i < b \<or> b + n \<le> i \<longrightarrow> m3 ! i = m2 ! i"
    using memcpy_copies [of t n m2 b] b(1) t(2) bt m1(2) m2(2) by auto
  have len: "length m3 = length ?m" using m1(2) m2(2) m3(2) by simp
  have tm: "bytes_at t n m2 = bytes_at a n ?m"
    using bytes_at_cong [of m2 m1 t n] m1(2,3) m2(2,4) t(2) at by auto
  then have sb: "bytes_at b n m3 = bytes_at a n ?m" using m3(3) by simp
  have "bytes_at b n m1 = bytes_at b n ?m" using bytes_at_cong [of m1 ?m b n] m1(2,4) b(1) bt by auto
  then have "bytes_at a n m2 = bytes_at b n ?m" using m2(3) by simp
  moreover have "bytes_at a n m3 = bytes_at a n m2" if "a \<noteq> b"
    using bytes_at_cong [of m3 m2 a n] m1(2) m2(2) m3(2,4) a(1) ab that by auto
  ultimately have sa: "bytes_at a n m3 = bytes_at b n ?m" using sb by (cases "a = b") auto
  have rest: "m3 ! i = ?m ! i" if "i < length ?m" "owned h i" "i \<notin> {a..<a + n} \<union> {b..<b + n}" for i
    using that ta [of i] m1(2,4) m2(2,4) m3(4) by auto
  from libmin.scratch [OF h n [unfolded n_def] alloc, of m3] obtain h2 where
    h2: "libmin_free t (h1\<lparr>heap_mem := m3\<rparr>) = Some (h2, Inr ())" "wf_heap h2" "live h2 = live h"
    "heap_mem h2 = m3" "heap_base h2 = heap_base h" "brk h2 \<le> brk h" by blast
  have "qsort_swap a b esize h = Some (h2, Inr ())"
    using alloc t(1) m1(1) m2(1) m3(1) h2(1) k(3)
    by (simp add: qsort_swap_def seq_def on_mem_def n_def [symmetric])
  moreover have "keeps_except ({a..<a + n} \<union> {b..<b + n}) h h2"
    using h2 len rest by (simp add: keeps_except_def)
  ultimately show ?thesis using sa sb h2(4) by auto
qed

section \<open>The elements of an array\<close>

definition elems :: "nat \<Rightarrow> nat \<Rightarrow> nat \<Rightarrow> mem \<Rightarrow> u8 list list" where
  "elems base n k m = map (\<lambda>i. bytes_at (base + i * n) n m) [0..<k]"

lemma elems_nth [simp]: "i < k \<Longrightarrow> elems base n k m ! i = bytes_at (base + i * n) n m"
  by (simp add: elems_def)

lemma length_elems [simp]: "length (elems base n k m) = k"
  by (simp add: elems_def)

definition array_ok :: "nat \<Rightarrow> nat \<Rightarrow> nat \<Rightarrow> heap \<Rightarrow> bool" where
  "array_ok base n k h \<longleftrightarrow> wf_heap h \<and> heap_limit h \<le> length (heap_mem h) \<and>
     base + k * n \<le> length (heap_mem h) \<and> (\<forall>a. base \<le> a \<and> a < base + k * n \<longrightarrow> owned h a)"

lemma array_ok_keeps: "array_ok base n k h \<Longrightarrow> keeps_except R h h' \<Longrightarrow> array_ok base n k h'"
  using owned_cong [of h' h] by (simp add: array_ok_def keeps_except_def heap_limit_def)

lemma elem_end: "i < k \<Longrightarrow> base + i * n + n \<le> base + k * (n :: nat)"
  using mult_le_mono1 [of "Suc i" k n] by simp

lemma elem_apart: "i < j \<Longrightarrow> base + i * n + n \<le> base + j * (n :: nat)"
  by (rule elem_end)

lemma qsort_swap_elems:
  fixes esize :: u64
  defines "n \<equiv> unat esize"
  assumes a: "array_ok base n k h" and n: "0 < n" "n < 2 ^ 31"
    and room: "brk h + 24 + round8 n < heap_limit h" and ij: "i < k" "j < k"
  shows "\<exists>h'. qsort_swap (base + i * n) (base + j * n) esize h = Some (h', Inr ()) \<and>
    keeps_except {base..<base + k * n} h h' \<and>
    elems base n k (heap_mem h') = exchange i j (elems base n k (heap_mem h))"
proof -
  let ?R = "{base..<base + k * n}"
  note ends = elem_end [OF ij(1), of base n] elem_end [OF ij(2), of base n]
  have sep: "base + x * n + n \<le> base + y * n \<or> base + y * n + n \<le> base + x * n" if "x \<noteq> y" for x y
    using that elem_apart [of x y base n] elem_apart [of y x base n] by (cases "x < y") auto
  have "base + i * n = base + j * n \<or> base + i * n + n \<le> base + j * n \<or> base + j * n + n \<le> base + i * n"
    using sep [of i j] by (cases "i = j") auto
  moreover have "\<forall>a. base + x * n \<le> a \<and> a < base + x * n + n \<longrightarrow> owned h a" if "x < k" for x
    using a elem_end [OF that, of base n] by (auto simp: array_ok_def)
  ultimately obtain h' where h': "qsort_swap (base + i * n) (base + j * n) esize h = Some (h', Inr ())"
    "keeps_except ({base + i * n..<base + i * n + n} \<union> {base + j * n..<base + j * n + n}) h h'"
    "bytes_at (base + i * n) n (heap_mem h') = bytes_at (base + j * n) n (heap_mem h)"
    "bytes_at (base + j * n) n (heap_mem h') = bytes_at (base + i * n) n (heap_mem h)"
    using qsort_swap_ok [of h esize "base + i * n" "base + j * n"] a n room ij ends
    unfolding n_def [symmetric] array_ok_def by fastforce
  have len: "length (heap_mem h') = length (heap_mem h)" using h'(2) by (simp add: keeps_except_def)
  have other: "bytes_at (base + x * n) n (heap_mem h') = bytes_at (base + x * n) n (heap_mem h)"
    if x: "x < k" "x \<noteq> i" "x \<noteq> j" for x
  proof (rule bytes_at_cong [OF len])
    note e = elem_end [OF x(1), of base n]
    show "base + x * n + n \<le> length (heap_mem h)" using e a by (simp add: array_ok_def)
    fix y assume y: "base + x * n \<le> y" "y < base + x * n + n"
    then have "owned h y" "y < length (heap_mem h)" using a e by (auto simp: array_ok_def)
    moreover have "y \<notin> {base + i * n..<base + i * n + n} \<union> {base + j * n..<base + j * n + n}"
      using y sep [OF x(2)] sep [OF x(3)] by auto
    ultimately show "heap_mem h' ! y = heap_mem h ! y" using h'(2) by (simp add: keeps_except_def)
  qed
  have "elems base n k (heap_mem h') = exchange i j (elems base n k (heap_mem h))"
  proof (rule nth_equalityI)
    fix x assume "x < length (elems base n k (heap_mem h'))"
    then show "elems base n k (heap_mem h') ! x = exchange i j (elems base n k (heap_mem h)) ! x"
      using h'(3,4) other [of x] ij by (cases "x = i"; cases "x = j") (simp_all add: exchange_def nth_list_update)
  qed (simp add: exchange_def)
  moreover have "keeps_except ?R h h'"
    using h'(2) ends by (rule_tac keeps_except_mono) auto
  ultimately show ?thesis using h'(1) by blast
qed

section \<open>The contract of a comparison function\<close>

text \<open>
  What qsort relies on: the result depends only on the bytes of the two elements, and its sign
  is that of a strict weak order.
\<close>

locale comparator =
  fixes n :: nat and compar :: comparison and lt :: "u8 list \<Rightarrow> u8 list \<Rightarrow> bool"
  assumes reads: "p + n \<le> length m \<Longrightarrow> q + n \<le> length m \<Longrightarrow>
      \<exists>v. compar m p q = Some v \<and> (v < 0 \<longleftrightarrow> lt (bytes_at p n m) (bytes_at q n m)) \<and>
        (0 < v \<longleftrightarrow> lt (bytes_at q n m) (bytes_at p n m))"
    and asym: "lt x y \<Longrightarrow> \<not> lt y x"
    and negtrans: "\<not> lt y x \<Longrightarrow> \<not> lt z y \<Longrightarrow> \<not> lt z x"
begin

lemma scan_up_ok:
  assumes "pivot + n \<le> length m" "base + k * n \<le> length m" "high < k" "i \<le> high"
  shows "\<exists>i'. scan_up compar base n pivot high i m = Some i' \<and> i < i' \<and> i' \<le> high + 1 \<and>
    (\<forall>x. i < x \<and> x < i' \<longrightarrow> lt (elems base n k m ! x) (bytes_at pivot n m)) \<and>
    (i' \<le> high \<longrightarrow> \<not> lt (elems base n k m ! i') (bytes_at pivot n m))"
  using assms(4)
proof (induction "high - i" arbitrary: i rule: less_induct)
  case less
  show ?case
  proof (cases "i < high")
    case True
    then have k: "i + 1 < k" using assms(3) by simp
    from reads [of "base + (i + 1) * n" m pivot] elem_end [OF k, of base n] assms(1,2)
    obtain v where v: "compar m (base + (i + 1) * n) pivot = Some v"
      "v < 0 \<longleftrightarrow> lt (elems base n k m ! (i + 1)) (bytes_at pivot n m)" using k by auto
    show ?thesis
    proof (cases "v < 0")
      case neg: True
      have "high - (i + 1) < high - i" "i + 1 \<le> high" using True by auto
      from less.hyps [OF this] obtain i' where i': "scan_up compar base n pivot high (i + 1) m = Some i'"
        "i + 1 < i'" "i' \<le> high + 1" "\<forall>x. i + 1 < x \<and> x < i' \<longrightarrow> lt (elems base n k m ! x) (bytes_at pivot n m)"
        "i' \<le> high \<longrightarrow> \<not> lt (elems base n k m ! i') (bytes_at pivot n m)" by blast
      have "scan_up compar base n pivot high i m = Some i'"
        using i'(1) v(1) neg True by (subst scan_up.simps) simp
      moreover have "lt (elems base n k m ! x) (bytes_at pivot n m)" if "i < x" "x < i'" for x
        using i'(4) v(2) neg that by (cases "x = i + 1") auto
      ultimately show ?thesis using i' by (intro exI [of _ i']) auto
    next
      case False
      then have "scan_up compar base n pivot high i m = Some (i + 1)"
        using v(1) True by (subst scan_up.simps) simp
      with v(2) False True show ?thesis by (intro exI [of _ "i + 1"]) auto
    qed
  next
    case False
    then have "scan_up compar base n pivot high i m = Some (i + 1)"
      by (subst scan_up.simps) simp
    with False less.prems show ?thesis by (intro exI [of _ "i + 1"]) auto
  qed
qed

lemma scan_down_ok:
  assumes "pivot + n \<le> length m" "base + k * n \<le> length m" "low < j" "j \<le> k"
    and "\<not> lt (bytes_at pivot n m) (elems base n k m ! low)"
  shows "\<exists>j'. scan_down compar base n pivot j m = Some j' \<and> low \<le> j' \<and> j' < j \<and>
    (\<forall>x. j' < x \<and> x < j \<longrightarrow> lt (bytes_at pivot n m) (elems base n k m ! x)) \<and>
    \<not> lt (bytes_at pivot n m) (elems base n k m ! j')"
  using assms(3,4)
proof (induction j)
  case (Suc j)
  then have k: "j < k" by simp
  from reads [of "base + j * n" m pivot] elem_end [OF k, of base n] assms(1,2)
  obtain v where v: "compar m (base + j * n) pivot = Some v"
    "0 < v \<longleftrightarrow> lt (bytes_at pivot n m) (elems base n k m ! j)" using k by auto
  show ?case
  proof (cases "0 < v")
    case True
    then have "low < j" using v(2) assms(5) Suc.prems by (cases "j = low") auto
    with Suc k obtain j' where j': "scan_down compar base n pivot j m = Some j'" "low \<le> j'" "j' < j"
      "\<forall>x. j' < x \<and> x < j \<longrightarrow> lt (bytes_at pivot n m) (elems base n k m ! x)"
      "\<not> lt (bytes_at pivot n m) (elems base n k m ! j')" by auto
    moreover have "lt (bytes_at pivot n m) (elems base n k m ! x)" if "j' < x" "x < Suc j" for x
      using j'(4) v(2) True that by (cases "x = j") auto
    ultimately show ?thesis using v(1) True by (intro exI [of _ j']) (auto simp: scan_down.simps)
  next
    case False
    with v Suc.prems show ?thesis by (intro exI [of _ j]) (auto simp: scan_down.simps)
  qed
qed simp

text \<open>The loop invariant: up to i nothing is above the pivot, from j on nothing below it.\<close>

definition parted :: "u8 list \<Rightarrow> nat \<Rightarrow> nat \<Rightarrow> nat \<Rightarrow> nat \<Rightarrow> u8 list list \<Rightarrow> bool" where
  "parted p low high i j A \<longleftrightarrow> (\<forall>x. low < x \<and> x \<le> i \<longrightarrow> \<not> lt p (A ! x)) \<and>
     (\<forall>x. j \<le> x \<and> x \<le> high \<longrightarrow> \<not> lt (A ! x) p)"

lemma parted_exchange:
  assumes "parted p low high i j A" "low < i'" "i < i'" "i' < j'" "j' < j" "j \<le> high + 1" "high < length A"
    and "\<forall>x. i < x \<and> x < i' \<longrightarrow> lt (A ! x) p" "\<forall>x. j' < x \<and> x < j \<longrightarrow> lt p (A ! x)"
    and "\<not> lt (A ! i') p" "\<not> lt p (A ! j')"
  shows "parted p low high i' j' (exchange i' j' A)"
proof -
  have l: "\<not> lt p (exchange i' j' A ! x)" if "low < x" "x \<le> i'" for x
  proof (cases "x \<le> i")
    case True
    with that assms show ?thesis by (simp add: parted_def exchange_def)
  next
    case False
    with that assms asym [of "A ! x" p] show ?thesis by (cases "x = i'") (simp_all add: exchange_def)
  qed
  have h: "\<not> lt (exchange i' j' A ! x) p" if "j' \<le> x" "x \<le> high" for x
  proof (cases "j \<le> x")
    case True
    with that assms show ?thesis by (simp add: parted_def exchange_def)
  next
    case False
    with that assms asym [of p "A ! x"] show ?thesis by (cases "x = j'") (simp_all add: exchange_def)
  qed
  from l h show ?thesis by (simp add: parted_def)
qed

definition roomy :: "heap \<Rightarrow> bool" where
  "roomy h \<longleftrightarrow> brk h + 24 + round8 n < heap_limit h"

lemma roomy_keeps: "roomy h \<Longrightarrow> keeps_except R h h' \<Longrightarrow> roomy h'"
  by (simp add: roomy_def keeps_except_def heap_limit_def)

lemma pivot_keeps:
  assumes "keeps_except {base..<base + k * n} h h'" "pivot + n \<le> length (heap_mem h)"
    and "\<forall>a. pivot \<le> a \<and> a < pivot + n \<longrightarrow> owned h a \<and> a \<notin> {base..<base + k * n}"
  shows "bytes_at pivot n (heap_mem h') = bytes_at pivot n (heap_mem h)"
  using assms by (intro bytes_at_cong) (auto simp: keeps_except_def)

lemma part_loop_ok:
  assumes es: "unat esize = n" "0 < n" "n < 2 ^ 31" and hk: "high < k"
    and "array_ok base n k h" "roomy h" "pivot + n \<le> length (heap_mem h)"
    and "\<forall>a. pivot \<le> a \<and> a < pivot + n \<longrightarrow> owned h a \<and> a \<notin> {base..<base + k * n}"
    and "bytes_at pivot n (heap_mem h) = p" "elems base n k (heap_mem h) ! low = p"
    and "parted p low high i j (elems base n k (heap_mem h))"
    and "low \<le> i" "i \<le> high" "i < j" "j \<le> high + 1"
  shows "\<exists>h' j'. part_loop compar base esize pivot high i j h = Some (h', Inr j') \<and>
    keeps_except {base..<base + k * n} h h' \<and> low \<le> j' \<and> j' \<le> high \<and>
    rearr (low + 1) (high + 1) (elems base n k (heap_mem h)) (elems base n k (heap_mem h')) \<and>
    parted p low high j' (j' + 1) (elems base n k (heap_mem h'))"
  using assms(5-)
proof (induction j arbitrary: i h rule: less_induct)
  case (less j)
  let ?m = "heap_mem h" and ?A = "elems base n k (heap_mem h)"
  have len: "base + k * n \<le> length ?m" and wf: "wf_heap h" using less.prems(1) by (simp_all add: array_ok_def)
  have irr: "\<not> lt p p" using asym by blast
  from scan_up_ok [OF less.prems(3) len hk less.prems(9)] less.prems(5)
  obtain i' where i': "scan_up compar base n pivot high i ?m = Some i'" "i < i'" "i' \<le> high + 1"
    "\<forall>x. i < x \<and> x < i' \<longrightarrow> lt (?A ! x) p" "i' \<le> high \<longrightarrow> \<not> lt (?A ! i') p" by auto
  from scan_down_ok [OF less.prems(3) len, of low j] less.prems(5-) hk irr
  obtain j' where j': "scan_down compar base n pivot j ?m = Some j'" "low \<le> j'" "j' < j"
    "\<forall>x. j' < x \<and> x < j \<longrightarrow> lt p (?A ! x)" "\<not> lt p (?A ! j')" by auto
  show ?case
  proof (cases "i' \<ge> j'")
    case True
    have "parted p low high j' (j' + 1) ?A"
      unfolding parted_def
    proof (intro conjI allI impI)
      fix x assume x: "low < x \<and> x \<le> j'"
      show "\<not> lt p (?A ! x)"
      proof (cases "x \<le> i")
        case True
        with x less.prems(7) show ?thesis by (simp add: parted_def)
      next
        case False
        with x \<open>i' \<ge> j'\<close> j'(5) i'(4) asym [of "?A ! x" p] show ?thesis by (cases "x = j'") auto
      qed
    next
      fix x assume x: "j' + 1 \<le> x \<and> x \<le> high"
      show "\<not> lt (?A ! x) p"
      proof (cases "j \<le> x")
        case True
        with x less.prems(7) show ?thesis by (simp add: parted_def)
      next
        case False
        with x j'(4) asym [of p "?A ! x"] show ?thesis by auto
      qed
    qed
    moreover have "part_loop compar base esize pivot high i j h = Some (h, Inr j')"
      using i'(1) j'(1) True by (subst part_loop.simps) (simp add: es(1) ok_def)
    ultimately show ?thesis using j'(2,3) less.prems(11) keeps_except_refl [OF wf]
      by (intro exI [of _ h] exI [of _ j']) simp
  next
    case False
    then have ij: "i' < j'" by simp
    then have b: "i' < k" "j' < k" "low < i'" "i' \<le> high" using i'(2) j'(3) less.prems(8,11) hk by auto
    obtain h1 where h1: "qsort_swap (base + i' * n) (base + j' * n) esize h = Some (h1, Inr ())"
      "keeps_except {base..<base + k * n} h h1" "elems base n k (heap_mem h1) = exchange i' j' ?A"
      using qsort_swap_elems [of base esize k h i' j', unfolded es(1), OF less.prems(1) es(2,3) _ b(1,2)]
        less.prems(2) by (auto simp: roomy_def)
    have p1: "parted p low high i' j' (elems base n k (heap_mem h1))"
      unfolding h1(3) using less.prems(7) i' j' ij b less.prems(11) hk
      by (intro parted_exchange [of p low high i j]) auto
    have low1: "elems base n k (heap_mem h1) ! low = p"
      using less.prems(6) b ij j'(2) hk by (simp add: h1(3) exchange_def del: elems_nth)
    have own1: "\<forall>a. pivot \<le> a \<and> a < pivot + n \<longrightarrow> owned h1 a \<and> a \<notin> {base..<base + k * n}"
      using less.prems(4) h1(2) owned_cong [of h1 h] by (simp add: keeps_except_def)
    have len1: "pivot + n \<le> length (heap_mem h1)" using h1(2) less.prems(3) by (simp add: keeps_except_def)
    have piv1: "bytes_at pivot n (heap_mem h1) = p"
      using pivot_keeps [OF h1(2) less.prems(3,4)] less.prems(5) by simp
    obtain h' j2 where h': "part_loop compar base esize pivot high i' j' h1 = Some (h', Inr j2)"
      "keeps_except {base..<base + k * n} h1 h'" "low \<le> j2" "j2 \<le> high"
      "rearr (low + 1) (high + 1) (elems base n k (heap_mem h1)) (elems base n k (heap_mem h'))"
      "parted p low high j2 (j2 + 1) (elems base n k (heap_mem h'))"
      using less.IH [OF j'(3) array_ok_keeps [OF less.prems(1) h1(2)] roomy_keeps [OF less.prems(2) h1(2)]
          len1 own1 piv1 low1 p1] b(3,4) ij j'(3) less.prems(11) by auto
    have "part_loop compar base esize pivot high i j h = Some (h', Inr j2)"
      using i'(1) j'(1) ij h1(1) h'(1) by (subst part_loop.simps) (simp add: es(1))
    moreover have "rearr (low + 1) (high + 1) ?A (elems base n k (heap_mem h1))"
      unfolding h1(3) using b ij j'(3) less.prems(11) hk by (intro rearr_exchange) auto
    ultimately show ?thesis
      using h'(3-6) keeps_except_trans [OF h1(2) h'(2)] rearr_trans
      by (intro exI [of _ h'] exI [of _ j2]) blast
  qed
qed

definition room_for_two :: "heap \<Rightarrow> bool" where
  "room_for_two h \<longleftrightarrow> brk h + 2 * (24 + round8 n) < heap_limit h"

lemma room_for_two_keeps: "room_for_two h \<Longrightarrow> keeps_except R h h' \<Longrightarrow> room_for_two h'"
  by (simp add: room_for_two_def keeps_except_def heap_limit_def)

lemma elems_cong:
  assumes "length m' = length m" "base + k * n \<le> length m"
    and "\<And>a. base \<le> a \<Longrightarrow> a < base + k * n \<Longrightarrow> m' ! a = m ! a"
  shows "elems base n k m' = elems base n k m"
proof (rule nth_equalityI)
  fix x assume "x < length (elems base n k m')"
  then have x: "x < k" by simp
  note e = elem_end [OF x, of base n]
  have "bytes_at (base + x * n) n m' = bytes_at (base + x * n) n m"
    using assms e by (intro bytes_at_cong) auto
  with x show "elems base n k m' ! x = elems base n k m ! x" by simp
qed simp

text \<open>Taking the pivot: a fresh block with a copy of the first element.\<close>

lemma take_pivot:
  assumes es: "unat esize = n" "0 < n" "n < 2 ^ 31" and a: "array_ok base n k h"
    and room: "room_for_two h" and low: "low < k"
  obtains h1 t m l where "libmin_malloc esize h = Some (h1, Inr t)" "t \<noteq> NULL"
    "libmin_memcpy t (base + low * n) n (heap_mem h1) = Some (m, t)"
    "array_ok base n k (h1\<lparr>heap_mem := m\<rparr>)" "roomy (h1\<lparr>heap_mem := m\<rparr>)"
    "elems base n k m = elems base n k (heap_mem h)" "bytes_at t n m = elems base n k (heap_mem h) ! low"
    "t + n \<le> length m" "length m = length (heap_mem h)"
    "\<forall>x. t \<le> x \<and> x < t + n \<longrightarrow> owned h1 x \<and> x \<notin> {base..<base + k * n}"
    "live h1 = (live h)(t \<mapsto> l)" "live h t = None" "heap_base h1 = heap_base h"
    "\<forall>x. owned h x \<longrightarrow> owned h1 x" "\<forall>x < length m. owned h x \<longrightarrow> m ! x = heap_mem h ! x"
    "brk h1 = brk h \<or> t = brk h + 24 \<and> brk h1 = t + l"
proof -
  let ?m = "heap_mem h"
  have wf: "wf_heap h" and lim: "heap_limit h \<le> length ?m" and len: "base + k * n \<le> length ?m"
    and own: "\<forall>x. base \<le> x \<and> x < base + k * n \<longrightarrow> owned h x" using a by (simp_all add: array_ok_def)
  have pos: "0 < unat esize" "unat esize < 2 ^ 31" using es by simp_all
  obtain h1 t where alloc: "libmin_malloc esize h = Some (h1, Inr t)"
    using libmin.alloc_no_room [OF wf pos] room es(1) by (auto simp: room_for_two_def)
  from libmin.alloc_apart [OF wf pos alloc, unfolded es(1)] obtain l where
    l: "wf_heap h1" "n \<le> l" "libmin.apart h t l" "live h1 = (live h)(t \<mapsto> l)" "heap_mem h1 = ?m"
    "heap_base h1 = heap_base h" "heap_limit h1 = heap_limit h" "live h t = None"
    "brk h1 = brk h \<or> l = round8 n \<and> t = brk h + 24 \<and> brk h1 = t + l" .
  have t: "t \<noteq> NULL" "t + n \<le> length ?m" using l(2,3) lim by (auto simp: libmin.apart_def NULL_def)
  have sep: "x < t \<or> t + n \<le> x" if "owned h x" for x using apart_owned [OF l(3) that] l(2) by linarith
  have own1: "owned h1 x" if "owned h x" for x
    using that l(4,6,8) by (auto simp: owned_def heap_limit_def)
  have ownt: "owned h1 x" if "t \<le> x" "x < t + n" for x
  proof -
    have "live h1 t = Some l" "x < t + l" using that l(2,4) by simp_all
    with that(1) show ?thesis unfolding owned_def by blast
  qed
  have "base + low * n + n \<le> t \<or> t + n \<le> base + low * n"
    using own elem_end [OF low, of base n] es(2) sep
    by (intro owned_apart [where P = "owned h"]) auto
  then obtain m where m: "libmin_memcpy t (base + low * n) n ?m = Some (m, t)" "length m = length ?m"
    "bytes_at t n m = bytes_at (base + low * n) n ?m" "\<forall>x < length ?m. x < t \<or> t + n \<le> x \<longrightarrow> m ! x = ?m ! x"
    using memcpy_copies [of "base + low * n" n ?m t] elem_end [OF low, of base n] len t(2) by auto
  have keep: "m ! x = ?m ! x" if "x < length m" "owned h x" for x using m(2,4) sep [OF that(2)] that(1) by auto
  have "array_ok base n k (h1\<lparr>heap_mem := m\<rparr>)"
    using l(1,7) lim len own own1 m(2) owned_cong [of "h1\<lparr>heap_mem := m\<rparr>" h1] live_write [of m h1]
    by (simp add: array_ok_def heap_limit_def)
  moreover have "roomy (h1\<lparr>heap_mem := m\<rparr>)"
    using l(7,9) room by (auto simp: roomy_def room_for_two_def heap_limit_def brk_def)
  moreover have "elems base n k m = elems base n k ?m"
    using keep own len m(2) by (intro elems_cong) auto
  moreover have "\<forall>x. t \<le> x \<and> x < t + n \<longrightarrow> owned h1 x \<and> x \<notin> {base..<base + k * n}"
    using ownt own sep by fastforce
  ultimately show thesis
    using that [of h1 t m l] alloc t m(1,2,3) l(4-9) own1 keep low by (auto simp: m(2))
qed

lemma qsort_partition_ok:
  assumes es: "unat esize = n" "0 < n" "n < 2 ^ 31" and a: "array_ok base n k h"
    and room: "room_for_two h" and hl: "low < high" "high < k"
  shows "\<exists>h' j. qsort_partition compar base low high esize h = Some (h', Inr j) \<and>
    keeps_except {base..<base + k * n} h h' \<and> low \<le> j \<and> j \<le> high \<and>
    rearr low (high + 1) (elems base n k (heap_mem h)) (elems base n k (heap_mem h')) \<and>
    (\<forall>x. low \<le> x \<and> x < j \<longrightarrow> \<not> lt (elems base n k (heap_mem h') ! j) (elems base n k (heap_mem h') ! x)) \<and>
    (\<forall>x. j < x \<and> x \<le> high \<longrightarrow> \<not> lt (elems base n k (heap_mem h') ! x) (elems base n k (heap_mem h') ! j))"
proof -
  let ?R = "{base..<base + k * n}" and ?E = "\<lambda>h. elems base n k (heap_mem h)"
  have low: "low < k" using hl by simp
  from take_pivot [OF es a room low] obtain h1 t m l where
    p: "libmin_malloc esize h = Some (h1, Inr t)" "t \<noteq> NULL"
    "libmin_memcpy t (base + low * n) n (heap_mem h1) = Some (m, t)"
    "array_ok base n k (h1\<lparr>heap_mem := m\<rparr>)" "roomy (h1\<lparr>heap_mem := m\<rparr>)"
    "elems base n k m = ?E h" "bytes_at t n m = ?E h ! low"
    "t + n \<le> length m" "length m = length (heap_mem h)"
    "\<forall>x. t \<le> x \<and> x < t + n \<longrightarrow> owned h1 x \<and> x \<notin> ?R"
    "live h1 = (live h)(t \<mapsto> l)" "live h t = None" "heap_base h1 = heap_base h"
    "\<forall>x. owned h x \<longrightarrow> owned h1 x" "\<forall>x < length m. owned h x \<longrightarrow> m ! x = heap_mem h ! x"
    "brk h1 = brk h \<or> t = brk h + 24 \<and> brk h1 = t + l" .
  define h2 where "h2 = h1\<lparr>heap_mem := m\<rparr>"
  have h2: "heap_mem h2 = m" "owned h2 = owned h1" "live h2 = live h1" "brk h2 = brk h1" "heap_base h2 = heap_base h1"
    using owned_cong [of h2 h1] by (simp_all add: h2_def live_write brk_def)
  have E2: "?E h2 = ?E h" using p(6) by (simp add: h2)
  have f1: "array_ok base n k h2" "roomy h2" using p(4,5) by (simp_all add: h2_def)
  have f2: "t + n \<le> length (heap_mem h2)" "bytes_at t n (heap_mem h2) = ?E h ! low"
    using p(7,8) by (simp_all only: h2(1))
  have f3: "\<forall>x. t \<le> x \<and> x < t + n \<longrightarrow> owned h2 x \<and> x \<notin> ?R" using p(10) by (simp only: h2(2))
  have f4: "?E h2 ! low = ?E h ! low" by (simp only: E2)
  have f5: "parted (?E h ! low) low high low (high + 1) (?E h2)" by (auto simp: parted_def simp del: elems_nth)
  note f = f1 f2(1) f3 f2(2) f4 f5
  from part_loop_ok [OF es hl(2) f order_refl, unfolded E2] hl(1)
  obtain h3 j where h3: "part_loop compar base esize t high low (high + 1) h2 = Some (h3, Inr j)"
    "keeps_except ?R h2 h3" "low \<le> j" "j \<le> high" "rearr (low + 1) (high + 1) (?E h) (?E h3)"
    "parted (?E h ! low) low high j (j + 1) (?E h3)" by auto
  have a3: "array_ok base n k h3" and r3: "roomy h3"
    using array_ok_keeps [OF _ h3(2)] roomy_keeps [OF _ h3(2)] p(4,5) by (simp_all add: h2_def)
  have j: "j < k" using h3(4) hl by simp
  obtain h4 where h4: "qsort_swap (base + low * n) (base + j * n) esize h3 = Some (h4, Inr ())"
    "keeps_except ?R h3 h4" "?E h4 = exchange low j (?E h3)"
    using qsort_swap_elems [of base esize k h3 low j, unfolded es(1), OF a3 es(2,3) _ low j] r3
    by (auto simp: roomy_def)
  have k4: "keeps_except ?R h2 h4" using h3(2) h4(2) by (rule keeps_except_trans)
  then have w4: "wf_heap h4" "live h4 t = Some l" using p(11) h2 by (simp_all add: keeps_except_def)
  from libmin.release [OF w4] obtain h5 where h5: "libmin_free t h4 = Some (h5, Inr ())" "wf_heap h5"
    "live h5 = (live h4)(t := None)" "heap_mem h5 = heap_mem h4" "heap_base h5 = heap_base h4"
    "brk h5 = (if t + l = brk h4 then t - 24 else brk h4)" by blast
  have "brk h5 \<le> brk h"
    using h5(6) p(16) k4 h2(4) libmin.bounds [OF w4] by (auto simp: keeps_except_def split: if_splits)
  moreover have "live h5 = live h" using h5(3) k4 p(11,12) h2(3) by (simp add: keeps_except_def fun_upd_idem)
  ultimately have k5: "keeps_except ?R h h5"
    using h5(2,4,5) k4 p(9,13-15) h2 by (auto simp: keeps_except_def)
  have run: "qsort_partition compar base low high esize h = Some (h5, Inr j)"
    using p(1-3) h3(1) h4(1) h5(1) by (simp add: qsort_partition_def es(1) seq_def on_mem_def ok_def h2_def)
  have E5: "?E h5 = exchange low j (?E h3)" using h4(3) h5(4) by simp
  have "rearr low (high + 1) (?E h) (?E h5)" unfolding E5
    by (rule rearr_trans [OF rearr_widen [OF h3(5)] rearr_exchange]) (use h3(3,4) hl in auto)
  moreover have plow: "?E h3 ! low = ?E h ! low" using rearr_outside [OF h3(5), of low] low by simp
  moreover have "?E h5 ! j = ?E h ! low"
    using plow low j by (simp add: E5 exchange_def del: elems_nth)
  moreover have "\<not> lt (?E h ! low) (?E h5 ! x)" if "low \<le> x" "x < j" for x
    using h3(6) that low j by (cases "x = low") (simp_all add: E5 exchange_def parted_def del: elems_nth)
  moreover have "\<not> lt (?E h5 ! x) (?E h ! low)" if "j < x" "x \<le> high" for x
    using h3(3,6) that low j hl by (simp add: E5 exchange_def parted_def del: elems_nth)
  ultimately show ?thesis using run k5 h3(3,4) by (intro exI [of _ h5] exI [of _ j]) (simp del: elems_nth)
qed

definition sorted_from :: "nat \<Rightarrow> nat \<Rightarrow> u8 list list \<Rightarrow> bool" where
  "sorted_from lo hi A \<longleftrightarrow> (\<forall>x y. lo \<le> x \<and> x < y \<and> y < hi \<longrightarrow> \<not> lt (A ! y) (A ! x))"

lemma sorted_combine:
  assumes "low \<le> j" "j \<le> high" "high < length A"
    and l: "\<forall>x. low \<le> x \<and> x < j \<longrightarrow> \<not> lt (A ! j) (A ! x)"
    and r: "\<forall>x. j < x \<and> x \<le> high \<longrightarrow> \<not> lt (A ! x) (A ! j)"
    and B: "rearr low j A B" "sorted_from low j B"
    and C: "rearr (j + 1) (high + 1) B C" "sorted_from (j + 1) (high + 1) C"
  shows "sorted_from low (high + 1) C"
  unfolding sorted_from_def
proof (intro allI impI, elim conjE)
  fix x y assume xy: "low \<le> x" "x < y" "y < high + 1"
  have len: "length B = length A" using B(1) by (simp add: rearr_def)
  have left: "C ! z = B ! z" if "z \<le> j" for z
    using rearr_outside [OF C(1), of z] that assms(2,3) len by simp
  have mid: "C ! j = A ! j" using left [of j] rearr_outside [OF B(1), of j] assms(2,3) by simp
  have lower: "\<not> lt (A ! j) (C ! z)" if z: "low \<le> z" "z < j" for z
    using rearr_inside [OF B(1) z] left [of z] l z assms(2,3)
    by (metis less_imp_le_nat order.strict_trans1 order_le_less_trans)
  have upper: "\<not> lt (C ! z) (A ! j)" if z: "j + 1 \<le> z" "z < high + 1" for z
  proof -
    have "high + 1 \<le> length B" using assms(3) len by simp
    then obtain w where w: "j + 1 \<le> w" "w < high + 1" "C ! z = B ! w" using rearr_inside [OF C(1) z] by blast
    then have "B ! w = A ! w" using rearr_outside [OF B(1), of w] assms(3) by simp
    with w r show ?thesis by simp
  qed
  consider "y < j" | "y = j" | "x < j" "j < y" | "x = j" | "j < x" using xy by linarith
  then show "\<not> lt (C ! y) (C ! x)"
  proof cases
    case 1
    with xy B(2) left show ?thesis by (simp add: sorted_from_def)
  next
    case 2
    with xy lower mid show ?thesis by simp
  next
    case 3
    then have "\<not> lt (A ! j) (C ! x)" "\<not> lt (C ! y) (A ! j)" using xy lower upper by simp_all
    then show ?thesis by (rule negtrans)
  next
    case 4
    with xy upper mid show ?thesis by simp
  next
    case 5
    with xy C(2) show ?thesis by (simp add: sorted_from_def)
  qed
qed

lemma qsort_internal_ok:
  assumes es: "unat esize = n" "0 < n" "n < 2 ^ 31"
    and "array_ok base n k h" "room_for_two h" "low < high \<longrightarrow> high < k"
  shows "\<exists>h'. qsort_internal compar base low high esize h = Some (h', Inr ()) \<and>
    keeps_except {base..<base + k * n} h h' \<and>
    rearr low (high + 1) (elems base n k (heap_mem h)) (elems base n k (heap_mem h')) \<and>
    sorted_from low (high + 1) (elems base n k (heap_mem h'))"
  using assms(4-)
proof (induction "high - low" arbitrary: low high h rule: less_induct)
  case less
  let ?R = "{base..<base + k * n}" and ?E = "\<lambda>h. elems base n k (heap_mem h)"
  show ?case
  proof (cases "low < high")
    case False
    then have "qsort_internal compar base low high esize h = Some (h, Inr ())"
      by (subst qsort_internal.simps) (simp add: ok_def)
    moreover have "sorted_from low (high + 1) (?E h)" using False by (auto simp: sorted_from_def)
    ultimately show ?thesis using less.prems(1) keeps_except_refl [of h] by (auto simp: array_ok_def)
  next
    case True
    with less.prems(3) have hk: "high < k" by simp
    from qsort_partition_ok [OF es less.prems(1,2) True hk] obtain h1 j where
      h1: "qsort_partition compar base low high esize h = Some (h1, Inr j)" "keeps_except ?R h h1"
      "low \<le> j" "j \<le> high" "rearr low (high + 1) (?E h) (?E h1)"
      "\<forall>x. low \<le> x \<and> x < j \<longrightarrow> \<not> lt (?E h1 ! j) (?E h1 ! x)"
      "\<forall>x. j < x \<and> x \<le> high \<longrightarrow> \<not> lt (?E h1 ! x) (?E h1 ! j)" by blast
    have a1: "array_ok base n k h1" "room_for_two h1"
      using array_ok_keeps [OF less.prems(1) h1(2)] room_for_two_keeps [OF less.prems(2) h1(2)] .
    have "\<exists>h2. (if j > 0 then qsort_internal compar base low (j - 1) esize h1 else ok () h1) = Some (h2, Inr ()) \<and>
      keeps_except ?R h1 h2 \<and> rearr low j (?E h1) (?E h2) \<and> sorted_from low j (?E h2)"
    proof (cases "j > 0")
      case pos: True
      then have "j - 1 - low < high - low" "low < j - 1 \<longrightarrow> j - 1 < k" using h1(3,4) True hk by auto
      from less.hyps [OF this(1) a1 this(2)] pos show ?thesis by simp
    next
      case False
      then show ?thesis using a1(1) keeps_except_refl [of h1] by (auto simp: ok_def array_ok_def sorted_from_def)
    qed
    then obtain h2 where h2:
      "(if j > 0 then qsort_internal compar base low (j - 1) esize h1 else ok () h1) = Some (h2, Inr ())"
      "keeps_except ?R h1 h2" "rearr low j (?E h1) (?E h2)" "sorted_from low j (?E h2)" by blast
    have a2: "array_ok base n k h2" "room_for_two h2"
      using array_ok_keeps [OF a1(1) h2(2)] room_for_two_keeps [OF a1(2) h2(2)] .
    have "high - (j + 1) < high - low" "j + 1 < high \<longrightarrow> high < k" using h1(3) True hk by auto
    from less.hyps [OF this(1) a2 this(2)] obtain h3 where
      h3: "qsort_internal compar base (j + 1) high esize h2 = Some (h3, Inr ())" "keeps_except ?R h2 h3"
      "rearr (j + 1) (high + 1) (?E h2) (?E h3)" "sorted_from (j + 1) (high + 1) (?E h3)" by blast
    have "qsort_internal compar base low high esize h = Some (h3, Inr ())"
      using True h1(1) h2(1) h3(1) by (subst qsort_internal.simps) (simp add: seq_def)
    moreover have "sorted_from low (high + 1) (?E h3)"
      using h1(3,4,6,7) hk h2(3,4) h3(3,4)
      by (intro sorted_combine [of low j high "?E h1" "?E h2"]) simp_all
    moreover have "rearr low (high + 1) (?E h) (?E h3)"
      using h1(3-5) rearr_widen [OF h2(3), of low "high + 1"] rearr_widen [OF h3(3), of low "high + 1"]
      by (auto intro: rearr_trans)
    ultimately show ?thesis
      using keeps_except_trans [OF h1(2) keeps_except_trans [OF h2(2) h3(2)]] by blast
  qed
qed

lemma qsort_ok:
  assumes es: "unat esize = n" "0 < n" "n < 2 ^ 31"
    and a: "array_ok base n (unat nmemb) h" and room: "room_for_two h"
  shows "\<exists>h'. libmin_qsort base nmemb esize compar h = Some (h', Inr ()) \<and>
    keeps_except {base..<base + unat nmemb * n} h h' \<and>
    mset (elems base n (unat nmemb) (heap_mem h')) = mset (elems base n (unat nmemb) (heap_mem h)) \<and>
    sorted_wrt (\<lambda>x y. \<not> lt y x) (elems base n (unat nmemb) (heap_mem h'))"
proof (cases "nmemb < 2")
  case True
  then have "unat nmemb < 2" by (simp add: word_less_nat_alt)
  then show ?thesis using a True keeps_except_refl [of h]
    by (auto simp: libmin_qsort_def ok_def array_ok_def sorted_wrt_iff_nth_less)
next
  case False
  then have k: "1 < unat nmemb" by (simp add: word_less_nat_alt)
  from qsort_internal_ok [OF es a room, of 0 "unat nmemb - 1"] k obtain h' where
    "qsort_internal compar base 0 (unat nmemb - 1) esize h = Some (h', Inr ())"
    "keeps_except {base..<base + unat nmemb * n} h h'"
    "rearr 0 (unat nmemb) (elems base n (unat nmemb) (heap_mem h)) (elems base n (unat nmemb) (heap_mem h'))"
    "sorted_from 0 (unat nmemb) (elems base n (unat nmemb) (heap_mem h'))" by auto
  then show ?thesis using False
    by (auto simp: libmin_qsort_def rearr_def sorted_from_def sorted_wrt_iff_nth_less)
qed

end

section \<open>The property\<close>

text \<open>The comparison of byte blocks is a comparison function.\<close>

interpretation memcmp_order: comparator n "\<lambda>m p q. libmin_memcmp p q n m" ord_class.lexordp for n
proof
  show "\<exists>v. libmin_memcmp p q n m = Some v \<and>
      (v < 0 \<longleftrightarrow> ord_class.lexordp (bytes_at p n m) (bytes_at q n m)) \<and>
      (0 < v \<longleftrightarrow> ord_class.lexordp (bytes_at q n m) (bytes_at p n m))"
    if "p + n \<le> length m" "q + n \<le> length m" for p m q
  proof -
    note pq = that
    let ?x = "bytes_at p n m" and ?y = "bytes_at q n m"
    obtain v where v: "memcmp_loop m p q n = Some v" "v = 0 \<longleftrightarrow> ?x = ?y" "v < 0 \<longleftrightarrow> ord_class.lexordp ?x ?y"
      using memcmp_loop_equal [OF ld_bytes_at [OF pq(1)] ld_bytes_at [OF pq(2)]] by blast
    have "0 < v \<longleftrightarrow> ?x \<noteq> ?y \<and> \<not> ord_class.lexordp ?x ?y" using v(2,3) by linarith
    also have "\<dots> \<longleftrightarrow> ord_class.lexordp ?y ?x"
      using lexordp_linear [of ?x ?y] lexordp_antisym [of ?x ?y] lexordp_irreflexive' [of ?x] by metis
    finally show ?thesis using v by (simp add: libmin_memcmp_def)
  qed
  show "\<not> ord_class.lexordp y x" if "ord_class.lexordp x y" for x y :: "u8 list"
    using that lexordp_antisym [of x y] lexordp_irreflexive' [of x] by blast
  show "\<not> ord_class.lexordp z x" if "\<not> ord_class.lexordp y x" "\<not> ord_class.lexordp z y" for x y z :: "u8 list"
    using that lexordp_linear [of x y] lexordp_linear [of y z] lexordp_trans [of z x y] by blast
qed

text \<open>
  C16: qsort of an array outside the heap or in a live block, with a comparison function whose
  sign is a strict weak order and room in the heap for a pivot and a temporary, returns with
  the elements rearranged into ascending order; the live blocks stay the same and no byte of
  them or outside the heap is changed except in the array.
\<close>

theorem qsort_sorts:
  assumes "comparator (unat esize) compar lt" and "0 < unat esize" and "unat esize < 2 ^ 31"
    and "array_ok base (unat esize) (unat nmemb) h"
    and "brk h + 2 * (24 + round8 (unat esize)) < heap_limit h"
  shows "\<exists>h'. libmin_qsort base nmemb esize compar h = Some (h', Inr ()) \<and>
    mset (elems base (unat esize) (unat nmemb) (heap_mem h')) =
      mset (elems base (unat esize) (unat nmemb) (heap_mem h)) \<and>
    sorted_wrt (\<lambda>x y. \<not> lt y x) (elems base (unat esize) (unat nmemb) (heap_mem h')) \<and>
    wf_heap h' \<and> live h' = live h \<and> (\<forall>a < length (heap_mem h). owned h a \<and>
      a \<notin> {base..<base + unat nmemb * unat esize} \<longrightarrow> heap_mem h' ! a = heap_mem h ! a)"
  using comparator.qsort_ok [OF assms(1) refl assms(2-4)] assms(5)
  by (auto simp: comparator.room_for_two_def [OF assms(1)] keeps_except_def)

theorem qsort_sorts_witness:
  "\<exists>h'. libmin_qsort 0 3 4 (\<lambda>m p q. libmin_memcmp p q 4 m)
      (initial_heap 64 ([3, 0, 0, 1, 1, 0, 0, 1, 2, 0, 0, 1] @ replicate 32820 7)) = Some (h', Inr ()) \<and>
    mset (elems 0 4 3 (heap_mem h')) = {#[3, 0, 0, 1], [1, 0, 0, 1], [2, 0, 0, 1]#} \<and>
    sorted_wrt (\<lambda>x y. \<not> ord_class.lexordp y x) (elems 0 4 3 (heap_mem h'))"
proof -
  let ?h = "initial_heap 64 ([3, 0, 0, 1, 1, 0, 0, 1, 2, 0, 0, 1] @ replicate 32820 7)"
  have "wf_heap ?h" using initial_ok by (auto simp: wf_heap_def)
  then have a: "array_ok 0 4 3 ?h" by (auto simp: array_ok_def owned_def initial_heap_def heap_limit_def)
  have "elems 0 4 3 (heap_mem ?h) = [[3, 0, 0, 1], [1, 0, 0, 1], [2, 0, 0, 1]]"
    by (simp add: elems_def bytes_at_def initial_heap_def upt_rec)
  moreover have "brk ?h + 2 * (24 + round8 4) < heap_limit ?h"
    by (simp add: initial_heap_def brk_def heap_limit_def round8_def)
  ultimately show ?thesis
    using qsort_sorts [of 4 "\<lambda>m p q. libmin_memcmp p q 4 m" ord_class.lexordp 0 3 ?h] a
      memcmp_order.comparator_axioms [of 4] by auto
qed

end
