(* ===== verification/Libmin_Rand.thy ===== *)
theory Libmin_Rand
  imports Prelude
begin

text \<open>
  The pseudo-random generator of the benchmark library
  (src/bringup-bench/common/libmin_rand.c): its static state, the seeding and the generator,
  related to the linear recurrence of the Mersenne twister as an infinite sequence.
\<close>

section \<open>Definitions\<close>

definition MT_N :: nat where "MT_N = 624"
definition MT_M :: nat where "MT_M = 397"
definition MATRIX_A :: u32 where "MATRIX_A = 0x9908b0df"
definition UPPER_MASK :: u32 where "UPPER_MASK = 0x80000000"
definition LOWER_MASK :: u32 where "LOWER_MASK = 0x7fffffff"
definition TEMPERING_MASK_B :: u32 where "TEMPERING_MASK_B = 0x9d2c5680"
definition TEMPERING_MASK_C :: u32 where "TEMPERING_MASK_C = 0xefc60000"
definition RAND_MAX :: u32 where "RAND_MAX = 0x7fffffff"

definition TEMPERING_SHIFT_U :: "u32 \<Rightarrow> u32" where "TEMPERING_SHIFT_U y = drop_bit 11 y"
definition TEMPERING_SHIFT_S :: "u32 \<Rightarrow> u32" where "TEMPERING_SHIFT_S y = push_bit 7 y"
definition TEMPERING_SHIFT_T :: "u32 \<Rightarrow> u32" where "TEMPERING_SHIFT_T y = push_bit 15 y"
definition TEMPERING_SHIFT_L :: "u32 \<Rightarrow> u32" where "TEMPERING_SHIFT_L y = drop_bit 18 y"

record rng =
  mt_initialized :: bool
  mt :: "u32 list"
  mti :: nat

definition static_rng :: rng where
  "static_rng = \<lparr>mt_initialized = False, mt = replicate (MT_N + 1) 0, mti = MT_N + 1\<rparr>"

definition srand_step :: "nat \<Rightarrow> u32 list \<times> u32 \<Rightarrow> (u32 list \<times> u32) option" where
  "srand_step i = (\<lambda>(m, seed).
     do {
       m \<leftarrow> st m i (seed AND 0xffff0000);
       let seed = 69069 * seed + 1;
       w \<leftarrow> ld m i;
       m \<leftarrow> st m i (w OR drop_bit 16 (seed AND 0xffff0000));
       Some (m, 69069 * seed + 1)
     })"

definition libmin_srand :: "u32 \<Rightarrow> rng \<Rightarrow> rng option" where
  "libmin_srand seed r =
     do {
       (mt', _) \<leftarrow> for_up 0 MT_N srand_step (mt r, seed);
       Some (r\<lparr>mt_initialized := True, mt := mt', mti := MT_N\<rparr>)
     }"

definition mt_generate :: "nat \<Rightarrow> nat \<Rightarrow> nat \<Rightarrow> u32 list \<Rightarrow> u32 list option" where
  "mt_generate kk nxt far m =
     do {
       a \<leftarrow> ld m kk;
       b \<leftarrow> ld m nxt;
       let y = (a AND UPPER_MASK) OR (b AND LOWER_MASK);
       c \<leftarrow> ld m far;
       mag \<leftarrow> ld [0, MATRIX_A] (unat (y AND 1));
       st m kk (c XOR drop_bit 1 y XOR mag)
     }"

definition mt_reload :: "u32 list \<Rightarrow> u32 list option" where
  "mt_reload m =
     do {
       m \<leftarrow> for_up 0 (MT_N - MT_M) (\<lambda>kk. mt_generate kk (kk + 1) (kk + MT_M)) m;
       m \<leftarrow> for_up (MT_N - MT_M) (MT_M - 1) (\<lambda>kk. mt_generate kk (kk + 1) (kk - (MT_N - MT_M))) m;
       mt_generate (MT_N - 1) 0 (MT_M - 1) m
     }"

definition tempering :: "u32 \<Rightarrow> u32" where
  "tempering y =
     (let y = y XOR TEMPERING_SHIFT_U y;
          y = y XOR (TEMPERING_SHIFT_S y AND TEMPERING_MASK_B);
          y = y XOR (TEMPERING_SHIFT_T y AND TEMPERING_MASK_C)
      in y XOR TEMPERING_SHIFT_L y)"

text \<open>The left result is the message printed and the status the program ends with.\<close>

definition libmin_rand :: "rng \<Rightarrow> (rng \<times> (string \<times> int + u32)) option" where
  "libmin_rand r =
     (if \<not> mt_initialized r then
        Some (r, Inl (''ERROR: rng is not initialized, call mysrand()!'' @ [CHR 0x0A], 1))
      else do {
        r \<leftarrow> (if MT_N \<le> mti r then
               do {
                 r \<leftarrow> (if mti r = MT_N + 1 then libmin_srand 4357 r else Some r);
                 mt' \<leftarrow> mt_reload (mt r);
                 Some (r\<lparr>mt := mt', mti := 0\<rparr>)
               }
             else Some r);
        y \<leftarrow> ld (mt r) (mti r);
        Some (r\<lparr>mti := mti r + 1\<rparr>, Inr (tempering y AND RAND_MAX))
      })"

section \<open>The twister as an infinite sequence\<close>

definition lcg :: "u32 \<Rightarrow> nat \<Rightarrow> u32" where
  "lcg seed k = ((\<lambda>x. 69069 * x + 1) ^^ k) seed"

definition seed_word :: "u32 \<Rightarrow> nat \<Rightarrow> u32" where
  "seed_word seed i =
     (lcg seed (2 * i) AND 0xffff0000) OR drop_bit 16 (lcg seed (2 * i + 1) AND 0xffff0000)"

definition twist :: "u32 \<Rightarrow> u32 \<Rightarrow> u32" where
  "twist u v = (let y = (u AND UPPER_MASK) OR (v AND LOWER_MASK)
     in drop_bit 1 y XOR (if bit v 0 then MATRIX_A else 0))"

function mt_seq :: "u32 \<Rightarrow> nat \<Rightarrow> u32" where
  "mt_seq seed k =
     (if k < 624 then seed_word seed k
      else mt_seq seed (k - 227) XOR twist (mt_seq seed (k - 624)) (mt_seq seed (k - 623)))"
  by auto
termination
  by (relation "measure snd") auto

declare mt_seq.simps [simp del]

lemma lcg_Suc: "lcg seed (Suc k) = 69069 * lcg seed k + 1"
  by (simp add: lcg_def)

lemma srand_words:
  assumes "length m = 625"
  shows "\<exists>m' s'. for_up 0 624 srand_step (m, seed) = Some (m', s') \<and> length m' = 625 \<and>
    (\<forall>i < 624. m' ! i = seed_word seed i)"
proof -
  let ?P = "\<lambda>i (m', s'). length m' = 625 \<and> s' = lcg seed (2 * i) \<and> (\<forall>j < i. m' ! j = seed_word seed j)"
  have "\<exists>s'. for_up 0 624 srand_step (m, seed) = Some s' \<and> ?P (0 + 624) s'"
  proof (rule for_up_inv [where P = ?P])
    show "?P 0 (m, seed)" using assms by (simp add: lcg_def)
  next
    fix i and s :: "u32 list \<times> u32"
    assume "0 \<le> i" "i < 0 + 624" "?P i s"
    then show "\<exists>s'. srand_step i s = Some s' \<and> ?P (Suc i) s'"
      by (cases s) (auto simp: srand_step_def st_def Let_def lcg_Suc seed_word_def nth_list_update less_Suc_eq)
  qed
  then show ?thesis by auto
qed

lemma mag01: "ld [0, MATRIX_A] (unat (y AND 1)) = Some (if bit y 0 then MATRIX_A else 0)"
  by (simp add: and_one_eq bit_0 odd_iff_mod_2_eq_one)

definition mt_at :: "u32 \<Rightarrow> nat \<Rightarrow> nat \<Rightarrow> u32 list \<Rightarrow> bool" where
  "mt_at seed q k m \<longleftrightarrow> length m = 625 \<and>
     (\<forall>i < 624. m ! i = mt_seq seed (624 * (if i < k then q + 1 else q) + i))"

lemma mt_generate_at:
  assumes "mt_at seed q k m" and "k < 624"
    and "nxt = (if k = 623 then 0 else k + 1)" and "far = (if k < 227 then k + 397 else k - 227)"
  shows "\<exists>m'. mt_generate k nxt far m = Some m' \<and> mt_at seed q (Suc k) m'"
proof -
  let ?x = "mt_seq seed"
  have l: "length m = 625" using assms(1) by (simp add: mt_at_def)
  have b: "nxt < 624" "far < 624" using assms(2-4) by (auto split: if_splits)
  have v: "m ! k = ?x (624 * q + k)" "m ! nxt = ?x (624 * q + k + 1)" "m ! far = ?x (624 * q + 397 + k)"
    using assms unfolding mt_at_def by (auto simp: algebra_simps)
  have "?x (624 * (q + 1) + k) = ?x (624 * q + 397 + k) XOR twist (?x (624 * q + k)) (?x (624 * q + k + 1))"
    by (subst mt_seq.simps) (simp add: add.commute add.left_commute)
  moreover have "bit ((u AND UPPER_MASK) OR (v AND LOWER_MASK)) 0 = bit v 0" for u v
    by (simp add: bit_simps UPPER_MASK_def LOWER_MASK_def)
  ultimately have "mt_generate k nxt far m = Some (m[k := ?x (624 * (q + 1) + k)])"
    using l b assms(2) by (simp add: mt_generate_def mag01 v st_def twist_def Let_def)
  moreover have "mt_at seed q (Suc k) (m[k := ?x (624 * (q + 1) + k)])"
    using assms(1,2) by (auto simp: mt_at_def nth_list_update less_Suc_eq)
  ultimately show ?thesis by blast
qed

lemma mt_reload_at:
  assumes "mt_at seed q 0 m"
  shows "\<exists>m'. mt_reload m = Some m' \<and> mt_at seed (q + 1) 0 m'"
proof -
  have "\<exists>m1. for_up 0 227 (\<lambda>kk. mt_generate kk (kk + 1) (kk + 397)) m = Some m1 \<and> mt_at seed q (0 + 227) m1"
    using assms by (intro for_up_inv [where P = "mt_at seed q"] mt_generate_at) auto
  then obtain m1 where m1: "for_up 0 227 (\<lambda>kk. mt_generate kk (kk + 1) (kk + 397)) m = Some m1"
    "mt_at seed q 227 m1" by auto
  have "\<exists>m2. for_up 227 396 (\<lambda>kk. mt_generate kk (kk + 1) (kk - 227)) m1 = Some m2 \<and> mt_at seed q (227 + 396) m2"
    using m1(2) by (intro for_up_inv [where P = "mt_at seed q"] mt_generate_at) auto
  then obtain m2 where m2: "for_up 227 396 (\<lambda>kk. mt_generate kk (kk + 1) (kk - 227)) m1 = Some m2"
    "mt_at seed q 623 m2" by auto
  obtain m3 where m3: "mt_generate 623 0 396 m2 = Some m3" "mt_at seed q 624 m3"
    using mt_generate_at [OF m2(2), of 0 396] by auto
  have "mt_reload m = Some m3"
    using m1(1) m2(1) m3(1) by (simp add: mt_reload_def MT_N_def MT_M_def del: for_up_numeral)
  moreover have "mt_at seed (q + 1) 0 m3" using m3(2) by (auto simp: mt_at_def)
  ultimately show ?thesis by blast
qed

text \<open>The state in which the next number is number n of the sequence.\<close>

definition rng_at :: "u32 \<Rightarrow> nat \<Rightarrow> rng \<Rightarrow> bool" where
  "rng_at seed n r \<longleftrightarrow> mt_initialized r \<and> mti r \<le> 624 \<and>
     (\<exists>q. mt_at seed q 0 (mt r) \<and> n = 624 * q + mti r)"

lemma srand_at:
  assumes "length (mt r) = 625"
  shows "\<exists>r'. libmin_srand seed r = Some r' \<and> rng_at seed 624 r'"
proof -
  obtain m' s' where m: "for_up 0 624 srand_step (mt r, seed) = Some (m', s')" "length m' = 625"
    "\<forall>i < 624. m' ! i = seed_word seed i" using srand_words [OF assms] by blast
  have "mt_at seed 0 0 m'" using m(2,3) by (simp add: mt_at_def mt_seq.simps)
  then show ?thesis using m(1)
    by (auto simp: libmin_srand_def rng_at_def MT_N_def simp del: for_up_numeral intro!: exI [of _ 0])
qed

lemma rand_at:
  assumes "rng_at seed n r"
  shows "\<exists>r'. libmin_rand r = Some (r', Inr (tempering (mt_seq seed n) AND RAND_MAX)) \<and> rng_at seed (Suc n) r'"
proof -
  from assms obtain q where i: "mt_initialized r" "mti r \<le> 624" "mt_at seed q 0 (mt r)"
    "n = 624 * q + mti r" by (auto simp: rng_at_def)
  show ?thesis
  proof (cases "mti r = 624")
    case True
    obtain m where m: "mt_reload (mt r) = Some m" "mt_at seed (q + 1) 0 m"
      using mt_reload_at [OF i(3)] by blast
    have "length m = 625" "m ! 0 = mt_seq seed n"
      using m(2) i(4) True by (auto simp: mt_at_def add.commute)
    moreover have "n + 1 = 624 * (q + 1) + 1" using i(4) True by simp
    ultimately show ?thesis using i(1) True m
      by (auto simp: libmin_rand_def MT_N_def rng_at_def intro!: exI [of _ "q + 1"])
  next
    case False
    then have "length (mt r) = 625" "mti r < 624" "mt r ! mti r = mt_seq seed n"
      using i by (auto simp: mt_at_def)
    then show ?thesis using i by (auto simp: libmin_rand_def MT_N_def rng_at_def)
  qed
qed

text \<open>Drawing a number of values.\<close>

fun rand_list :: "nat \<Rightarrow> rng \<Rightarrow> (rng \<times> u32 list) option" where
  "rand_list 0 r = Some (r, [])"
| "rand_list (Suc k) r = (case libmin_rand r of
     Some (r, Inr y) \<Rightarrow> map_option (map_prod id ((#) y)) (rand_list k r)
   | _ \<Rightarrow> None)"

lemma rand_list_at:
  "rng_at seed n r \<Longrightarrow> \<exists>r'. rand_list k r =
     Some (r', map (\<lambda>i. tempering (mt_seq seed i) AND RAND_MAX) [n..<n + k])"
proof (induction k arbitrary: n r)
  case (Suc k)
  from rand_at [OF Suc.prems] obtain r1 where
    r1: "libmin_rand r = Some (r1, Inr (tempering (mt_seq seed n) AND RAND_MAX))" "rng_at seed (Suc n) r1" by blast
  from Suc.IH [OF r1(2)] r1(1) show ?case by (auto simp: upt_conv_Cons simp del: upt_Suc)
qed simp

section \<open>The property\<close>

text \<open>
  C24: after seeding, any number of calls returns consecutive words of the Mersenne twister's
  linear recurrence, tempered and without the sign bit: regenerating the table of 624 words in
  place, in two loops and a wrap-around, is one step of the recurrence per word, and no access
  leaves the table. Without seeding a call ends the program with status 1.
\<close>

theorem rand_is_mersenne_twister:
  assumes "length (mt r) = length (mt static_rng)"
  shows "(\<exists>r1 r2. libmin_srand seed r = Some r1 \<and>
      rand_list k r1 = Some (r2, map (\<lambda>i. tempering (mt_seq seed i) AND RAND_MAX) [624..<624 + k])) \<and>
    libmin_rand static_rng =
      Some (static_rng, Inl (''ERROR: rng is not initialized, call mysrand()!'' @ [CHR 0x0A], 1))"
proof (rule conjI)
  have "length (mt r) = 625" using assms by (simp add: static_rng_def MT_N_def)
  then obtain r1 where "libmin_srand seed r = Some r1" "rng_at seed 624 r1" using srand_at by blast
  then show "\<exists>r1 r2. libmin_srand seed r = Some r1 \<and>
      rand_list k r1 = Some (r2, map (\<lambda>i. tempering (mt_seq seed i) AND RAND_MAX) [624..<624 + k])"
    using rand_list_at by blast
next
  show "libmin_rand static_rng =
      Some (static_rng, Inl (''ERROR: rng is not initialized, call mysrand()!'' @ [CHR 0x0A], 1))"
    by (simp add: libmin_rand_def static_rng_def)
qed

theorem rand_is_mersenne_twister_witness:
  "(\<exists>r1 r2. libmin_srand 1 static_rng = Some r1 \<and>
      rand_list 2000 r1 = Some (r2, map (\<lambda>i. tempering (mt_seq 1 i) AND RAND_MAX) [624..<624 + 2000])) \<and>
    libmin_rand static_rng =
      Some (static_rng, Inl (''ERROR: rng is not initialized, call mysrand()!'' @ [CHR 0x0A], 1))"
  by (rule rand_is_mersenne_twister) simp

end
