(* ===== verification/Libmin_Fnv.thy ===== *)
theory Libmin_Fnv
  imports Libmin_Mem
begin

text \<open>
  The hash functions of the benchmark library (src/bringup-bench/common/libmin_fnv1a.c), which
  multiply by the prime with shifts and additions, and the FNV-1a hash they compute.
\<close>

section \<open>Definitions\<close>

definition FNV_32_PRIME :: u32 where "FNV_32_PRIME = 0x01000193"
definition FNV_64_PRIME :: u64 where "FNV_64_PRIME = 0x100000001b3"

definition fnv32a_octet :: "u32 \<Rightarrow> u8 \<Rightarrow> u32" where
  "fnv32a_octet hval b =
     (let hval = hval XOR ucast b
      in hval + (push_bit 1 hval + push_bit 4 hval + push_bit 7 hval + push_bit 8 hval + push_bit 24 hval))"

function fnv32a_loop :: "mem \<Rightarrow> nat \<Rightarrow> nat \<Rightarrow> u32 \<Rightarrow> u32 option" where
  "fnv32a_loop m bp be hval =
     (if bp < be then
        (case ld m bp of None \<Rightarrow> None
         | Some b \<Rightarrow> fnv32a_loop m (bp + 1) be (fnv32a_octet hval b))
      else Some hval)"
  by auto
termination
  by (relation "measure (\<lambda>(m, bp, be, hval). be - bp)") auto

definition libmin_fnv32a :: "mem \<Rightarrow> nat \<Rightarrow> nat \<Rightarrow> u32 \<Rightarrow> u32 option" where
  "libmin_fnv32a m buf len hval = fnv32a_loop m buf (buf + len) hval"

definition fnv64a_octet :: "u64 \<Rightarrow> u8 \<Rightarrow> u64" where
  "fnv64a_octet hval b =
     (let hval = hval XOR ucast b
      in hval + (push_bit 1 hval + push_bit 4 hval + push_bit 5 hval +
                 push_bit 7 hval + push_bit 8 hval + push_bit 40 hval))"

function fnv64a_loop :: "mem \<Rightarrow> nat \<Rightarrow> nat \<Rightarrow> u64 \<Rightarrow> u64 option" where
  "fnv64a_loop m bp be hval =
     (if bp < be then
        (case ld m bp of None \<Rightarrow> None
         | Some b \<Rightarrow> fnv64a_loop m (bp + 1) be (fnv64a_octet hval b))
      else Some hval)"
  by auto
termination
  by (relation "measure (\<lambda>(m, bp, be, hval). be - bp)") auto

definition libmin_fnv64a :: "mem \<Rightarrow> nat \<Rightarrow> nat \<Rightarrow> u64 \<Rightarrow> u64 option" where
  "libmin_fnv64a m buf len hval = fnv64a_loop m buf (buf + len) hval"

declare fnv32a_loop.simps [simp del] fnv64a_loop.simps [simp del]

section \<open>The hash\<close>

definition fnv1a :: "'a::len word \<Rightarrow> 'a word \<Rightarrow> u8 list \<Rightarrow> 'a word" where
  "fnv1a prime = foldl (\<lambda>h b. (h XOR ucast b) * prime)"

lemma fnv32a_octet: "fnv32a_octet h b = (h XOR ucast b) * FNV_32_PRIME"
  by (simp add: fnv32a_octet_def FNV_32_PRIME_def push_bit_eq_mult Let_def)

lemma fnv64a_octet: "fnv64a_octet h b = (h XOR ucast b) * FNV_64_PRIME"
  by (simp add: fnv64a_octet_def FNV_64_PRIME_def push_bit_eq_mult Let_def)

lemma fnv32a_loop:
  "ld_bytes m bp n = Some bs \<Longrightarrow> fnv32a_loop m bp (bp + n) h = Some (fnv1a FNV_32_PRIME h bs)"
proof (induction n arbitrary: bp bs h)
  case 0
  then show ?case by (auto simp: fnv32a_loop.simps [of m bp bp] fnv1a_def split: if_splits)
next
  case (Suc n)
  then obtain b bs' where b: "ld m bp = Some b" "ld_bytes m (Suc bp) n = Some bs'" "bs = b # bs'"
    by (auto simp: ld_bytes_Suc split: option.splits)
  show ?case using b Suc.IH [OF b(2)]
    by (subst fnv32a_loop.simps) (simp add: fnv1a_def fnv32a_octet)
qed

lemma fnv64a_loop:
  "ld_bytes m bp n = Some bs \<Longrightarrow> fnv64a_loop m bp (bp + n) h = Some (fnv1a FNV_64_PRIME h bs)"
proof (induction n arbitrary: bp bs h)
  case 0
  then show ?case by (auto simp: fnv64a_loop.simps [of m bp bp] fnv1a_def split: if_splits)
next
  case (Suc n)
  then obtain b bs' where b: "ld m bp = Some b" "ld_bytes m (Suc bp) n = Some bs'" "bs = b # bs'"
    by (auto simp: ld_bytes_Suc split: option.splits)
  show ?case using b Suc.IH [OF b(2)]
    by (subst fnv64a_loop.simps) (simp add: fnv1a_def fnv64a_octet)
qed

lemma fnv1a_append: "fnv1a p h (xs @ ys) = fnv1a p (fnv1a p h xs) ys"
  by (simp add: fnv1a_def)

text \<open>
  On a buffer inside memory both hash functions compute the FNV-1a fold, with the shifts and
  additions equal to the multiplication by the prime modulo the word size; so hashing a buffer
  in two parts, passing the first result on, gives the hash of the whole.
\<close>

lemma fnv_hash:
  assumes "ld_bytes m buf n = Some xs" and "ld_bytes m (buf + n) k = Some ys"
  shows "libmin_fnv32a m buf n h = Some (foldl (\<lambda>h b. (h XOR ucast b) * FNV_32_PRIME) h xs) \<and>
    libmin_fnv64a m buf n g = Some (foldl (\<lambda>h b. (h XOR ucast b) * FNV_64_PRIME) g xs) \<and>
    libmin_fnv32a m buf (n + k) h = Option.bind (libmin_fnv32a m buf n h) (libmin_fnv32a m (buf + n) k) \<and>
    libmin_fnv64a m buf (n + k) g = Option.bind (libmin_fnv64a m buf n g) (libmin_fnv64a m (buf + n) k)"
proof -
  have "ld_bytes m buf (n + k) = Some (xs @ ys)"
    using assms by (auto simp: ld_bytes_def take_add add.assoc add.commute [of n buf] split: if_splits)
  from fnv32a_loop [OF this] fnv64a_loop [OF this] show ?thesis
    using fnv32a_loop [OF assms(1)] fnv64a_loop [OF assms(1)] fnv32a_loop [OF assms(2)] fnv64a_loop [OF assms(2)]
    by (simp add: libmin_fnv32a_def libmin_fnv64a_def fnv1a_append add.assoc)
      (simp add: fnv1a_def)
qed

end
