(* ===== verification/Libmin_Conv.thy ===== *)
theory Libmin_Conv
  imports Libmin_Str_Proofs
begin

text \<open>
  The number conversions of the benchmark library (libmin_atoi.c, libmin_atol.c,
  libmin_strtol.c, libmin_abs.c in src/bringup-bench/common) on the flat memory. Signed
  arithmetic is on integers; an operation whose result does not fit its C type is undefined
  and has the value None here. The digit table of strtol is a string of its own.
\<close>

section \<open>Definitions\<close>

definition int_in :: "nat \<Rightarrow> int \<Rightarrow> int option" where
  "int_in w x = (if - (2 ^ (w - 1)) \<le> x \<and> x < 2 ^ (w - 1) then Some x else None)"

definition libmin_abs :: "int \<Rightarrow> int option" where
  "libmin_abs i = (if i < 0 then int_in 32 (- i) else Some i)"

function skip_space :: "mem \<Rightarrow> nat \<Rightarrow> nat option" where
  "skip_space m s = (case ld m s of None \<Rightarrow> None
     | Some c \<Rightarrow> if isspace c then skip_space m (s + 1) else Some s)"
  by auto
termination
  by (relation "measure (\<lambda>(m, s). length m - s)") (auto simp: ld_eq_Some)

definition number_sign :: "mem \<Rightarrow> nat \<Rightarrow> (bool \<times> nat) option" where
  "number_sign m s =
     do {
       c \<leftarrow> ld m s;
       Some (if c = 0x2D then (True, s + 1) else if c = 0x2B then (False, s + 1) else (False, s))
     }"

function ato_digits :: "nat \<Rightarrow> mem \<Rightarrow> nat \<Rightarrow> int \<Rightarrow> int option" where
  "ato_digits w m s n = (case ld m s of None \<Rightarrow> None
     | Some c \<Rightarrow>
         if isdigit c then
           (case Option.bind (int_in w (10 * n)) (\<lambda>t. int_in w (t - (uint c - 0x30))) of
              None \<Rightarrow> None
            | Some n \<Rightarrow> ato_digits w m (s + 1) n)
         else Some n)"
  by auto
termination
  by (relation "measure (\<lambda>(w, m, s, n). length m - s)") (auto simp: ld_eq_Some)

definition libmin_atoi :: "mem \<Rightarrow> nat \<Rightarrow> int option" where
  "libmin_atoi m s =
     do {
       s \<leftarrow> skip_space m s;
       (neg, s) \<leftarrow> number_sign m s;
       n \<leftarrow> ato_digits 32 m s 0;
       if neg then Some n else int_in 32 (- n)
     }"

definition libmin_atol :: "mem \<Rightarrow> nat \<Rightarrow> int option" where
  "libmin_atol m s =
     do {
       s \<leftarrow> skip_space m s;
       (neg, s) \<leftarrow> number_sign m s;
       n \<leftarrow> ato_digits 64 m s 0;
       if neg then Some n else int_in 64 (- n)
     }"

subsection \<open>strtol\<close>

definition digits :: "u8 list" where
  "digits = map of_char ''0123456789abcdefghijklmnopqrstuvxwyz''"

text \<open>The table in memory, at address 1.\<close>

definition digits_mem :: mem where
  "digits_mem = 0 # digits @ [0]"

definition strtol_digit :: "u8 \<Rightarrow> int option option" where
  "strtol_digit c =
     (let c = (if isupper c then tolower c else c) in
      do {
        pos \<leftarrow> libmin_strchr digits_mem 1 c;
        Some (if pos = NULL then None else Some (int pos - 1))
      })"

function strtol_shift :: "mem \<Rightarrow> nat \<Rightarrow> u8 \<Rightarrow> nat \<Rightarrow> u64 \<Rightarrow> (u64 \<times> nat) option" where
  "strtol_shift m sh hi q number = (case ld m q of None \<Rightarrow> None
     | Some c \<Rightarrow>
         if 0x30 \<le> c \<and> c \<le> hi then strtol_shift m sh hi (q + 1) (push_bit sh number OR (ucast c - 0x30))
         else Some (number, q))"
  by auto
termination
  by (relation "measure (\<lambda>(m, sh, hi, q, n). length m - q)") (auto simp: ld_eq_Some)

function strtol_hex :: "mem \<Rightarrow> nat \<Rightarrow> u64 \<Rightarrow> (u64 \<times> nat) option" where
  "strtol_hex m q number = (case ld m q of None \<Rightarrow> None
     | Some c \<Rightarrow>
         if c = 0 then Some (number, q)
         else (case strtol_digit c of None \<Rightarrow> None
           | Some None \<Rightarrow> Some (number, q)
           | Some (Some digit) \<Rightarrow>
               if 0 \<le> digit \<and> digit \<le> 15
               then strtol_hex m (q + 1) (push_bit 4 number OR of_int digit)
               else Some (number, q)))"
  by auto
termination
  by (relation "measure (\<lambda>(m, q, n). length m - q)") (auto simp: ld_eq_Some)

function strtol_mult :: "mem \<Rightarrow> int \<Rightarrow> nat \<Rightarrow> int \<Rightarrow> (int \<times> nat) option" where
  "strtol_mult m base q number = (case ld m q of None \<Rightarrow> None
     | Some c \<Rightarrow>
         if c = 0 then Some (number, q)
         else (case strtol_digit c of None \<Rightarrow> None
           | Some None \<Rightarrow> Some (number, q)
           | Some (Some digit) \<Rightarrow>
               if 0 \<le> digit \<and> digit \<le> base - 1 then
                 (case Option.bind (int_in 64 (number * base)) (\<lambda>t. int_in 64 (t - digit)) of
                    None \<Rightarrow> None
                  | Some number \<Rightarrow> strtol_mult m base (q + 1) number)
               else Some (number, q)))"
  by auto
termination
  by (relation "measure (\<lambda>(m, b, q, n). length m - q)") (auto simp: ld_eq_Some)

definition is_hex_prefix :: "mem \<Rightarrow> nat \<Rightarrow> bool option" where
  "is_hex_prefix m q = do { x \<leftarrow> ld m (q + 1); Some (x = 0x78 \<or> x = 0x58) }"

definition strtol_base :: "mem \<Rightarrow> nat \<Rightarrow> int \<Rightarrow> int option" where
  "strtol_base m q base =
     (if base = 0 then do {
        c \<leftarrow> ld m q;
        if c = 0x30 then do { x \<leftarrow> is_hex_prefix m q; Some (if x then 16 else 8) } else Some 10 }
      else Some base)"

definition strtol_prefix :: "mem \<Rightarrow> nat \<Rightarrow> int \<Rightarrow> nat option" where
  "strtol_prefix m q base =
     (if base = 16 then do {
        c \<leftarrow> ld m q;
        if c = 0x30 then do { x \<leftarrow> is_hex_prefix m q; Some (if x then q + 2 else q) } else Some q }
      else Some q)"

text \<open>The result is the value with the address stored at \<open>endptr\<close>.\<close>

definition libmin_strtol :: "mem \<Rightarrow> nat \<Rightarrow> int \<Rightarrow> (int \<times> nat) option" where
  "libmin_strtol m nptr base =
     (if \<not> (2 \<le> base \<and> base \<le> 36 \<or> base = 0 \<or> nptr \<noteq> NULL) then Some (0, nptr)
      else do {
        nptr \<leftarrow> skip_space m nptr;
        (is_negative, q) \<leftarrow> number_sign m nptr;
        base \<leftarrow> strtol_base m q base;
        q \<leftarrow> strtol_prefix m q base;
        if base = 2 \<or> base = 4 \<or> base = 8 \<or> base = 16 then do {
          (number, q) \<leftarrow> (if base = 2 then strtol_shift m 1 0x31 q 0
             else if base = 4 then strtol_shift m 2 0x33 q 0
             else if base = 8 then strtol_shift m 3 0x37 q 0
             else strtol_hex m q 0);
          number \<leftarrow> (if is_negative then int_in 64 (- sint number) else Some (sint number));
          Some (number, q) }
        else do {
          (number, q) \<leftarrow> strtol_mult m base q 0;
          if is_negative then Some (number, q)
          else do { number \<leftarrow> int_in 64 (- number); Some (number, q) } }
      })"

declare skip_space.simps [simp del] ato_digits.simps [simp del] strtol_shift.simps [simp del]
  strtol_hex.simps [simp del] strtol_mult.simps [simp del]

section \<open>Scanning\<close>

definition horner :: "nat \<Rightarrow> nat list \<Rightarrow> nat" where
  "horner b ds = foldl (\<lambda>n d. b * n + d) 0 ds"

lemma horner_simps [simp]: "horner b [] = 0" "horner b (ds @ [d]) = b * horner b ds + d"
  by (simp_all add: horner_def)

lemma foldl_horner_mono: "(1 :: nat) \<le> b \<Longrightarrow> n \<le> foldl (\<lambda>n d. b * n + d) n ds"
proof (induction ds arbitrary: n)
  case (Cons d ds)
  from Cons.prems have "n \<le> b * n + d" by (metis le_add1 le_trans mult_le_mono1 nat_mult_1)
  also have "\<dots> \<le> foldl (\<lambda>n d. b * n + d) (b * n + d) ds" using Cons by blast
  finally show ?case by simp
qed simp

definition stops :: "(u8 \<Rightarrow> bool) \<Rightarrow> u8 list \<Rightarrow> bool" where
  "stops P xs \<longleftrightarrow> (case xs of [] \<Rightarrow> True | x # _ \<Rightarrow> \<not> P x)"

lemma skip_space_cstr:
  "cstr m s (sp @ xs) \<Longrightarrow> list_all isspace sp \<Longrightarrow> stops isspace xs \<Longrightarrow> skip_space m s = Some (s + length sp)"
proof (induction sp arbitrary: s)
  case Nil
  then show ?case by (cases xs) (auto simp: stops_def skip_space.simps)
next
  case (Cons c sp)
  then show ?case by (subst skip_space.simps) auto
qed

definition sign_text :: "bool \<Rightarrow> u8 list \<Rightarrow> bool" where
  "sign_text neg sg \<longleftrightarrow> sg = [0x2D] \<and> neg \<or> (sg = [0x2B] \<or> sg = []) \<and> \<not> neg"

lemma number_sign_cstr:
  assumes "cstr m s (sg @ xs)" "sign_text neg sg" "sg = [] \<longrightarrow> stops (\<lambda>c. c = 0x2D \<or> c = 0x2B) xs"
  shows "number_sign m s = Some (neg, s + length sg)"
  using assms by (cases xs) (auto simp: number_sign_def sign_text_def stops_def)

definition digit_of :: "u8 \<Rightarrow> nat" where "digit_of c = unat c - 48"

lemma isdigit_uint: "isdigit c \<Longrightarrow> uint c - 0x30 = int (digit_of c)"
  by (auto simp: isdigit_iff digit_of_def of_nat_diff)

lemma ato_digits_cstr:
  assumes "cstr m s (ds @ rest)" "list_all isdigit ds" "stops isdigit rest"
    and "foldl (\<lambda>n d. 10 * n + d) n (map digit_of ds) \<le> 2 ^ (w - 1)"
  shows "ato_digits w m s (- int n) = Some (- int (foldl (\<lambda>n d. 10 * n + d) n (map digit_of ds)))"
  using assms
proof (induction ds arbitrary: s n)
  case Nil
  then show ?case by (cases rest) (auto simp: stops_def ato_digits.simps)
next
  case (Cons c ds)
  have "10 * n + digit_of c \<le> 2 ^ (w - 1)"
    using foldl_horner_mono [of 10 "10 * n + digit_of c" "map digit_of ds"] Cons.prems(4) by simp
  then have "int (10 * n + digit_of c) \<le> int (2 ^ (w - 1))" by (simp only: of_nat_le_iff)
  then have b: "10 * int n + int (digit_of c) \<le> 2 ^ (w - 1)" by simp
  have p: "- (10 * int n) < 2 ^ (w - 1)" "- (10 * int n) - int (digit_of c) < 2 ^ (w - 1)"
    by (rule le_less_trans [of _ 0]; simp)+
  from b have "int_in w (10 * (- int n)) = Some (- int (10 * n))"
    "int_in w (- int (10 * n) - int (digit_of c)) = Some (- int (10 * n + digit_of c))"
    using p unfolding int_in_def by (auto simp del: One_nat_def)
  then show ?case using Cons.prems Cons.IH [of "s + 1" "10 * n + digit_of c"]
    by (subst ato_digits.simps) (simp add: isdigit_uint)
qed

text \<open>The text of a decimal number: spaces, sign, digits, and what follows.\<close>

definition decimal_text :: "bool \<Rightarrow> u8 list \<Rightarrow> u8 list \<Rightarrow> bool" where
  "decimal_text neg ds t \<longleftrightarrow> (\<exists>sp sg rest. t = sp @ sg @ ds @ rest \<and> list_all isspace sp \<and> sign_text neg sg \<and>
     list_all isdigit ds \<and> stops isdigit rest \<and>
     (sg = [] \<longrightarrow> ds \<noteq> [] \<or> stops (\<lambda>c. isspace c \<or> c = 0x2D \<or> c = 0x2B) rest))"

lemma not_digit_chars: "isdigit c \<Longrightarrow> \<not> isspace c \<and> c \<noteq> 0x2D \<and> c \<noteq> 0x2B"
  by (auto simp: isdigit_iff isspace_iff)

lemma decimal_scan:
  assumes "cstr m s t" "decimal_text neg ds t" "horner 10 (map digit_of ds) \<le> 2 ^ (w - 1)"
  shows "\<exists>s1 s2. skip_space m s = Some s1 \<and> number_sign m s1 = Some (neg, s2) \<and>
    ato_digits w m s2 0 = Some (- int (horner 10 (map digit_of ds)))"
proof -
  obtain sp sg rest where t: "t = sp @ sg @ ds @ rest" "list_all isspace sp" "sign_text neg sg" "list_all isdigit ds"
    "stops isdigit rest" "sg = [] \<longrightarrow> ds \<noteq> [] \<or> stops (\<lambda>c. isspace c \<or> c = 0x2D \<or> c = 0x2B) rest"
    using assms(2) by (auto simp: decimal_text_def)
  let ?r = "ds @ rest"
  have st: "stops isspace (sg @ ?r)" "sg = [] \<longrightarrow> stops (\<lambda>c. c = 0x2D \<or> c = 0x2B) ?r"
    using t(3,4,6) not_digit_chars
    by (cases ds; force simp: stops_def sign_text_def isspace_iff split: list.splits)+
  have c: "cstr m (s + length sp) (sg @ ?r)" "cstr m (s + length sp + length sg) ?r"
    using assms(1) t(1) by (auto simp: cstr_append)
  from skip_space_cstr [of m s sp "sg @ ?r"] number_sign_cstr [OF c(1) t(3) st(2)]
    ato_digits_cstr [OF c(2) t(4,5), of 0 w] assms t st
  show ?thesis by (auto simp: horner_def)
qed

section \<open>The digit table\<close>

definition table_val :: "u8 \<Rightarrow> nat" where
  "table_val c = length (takeWhile (\<lambda>x. x \<noteq> (if isupper c then tolower c else c)) digits)"

lemma digits_eval:
  "digits = [0x30, 0x31, 0x32, 0x33, 0x34, 0x35, 0x36, 0x37, 0x38, 0x39, 0x61, 0x62, 0x63, 0x64, 0x65, 0x66, 0x67,
     0x68, 0x69, 0x6A, 0x6B, 0x6C, 0x6D, 0x6E, 0x6F, 0x70, 0x71, 0x72, 0x73, 0x74, 0x75, 0x76, 0x78, 0x77, 0x79, 0x7A]"
  by (simp add: digits_def of_char_def)

lemma cstr_shift: "cstr (x # m) (Suc a) xs = cstr m a xs"
  by (induction xs arbitrary: a) (simp_all add: ld_def)

lemma cstr_whole: "0 \<notin> set xs \<Longrightarrow> cstr (xs @ [0]) 0 xs"
  by (induction xs) (auto simp: cstr_shift ld_def)

lemma cstr_digits: "cstr digits_mem 1 digits"
  using cstr_whole [of digits] by (simp add: digits_mem_def cstr_shift, simp add: digits_eval)

lemma length_digits: "length digits = 36"
  by (simp add: digits_eval)

lemma tolower_nonzero: "isupper c \<Longrightarrow> tolower c \<noteq> 0"
proof
  assume u: "isupper c" and "tolower c = 0"
  then have "c = - 0x20" by (simp add: tolower_def eq_neg_iff_add_eq_0 add.commute)
  with u show False by (simp add: isupper_iff)
qed

lemma takeWhile_hits: "x \<in> set xs \<longleftrightarrow> length (takeWhile (\<lambda>y. y \<noteq> x) xs) < length xs"
  by (induction xs) auto

lemma takeWhile_misses: "x \<notin> set xs \<Longrightarrow> length (takeWhile (\<lambda>y. y \<noteq> x) xs) = length xs"
  by (induction xs) auto

text \<open>The value of a character as a digit; the letters w and x have each other's value.\<close>

definition letter_val :: "nat \<Rightarrow> nat" where
  "letter_val n = (if n < 58 then n - 48 else if n = 119 then 33 else if n = 120 then 32 else n - 87)"

lemma table_positions:
  "list_all (\<lambda>n. length (takeWhile (\<lambda>x. x \<noteq> of_nat n) digits) = letter_val n) ([48..<58] @ [97..<123])"
  by (simp add: digits_eval upt_rec letter_val_def)

lemma digits_range: "x \<in> set digits \<Longrightarrow> unat x \<in> set ([48..<58] @ [97..<123])"
  by (auto simp: digits_eval)

lemma table_position:
  "length (takeWhile (\<lambda>x. x \<noteq> c) digits) =
     (if unat c \<in> {48..57} \<union> {97..122} then letter_val (unat c) else 36)"
proof (cases "unat c \<in> {48..57} \<union> {97..122}")
  case True
  then have "unat c \<in> set ([48..<58] @ [97..<123])" by (simp only: set_append set_upt) auto
  with table_positions have "length (takeWhile (\<lambda>x. x \<noteq> of_nat (unat c)) digits) = letter_val (unat c)"
    by (simp only: list_all_iff)
  with True show ?thesis by simp
next
  case False
  then have "c \<notin> set digits" using digits_range [of c] by (simp only: set_append set_upt) auto
  from takeWhile_misses [OF this] False show ?thesis by (simp only: length_digits) simp
qed

definition digit_val :: "u8 \<Rightarrow> nat" where
  "digit_val c = (let n = unat c in
     if n \<in> {48..57} \<union> {97..122} then letter_val n else if n \<in> {65..90} then letter_val (n + 32) else 36)"

lemma table_val_eq: "table_val c = digit_val c"
proof -
  have "unat (tolower c) = unat c + 32" if "isupper c"
  proof -
    have "unat (c + 32) = unat c + unat (32 :: u8)"
      using that by (intro unat_add_lem [THEN iffD1]) (auto simp: isupper_iff)
    moreover have "unat (32 :: u8) = 32" by simp
    ultimately show ?thesis using that by (simp only: tolower_def) (simp add: add.commute)
  qed
  then show ?thesis
    by (auto simp: digit_val_def table_val_def table_position Let_def isupper_iff)
qed

lemma strtol_digit_eval:
  assumes "c \<noteq> 0"
  shows "strtol_digit c = Some (if digit_val c < 36 then Some (int (digit_val c)) else None)"
proof -
  let ?l = "if isupper c then tolower c else c"
  have "?l \<in> set digits \<longleftrightarrow> length (takeWhile (\<lambda>x. x \<noteq> ?l) digits) < length digits"
    by (rule takeWhile_hits)
  then show ?thesis
    using strchr_cstr [OF cstr_digits, of ?l] assms tolower_nonzero [of c] length_digits
    by (auto simp: strtol_digit_def table_val_def NULL_def Let_def simp flip: table_val_eq)
qed

section \<open>The digit loops of strtol\<close>

lemma bit_or_digit:
  assumes "d < 2 ^ sh"
  shows "push_bit sh (of_nat n) OR of_nat d = (of_nat (2 ^ sh * n + d) :: u64)"
proof -
  have "take_bit sh (of_nat d :: u64) = of_nat (take_bit sh d)" by (simp add: take_bit_of_nat)
  also have "take_bit sh d = d" using assms by (simp add: take_bit_nat_eq_self)
  finally have t: "take_bit sh (of_nat d :: u64) = of_nat d" .
  have "\<not> bit (push_bit sh (of_nat n) :: u64) k \<or> \<not> bit (of_nat d :: u64) k" for k
    by (subst t [symmetric]) (auto simp: bit_push_bit_iff bit_take_bit_iff)
  then have "push_bit sh (of_nat n) OR of_nat d = (push_bit sh (of_nat n) + of_nat d :: u64)"
    by (simp add: disjunctive_add)
  then show ?thesis by (simp add: push_bit_eq_mult mult.commute)
qed

lemma digit_bounds: "digit_val c < b \<Longrightarrow> b \<le> 36 \<Longrightarrow> c \<noteq> 0 \<and> \<not> isspace c \<and> c \<noteq> 0x2D \<and> c \<noteq> 0x2B"
  by (auto simp: digit_val_def isspace_iff)

lemma octal_digit:
  assumes "b \<le> 10" "0 < b"
  shows "0x30 \<le> c \<and> c \<le> of_nat (b + 47) \<longleftrightarrow> digit_val c < b"
proof -
  have "unat (of_nat (b + 47) :: u8) = b + 47"
    using assms by (simp only: unat_of_nat) (simp add: take_bit_nat_eq_self)
  then show ?thesis using assms
    by (auto simp: word_le_nat_alt digit_val_def letter_val_def Let_def split: if_splits simp del: of_nat_add)
qed

lemma octal_value:
  assumes "digit_val c < b" "b \<le> 10"
  shows "ucast c - 0x30 = (of_nat (digit_val c) :: u64)"
proof -
  have c: "48 \<le> unat c" "digit_val c = unat c - 48"
    using assms by (auto simp: digit_val_def letter_val_def Let_def split: if_splits)
  have "(ucast c :: u64) = of_nat (unat c)" by simp
  also have "\<dots> = of_nat (48 + digit_val c)" using c by simp
  finally show ?thesis by simp
qed

lemma strtol_shift_cstr:
  assumes "cstr m q (ds @ rest)" "list_all (\<lambda>c. digit_val c < b) ds" "stops (\<lambda>c. digit_val c < b) rest"
    and "b = 2 ^ sh" "b \<le> 8" "hi = of_nat (b + 47)"
  shows "strtol_shift m sh hi q (of_nat n) =
    Some (of_nat (foldl (\<lambda>n d. b * n + d) n (map digit_val ds)), q + length ds)"
  using assms(1,2)
proof (induction ds arbitrary: q n)
  case Nil
  from Nil assms(3) show ?case
  proof (cases rest)
    case (Cons c r)
    then have "\<not> (0x30 \<le> c \<and> c \<le> hi)" using assms(3-6) octal_digit [of b c] by (simp add: stops_def)
    then show ?thesis using Nil Cons by (subst strtol_shift.simps) auto
  qed (simp add: strtol_shift.simps)
next
  case (Cons c ds)
  have c: "0x30 \<le> c \<and> c \<le> hi" "ucast c - 0x30 = (of_nat (digit_val c) :: u64)"
    using Cons.prems assms(4-6) octal_digit [of b c] octal_value [of c b] by auto
  then show ?case using Cons.prems Cons.IH [of "q + 1" "b * n + digit_val c"] bit_or_digit [of "digit_val c" sh n] assms(4)
    by (subst strtol_shift.simps) simp
qed

lemma strtol_hex_cstr:
  assumes "cstr m q (ds @ rest)" "list_all (\<lambda>c. digit_val c < 16) ds" "stops (\<lambda>c. digit_val c < 16) rest"
  shows "strtol_hex m q (of_nat n) =
    Some (of_nat (foldl (\<lambda>n d. 16 * n + d) n (map digit_val ds)), q + length ds)"
  using assms(1,2)
proof (induction ds arbitrary: q n)
  case Nil
  with assms(3) show ?case by (cases rest) (auto simp: strtol_hex.simps stops_def strtol_digit_eval)
next
  case (Cons c ds)
  have "(of_int (int (digit_val c)) :: u64) = of_nat (digit_val c)" by simp
  with Cons.prems Cons.IH [of "q + 1" "16 * n + digit_val c"] bit_or_digit [of "digit_val c" 4 n] show ?case
    by (subst strtol_hex.simps) (simp add: strtol_digit_eval)
qed

lemma negative_in: "0 \<le> x \<Longrightarrow> 0 \<le> y \<Longrightarrow> - x < (2 :: int) ^ 63 \<and> - x - y < 2 ^ 63"
  by simp

lemma strtol_mult_cstr:
  assumes "cstr m q (ds @ rest)" "list_all (\<lambda>c. digit_val c < b) ds" "stops (\<lambda>c. digit_val c < b) rest" "1 \<le> b" "b \<le> 36"
    and "foldl (\<lambda>n d. b * n + d) n (map digit_val ds) \<le> 2 ^ 63"
  shows "strtol_mult m (int b) q (- int n) =
    Some (- int (foldl (\<lambda>n d. b * n + d) n (map digit_val ds)), q + length ds)"
  using assms(1,2,6)
proof (induction ds arbitrary: q n)
  case Nil
  with assms(3) show ?case by (cases rest) (auto simp: strtol_mult.simps stops_def strtol_digit_eval)
next
  case (Cons c ds)
  have "b * n + digit_val c \<le> 2 ^ 63"
    using foldl_horner_mono [of b "b * n + digit_val c" "map digit_val ds"] Cons.prems(3) assms(4) by simp
  then have "int (b * n + digit_val c) \<le> int (2 ^ 63)" by (simp only: of_nat_le_iff)
  moreover have p: "- (int b * int n) < 2 ^ 63 \<and> - (int b * int n) - int (digit_val c) < 2 ^ 63"
    by (intro negative_in) simp_all
  ultimately have s: "int_in 64 (- int n * int b) = Some (- int (b * n))"
    "int_in 64 (- int (b * n) - int (digit_val c)) = Some (- int (b * n + digit_val c))"
    unfolding int_in_def using p by (simp_all add: mult.commute)
  from Cons.prems(1,2) have c: "ld m q = Some c" "c \<noteq> 0" "digit_val c < b" by auto
  have "strtol_mult m (int b) q (- int n) = strtol_mult m (int b) (q + 1) (- int (b * n + digit_val c))"
    using c s assms(5) by (subst strtol_mult.simps) (simp add: strtol_digit_eval)
  then show ?case using Cons.prems Cons.IH [of "q + 1" "b * n + digit_val c"] by simp
qed

section \<open>Reading a number\<close>

text \<open>The text of a number in a base, with the digits as far as they go.\<close>

definition number_text :: "nat \<Rightarrow> bool \<Rightarrow> u8 list \<Rightarrow> nat \<Rightarrow> u8 list \<Rightarrow> bool" where
  "number_text b neg ds n t \<longleftrightarrow> (\<exists>sp sg px rest. t = sp @ sg @ px @ ds @ rest \<and>
     n = length (sp @ sg @ px @ ds) \<and> list_all isspace sp \<and> sign_text neg sg \<and>
     (px = [] \<or> b = 16 \<and> (px = [0x30, 0x78] \<or> px = [0x30, 0x58])) \<and>
     ds \<noteq> [] \<and> list_all (\<lambda>c. digit_val c < b) ds \<and> stops (\<lambda>c. digit_val c < b) rest \<and>
     (b = 16 \<and> px = [] \<and> ds = [0x30] \<longrightarrow> stops (\<lambda>c. c = 0x78 \<or> c = 0x58) rest))"

lemma strtol_prefix_cstr:
  assumes "cstr m q (px @ ds @ rest)" "px = [] \<or> b = 16 \<and> (px = [0x30, 0x78] \<or> px = [0x30, 0x58])"
    and "ds \<noteq> []" "list_all (\<lambda>c. digit_val c < b) ds" "b = 16 \<and> px = [] \<and> ds = [0x30] \<longrightarrow> stops (\<lambda>c. c = 0x78 \<or> c = 0x58) rest"
  shows "strtol_prefix m q (int b) = Some (q + length px)"
proof (cases "b = 16 \<and> px = []")
  case True
  have x: "\<not> digit_val 0x78 < 16" "\<not> digit_val 0x58 < 16" by (simp_all add: digit_val_def letter_val_def)
  obtain c ds' where ds: "ds = c # ds'" using assms(3) by (cases ds) auto
  have "ld m (q + 1) = Some ((ds' @ rest @ [0]) ! 0)" "(ds' @ rest @ [0]) ! 0 = 0x78 \<or> (ds' @ rest @ [0]) ! 0 = 0x58 \<Longrightarrow> c \<noteq> 0x30"
    using assms True ds x by (cases ds'; cases rest; auto simp: stops_def)+
  with assms(1) True ds show ?thesis by (auto simp: strtol_prefix_def is_hex_prefix_def)
next
  case False
  with assms(1,2) show ?thesis by (auto simp: strtol_prefix_def is_hex_prefix_def)
qed

lemma number_scan:
  assumes "cstr m p t" "number_text b neg ds n t" "2 \<le> b" "b \<le> 36"
  shows "\<exists>p1 q rest. skip_space m p = Some p1 \<and> number_sign m p1 = Some (neg, q) \<and>
    (\<exists>k. strtol_prefix m q (int b) = Some k \<and> cstr m k (ds @ rest) \<and> k + length ds = p + n) \<and>
    list_all (\<lambda>c. digit_val c < b) ds \<and> stops (\<lambda>c. digit_val c < b) rest"
proof -
  obtain sp sg px rest where t: "t = sp @ sg @ px @ ds @ rest" "n = length (sp @ sg @ px @ ds)"
    "list_all isspace sp" "sign_text neg sg" "px = [] \<or> b = 16 \<and> (px = [0x30, 0x78] \<or> px = [0x30, 0x58])"
    "ds \<noteq> []" "list_all (\<lambda>c. digit_val c < b) ds" "stops (\<lambda>c. digit_val c < b) rest"
    "b = 16 \<and> px = [] \<and> ds = [0x30] \<longrightarrow> stops (\<lambda>c. c = 0x78 \<or> c = 0x58) rest"
    using assms(2) by (auto simp: number_text_def)
  have c: "cstr m (p + length sp) (sg @ px @ ds @ rest)" "cstr m (p + length sp + length sg) (px @ ds @ rest)"
    "cstr m (p + length sp + length sg + length px) (ds @ rest)"
    using assms(1) t(1) by (auto simp: cstr_append)
  obtain d ds' where ds: "ds = d # ds'" using t(6) by (cases ds) auto
  with t(7) digit_bounds [of d b] assms(4) have d: "\<not> isspace d" "d \<noteq> 0x2D" "d \<noteq> 0x2B" by auto
  have st: "stops isspace (sg @ px @ ds @ rest)" "sg = [] \<longrightarrow> stops (\<lambda>c. c = 0x2D \<or> c = 0x2B) (px @ ds @ rest)"
    using t(4,5) ds d by (auto simp: stops_def sign_text_def isspace_iff)
  show ?thesis
    using skip_space_cstr [of m p sp "sg @ px @ ds @ rest"] number_sign_cstr [OF c(1) t(4) st(2)] assms(1)
      strtol_prefix_cstr [OF c(2) t(5,6,7,9)] c(3) t st(1)
    by (auto simp: add.assoc)
qed

definition signed_value :: "bool \<Rightarrow> nat \<Rightarrow> int" where
  "signed_value neg v = (if neg then - int v else int v)"

lemma int_in_neg: "v < 2 ^ (w - 1) \<Longrightarrow> int_in w (- (- int v)) = Some (int v)" "v < 2 ^ (w - 1) \<Longrightarrow> int_in w (- int v) = Some (- int v)"
proof -
  assume "v < 2 ^ (w - 1)"
  then have "int v < int (2 ^ (w - 1))" by (simp only: of_nat_less_iff)
  then have "int v < 2 ^ (w - 1)" by simp
  moreover from this have "- (2 ^ (w - 1)) \<le> int v" "- int v < 2 ^ (w - 1)" "- (2 ^ (w - 1)) \<le> - int v"
    by linarith+
  ultimately show "int_in w (- (- int v)) = Some (int v)" "int_in w (- int v) = Some (- int v)"
    unfolding int_in_def by simp_all
qed

text \<open>
  atoi and atol read a decimal number. From a string of white space, an optional sign, digits
  and anything else they give the value of the digits with the sign, for every value of their
  type, the most negative one included; no arithmetic overflows on the way.
\<close>

lemma ato_reads:
  assumes "cstr m s t" "decimal_text neg ds t"
  defines "v \<equiv> horner 10 (map digit_of ds)"
  shows "((if neg then v \<le> 2 ^ 31 else v < 2 ^ 31) \<longrightarrow> libmin_atoi m s = Some (signed_value neg v)) \<and>
    ((if neg then v \<le> 2 ^ 63 else v < 2 ^ 63) \<longrightarrow> libmin_atol m s = Some (signed_value neg v))"
proof (intro conjI impI)
  assume r: "if neg then v \<le> 2 ^ 31 else v < 2 ^ 31"
  then have "v \<le> 2 ^ (32 - 1)" by (auto split: if_splits)
  from decimal_scan [OF assms(1,2) this [unfolded v_def]] r int_in_neg(1) [of v 32]
  show "libmin_atoi m s = Some (signed_value neg v)"
    by (auto simp: libmin_atoi_def signed_value_def v_def)
next
  assume r: "if neg then v \<le> 2 ^ 63 else v < 2 ^ 63"
  then have "v \<le> 2 ^ (64 - 1)" by (auto split: if_splits)
  from decimal_scan [OF assms(1,2) this [unfolded v_def]] r int_in_neg(1) [of v 64]
  show "libmin_atol m s = Some (signed_value neg v)"
    by (auto simp: libmin_atol_def signed_value_def v_def)
qed

lemma sint_small: "v < 2 ^ 63 \<Longrightarrow> sint (of_nat v :: u64) = int v"
  by (simp add: sint_uint_if take_bit_int_eq_self unsigned_of_nat take_bit_nat_eq_self)

lemma strtol_value:
  assumes "cstr m p t" "number_text b neg ds n t" "2 \<le> b" "b \<le> 36"
  defines "v \<equiv> horner b (map digit_val ds)"
  assumes "v < 2 ^ 63"
  shows "libmin_strtol m p (int b) = Some (signed_value neg v, p + n)"
proof -
  obtain p1 q rest k where s: "skip_space m p = Some p1" "number_sign m p1 = Some (neg, q)"
    "strtol_prefix m q (int b) = Some k" "cstr m k (ds @ rest)" "k + length ds = p + n"
    "list_all (\<lambda>c. digit_val c < b) ds" "stops (\<lambda>c. digit_val c < b) rest"
    using number_scan [OF assms(1-4)] by blast
  have b: "strtol_base m q (int b) = Some (int b)" using assms(3) by (simp add: strtol_base_def)
  have g: "foldl (\<lambda>n d. b * n + d) 0 (map digit_val ds) = v" by (simp add: v_def horner_def)
  note sh = strtol_shift_cstr [OF s(4,6,7), of _ _ 0, unfolded g, simplified]
  show ?thesis
  proof (cases "b = 2 \<or> b = 4 \<or> b = 8 \<or> b = 16")
    case True
    have "(if int b = 2 then strtol_shift m 1 0x31 k 0
       else if int b = 4 then strtol_shift m 2 0x33 k 0
       else if int b = 8 then strtol_shift m 3 0x37 k 0
       else strtol_hex m k 0) = Some (of_nat v, p + n)"
      using True sh [of 1 "0x31"] sh [of 2 "0x33"] sh [of 3 "0x37"] s g strtol_hex_cstr [OF s(4), of 0] by auto
    then show ?thesis using True s b assms(3,4,6) sint_small [of v] int_in_neg(2) [of v 64]
      by (simp add: libmin_strtol_def signed_value_def)
  next
    case False
    have "strtol_mult m (int b) k 0 = Some (- int v, p + n)"
      using strtol_mult_cstr [OF s(4,6,7), of 0] assms(3,4,6) g s(5) by simp
    then show ?thesis using False s b assms(3,4,6) int_in_neg(1) [of v 64]
      by (simp add: libmin_strtol_def signed_value_def)
  qed
qed

text \<open>
  C40: strtol reads a number in any base from 2 to 36. From a string of white space, an optional
  sign, for base 16 an optional 0x, digits of the base and anything else, it gives the value of
  the digits with the sign, if the value is below 2^63, and the address after the digits. The
  value of a digit is as in C, except that the letters w and x have each other's.
\<close>

theorem strtol_reads:
  assumes "cstr m p t" "number_text b neg ds n t" "2 \<le> b" "b \<le> 36" "horner b (map digit_val ds) < 2 ^ 63"
  shows "libmin_strtol m p (int b) = Some (signed_value neg (horner b (map digit_val ds)), p + n)"
  by (rule strtol_value [OF assms])

text \<open>With base 0 the base follows from the digits.\<close>

lemma strtol_base_0:
  assumes "p \<noteq> NULL" "skip_space m p = Some p1" "number_sign m p1 = Some (neg, q)" "strtol_base m q 0 = Some b"
  shows "libmin_strtol m p 0 = libmin_strtol m p b" "b \<in> {8, 10, 16}"
proof -
  show b: "b \<in> {8, 10, 16}" using assms(4) by (auto simp: strtol_base_def Option.bind_eq_Some_conv split: if_splits)
  then have "strtol_base m q b = Some b" by (auto simp: strtol_base_def)
  with b assms show "libmin_strtol m p 0 = libmin_strtol m p b" by (auto simp: libmin_strtol_def)
qed

text \<open>
  A lone 0x is consumed although no digit follows, text without digits is consumed up to where
  they would start, and a base out of range is only refused for a null pointer.
\<close>

lemma strtol_corners:
  "libmin_strtol [0, 0x30, 0x78, 0] 1 16 = Some (0, 3)"
  "libmin_strtol [0, 0x20, 0x2D, 0] 1 10 = Some (0, 3)"
  "libmin_strtol [0, 0x31, 0x32, 0] 1 37 = Some (39, 3)"
  "libmin_strtol [0, 0x77, 0] 1 36 = Some (33, 2)"
  by (simp_all add: libmin_strtol_def skip_space.simps number_sign_def strtol_base_def strtol_prefix_def
      is_hex_prefix_def strtol_hex.simps strtol_mult.simps strtol_digit_eval digit_val_def letter_val_def
      isspace_iff NULL_def int_in_def ld_def)

lemma atoi_overflow: "libmin_atoi [0x32, 0x31, 0x34, 0x37, 0x34, 0x38, 0x33, 0x36, 0x34, 0x38, 0] 0 = None"
  by (simp add: libmin_atoi_def skip_space.simps number_sign_def ato_digits.simps isspace_iff isdigit_iff int_in_def ld_def)

lemma ato_reads_witness:
  "libmin_atoi [0x20, 0x2D, 0x34, 0x32, 0x61, 0] 0 = Some (- 42)"
proof -
  have "decimal_text True [0x34, 0x32] [0x20, 0x2D, 0x34, 0x32, 0x61]"
    unfolding decimal_text_def
    by (intro exI [of _ "[0x20]"] exI [of _ "[0x2D]"] exI [of _ "[0x61]"])
      (simp add: isspace_iff isdigit_iff sign_text_def stops_def)
  then show ?thesis
    using ato_reads [of "[0x20, 0x2D, 0x34, 0x32, 0x61, 0]" 0 "[0x20, 0x2D, 0x34, 0x32, 0x61]" True "[0x34, 0x32]"]
    by (simp add: digit_of_def horner_def signed_value_def ld_def)
qed

lemma strtol_reads_witness:
  "libmin_strtol [0, 0x2D, 0x30, 0x58, 0x46, 0x66, 0x20, 0] 1 16 = Some (- 255, 6)"
proof -
  have "number_text 16 True [0x46, 0x66] 5 [0x2D, 0x30, 0x58, 0x46, 0x66, 0x20]"
    unfolding number_text_def
    by (intro exI [of _ "[]"] exI [of _ "[0x2D]"] exI [of _ "[0x30, 0x58]"] exI [of _ "[0x20]"])
      (simp add: sign_text_def stops_def digit_val_def letter_val_def)
  then show ?thesis
    using strtol_reads [of "[0, 0x2D, 0x30, 0x58, 0x46, 0x66, 0x20, 0]" 1 "[0x2D, 0x30, 0x58, 0x46, 0x66, 0x20]" 16 True
        "[0x46, 0x66]" 5]
    by (simp add: digit_val_def letter_val_def horner_def signed_value_def ld_def)
qed

end
