(* ===== verification/Libmin_Printf.thy ===== *)
theory Libmin_Printf
  imports Libmin_Conv
begin

text \<open>
  Formatted output of the benchmark library (src/bringup-bench/common/libmin_printf.c): the
  state machine \<open>dopr\<close> that reads a format and its arguments, and the formatting of integers
  and strings into a bounded buffer. Format, strings and buffer are in the flat memory, read
  and written in the order of the code. Variadic arguments are a list of values of the type
  they were passed with; fetching one as another type is undefined, as is signed overflow, and
  both are the value None. Floating-point conversion is outside the model: a double can be
  skipped (e, E, g, G print nothing in the code either) and f is None.
\<close>

section \<open>Output\<close>

type_synonym out = "mem \<times> nat"

definition dopr_outch :: "nat \<Rightarrow> nat \<Rightarrow> u8 \<Rightarrow> out \<Rightarrow> out option" where
  "dopr_outch buffer maxlen c = (\<lambda>(m, currlen).
     do {
       m \<leftarrow> (if currlen < maxlen then st m (buffer + currlen) c else Some m);
       Some (m, currlen + 1)
     })"

text \<open>The loops that write one character repeatedly.\<close>

primrec outch_times :: "nat \<Rightarrow> nat \<Rightarrow> u8 \<Rightarrow> nat \<Rightarrow> out \<Rightarrow> out option" where
  "outch_times buffer maxlen c 0 s = Some s"
| "outch_times buffer maxlen c (Suc n) s =
     do { s \<leftarrow> dopr_outch buffer maxlen c s; outch_times buffer maxlen c n s }"

lemma dopr_outch_length: "dopr_outch b l c s = Some s' \<Longrightarrow> length (fst s') = length (fst s)"
  by (auto simp: dopr_outch_def Option.bind_eq_Some_conv mem_simps split: prod.splits if_splits)

lemma dopr_outch_pair: "dopr_outch b l c (m, n) = Some (m', n') \<Longrightarrow> length m' = length m"
  using dopr_outch_length by force

lemma outch_times_length: "outch_times b l c n s = Some s' \<Longrightarrow> length (fst s') = length (fst s)"
  by (induction n arbitrary: s) (auto simp: Option.bind_eq_Some_conv dest: dopr_outch_pair)

section \<open>Flags and modifiers\<close>

definition DP_F_MINUS :: u32 where "DP_F_MINUS = push_bit 0 1"
definition DP_F_PLUS :: u32 where "DP_F_PLUS = push_bit 1 1"
definition DP_F_SPACE :: u32 where "DP_F_SPACE = push_bit 2 1"
definition DP_F_NUM :: u32 where "DP_F_NUM = push_bit 3 1"
definition DP_F_ZERO :: u32 where "DP_F_ZERO = push_bit 4 1"
definition DP_F_UP :: u32 where "DP_F_UP = push_bit 5 1"
definition DP_F_UNSIGNED :: u32 where "DP_F_UNSIGNED = push_bit 6 1"

definition flag_set :: "u32 \<Rightarrow> u32 \<Rightarrow> bool" where
  "flag_set flags f \<longleftrightarrow> flags AND f \<noteq> 0"

datatype dp_state = DP_S_DEFAULT | DP_S_FLAGS | DP_S_MIN | DP_S_DOT | DP_S_MAX | DP_S_MOD | DP_S_CONV | DP_S_DONE

datatype dp_cflags = DP_C_NONE | DP_C_SHORT | DP_C_LONG | DP_C_LDOUBLE | DP_C_LLONG

section \<open>Strings\<close>

definition null_text :: "u8 list" where
  "null_text = [0x3C, 0x4E, 0x55, 0x4C, 0x4C, 0x3E, 0]" (* <NULL> *)

definition value_at :: "nat \<Rightarrow> mem \<Rightarrow> nat \<Rightarrow> u8 option" where
  "value_at value m i = (if value = NULL then ld null_text i else ld m (value + i))"

lemma value_at_bound: "value_at v m i = Some c \<Longrightarrow> i < length m + length null_text"
  by (auto simp: value_at_def mem_simps split: if_splits)

function value_len :: "nat \<Rightarrow> mem \<Rightarrow> nat \<Rightarrow> nat option" where
  "value_len value m strln = (case value_at value m strln of None \<Rightarrow> None
     | Some c \<Rightarrow> if c \<noteq> 0 then value_len value m (strln + 1) else Some strln)"
  by auto
termination
  by (relation "measure (\<lambda>(v, m, i). length m + length null_text - i)") (auto dest: value_at_bound)

primrec fmtstr_pad :: "nat \<Rightarrow> nat \<Rightarrow> nat \<Rightarrow> int \<Rightarrow> nat \<times> out \<Rightarrow> (nat \<times> out) option" where
  "fmtstr_pad buffer maxlen 0 max' cs = Some cs"
| "fmtstr_pad buffer maxlen (Suc padlen) max' cs =
     (case cs of (cnt, s) \<Rightarrow>
        if int cnt < max'
        then do { s \<leftarrow> dopr_outch buffer maxlen 0x20 s; fmtstr_pad buffer maxlen padlen max' (cnt + 1, s) }
        else Some (cnt, s))"

function fmtstr_chars :: "nat \<Rightarrow> nat \<Rightarrow> nat \<Rightarrow> nat \<Rightarrow> int \<Rightarrow> nat \<Rightarrow> out \<Rightarrow> (nat \<times> out) option" where
  "fmtstr_chars buffer maxlen value i max' cnt s = (case value_at value (fst s) i of None \<Rightarrow> None
     | Some c \<Rightarrow>
         if c \<noteq> 0 \<and> int cnt < max' then
           (case dopr_outch buffer maxlen c s of None \<Rightarrow> None
            | Some s' \<Rightarrow> fmtstr_chars buffer maxlen value (i + 1) max' (cnt + 1) s')
         else Some (cnt, s))"
  by auto
termination
  by (relation "measure (\<lambda>(b, l, v, i, max', cnt, s). length (fst s) + length null_text - i)")
    (auto, drule value_at_bound, drule dopr_outch_pair, linarith)

definition fmtstr :: "nat \<Rightarrow> nat \<Rightarrow> nat \<Rightarrow> u32 \<Rightarrow> int \<Rightarrow> int \<Rightarrow> out \<Rightarrow> out option" where
  "fmtstr buffer maxlen value flags min' max' s =
     do {
       strln \<leftarrow> value_len value (fst s) 0;
       padlen \<leftarrow> int_in 32 (min' - int strln);
       let padlen = (if padlen < 0 then 0 else padlen);
       let padlen = (if flag_set flags DP_F_MINUS then - padlen else padlen);
       (cnt, s) \<leftarrow> fmtstr_pad buffer maxlen (nat padlen) max' (0, s);
       (cnt, s) \<leftarrow> fmtstr_chars buffer maxlen value 0 max' cnt s;
       (cnt, s) \<leftarrow> fmtstr_pad buffer maxlen (nat (- padlen)) max' (cnt, s);
       Some s
     }"

lemma fmtstr_pad_length: "fmtstr_pad b l p mx cs = Some cs' \<Longrightarrow> length (fst (snd cs')) = length (fst (snd cs))"
  by (induction p arbitrary: cs)
    (auto simp: Option.bind_eq_Some_conv split: prod.splits if_splits dest: dopr_outch_pair)

declare value_len.simps [simp del] fmtstr_chars.simps [simp del]

lemma fmtstr_chars_length:
  "fmtstr_chars b l v i mx cnt s = Some cs' \<Longrightarrow> length (fst (snd cs')) = length (fst s)"
proof (induction b l v i mx cnt s rule: fmtstr_chars.induct)
  case (1 b l v i mx cnt s)
  from "1.prems" show ?case
    by (subst (asm) fmtstr_chars.simps)
      (auto split: option.splits if_splits dest!: "1.IH" dest: dopr_outch_length)
qed

lemma fmtstr_length: "fmtstr b l v fl mn mx s = Some s' \<Longrightarrow> length (fst s') = length (fst s)"
  by (auto simp: fmtstr_def Let_def Option.bind_eq_Some_conv
      dest!: fmtstr_pad_length fmtstr_chars_length split: prod.splits)

section \<open>Integers\<close>

definition lower_digits :: "u8 list" where (* 0123456789abcdef *)
  "lower_digits = [0x30, 0x31, 0x32, 0x33, 0x34, 0x35, 0x36, 0x37, 0x38, 0x39, 0x61, 0x62, 0x63, 0x64, 0x65, 0x66]"

definition upper_digits :: "u8 list" where (* 0123456789ABCDEF *)
  "upper_digits = [0x30, 0x31, 0x32, 0x33, 0x34, 0x35, 0x36, 0x37, 0x38, 0x39, 0x41, 0x42, 0x43, 0x44, 0x45, 0x46]"

text \<open>The array \<open>convert\<close>, least significant digit first; the loop stops at its size.\<close>

function convert_digits :: "u8 list \<Rightarrow> u64 \<Rightarrow> u64 \<Rightarrow> nat \<Rightarrow> u8 list" where
  "convert_digits table base uvalue place =
     (let c = table ! unat (uvalue mod base); uvalue = uvalue div base; place = place + 1
      in if uvalue \<noteq> 0 \<and> place < 20 then c # convert_digits table base uvalue place else [c])"
  by auto
termination
  by (relation "measure (\<lambda>(t, b, u, p). 20 - p)") auto

declare convert_digits.simps [simp del]

primrec outch_convert :: "nat \<Rightarrow> nat \<Rightarrow> u8 list \<Rightarrow> nat \<Rightarrow> out \<Rightarrow> out option" where
  "outch_convert buffer maxlen conv 0 s = Some s"
| "outch_convert buffer maxlen conv (Suc place) s =
     do { s \<leftarrow> dopr_outch buffer maxlen (conv ! place) s; outch_convert buffer maxlen conv place s }"

definition fmtint_sign :: "u64 \<Rightarrow> u32 \<Rightarrow> (u8 \<times> u64) option" where
  "fmtint_sign val flags =
     (if \<not> flag_set flags DP_F_UNSIGNED then
        if sint val < 0 then do { v \<leftarrow> int_in 64 (- sint val); Some (0x2D, of_int v) }
        else if flag_set flags DP_F_PLUS then Some (0x2B, val)
        else if flag_set flags DP_F_SPACE then Some (0x20, val)
        else Some (0, val)
      else Some (0, val))"

definition fmtint :: "nat \<Rightarrow> nat \<Rightarrow> u64 \<Rightarrow> u64 \<Rightarrow> int \<Rightarrow> int \<Rightarrow> u32 \<Rightarrow> out \<Rightarrow> out option" where
  "fmtint buffer maxlen val base min' max' flags s =
     do {
       let max' = (if max' < 0 then 0 else max');
       (signvalue, uvalue) \<leftarrow> fmtint_sign val flags;
       let conv = convert_digits (if flag_set flags DP_F_UP then upper_digits else lower_digits) base uvalue 0;
       let place = (if length conv = 20 then length conv - 1 else length conv);
       let zpadlen = max' - int place;
       spadlen \<leftarrow> int_in 32 (min' - (if max' \<ge> int place then max' else int place) - (if signvalue \<noteq> 0 then 1 else 0));
       let zpadlen = (if zpadlen < 0 then 0 else zpadlen);
       let spadlen = (if spadlen < 0 then 0 else spadlen);
       let (zpadlen, spadlen) = (if flag_set flags DP_F_ZERO then (if zpadlen \<ge> spadlen then zpadlen else spadlen, 0)
         else (zpadlen, spadlen));
       let spadlen = (if flag_set flags DP_F_MINUS then - spadlen else spadlen);
       s \<leftarrow> outch_times buffer maxlen 0x20 (nat spadlen) s;
       s \<leftarrow> (if signvalue \<noteq> 0 then dopr_outch buffer maxlen signvalue s else Some s);
       s \<leftarrow> outch_times buffer maxlen 0x30 (nat zpadlen) s;
       s \<leftarrow> outch_convert buffer maxlen conv place s;
       outch_times buffer maxlen 0x20 (nat (- spadlen)) s
     }"

lemma outch_convert_length: "outch_convert b l cv n s = Some s' \<Longrightarrow> length (fst s') = length (fst s)"
  by (induction n arbitrary: s) (auto simp: Option.bind_eq_Some_conv dest: dopr_outch_pair)

lemma fmtint_length: "fmtint b l v bs mn mx fl s = Some s' \<Longrightarrow> length (fst s') = length (fst s)"
  by (auto simp: fmtint_def Let_def Option.bind_eq_Some_conv split: prod.splits if_splits
      dest!: outch_times_length outch_convert_length dopr_outch_length)

section \<open>The format state machine\<close>

datatype va = VInt u32 | VLong u64 | VDouble | VPtr nat

record dopr_state =
  d_mem :: mem
  d_currlen :: nat
  d_format :: nat
  d_ch :: u8
  d_args :: "va list"
  d_state :: dp_state
  d_flags :: u32
  d_cflags :: dp_cflags
  d_min :: int
  d_max :: int

fun va_int :: "va list \<Rightarrow> (u32 \<times> va list) option" where
  "va_int (VInt v # args) = Some (v, args)"
| "va_int _ = None"

fun va_long :: "va list \<Rightarrow> (u64 \<times> va list) option" where
  "va_long (VLong v # args) = Some (v, args)"
| "va_long _ = None"

fun va_double :: "va list \<Rightarrow> va list option" where
  "va_double (VDouble # args) = Some args"
| "va_double _ = None"

fun va_ptr :: "va list \<Rightarrow> (nat \<times> va list) option" where
  "va_ptr (VPtr p # args) = Some (p, args)"
| "va_ptr _ = None"

text \<open>\<open>ch = *format++\<close>\<close>

definition next_ch :: "dopr_state \<Rightarrow> dopr_state option" where
  "next_ch d = do { c \<leftarrow> ld (d_mem d) (d_format d); Some (d\<lparr>d_ch := c, d_format := d_format d + 1\<rparr>) }"

definition with_out :: "(out \<Rightarrow> out option) \<Rightarrow> dopr_state \<Rightarrow> dopr_state option" where
  "with_out f d = do { (m, n) \<leftarrow> f (d_mem d, d_currlen d); Some (d\<lparr>d_mem := m, d_currlen := n\<rparr>) }"

definition dopr_default :: "nat \<Rightarrow> nat \<Rightarrow> dopr_state \<Rightarrow> dopr_state option" where
  "dopr_default buffer maxlen d =
     (if d_ch d = 0x25 then next_ch (d\<lparr>d_state := DP_S_FLAGS\<rparr>)
      else do { d \<leftarrow> with_out (dopr_outch buffer maxlen (d_ch d)) d; next_ch d })"

definition dopr_flags :: "dopr_state \<Rightarrow> dopr_state option" where
  "dopr_flags d =
     (let set_flag = (\<lambda>f. next_ch (d\<lparr>d_flags := d_flags d OR f\<rparr>)) in
      if d_ch d = 0x2D then set_flag DP_F_MINUS
      else if d_ch d = 0x2B then set_flag DP_F_PLUS
      else if d_ch d = 0x20 then set_flag DP_F_SPACE
      else if d_ch d = 0x23 then set_flag DP_F_NUM
      else if d_ch d = 0x30 then set_flag DP_F_ZERO
      else Some (d\<lparr>d_state := DP_S_MIN\<rparr>))"

definition char_to_int :: "u8 \<Rightarrow> int" where
  "char_to_int p = uint p - 0x30"

definition dopr_min :: "dopr_state \<Rightarrow> dopr_state option" where
  "dopr_min d =
     (if isdigit (d_ch d) then
        do { t \<leftarrow> int_in 32 (10 * d_min d); n \<leftarrow> int_in 32 (t + char_to_int (d_ch d)); next_ch (d\<lparr>d_min := n\<rparr>) }
      else if d_ch d = 0x2A then
        do { (v, args) \<leftarrow> va_int (d_args d); next_ch (d\<lparr>d_min := sint v, d_args := args, d_state := DP_S_DOT\<rparr>) }
      else Some (d\<lparr>d_state := DP_S_DOT\<rparr>))"

definition dopr_dot :: "dopr_state \<Rightarrow> dopr_state option" where
  "dopr_dot d =
     (if d_ch d = 0x2E then next_ch (d\<lparr>d_state := DP_S_MAX\<rparr>) else Some (d\<lparr>d_state := DP_S_MOD\<rparr>))"

definition dopr_max :: "dopr_state \<Rightarrow> dopr_state option" where
  "dopr_max d =
     (if isdigit (d_ch d) then
        do {
          let m = (if d_max d < 0 then 0 else d_max d);
          t \<leftarrow> int_in 32 (10 * m);
          n \<leftarrow> int_in 32 (t + char_to_int (d_ch d));
          next_ch (d\<lparr>d_max := n\<rparr>)
        }
      else if d_ch d = 0x2A then
        do { (v, args) \<leftarrow> va_int (d_args d); next_ch (d\<lparr>d_max := sint v, d_args := args, d_state := DP_S_MOD\<rparr>) }
      else Some (d\<lparr>d_state := DP_S_MOD\<rparr>))"

definition dopr_mod :: "dopr_state \<Rightarrow> dopr_state option" where
  "dopr_mod d =
     do {
       d \<leftarrow> (if d_ch d = 0x68 then next_ch (d\<lparr>d_cflags := DP_C_SHORT\<rparr>)
             else if d_ch d = 0x6C then
               do {
                 d \<leftarrow> next_ch (d\<lparr>d_cflags := DP_C_LONG\<rparr>);
                 if d_ch d = 0x6C then next_ch (d\<lparr>d_cflags := DP_C_LLONG\<rparr>) else Some d
               }
             else if d_ch d = 0x4C then next_ch (d\<lparr>d_cflags := DP_C_LDOUBLE\<rparr>)
             else Some d);
       Some (d\<lparr>d_state := DP_S_CONV\<rparr>)
     }"

subsection \<open>Conversions\<close>

definition va_signed :: "dp_cflags \<Rightarrow> va list \<Rightarrow> (u64 \<times> va list) option" where
  "va_signed cflags args =
     (if cflags = DP_C_LONG \<or> cflags = DP_C_LLONG then va_long args
      else do { (v, args) \<leftarrow> va_int args; Some (scast v, args) })"

definition va_unsigned :: "dp_cflags \<Rightarrow> va list \<Rightarrow> (u64 \<times> va list) option" where
  "va_unsigned cflags args =
     (if cflags = DP_C_LONG \<or> cflags = DP_C_LLONG then va_long args
      else do { (v, args) \<leftarrow> va_int args; Some (ucast v, args) })"

definition conv_int :: "nat \<Rightarrow> nat \<Rightarrow> (u64 \<times> va list) option \<Rightarrow> u64 \<Rightarrow> dopr_state \<Rightarrow> dopr_state option" where
  "conv_int buffer maxlen va base d =
     do {
       (v, args) \<leftarrow> va;
       with_out (fmtint buffer maxlen v base (d_min d) (d_max d) (d_flags d)) (d\<lparr>d_args := args\<rparr>)
     }"

definition conv_str :: "nat \<Rightarrow> nat \<Rightarrow> dopr_state \<Rightarrow> dopr_state option" where
  "conv_str buffer maxlen d =
     do {
       (strvalue, args) \<leftarrow> va_ptr (d_args d);
       max' \<leftarrow> (if d_max d = -1 then do { n \<leftarrow> libmin_strlen (d_mem d) strvalue; int_in 32 (int n) } else Some (d_max d));
       let max' = (if d_min d > 0 \<and> max' \<ge> 0 \<and> d_min d > max' then d_min d else max');
       with_out (fmtstr buffer maxlen strvalue (d_flags d) (d_min d) max') (d\<lparr>d_args := args, d_max := max'\<rparr>)
     }"

definition conv_count :: "dopr_state \<Rightarrow> dopr_state option" where
  "conv_count d =
     do {
       (num, args) \<leftarrow> va_ptr (d_args d);
       let size = (case d_cflags d of DP_C_SHORT \<Rightarrow> 2 | DP_C_LONG \<Rightarrow> 8 | DP_C_LLONG \<Rightarrow> 8 | _ \<Rightarrow> 4);
       m \<leftarrow> st_bytes (d_mem d) num (le_bytes size (of_nat (d_currlen d) :: u64));
       Some (d\<lparr>d_args := args, d_mem := m\<rparr>)
     }"

definition dopr_directive :: "nat \<Rightarrow> nat \<Rightarrow> dopr_state \<Rightarrow> dopr_state option" where
  "dopr_directive buffer maxlen d =
     (let ch = d_ch d; uns = d\<lparr>d_flags := d_flags d OR DP_F_UNSIGNED\<rparr>;
          up = d\<lparr>d_flags := (d_flags d OR DP_F_UP) OR DP_F_UNSIGNED\<rparr> in
      if ch = 0x64 \<or> ch = 0x69 then conv_int buffer maxlen (va_signed (d_cflags d) (d_args d)) 10 d
      else if ch = 0x6F then conv_int buffer maxlen (va_unsigned (d_cflags d) (d_args d)) 8 uns
      else if ch = 0x75 then conv_int buffer maxlen (va_unsigned (d_cflags d) (d_args d)) 10 uns
      else if ch = 0x58 then conv_int buffer maxlen (va_unsigned (d_cflags d) (d_args d)) 16 up
      else if ch = 0x78 then conv_int buffer maxlen (va_unsigned (d_cflags d) (d_args d)) 16 uns
      else if ch = 0x66 then None
      else if ch = 0x45 \<or> ch = 0x65 \<or> ch = 0x47 \<or> ch = 0x67 then
        do { args \<leftarrow> va_double (d_args d); Some (d\<lparr>d_args := args\<rparr>) }
      else if ch = 0x63 then
        do { (v, args) \<leftarrow> va_int (d_args d); with_out (dopr_outch buffer maxlen (ucast v)) (d\<lparr>d_args := args\<rparr>) }
      else if ch = 0x73 then conv_str buffer maxlen d
      else if ch = 0x70 then
        do {
          (p, args) \<leftarrow> va_ptr (d_args d);
          conv_int buffer maxlen (Some (of_nat p, args)) 16 d
        }
      else if ch = 0x6E then conv_count d
      else if ch = 0x25 then with_out (dopr_outch buffer maxlen ch) d
      else if ch = 0x77 then next_ch d
      else Some d)"

definition dopr_conv :: "nat \<Rightarrow> nat \<Rightarrow> dopr_state \<Rightarrow> dopr_state option" where
  "dopr_conv buffer maxlen d =
     do {
       d \<leftarrow> dopr_directive buffer maxlen d;
       d \<leftarrow> next_ch d;
       Some (d\<lparr>d_state := DP_S_DEFAULT, d_flags := 0, d_cflags := DP_C_NONE, d_min := 0, d_max := -1\<rparr>)
     }"

subsection \<open>The loop\<close>

definition dopr_step :: "nat \<Rightarrow> nat \<Rightarrow> dopr_state \<Rightarrow> dopr_state option" where
  "dopr_step buffer maxlen d =
     (let d = (if d_ch d = 0 then d\<lparr>d_state := DP_S_DONE\<rparr> else d) in
      case d_state d of
        DP_S_DEFAULT \<Rightarrow> dopr_default buffer maxlen d
      | DP_S_FLAGS \<Rightarrow> dopr_flags d
      | DP_S_MIN \<Rightarrow> dopr_min d
      | DP_S_DOT \<Rightarrow> dopr_dot d
      | DP_S_MAX \<Rightarrow> dopr_max d
      | DP_S_MOD \<Rightarrow> dopr_mod d
      | DP_S_CONV \<Rightarrow> dopr_conv buffer maxlen d
      | DP_S_DONE \<Rightarrow> Some d)"

text \<open>Every step reads on in the format, or moves on in the order of the states.\<close>

fun dp_rank :: "dp_state \<Rightarrow> nat" where
  "dp_rank DP_S_DEFAULT = 7" | "dp_rank DP_S_FLAGS = 6" | "dp_rank DP_S_MIN = 5" | "dp_rank DP_S_DOT = 4"
| "dp_rank DP_S_MAX = 3" | "dp_rank DP_S_MOD = 2" | "dp_rank DP_S_CONV = 1" | "dp_rank DP_S_DONE = 0"

definition advanced :: "dopr_state \<Rightarrow> dopr_state \<Rightarrow> bool" where
  "advanced d d' \<longleftrightarrow> length (d_mem d') = length (d_mem d) \<and> d_format d < d_format d' \<and> d_format d' \<le> length (d_mem d)"

lemma next_ch_advanced: "next_ch d = Some d' \<Longrightarrow> advanced d d'"
  by (auto simp: next_ch_def advanced_def Option.bind_eq_Some_conv mem_simps)

lemma advanced_cong:
  "advanced d d' \<Longrightarrow> d_mem e = d_mem d \<Longrightarrow> d_format e = d_format d \<Longrightarrow> advanced e d'"
  by (simp add: advanced_def)

definition stays :: "dopr_state \<Rightarrow> dopr_state \<Rightarrow> bool" where
  "stays d d' \<longleftrightarrow> length (d_mem d') = length (d_mem d) \<and> d_format d \<le> d_format d'"

lemma stays_next: "stays d e \<Longrightarrow> next_ch e = Some d' \<Longrightarrow> advanced d d'"
  using next_ch_advanced [of e d'] by (auto simp: stays_def advanced_def)

lemma with_out_stays:
  assumes "with_out f d = Some d'" "\<And>s s'. f s = Some s' \<Longrightarrow> length (fst s') = length (fst s)"
  shows "stays d d'"
  using assms(1) assms(2) [of "(d_mem d, d_currlen d)"]
  by (auto simp: with_out_def stays_def Option.bind_eq_Some_conv)

lemma with_outs_stay:
  "with_out (dopr_outch b l c) d = Some d' \<Longrightarrow> stays d d'"
  "with_out (fmtstr b l v fl mn mx) d = Some d' \<Longrightarrow> stays d d'"
  "with_out (fmtint b l u bs mn mx fl) d = Some d' \<Longrightarrow> stays d d'"
  by (erule with_out_stays, erule dopr_outch_length fmtstr_length fmtint_length)+

lemma conv_int_stays: "conv_int b l va base d = Some d' \<Longrightarrow> stays d d'"
  by (auto simp: conv_int_def Option.bind_eq_Some_conv stays_def dest!: with_outs_stay(3))

lemma conv_str_stays: "conv_str b l d = Some d' \<Longrightarrow> stays d d'"
  by (auto simp: conv_str_def Let_def Option.bind_eq_Some_conv stays_def dest!: with_outs_stay(2))

lemma conv_count_stays: "conv_count d = Some d' \<Longrightarrow> stays d d'"
  by (auto simp: conv_count_def Let_def Option.bind_eq_Some_conv stays_def dest!: st_bytes_length)

lemma directive_stays: "dopr_directive b l d = Some d' \<Longrightarrow> stays d d'"
  unfolding dopr_directive_def Let_def
  by (auto split: if_splits simp: Option.bind_eq_Some_conv stays_def advanced_def
      dest!: with_outs_stay(1) next_ch_advanced conv_int_stays conv_str_stays conv_count_stays)

lemma step_advances:
  assumes "dopr_step b l d = Some d'" "d_state d \<noteq> DP_S_DONE"
  shows "advanced d d' \<or> length (d_mem d') = length (d_mem d) \<and> d_format d' = d_format d \<and>
    dp_rank (d_state d') < dp_rank (d_state d)"
proof (cases "d_ch d = 0")
  case True
  with assms show ?thesis by (cases "d_state d") (auto simp: dopr_step_def)
next
  case False
  have conv: "advanced d d'" if "dopr_conv b l d = Some d'"
    using that by (auto simp: dopr_conv_def Option.bind_eq_Some_conv advanced_def dest!: directive_stays stays_next)
  show ?thesis
    using assms False conv
    by (cases "d_state d")
      (auto simp: dopr_step_def dopr_default_def dopr_flags_def dopr_min_def dopr_dot_def dopr_max_def dopr_mod_def
        Let_def Option.bind_eq_Some_conv advanced_def stays_def split: if_splits
        dest!: next_ch_advanced with_outs_stay(1))
qed

function dopr_loop :: "nat \<Rightarrow> nat \<Rightarrow> dopr_state \<Rightarrow> dopr_state option" where
  "dopr_loop buffer maxlen d =
     (if d_state d = DP_S_DONE then Some d
      else (case dopr_step buffer maxlen d of None \<Rightarrow> None | Some d' \<Rightarrow> dopr_loop buffer maxlen d'))"
  by auto
termination
proof (relation "measure (\<lambda>(b, l, d). 8 * (length (d_mem d) - d_format d) + dp_rank (d_state d))")
  fix buffer maxlen :: nat and d d' :: dopr_state
  assume d: "d_state d \<noteq> DP_S_DONE" "dopr_step buffer maxlen d = Some d'"
  have "dp_rank (d_state d') \<le> 7" by (cases "d_state d'") simp_all
  with step_advances [OF d(2,1)]
  have "8 * (length (d_mem d') - d_format d') + dp_rank (d_state d') < 8 * (length (d_mem d) - d_format d) + dp_rank (d_state d)"
    by (auto simp: advanced_def)
  then show "((buffer, maxlen, d'), (buffer, maxlen, d)) \<in>
      measure (\<lambda>(b, l, d). 8 * (length (d_mem d) - d_format d) + dp_rank (d_state d))" by simp
qed simp

declare dopr_loop.simps [simp del]

definition dopr_terminate :: "nat \<Rightarrow> nat \<Rightarrow> mem \<Rightarrow> nat \<Rightarrow> mem option" where
  "dopr_terminate buffer maxlen m currlen =
     (if maxlen \<noteq> 0 then
        if currlen < maxlen - 1 then st m (buffer + currlen) 0
        else if maxlen > 0 then st m (buffer + (maxlen - 1)) 0
        else Some m
      else Some m)"

definition dopr :: "nat \<Rightarrow> nat \<Rightarrow> nat \<Rightarrow> va list \<Rightarrow> mem \<Rightarrow> (mem \<times> nat) option" where
  "dopr buffer maxlen format args m =
     do {
       d \<leftarrow> next_ch \<lparr>d_mem = m, d_currlen = 0, d_format = format, d_ch = 0, d_args = args, d_state = DP_S_DEFAULT,
         d_flags = 0, d_cflags = DP_C_NONE, d_min = 0, d_max = -1\<rparr>;
       d \<leftarrow> dopr_loop buffer maxlen d;
       m \<leftarrow> dopr_terminate buffer maxlen (d_mem d) (d_currlen d);
       Some (m, d_currlen d)
     }"

section \<open>The functions\<close>

text \<open>
  \<open>stack\<close> is the array of 1024 characters of printf, placed after the memory; the result is the
  memory, the characters given to \<open>libtarg_putc\<close>, and the number of them.
\<close>

function putc_loop :: "mem \<Rightarrow> nat \<Rightarrow> u8 list option" where
  "putc_loop m s = (case ld m s of None \<Rightarrow> None
     | Some c \<Rightarrow> if c \<noteq> 0 then map_option ((#) c) (putc_loop m (s + 1)) else Some [])"
  by auto
termination
  by (relation "measure (\<lambda>(m, s). length m - s)") (auto simp: ld_eq_Some)

declare putc_loop.simps [simp del]

definition libmin_printf :: "mem \<Rightarrow> nat \<Rightarrow> va list \<Rightarrow> mem \<Rightarrow> (mem \<times> u8 list \<times> nat) option" where
  "libmin_printf stack fmt args m =
     do {
       let buf = length m;
       (m', _) \<leftarrow> dopr buf 1024 fmt args (m @ stack);
       m' \<leftarrow> st m' (buf + 1023) 0;
       put \<leftarrow> putc_loop m' buf;
       Some (take (length m) m', put, length put)
     }"

definition libmin_snprintf :: "nat \<Rightarrow> nat \<Rightarrow> nat \<Rightarrow> va list \<Rightarrow> mem \<Rightarrow> (mem \<times> nat) option" where
  "libmin_snprintf s sz fmt args m =
     do {
       (m, _) \<leftarrow> dopr s sz fmt args m;
       m \<leftarrow> st m (s + sz - 1) 0;
       len \<leftarrow> libmin_strlen m s;
       Some (m, len)
     }"

definition libmin_puts :: "nat \<Rightarrow> mem \<Rightarrow> u8 list option" where
  "libmin_puts s m = do { put \<leftarrow> putc_loop m s; Some (put @ [0x0A]) }"

end
