(* ===== verification/Libmin_Printf_Proofs.thy ===== *)
theory Libmin_Printf_Proofs
  imports Libmin_Printf
begin

text \<open>
  What the parts of \<open>dopr\<close> write: emission of a text into the bounded buffer, the text of an
  integer and of a string, the phases of the state machine, and the text of a whole format.
\<close>

section \<open>Emission\<close>

definition put :: "nat \<Rightarrow> nat \<Rightarrow> out \<Rightarrow> u8 \<Rightarrow> out" where
  "put b l = (\<lambda>(m, n) c. (if n < l then m[b + n := c] else m, n + 1))"

definition emit :: "nat \<Rightarrow> nat \<Rightarrow> u8 list \<Rightarrow> out \<Rightarrow> out" where
  "emit b l cs s = foldl (put b l) s cs"

lemma emit_Nil [simp]: "emit b l [] s = s"
  by (simp add: emit_def)

lemma emit_append: "emit b l (xs @ ys) s = emit b l ys (emit b l xs s)"
  by (simp add: emit_def)

lemma emit_Cons: "emit b l (c # cs) s = emit b l cs (put b l s c)"
  by (simp add: emit_def)

lemma length_put [simp]: "length (fst (put b l s c)) = length (fst s)"
  by (cases s) (simp add: put_def)

lemma length_emit [simp]: "length (fst (emit b l cs s)) = length (fst s)"
  by (induction cs arbitrary: s) (simp_all add: emit_Cons)

lemma snd_emit [simp]: "snd (emit b l cs s) = snd s + length cs"
  by (induction cs arbitrary: s) (auto simp: emit_Cons put_def split: prod.splits)

lemma nth_emit:
  assumes "b + l \<le> length m" "i < length m"
  shows "fst (emit b l cs (m, n)) ! i =
    (if b + n \<le> i \<and> i < b + n + length cs \<and> i < b + l then cs ! (i - b - n) else m ! i)"
  using assms
proof (induction cs arbitrary: m n)
  case (Cons c cs)
  let ?m = "if n < l then m[b + n := c] else m"
  have "fst (emit b l cs (?m, n + 1)) ! i =
    (if b + (n + 1) \<le> i \<and> i < b + (n + 1) + length cs \<and> i < b + l then cs ! (i - b - (n + 1)) else ?m ! i)"
    using Cons.prems by (intro Cons.IH) auto
  moreover have "i - b - n = Suc (i - b - (n + 1))" if "b + (n + 1) \<le> i" using that by simp
  ultimately show ?case using Cons.prems by (auto simp: emit_Cons put_def nth_Cons' nth_list_update)
qed auto

definition fits :: "nat \<Rightarrow> nat \<Rightarrow> out \<Rightarrow> bool" where
  "fits b l s \<longleftrightarrow> b + l \<le> length (fst s)"

lemma fits_emit [simp]: "fits b l (emit b l cs s) = fits b l s"
  by (simp add: fits_def)

lemma outch_emit: "fits b l s \<Longrightarrow> dopr_outch b l c s = Some (emit b l [c] s)"
  by (auto simp: fits_def dopr_outch_def emit_def put_def split: prod.splits)

lemma outch_times_emit: "fits b l s \<Longrightarrow> outch_times b l c n s = Some (emit b l (replicate n c) s)"
  by (induction n arbitrary: s) (simp_all add: outch_emit, simp flip: emit_append)

lemma outch_convert_emit:
  "fits b l s \<Longrightarrow> n \<le> length cv \<Longrightarrow> outch_convert b l cv n s = Some (emit b l (rev (take n cv)) s)"
  by (induction n arbitrary: s) (simp_all add: outch_emit take_Suc_conv_app_nth, simp flip: emit_append)

text \<open>A part of memory outside the buffer is not written.\<close>

definition apart :: "nat \<Rightarrow> nat \<Rightarrow> nat \<Rightarrow> nat \<Rightarrow> bool" where
  "apart b l a n \<longleftrightarrow> a + n \<le> b \<or> b + l \<le> a"

lemma cstr_emit:
  assumes "fits b l s" "apart b l a (Suc (length xs))"
  shows "cstr (fst (emit b l cs s)) a xs \<longleftrightarrow> cstr (fst s) a xs"
proof -
  obtain m n where s: "s = (m, n)" by (cases s)
  have "take (Suc (length xs)) (drop a (fst (emit b l cs (m, n)))) = take (Suc (length xs)) (drop a m)"
    if "a + Suc (length xs) \<le> length m"
  proof (rule nth_equalityI)
    fix i assume "i < length (take (Suc (length xs)) (drop a (fst (emit b l cs (m, n)))))"
    with that have i: "i < Suc (length xs)" "a + i < length m" by auto
    with assms s have "fst (emit b l cs (m, n)) ! (a + i) = m ! (a + i)"
      by (subst nth_emit) (auto simp: apart_def fits_def)
    with i that show "take (Suc (length xs)) (drop a (fst (emit b l cs (m, n)))) ! i = take (Suc (length xs)) (drop a m) ! i"
      by simp
  qed simp
  then show ?thesis using s by (auto simp: cstr_iff ld_bytes_def)
qed

section \<open>Strings\<close>

definition padded :: "u32 \<Rightarrow> int \<Rightarrow> u8 list \<Rightarrow> u8 list" where
  "padded flags mn xs =
     (let sp = replicate (nat mn - length xs) 0x20 in if flag_set flags DP_F_MINUS then xs @ sp else sp @ xs)"

definition shown :: "nat \<Rightarrow> mem \<Rightarrow> u8 list \<Rightarrow> bool" where
  "shown p m xs \<longleftrightarrow> (if p = NULL then xs = butlast null_text else cstr m p xs)"

lemma shown_at:
  assumes "shown p m xs" "i \<le> length xs"
  shows "value_at p m i = Some ((xs @ [0]) ! i)" "i < length xs \<longrightarrow> (xs @ [0]) ! i \<noteq> 0"
proof -
  have "cstr null_text 0 (butlast null_text)" by (simp add: null_text_def ld_def)
  from cstr_ld [OF this, of i] cstr_ld [of m p xs i] assms show "value_at p m i = Some ((xs @ [0]) ! i)"
    by (auto simp: shown_def value_at_def split: if_splits)
  have "0 \<notin> set (butlast null_text)" by (simp add: null_text_def)
  then show "i < length xs \<longrightarrow> (xs @ [0]) ! i \<noteq> 0"
    using assms(1) by (auto simp: shown_def cstr_iff nth_append in_set_conv_nth split: if_splits)
qed

lemma value_len_shown:
  assumes "shown p m xs" "i \<le> length xs"
  shows "value_len p m i = Some (length xs)"
  using assms(2)
proof (induction "length xs - i" arbitrary: i)
  case 0
  then show ?case using shown_at [OF assms(1), of i] by (subst value_len.simps) (simp add: nth_append)
next
  case (Suc k)
  then show ?case using shown_at [OF assms(1), of i] by (subst value_len.simps) simp
qed

lemma fmtstr_pad_emit:
  assumes "fits b l s"
  shows "fmtstr_pad b l p mx (cnt, s) =
    Some (cnt + min p (nat mx - cnt), emit b l (replicate (min p (nat mx - cnt)) 0x20) s)"
  using assms
proof (induction p arbitrary: cnt s)
  case (Suc p)
  show ?case
  proof (cases "int cnt < mx")
    case True
    then have "min (Suc p) (nat mx - cnt) = Suc (min p (nat mx - (cnt + 1)))" by auto
    with True Suc show ?thesis by (simp add: outch_emit, simp flip: emit_append)
  qed (simp add: nat_le_iff)
qed simp

definition string_apart :: "nat \<Rightarrow> nat \<Rightarrow> nat \<Rightarrow> u8 list \<Rightarrow> bool" where
  "string_apart b l p xs \<longleftrightarrow> p = NULL \<or> apart b l p (Suc (length xs))"

lemma shown_emit:
  "fits b l s \<Longrightarrow> string_apart b l p xs \<Longrightarrow> shown p (fst (emit b l cs s)) xs \<longleftrightarrow> shown p (fst s) xs"
  by (auto simp: shown_def string_apart_def cstr_emit)

lemma fmtstr_chars_emit:
  assumes "fits b l s" "shown p (fst s) xs" "string_apart b l p xs" "i \<le> length xs"
  shows "fmtstr_chars b l p i mx cnt s =
    Some (cnt + min (length xs - i) (nat mx - cnt), emit b l (take (nat mx - cnt) (drop i xs)) s)"
  using assms
proof (induction "length xs - i" arbitrary: i cnt s)
  case 0
  then show ?case using shown_at [of p "fst s" xs i] by (subst fmtstr_chars.simps) (simp add: nth_append)
next
  case (Suc k)
  then have i: "i < length xs" "value_at p (fst s) i = Some (xs ! i)" "xs ! i \<noteq> 0"
    using shown_at [of p "fst s" xs i] by (auto simp: nth_append)
  show ?case
  proof (cases "int cnt < mx")
    case True
    then have k: "nat mx - cnt = Suc (nat mx - (cnt + 1))" "drop i xs = xs ! i # drop (i + 1) xs"
      "length xs - i = Suc (length xs - (i + 1))"
      using i(1) by (auto simp: Cons_nth_drop_Suc)
    have "fmtstr_chars b l p (i + 1) mx (cnt + 1) (emit b l [xs ! i] s) =
      Some (cnt + 1 + min (length xs - (i + 1)) (nat mx - (cnt + 1)),
        emit b l (take (nat mx - (cnt + 1)) (drop (i + 1) xs)) (emit b l [xs ! i] s))"
      using Suc.prems i(1) Suc.hyps(2) by (intro Suc.hyps(1)) (auto simp: shown_emit)
    then show ?thesis using True i Suc.prems(1)
      by (subst fmtstr_chars.simps) (simp add: outch_emit k(1,3), simp add: k(2) flip: emit_append)
  next
    case False
    then show ?thesis using i by (subst fmtstr_chars.simps) (simp add: nat_le_iff)
  qed
qed

lemma fmtstr_emit:
  assumes "fits b l s" "shown p (fst s) xs" "string_apart b l p xs" "int_in 32 (mn - int (length xs)) \<noteq> None"
  shows "fmtstr b l p flags mn mx s = Some (emit b l (take (nat mx) (padded flags mn xs)) s)"
proof -
  have n: "nat (mn - int (length xs)) = nat mn - length xs" by simp
  have i: "int_in 32 (mn - int (length xs)) = Some (mn - int (length xs))"
    using assms(4) by (auto simp: int_in_def split: if_splits)
  have c: "fmtstr_chars b l p 0 mx cnt (emit b l ys s) =
    Some (cnt + min (length xs) (nat mx - cnt), emit b l (take (nat mx - cnt) xs) (emit b l ys s))" for cnt ys
    using assms fmtstr_chars_emit [of b l "emit b l ys s" p xs 0 mx cnt] by (simp add: shown_emit)
  define P M L where "P = nat mn - length xs" and "M = nat mx" and "L = length xs"
  have m: "min P (M - min L M) = min (M - L) P" "M - min P M = M - P" by (simp_all add: min_def)
  have k: "(if mn - int (length xs) < 0 then 0 else mn - int (length xs)) = int P" by (auto simp: P_def)
  have v: "value_len p (fst s) 0 = Some (length xs)" using value_len_shown [OF assms(2), of 0] by simp
  note run = fmtstr_def v i bind.simps Let_def k fmtstr_pad_emit [OF assms(1)] prod.case
  show ?thesis
  proof (cases "flag_set flags DP_F_MINUS")
    case True
    then have "fmtstr b l p flags mn mx s = Some (emit b l (take M xs @ replicate (min P (M - min L M)) 0x20) s)"
      unfolding run using c [of 0 "[]"] assms(1)
      by (simp add: fmtstr_pad_emit M_def L_def flip: emit_append)
    also have "take M xs @ replicate (min P (M - min L M)) 0x20 = take M (xs @ replicate P 0x20)"
      by (simp add: m L_def)
    finally show ?thesis using True by (simp add: padded_def M_def P_def)
  next
    case False
    then have "fmtstr b l p flags mn mx s = Some (emit b l (replicate (min P M) 0x20 @ take (M - min P M) xs) s)"
      unfolding run using c [of "min P (nat mx)"] by (simp add: M_def flip: emit_append)
    also have "replicate (min P M) 0x20 @ take (M - min P M) xs = take M (replicate P 0x20 @ xs)"
      by (simp only: m take_append take_replicate length_replicate) (simp add: min.commute)
    finally show ?thesis using False by (simp add: padded_def M_def P_def)
  qed
qed

section \<open>Integers\<close>

text \<open>The positional notation of a number.\<close>

fun positional :: "u8 list \<Rightarrow> nat \<Rightarrow> nat \<Rightarrow> u8 list" where
  "positional tab b n = (if n < b \<or> b < 2 then [tab ! n] else positional tab b (n div b) @ [tab ! (n mod b)])"

declare positional.simps [simp del]

lemma positional_length: "n < b ^ k \<Longrightarrow> 0 < k \<Longrightarrow> length (positional tab b n) \<le> k"
proof (induction k arbitrary: n)
  case (Suc k)
  show ?case
  proof (cases "n < b \<or> b < 2")
    case False
    then have "n div b < b ^ k" using Suc.prems(1) by (simp add: less_mult_imp_div_less mult.commute)
    moreover from Suc.prems False have "0 < k" by (cases k) auto
    ultimately show ?thesis using Suc.IH [of "n div b"] False by (subst positional.simps) simp
  qed (simp add: positional.simps)
qed simp

text \<open>The conversion array takes the last twenty digits, least significant first.\<close>

lemma convert_positional:
  assumes "2 \<le> base" "place < 20"
  shows "convert_digits tab base u place = take (20 - place) (rev (positional tab (unat base) (unat u)))"
  using assms(2)
proof (induction "19 - place" arbitrary: u place)
  case 0
  then have "place = 19" by linarith
  moreover have "2 \<le> unat base" using assms(1) by (simp add: word_le_nat_alt)
  ultimately show ?case
    by (subst convert_digits.simps, subst positional.simps) (simp add: Let_def unat_mod_distrib)
next
  case (Suc k)
  have b: "2 \<le> unat base" using assms(1) by (simp add: word_le_nat_alt)
  have z: "u div base = 0 \<longleftrightarrow> unat u < unat base"
    using b by (simp add: word_eq_iff_unsigned unat_div_distrib unat_eq_zero div_eq_0_iff flip: unat_eq_zero)
  show ?case
  proof (cases "u div base = 0")
    case True
    then show ?thesis using z Suc.prems
      by (subst convert_digits.simps, subst positional.simps) (simp add: Let_def unat_mod_distrib)
  next
    case False
    have p: "place + 1 < 20" "20 - place = Suc (20 - (place + 1))" using Suc by simp_all
    have "convert_digits tab base (u div base) (place + 1) =
        take (20 - (place + 1)) (rev (positional tab (unat base) (unat (u div base))))"
      using Suc.hyps(2) p(1) by (intro Suc.hyps(1)) auto
    then show ?thesis using False z b p
      by (subst convert_digits.simps, subst positional.simps) (simp add: Let_def unat_div_distrib unat_mod_distrib)
  qed
qed

text \<open>Of a number with more than nineteen digits the last nineteen are printed.\<close>

definition last_digits :: "u8 list \<Rightarrow> nat \<Rightarrow> nat \<Rightarrow> u8 list" where
  "last_digits tab base u = (let ds = positional tab base u in drop (length ds - 19) ds)"

lemma last_digits_small: "u < base ^ 19 \<Longrightarrow> last_digits tab base u = positional tab base u"
  using positional_length [of u base 19 tab] by (simp add: last_digits_def Let_def)

definition sign_chars :: "u32 \<Rightarrow> bool \<Rightarrow> u8 list" where
  "sign_chars flags neg =
     (if flag_set flags DP_F_UNSIGNED then [] else if neg then [0x2D]
      else if flag_set flags DP_F_PLUS then [0x2B] else if flag_set flags DP_F_SPACE then [0x20] else [])"

text \<open>
  Sign, zeros up to the precision and digits, filled up to the width with spaces on the left, or
  with zeros under the flag 0, or with spaces on the right under the flag -.
\<close>

definition int_text :: "u8 list \<Rightarrow> nat \<Rightarrow> u32 \<Rightarrow> int \<Rightarrow> int \<Rightarrow> bool \<Rightarrow> nat \<Rightarrow> u8 list" where
  "int_text tab base flags mn mx neg u =
     (let ds = last_digits tab base u; sg = sign_chars flags neg; zeros = nat mx - length ds;
          fill = nat mn - (zeros + length ds) - length sg;
          (zeros, fill) = (if flag_set flags DP_F_ZERO then (max zeros fill, 0) else (zeros, fill));
          body = sg @ replicate zeros 0x30 @ ds
      in if flag_set flags DP_F_MINUS then body @ replicate fill 0x20 else replicate fill 0x20 @ body)"

definition magnitude :: "u32 \<Rightarrow> u64 \<Rightarrow> nat" where
  "magnitude flags v = (if \<not> flag_set flags DP_F_UNSIGNED \<and> sint v < 0 then nat (- sint v) else unat v)"

lemma fmtint_sign_eval:
  assumes "flag_set flags DP_F_UNSIGNED \<or> sint v \<noteq> - (2 ^ 63)"
  shows "\<exists>c w. fmtint_sign v flags = Some (c, w) \<and> unat w = magnitude flags v \<and>
    sign_chars flags (sint v < 0) = (if c \<noteq> 0 then [c] else [])"
proof (cases "\<not> flag_set flags DP_F_UNSIGNED \<and> sint v < 0")
  case True
  have "- (2 ^ 63) \<le> sint v" using sint_ge [of v] by simp
  with True assms have i: "int_in 64 (- sint v) = Some (- sint v)" "- sint v < 2 ^ 63" "0 \<le> - sint v"
    by (auto simp: int_in_def)
  then have "uint (word_of_int (- sint v) :: u64) = - sint v"
    by (simp only: uint_word_of_int) (simp add: take_bit_int_eq_self)
  then have "unat (word_of_int (- sint v) :: u64) = nat (- sint v)" by (simp flip: nat_uint_eq)
  with True i(1) show ?thesis by (simp add: fmtint_sign_def magnitude_def sign_chars_def)
next
  case False
  then show ?thesis by (auto simp: fmtint_sign_def magnitude_def sign_chars_def)
qed

lemma fmtint_emit:
  assumes f: "fits b l s" and base: "2 \<le> base"
    and v: "flag_set flags DP_F_UNSIGNED \<or> sint v \<noteq> - (2 ^ 63)"
    and w: "- (2 ^ 30) \<le> mn" "mn < 2 ^ 31" "mx < 2 ^ 30"
  defines "tab \<equiv> if flag_set flags DP_F_UP then upper_digits else lower_digits"
  shows "fmtint b l v base mn mx flags s =
    Some (emit b l (int_text tab (unat base) flags mn mx (sint v < 0) (magnitude flags v)) s)"
proof -
  obtain c u where c: "fmtint_sign v flags = Some (c, u)" "unat u = magnitude flags v"
    "sign_chars flags (sint v < 0) = (if c \<noteq> 0 then [c] else [])"
    using fmtint_sign_eval [OF v] by blast
  let ?ps = "positional tab (unat base) (unat u)" and ?ds = "last_digits tab (unat base) (unat u)"
    and ?cv = "convert_digits tab base u 0"
  define L where "L = length ?ds"
  have L: "L \<le> 19" "L = length ?ds" by (simp_all add: L_def last_digits_def Let_def)
  have c20: "?cv = take 20 (rev ?ps)" using convert_positional [OF base, of 0] by simp
  then have n20: "(if length ?cv = 20 then length ?cv - 1 else length ?cv) = L"
    by (auto simp: L_def last_digits_def Let_def min_def)
  have "L \<le> 20" "L \<le> length ?ps" using L(1) by (simp_all add: L_def last_digits_def Let_def)
  then have cv: "L \<le> length ?cv" "rev (take L ?cv) = ?ds"
    by (auto simp: c20 rev_take L_def last_digits_def Let_def min_def)
  let ?sg = "if c \<noteq> 0 then 1 else 0 :: int"
  let ?M = "if mx < 0 then 0 else mx"
  have sp: "int_in 32 (mn - (if ?M \<ge> int L then ?M else int L) - ?sg) = Some (mn - (if ?M \<ge> int L then ?M else int L) - ?sg)"
    using w L(1) by (auto simp: int_in_def)
  define Z where "Z = nat mx - L"
  define F where "F = nat mn - (Z + L) - nat ?sg"
  have z: "(if ?M - int L < 0 then 0 else ?M - int L) = int Z" by (auto simp: Z_def)
  have g: "(if mn - (if ?M \<ge> int L then ?M else int L) - ?sg < 0 then 0
      else mn - (if ?M \<ge> int L then ?M else int L) - ?sg) = int F" by (auto simp: Z_def F_def)
  have zg: "(if int Z \<ge> int F then int Z else int F) = int (max Z F)" by simp
  note run = fmtint_def Let_def c(1) bind.simps prod.case tab_def [symmetric] n20 sp z g zg
  have sgl: "length (sign_chars flags (sint v < 0)) = nat ?sg" using c(3) by simp
  have fill: "nat mn - (Z + L) - length (sign_chars flags (sint v < 0)) = F" by (simp add: F_def sgl)
  have oc: "fits b l s \<Longrightarrow> outch_convert b l ?cv L s = Some (emit b l ?ds s)" for s
    using outch_convert_emit [of b l s L ?cv] cv by simp
  show ?thesis
    using f L(1) c(3)
    unfolding run int_text_def c(2) [symmetric] L(2) [symmetric] Z_def [symmetric] fill
    by (auto simp: outch_times_emit outch_emit oc simp flip: emit_append)
qed

end
