(* ===== verification/Libmin_Format.thy ===== *)
theory Libmin_Format
  imports Libmin_Printf_Proofs
begin

text \<open>
  Formats as lists of pieces, their spelling and the text they stand for, and the proof that
  \<open>dopr\<close> reads the spelling phase by phase and writes the text.
\<close>

section \<open>Pieces of a format\<close>

datatype field = Absent | Number "u8 list" | Star

record directive =
  dir_flags :: "u8 list"
  dir_width :: field
  dir_precision :: "field option"
  dir_modifier :: "u8 list"
  dir_conv :: u8

datatype piece = Lit u8 | Dir directive

fun spell_field :: "field \<Rightarrow> u8 list" where
  "spell_field Absent = []"
| "spell_field (Number ds) = ds"
| "spell_field Star = [0x2A]"

definition spell_precision :: "field option \<Rightarrow> u8 list" where
  "spell_precision p = (case p of None \<Rightarrow> [] | Some f \<Rightarrow> 0x2E # spell_field f)"

definition spell_directive :: "directive \<Rightarrow> u8 list" where
  "spell_directive d = dir_flags d @ spell_field (dir_width d) @ spell_precision (dir_precision d) @
     dir_modifier d @ [dir_conv d]"

fun spell :: "piece \<Rightarrow> u8 list" where
  "spell (Lit c) = [c]"
| "spell (Dir d) = 0x25 # spell_directive d"

definition flag_char :: "u8 \<Rightarrow> bool" where
  "flag_char c \<longleftrightarrow> c \<in> {0x2D, 0x2B, 0x20, 0x23, 0x30}"

definition flag_bit :: "u8 \<Rightarrow> u32" where
  "flag_bit c = (if c = 0x2D then DP_F_MINUS else if c = 0x2B then DP_F_PLUS else if c = 0x20 then DP_F_SPACE
     else if c = 0x23 then DP_F_NUM else DP_F_ZERO)"

definition flag_bits :: "u8 list \<Rightarrow> u32" where
  "flag_bits fl = foldl (\<lambda>f c. f OR flag_bit c) 0 fl"

definition field_ok :: "field \<Rightarrow> bool" where
  "field_ok f \<longleftrightarrow> (case f of Number ds \<Rightarrow> ds \<noteq> [] \<and> list_all isdigit ds | _ \<Rightarrow> True)"

definition conversions :: "u8 list" where (* d i o u x X c s p % *)
  "conversions = [0x64, 0x69, 0x6F, 0x75, 0x78, 0x58, 0x63, 0x73, 0x70, 0x25]"

definition modifier_flags :: "u8 list \<Rightarrow> dp_cflags option" where
  "modifier_flags md = (if md = [] then Some DP_C_NONE else if md = [0x68] then Some DP_C_SHORT
     else if md = [0x6C] then Some DP_C_LONG else if md = [0x6C, 0x6C] then Some DP_C_LLONG
     else if md = [0x4C] then Some DP_C_LDOUBLE else None)"

text \<open>A width does not start with 0, which is a flag.\<close>

definition directive_ok :: "directive \<Rightarrow> bool" where
  "directive_ok d \<longleftrightarrow> list_all flag_char (dir_flags d) \<and> field_ok (dir_width d) \<and>
     (case dir_width d of Number ds \<Rightarrow> hd ds \<noteq> 0x30 | _ \<Rightarrow> True) \<and>
     (case dir_precision d of None \<Rightarrow> True | Some f \<Rightarrow> field_ok f) \<and>
     modifier_flags (dir_modifier d) \<noteq> None \<and> dir_conv d \<in> set conversions"

fun piece_ok :: "piece \<Rightarrow> bool" where
  "piece_ok (Lit c) \<longleftrightarrow> c \<noteq> 0 \<and> c \<noteq> 0x25"
| "piece_ok (Dir d) \<longleftrightarrow> directive_ok d"

section \<open>Phases of the state machine\<close>

text \<open>The state before the character at address f, the first of the rest xs of the format.\<close>

definition dst :: "mem \<Rightarrow> nat \<Rightarrow> nat \<Rightarrow> va list \<Rightarrow> dp_state \<Rightarrow> u32 \<Rightarrow> dp_cflags \<Rightarrow> int \<Rightarrow> int \<Rightarrow> u8 list \<Rightarrow> dopr_state" where
  "dst m n f args ph fl cf mn mx xs = \<lparr>d_mem = m, d_currlen = n, d_format = f + 1, d_ch = hd (xs @ [0]), d_args = args,
     d_state = ph, d_flags = fl, d_cflags = cf, d_min = mn, d_max = mx\<rparr>"

lemma next_ch_eval:
  assumes "cstr (d_mem d) f (x # xs)" "d_format d = f + 1"
  shows "next_ch d = Some (d\<lparr>d_ch := hd (xs @ [0]), d_format := f + 2\<rparr>)"
proof -
  have "cstr (d_mem d) (f + 1) xs" using assms(1) by simp
  then have "ld (d_mem d) (f + 1) = Some (hd (xs @ [0]))" by (cases xs) simp_all
  with assms(2) show ?thesis by (simp add: next_ch_def)
qed

lemma loop_step:
  "dopr_step b l d = Some d' \<Longrightarrow> d_state d \<noteq> DP_S_DONE \<Longrightarrow> dopr_loop b l d = dopr_loop b l d'"
  by (subst dopr_loop.simps) simp

lemma dst_loop:
  "dopr_step b l (dst m n f args ph F cf mn mx xs) = Some d' \<Longrightarrow> ph \<noteq> DP_S_DONE \<Longrightarrow>
   dopr_loop b l (dst m n f args ph F cf mn mx xs) = dopr_loop b l d'"
  by (rule loop_step) (simp_all add: dst_def)

lemma dst_step:
  assumes "cstr m f (x # xs)"
  shows "x \<noteq> 0" "next_ch \<lparr>d_mem = m, d_currlen = n, d_format = Suc f, d_ch = c, d_args = args,
     d_state = ph, d_flags = fl, d_cflags = cf, d_min = mn, d_max = mx\<rparr> = Some (dst m n (f + 1) args ph fl cf mn mx xs)"
  using assms next_ch_eval [of "\<lparr>d_mem = m, d_currlen = n, d_format = Suc f, d_ch = c, d_args = args,
     d_state = ph, d_flags = fl, d_cflags = cf, d_min = mn, d_max = mx\<rparr>" f x xs]
  by (simp_all add: dst_def)

lemma flags_phase:
  assumes "cstr m f (fl @ x # xs)" "list_all flag_char fl" "\<not> flag_char x"
  shows "dopr_loop b l (dst m n f args DP_S_FLAGS F cf mn mx (fl @ x # xs)) =
    dopr_loop b l (dst m n (f + length fl) args DP_S_MIN (foldl (\<lambda>f c. f OR flag_bit c) F fl) cf mn mx (x # xs))"
  using assms(1,2)
proof (induction fl arbitrary: f F)
  case Nil
  then have "dopr_step b l (dst m n f args DP_S_FLAGS F cf mn mx (x # xs)) = Some (dst m n f args DP_S_MIN F cf mn mx (x # xs))"
    using assms(3) by (auto simp: dopr_step_def dst_def dopr_flags_def flag_char_def Let_def)
  then show ?case by (simp add: loop_step dst_def)
next
  case (Cons c fl)
  have "dopr_step b l (dst m n f args DP_S_FLAGS F cf mn mx (c # fl @ x # xs)) =
    Some (dst m n (f + 1) args DP_S_FLAGS (F OR flag_bit c) cf mn mx (fl @ x # xs))"
    using Cons.prems dst_step [of m f c "fl @ x # xs"]
    by (auto simp: dopr_step_def dst_def dopr_flags_def flag_char_def flag_bit_def Let_def)
  then show ?case using Cons by (simp add: loop_step dst_def)
qed

lemma char_digit: "isdigit c \<Longrightarrow> char_to_int c = int (digit_of c)"
  by (simp add: char_to_int_def isdigit_uint)

lemma digit_in:
  assumes "10 * v + d < 2 ^ 31"
  shows "int_in 32 (10 * int v) = Some (10 * int v)" "int_in 32 (10 * int v + int d) = Some (int (10 * v + d))"
proof -
  have "int (10 * v + d) < int (2 ^ 31)" using assms by (simp only: of_nat_less_iff)
  then show "int_in 32 (10 * int v) = Some (10 * int v)" "int_in 32 (10 * int v + int d) = Some (int (10 * v + d))"
    by (simp_all add: int_in_def)
qed

lemma min_digits:
  assumes "cstr m f (ds @ x # xs)" "list_all isdigit ds" "\<not> isdigit x" "x \<noteq> 0x2A"
    and "foldl (\<lambda>n d. 10 * n + d) v (map digit_of ds) < 2 ^ 31"
  shows "dopr_loop b l (dst m n f args DP_S_MIN F cf (int v) mx (ds @ x # xs)) =
    dopr_loop b l (dst m n (f + length ds) args DP_S_DOT F cf (int (foldl (\<lambda>n d. 10 * n + d) v (map digit_of ds))) mx (x # xs))"
  using assms(1,2,5)
proof (induction ds arbitrary: f v)
  case Nil
  then have "dopr_step b l (dst m n f args DP_S_MIN F cf (int v) mx (x # xs)) = Some (dst m n f args DP_S_DOT F cf (int v) mx (x # xs))"
    using assms(3,4) by (auto simp: dopr_step_def dst_def dopr_min_def)
  from dst_loop [OF this] show ?case by simp
next
  case (Cons c ds)
  have "10 * v + digit_of c < 2 ^ 31"
    using foldl_horner_mono [of 10 "10 * v + digit_of c" "map digit_of ds"] Cons.prems(3) by simp
  then have "dopr_step b l (dst m n f args DP_S_MIN F cf (int v) mx (c # ds @ x # xs)) =
    Some (dst m n (f + 1) args DP_S_MIN F cf (int (10 * v + digit_of c)) mx (ds @ x # xs))"
    using Cons.prems dst_step [of m f c "ds @ x # xs"] digit_in [of v "digit_of c"]
    by (auto simp: dopr_step_def dst_def dopr_min_def char_digit)
  from dst_loop [OF this] Cons.prems Cons.IH [of "f + 1" "10 * v + digit_of c"] show ?case by simp
qed

lemma max_digits:
  assumes "cstr m f (ds @ x # xs)" "list_all isdigit ds" "\<not> isdigit x" "x \<noteq> 0x2A"
    and "foldl (\<lambda>n d. 10 * n + d) v (map digit_of ds) < 2 ^ 31"
  shows "dopr_loop b l (dst m n f args DP_S_MAX F cf mn (int v) (ds @ x # xs)) =
    dopr_loop b l (dst m n (f + length ds) args DP_S_MOD F cf mn (int (foldl (\<lambda>n d. 10 * n + d) v (map digit_of ds))) (x # xs))"
  using assms(1,2,5)
proof (induction ds arbitrary: f v)
  case Nil
  then have "dopr_step b l (dst m n f args DP_S_MAX F cf mn (int v) (x # xs)) = Some (dst m n f args DP_S_MOD F cf mn (int v) (x # xs))"
    using assms(3,4) by (auto simp: dopr_step_def dst_def dopr_max_def)
  from dst_loop [OF this] show ?case by simp
next
  case (Cons c ds)
  have "10 * v + digit_of c < 2 ^ 31"
    using foldl_horner_mono [of 10 "10 * v + digit_of c" "map digit_of ds"] Cons.prems(3) by simp
  then have "dopr_step b l (dst m n f args DP_S_MAX F cf mn (int v) (c # ds @ x # xs)) =
    Some (dst m n (f + 1) args DP_S_MAX F cf mn (int (10 * v + digit_of c)) (ds @ x # xs))"
    using Cons.prems dst_step [of m f c "ds @ x # xs"] digit_in [of v "digit_of c"]
    by (auto simp: dopr_step_def dst_def dopr_max_def char_digit Let_def)
  from dst_loop [OF this] Cons.prems Cons.IH [of "f + 1" "10 * v + digit_of c"] show ?case by simp
qed

definition field_value :: "int \<Rightarrow> field \<Rightarrow> va list \<Rightarrow> (int \<times> va list) option" where
  "field_value absent f args =
     (case f of
        Absent \<Rightarrow> Some (absent, args)
      | Number ds \<Rightarrow> (let v = horner 10 (map digit_of ds) in if v < 2 ^ 31 then Some (int v, args) else None)
      | Star \<Rightarrow> do { (v, args) \<leftarrow> va_int args; Some (sint v, args) })"

definition precision_value :: "field option \<Rightarrow> va list \<Rightarrow> (int \<times> va list) option" where
  "precision_value p args = (case p of None \<Rightarrow> Some (-1, args) | Some f \<Rightarrow> field_value (-1) f args)"

lemma width_phase:
  assumes "cstr m f (spell_field w @ x # xs)" "field_ok w" "\<not> isdigit x" "x \<noteq> 0x2A"
    and "field_value 0 w args = Some (v, args')"
  shows "dopr_loop b l (dst m n f args DP_S_MIN F cf 0 mx (spell_field w @ x # xs)) =
    dopr_loop b l (dst m n (f + length (spell_field w)) args' DP_S_DOT F cf v mx (x # xs))"
proof (cases w)
  case Absent
  with assms min_digits [of m f "[]" x xs 0] show ?thesis by (simp add: field_value_def)
next
  case (Number ds)
  with assms min_digits [of m f ds x xs 0] show ?thesis
    by (auto simp: field_value_def field_ok_def horner_def Let_def split: if_splits)
next
  case Star
  with assms(1,5) dst_step [of m f "0x2A" "x # xs"]
  have "dopr_step b l (dst m n f args DP_S_MIN F cf 0 mx (0x2A # x # xs)) =
    Some (dst m n (f + 1) args' DP_S_DOT F cf v mx (x # xs))"
    by (auto simp: dopr_step_def dst_def dopr_min_def field_value_def isdigit_iff Option.bind_eq_Some_conv)
  from dst_loop [OF this] Star show ?thesis by simp
qed

lemma max_phase:
  assumes "cstr m f (spell_field w @ x # xs)" "field_ok w" "\<not> isdigit x" "x \<noteq> 0x2A"
    and "field_value (-1) w args = Some (v, args')"
  shows "dopr_loop b l (dst m n f args DP_S_MAX F cf mn (-1) (spell_field w @ x # xs)) =
    dopr_loop b l (dst m n (f + length (spell_field w)) args' DP_S_MOD F cf mn v (x # xs))"
proof (cases w)
  case Absent
  with assms have "dopr_step b l (dst m n f args DP_S_MAX F cf mn (-1) (x # xs)) =
    Some (dst m n f args' DP_S_MOD F cf mn v (x # xs))"
    by (auto simp: dopr_step_def dst_def dopr_max_def field_value_def)
  from dst_loop [OF this] Absent show ?thesis by simp
next
  case (Number ds)
  with assms(2) obtain c ds' where ds: "ds = c # ds'" "isdigit c" by (cases ds) (auto simp: field_ok_def)
  with Number assms(1) have "x \<noteq> 0" "c \<noteq> 0" by (auto simp: cstr_append)
  then have "dopr_step b l (dst m n f args DP_S_MAX F cf mn (-1) (ds @ x # xs)) =
    dopr_step b l (dst m n f args DP_S_MAX F cf mn (int 0) (ds @ x # xs))"
    using ds by (simp add: dopr_step_def dst_def dopr_max_def Let_def)
  then have "dopr_loop b l (dst m n f args DP_S_MAX F cf mn (-1) (ds @ x # xs)) =
    dopr_loop b l (dst m n f args DP_S_MAX F cf mn (int 0) (ds @ x # xs))"
    by (subst (1 2) dopr_loop.simps) (simp add: dst_def)
  with Number assms max_digits [of m f ds x xs 0] show ?thesis
    by (auto simp: field_value_def field_ok_def horner_def Let_def split: if_splits)
next
  case Star
  with assms(1,5) dst_step [of m f "0x2A" "x # xs"]
  have "dopr_step b l (dst m n f args DP_S_MAX F cf mn (-1) (0x2A # x # xs)) =
    Some (dst m n (f + 1) args' DP_S_MOD F cf mn v (x # xs))"
    by (auto simp: dopr_step_def dst_def dopr_max_def field_value_def isdigit_iff Option.bind_eq_Some_conv)
  from dst_loop [OF this] Star show ?thesis by simp
qed

lemma precision_phase:
  assumes "cstr m f (spell_precision p @ x # xs)" "\<forall>w. p = Some w \<longrightarrow> field_ok w" "\<not> isdigit x" "x \<noteq> 0x2A" "x \<noteq> 0x2E"
    and "precision_value p args = Some (v, args')"
  shows "dopr_loop b l (dst m n f args DP_S_DOT F cf mn (-1) (spell_precision p @ x # xs)) =
    dopr_loop b l (dst m n (f + length (spell_precision p)) args' DP_S_MOD F cf mn v (x # xs))"
proof (cases p)
  case None
  with assms have "dopr_step b l (dst m n f args DP_S_DOT F cf mn (-1) (x # xs)) =
    Some (dst m n f args' DP_S_MOD F cf mn v (x # xs))"
    by (auto simp: dopr_step_def dst_def dopr_dot_def precision_value_def spell_precision_def)
  from dst_loop [OF this] None show ?thesis by (simp add: spell_precision_def)
next
  case (Some w)
  with assms(1) dst_step [of m f "0x2E" "spell_field w @ x # xs"]
  have "dopr_step b l (dst m n f args DP_S_DOT F cf mn (-1) (0x2E # spell_field w @ x # xs)) =
    Some (dst m n (f + 1) args DP_S_MAX F cf mn (-1) (spell_field w @ x # xs))"
    by (auto simp: dopr_step_def dst_def dopr_dot_def spell_precision_def)
  from dst_loop [OF this] max_phase [of m "f + 1" w x xs args v args' b l n F cf mn] Some assms
  show ?thesis by (simp add: spell_precision_def precision_value_def)
qed

lemma modifier_phase:
  assumes "cstr m f (md @ k # xs)" "modifier_flags md = Some cf" "k \<in> set conversions"
  shows "dopr_loop b l (dst m n f args DP_S_MOD F DP_C_NONE mn mx (md @ k # xs)) =
    dopr_loop b l (dst m n (f + length md) args DP_S_CONV F cf mn mx (k # xs))"
proof -
  have k: "k \<noteq> 0x68" "k \<noteq> 0x6C" "k \<noteq> 0x4C" using assms(3) by (auto simp: conversions_def)
  consider (none) "md = []" "cf = DP_C_NONE" | (h) "md = [0x68]" "cf = DP_C_SHORT" | (l) "md = [0x6C]" "cf = DP_C_LONG"
    | (ll) "md = [0x6C, 0x6C]" "cf = DP_C_LLONG" | (L) "md = [0x4C]" "cf = DP_C_LDOUBLE"
    using assms(2) by (auto simp: modifier_flags_def split: if_splits)
  then have "dopr_step b l (dst m n f args DP_S_MOD F DP_C_NONE mn mx (md @ k # xs)) =
    Some (dst m n (f + length md) args DP_S_CONV F cf mn mx (k # xs))"
  proof cases
    case none
    with assms(1) k show ?thesis by (auto simp: dopr_step_def dst_def dopr_mod_def)
  next
    case h
    with assms(1) dst_step [of m f "0x68" "k # xs"] show ?thesis by (simp add: dopr_step_def dst_def dopr_mod_def)
  next
    case l
    with assms(1) k dst_step [of m f "0x6C" "k # xs"] show ?thesis by (simp add: dopr_step_def dst_def dopr_mod_def)
  next
    case ll
    with assms(1) dst_step [of m f "0x6C" "0x6C # k # xs"] dst_step [of m "Suc f" "0x6C" "k # xs"]
    show ?thesis by (simp add: dopr_step_def dst_def dopr_mod_def)
  next
    case L
    with assms(1) dst_step [of m f "0x4C" "k # xs"] show ?thesis by (simp add: dopr_step_def dst_def dopr_mod_def)
  qed
  from dst_loop [OF this] show ?thesis by simp
qed

section \<open>The text of a conversion\<close>

text \<open>
  The text of a number, for widths and precisions that leave room for the arithmetic of the
  paddings, and of every number but the most negative signed one, whose negation overflows.
\<close>

definition number_text_of :: "nat \<Rightarrow> u32 \<Rightarrow> int \<Rightarrow> int \<Rightarrow> u64 \<Rightarrow> u8 list option" where
  "number_text_of base F mn mx v =
     (if (flag_set F DP_F_UNSIGNED \<or> sint v \<noteq> - (2 ^ 63)) \<and> - (2 ^ 30) \<le> mn \<and> mn < 2 ^ 31 \<and> mx < 2 ^ 30
      then Some (int_text (if flag_set F DP_F_UP then upper_digits else lower_digits) base F mn mx (sint v < 0) (magnitude F v))
      else None)"

text \<open>
  The text of a string: without a precision all of it, filled up to the width; with a precision
  the first characters of that, as many as the width or the precision, whichever is larger; with
  a negative one nothing. A null pointer has the text \<open><NULL>\<close> and, for want of a length, the
  precision 0.
\<close>

definition string_text_of :: "nat \<Rightarrow> u32 \<Rightarrow> int \<Rightarrow> int \<Rightarrow> u8 list \<Rightarrow> u8 list option" where
  "string_text_of p F width precision xs =
     (if length xs < 2 ^ 30 \<and> - (2 ^ 30) \<le> width \<and> width < 2 ^ 31 then
        Some (if precision < - 1 then []
              else if precision = - 1 \<and> p \<noteq> NULL then padded F width xs
              else take (max (nat width) (nat precision)) (padded F width xs))
      else None)"

definition conv_text ::
  "(nat \<Rightarrow> u8 list option) \<Rightarrow> u32 \<Rightarrow> dp_cflags \<Rightarrow> int \<Rightarrow> int \<Rightarrow> u8 \<Rightarrow> va list \<Rightarrow> (u8 list \<times> va list) option" where
  "conv_text strs F cf mn mx k args =
     (let number = (\<lambda>base F va. do { (v, args) \<leftarrow> va; t \<leftarrow> number_text_of base F mn mx v; Some (t, args) }) in
      if k = 0x64 \<or> k = 0x69 then number 10 F (va_signed cf args)
      else if k = 0x6F then number 8 (F OR DP_F_UNSIGNED) (va_unsigned cf args)
      else if k = 0x75 then number 10 (F OR DP_F_UNSIGNED) (va_unsigned cf args)
      else if k = 0x78 then number 16 (F OR DP_F_UNSIGNED) (va_unsigned cf args)
      else if k = 0x58 then number 16 ((F OR DP_F_UP) OR DP_F_UNSIGNED) (va_unsigned cf args)
      else if k = 0x63 then do { (v, args) \<leftarrow> va_int args; Some ([ucast v], args) }
      else if k = 0x73 then
        do { (p, args) \<leftarrow> va_ptr args; xs \<leftarrow> strs p; t \<leftarrow> string_text_of p F mn mx xs; Some (t, args) }
      else if k = 0x70 then do { (p, args) \<leftarrow> va_ptr args; number 16 F (Some (of_nat p, args)) }
      else Some ([0x25], args))"

definition strings_in :: "(nat \<Rightarrow> u8 list option) \<Rightarrow> nat \<Rightarrow> nat \<Rightarrow> mem \<Rightarrow> bool" where
  "strings_in strs b l m \<longleftrightarrow> (\<forall>p xs. strs p = Some xs \<longrightarrow> shown p m xs \<and> string_apart b l p xs)"

lemma strings_in_emit: "fits b l s \<Longrightarrow> strings_in strs b l (fst s) \<Longrightarrow> strings_in strs b l (fst (emit b l cs s))"
  by (auto simp: strings_in_def shown_emit)

text \<open>Runs of the directive that write t and take the arguments args'.\<close>

definition writes_text :: "nat \<Rightarrow> nat \<Rightarrow> dopr_state option \<Rightarrow> dopr_state \<Rightarrow> u8 list \<Rightarrow> va list \<Rightarrow> bool" where
  "writes_text b l r d t args' \<longleftrightarrow> (\<exists>F mx. r = Some (d\<lparr>d_mem := fst (emit b l t (d_mem d, d_currlen d)),
     d_currlen := d_currlen d + length t, d_args := args', d_flags := F, d_max := mx\<rparr>))"

lemma with_out_writes:
  assumes "f (d_mem d, d_currlen d) = Some (emit b l t (d_mem d, d_currlen d))"
    "d = e\<lparr>d_args := args', d_flags := F, d_max := mx\<rparr>"
  shows "writes_text b l (with_out f d) e t args'"
proof -
  obtain m n where e: "emit b l t (d_mem d, d_currlen d) = (m, n)" by (cases "emit b l t (d_mem d, d_currlen d)")
  moreover have "n = d_currlen d + length t" using snd_emit [of b l t "(d_mem d, d_currlen d)", unfolded e] by simp
  ultimately show ?thesis using assms
    by (auto simp: writes_text_def with_out_def intro!: exI [of _ F] exI [of _ mx])
qed

lemma conv_int_writes:
  assumes "fits b l (d_mem d, d_currlen d)" "va = Some (v, args')" "base \<in> {8, 10, 16}"
    and "number_text_of (unat base) (d_flags d) (d_min d) (d_max d) v = Some t" "d = e\<lparr>d_flags := F\<rparr>"
  shows "writes_text b l (conv_int b l va base d) e t args'"
proof -
  have "(2 :: u64) \<le> base" using assms(3) by auto
  with assms(1,4) have "fmtint b l v base (d_min d) (d_max d) (d_flags d) (d_mem d, d_currlen d) =
    Some (emit b l t (d_mem d, d_currlen d))"
    using fmtint_emit [of b l "(d_mem d, d_currlen d)" base "d_flags d" v "d_min d" "d_max d"]
    by (simp add: number_text_of_def split: if_splits)
  then show ?thesis unfolding conv_int_def assms(2) bind.simps prod.case
    by (intro with_out_writes [where F = "d_flags d" and mx = "d_max d"]) (simp_all add: assms(5))
qed

lemma conv_str_writes:
  assumes "fits b l (d_mem d, d_currlen d)" "va_ptr (d_args d) = Some (p, args')" "shown p (d_mem d) xs"
    "string_apart b l p xs" "string_text_of p (d_flags d) (d_min d) (d_max d) xs = Some t"
  shows "writes_text b l (conv_str b l d) d t args'"
proof -
  let ?mx = "if d_max d = -1 then if p = NULL then 0 else int (length xs) else d_max d"
  let ?cut = "if d_min d > 0 \<and> ?mx \<ge> 0 \<and> d_min d > ?mx then d_min d else ?mx"
  have i: "length xs < 2 ^ 30" "- (2 ^ 30) \<le> d_min d" "d_min d < 2 ^ 31"
    using assms(5) by (auto simp: string_text_of_def split: if_splits)
  have l: "length (padded F w xs) = max (nat w) (length xs)" for F w by (auto simp: padded_def Let_def)
  have "int (length xs) < 2 ^ 30" using i(1) by (simp flip: of_nat_less_iff)
  then have t: "int_in 32 (d_min d - int (length xs)) \<noteq> None" "int_in 32 (int (length xs)) = Some (int (length xs))"
    "t = take (nat ?cut) (padded (d_flags d) (d_min d) xs)"
    using assms(5) i by (auto simp: string_text_of_def int_in_def l max_def split: if_splits)
  have "(if d_max d = -1 then do { n \<leftarrow> libmin_strlen (d_mem d) p; int_in 32 (int n) } else Some (d_max d)) = Some ?mx"
    using assms(3) t(2) strlen_cstr [of "d_mem d" p xs]
    by (auto simp: shown_def libmin_strlen_def int_in_def)
  moreover have "fmtstr b l p (d_flags d) (d_min d) ?cut (d_mem d, d_currlen d) = Some (emit b l t (d_mem d, d_currlen d))"
    using fmtstr_emit [of b l "(d_mem d, d_currlen d)" p xs] assms t by simp
  ultimately show ?thesis unfolding conv_str_def assms(2) bind.simps prod.case Let_def
    by (simp only: bind.simps)
      (rule with_out_writes [where F = "d_flags d" and mx = ?cut], simp_all)
qed

lemma number_writes:
  assumes "fits b l (d_mem d, d_currlen d)" "base \<in> {8, 10, 16}"
    and "do { (v, args) \<leftarrow> va; t \<leftarrow> number_text_of (unat base) F (d_min d) (d_max d) v; Some (t, args) } = Some (t, args')"
  shows "writes_text b l (conv_int b l va base (d\<lparr>d_flags := F\<rparr>)) d t args'"
proof -
  obtain v where v: "va = Some (v, args')" "number_text_of (unat base) F (d_min d) (d_max d) v = Some t"
    using assms(3) by (auto simp: Option.bind_eq_Some_conv)
  show ?thesis by (rule conv_int_writes [OF _ v(1) assms(2)]) (use assms(1) v(2) in simp_all)
qed

lemma directive_writes:
  assumes f: "fits b l (d_mem d, d_currlen d)" and s: "strings_in strs b l (d_mem d)"
    and k: "d_ch d \<in> set conversions"
    and t: "conv_text strs (d_flags d) (d_cflags d) (d_min d) (d_max d) (d_ch d) (d_args d) = Some (t, args')"
  shows "writes_text b l (dopr_directive b l d) d t args'"
proof -
  consider (d) "d_ch d \<in> {0x64, 0x69}" | (o) "d_ch d = 0x6F" | (u) "d_ch d = 0x75" | (x) "d_ch d = 0x78"
    | (X) "d_ch d = 0x58" | (c) "d_ch d = 0x63" | (s) "d_ch d = 0x73" | (p) "d_ch d = 0x70" | (percent) "d_ch d = 0x25"
    using k by (auto simp: conversions_def)
  then show ?thesis
  proof cases
    case d
    with t number_writes [OF f, of 10 "va_signed (d_cflags d) (d_args d)" "d_flags d" t args'] show ?thesis
      by (auto simp: conv_text_def dopr_directive_def Let_def)
  next
    case o
    with t number_writes [OF f, of 8] show ?thesis by (simp add: conv_text_def dopr_directive_def Let_def)
  next
    case u
    with t number_writes [OF f, of 10] show ?thesis by (simp add: conv_text_def dopr_directive_def Let_def)
  next
    case x
    with t number_writes [OF f, of 16] show ?thesis by (simp add: conv_text_def dopr_directive_def Let_def)
  next
    case X
    with t number_writes [OF f, of 16] show ?thesis by (simp add: conv_text_def dopr_directive_def Let_def)
  next
    case c
    with t obtain v where v: "va_int (d_args d) = Some (v, args')" "t = [ucast v]"
      by (auto simp: conv_text_def Let_def Option.bind_eq_Some_conv)
    have "writes_text b l (with_out (dopr_outch b l (ucast v)) (d\<lparr>d_args := args'\<rparr>)) d t args'"
      by (rule with_out_writes [where F = "d_flags d" and mx = "d_max d"]) (use f v in \<open>simp_all add: outch_emit\<close>)
    with c v(1) show ?thesis by (simp add: dopr_directive_def Let_def)
  next
    case s
    with t obtain p xs where v: "va_ptr (d_args d) = Some (p, args')" "strs p = Some xs"
      "string_text_of p (d_flags d) (d_min d) (d_max d) xs = Some t"
      by (auto simp: conv_text_def Let_def Option.bind_eq_Some_conv)
    with assms(2) have "writes_text b l (conv_str b l d) d t args'"
      by (intro conv_str_writes [OF f v(1)]) (auto simp: strings_in_def)
    with s show ?thesis by (simp add: dopr_directive_def Let_def)
  next
    case p
    with t obtain q args'' where q: "va_ptr (d_args d) = Some (q, args'')"
      "do { (v, args) \<leftarrow> Some (of_nat q, args''); t \<leftarrow> number_text_of 16 (d_flags d) (d_min d) (d_max d) v; Some (t, args) } =
        Some (t, args')"
      by (auto simp: conv_text_def Let_def Option.bind_eq_Some_conv)
    with p number_writes [OF f, of 16 "Some (of_nat q, args'')" "d_flags d" t args'] show ?thesis
      by (simp add: dopr_directive_def Let_def)
  next
    case percent
    with t have v: "t = [0x25]" "args' = d_args d" by (auto simp: conv_text_def Let_def)
    have "writes_text b l (with_out (dopr_outch b l (d_ch d)) d) d t args'"
      by (rule with_out_writes [where F = "d_flags d" and mx = "d_max d"]) (use f v percent in \<open>simp_all add: outch_emit\<close>)
    with percent show ?thesis by (simp add: dopr_directive_def Let_def)
  qed
qed

lemma conv_phase:
  assumes f: "fits b l (m, n)" and s: "strings_in strs b l m" and k: "k \<in> set conversions"
    and c: "cstr m f (k # xs)" "apart b l f (Suc (length (k # xs)))"
    and t: "conv_text strs F cf mn mx k args = Some (t, args')"
  shows "dopr_loop b l (dst m n f args DP_S_CONV F cf mn mx (k # xs)) =
    dopr_loop b l (dst (fst (emit b l t (m, n))) (n + length t) (f + 1) args' DP_S_DEFAULT 0 DP_C_NONE 0 (-1) xs)"
proof -
  let ?m = "fst (emit b l t (m, n))"
  have "writes_text b l (dopr_directive b l (dst m n f args DP_S_CONV F cf mn mx (k # xs)))
    (dst m n f args DP_S_CONV F cf mn mx (k # xs)) t args'"
    by (rule directive_writes) (use assms in \<open>simp_all add: dst_def\<close>)
  then obtain F' mx' where r: "dopr_directive b l (dst m n f args DP_S_CONV F cf mn mx (k # xs)) =
    Some (dst ?m (n + length t) f args' DP_S_CONV F' cf mn mx' (k # xs))"
    by (auto simp: writes_text_def dst_def)
  have "cstr ?m f (k # xs)" using c cstr_emit [OF f c(2), of t] by simp
  from dst_step [OF this] have "dopr_conv b l (dst m n f args DP_S_CONV F cf mn mx (k # xs)) =
    Some (dst ?m (n + length t) (f + 1) args' DP_S_DEFAULT 0 DP_C_NONE 0 (-1) xs)"
    unfolding dopr_conv_def r by (simp add: dst_def)
  moreover have "k \<noteq> 0" using c(1) by simp
  ultimately have "dopr_step b l (dst m n f args DP_S_CONV F cf mn mx (k # xs)) =
    Some (dst ?m (n + length t) (f + 1) args' DP_S_DEFAULT 0 DP_C_NONE 0 (-1) xs)"
    by (simp add: dopr_step_def) (simp add: dst_def)
  from dst_loop [OF this] show ?thesis by simp
qed

section \<open>The text of a format\<close>

definition directive_text :: "(nat \<Rightarrow> u8 list option) \<Rightarrow> directive \<Rightarrow> va list \<Rightarrow> (u8 list \<times> va list) option" where
  "directive_text strs d args =
     do {
       (mn, args) \<leftarrow> field_value 0 (dir_width d) args;
       (mx, args) \<leftarrow> precision_value (dir_precision d) args;
       cf \<leftarrow> modifier_flags (dir_modifier d);
       conv_text strs (flag_bits (dir_flags d)) cf mn mx (dir_conv d) args
     }"

fun format_text :: "(nat \<Rightarrow> u8 list option) \<Rightarrow> piece list \<Rightarrow> va list \<Rightarrow> u8 list option" where
  "format_text strs [] args = Some []"
| "format_text strs (Lit c # ps) args = map_option ((#) c) (format_text strs ps args)"
| "format_text strs (Dir d # ps) args =
     do { (t, args) \<leftarrow> directive_text strs d args; r \<leftarrow> format_text strs ps args; Some (t @ r) }"

definition spell_all :: "piece list \<Rightarrow> u8 list" where
  "spell_all ps = concat (map spell ps)"

definition plain :: "u8 \<Rightarrow> bool" where
  "plain x \<longleftrightarrow> \<not> flag_char x \<and> \<not> isdigit x \<and> x \<noteq> 0x2A \<and> x \<noteq> 0x2E"

lemma plain_heads:
  "x \<in> set conversions \<Longrightarrow> plain x" "modifier_flags (c # md) \<noteq> None \<Longrightarrow> plain c"
  by (auto simp: plain_def conversions_def flag_char_def isdigit_iff modifier_flags_def split: if_splits)

lemma apart_suffix: "apart b l f (n + k) \<Longrightarrow> apart b l (f + n) k"
  by (auto simp: apart_def)

lemma directive_phases:
  assumes f: "fits b l (m, n)" and s: "strings_in strs b l m" and ok: "directive_ok d"
    and c: "cstr m f (spell (Dir d) @ xs)" "apart b l f (Suc (length (spell (Dir d) @ xs)))"
    and t: "directive_text strs d args = Some (t, args')"
  shows "dopr_loop b l (dst m n f args DP_S_DEFAULT 0 DP_C_NONE 0 (-1) (spell (Dir d) @ xs)) =
    dopr_loop b l (dst (fst (emit b l t (m, n))) (n + length t) (f + length (spell (Dir d))) args' DP_S_DEFAULT 0 DP_C_NONE 0 (-1) xs)"
proof -
  obtain mn args1 mx args2 cf where v: "field_value 0 (dir_width d) args = Some (mn, args1)"
    "precision_value (dir_precision d) args1 = Some (mx, args2)" "modifier_flags (dir_modifier d) = Some cf"
    "conv_text strs (flag_bits (dir_flags d)) cf mn mx (dir_conv d) args2 = Some (t, args')"
    using t by (auto simp: directive_text_def Option.bind_eq_Some_conv)
  let ?fl = "dir_flags d" and ?w = "spell_field (dir_width d)" and ?p = "spell_precision (dir_precision d)"
    and ?md = "dir_modifier d" and ?k = "dir_conv d"
  note ok = ok [unfolded directive_ok_def]
  obtain x4 r4 where r4: "?md @ ?k # xs = x4 # r4" "plain x4"
    using ok plain_heads by (cases ?md) auto
  obtain x3 r3 where r3: "?p @ ?md @ ?k # xs = x3 # r3" "\<not> flag_char x3" "\<not> isdigit x3" "x3 \<noteq> 0x2A"
    using r4 by (cases "dir_precision d") (auto simp: spell_precision_def plain_def flag_char_def isdigit_iff)
  obtain x2 r2 where r2: "?w @ ?p @ ?md @ ?k # xs = x2 # r2" "\<not> flag_char x2"
  proof (cases "dir_width d")
    case (Number ds)
    with ok obtain e ds' where "ds = e # ds'" "isdigit e" "e \<noteq> 0x30" by (cases ds) (auto simp: field_ok_def)
    moreover from this have "\<not> flag_char e" by (auto simp: flag_char_def isdigit_iff)
    ultimately show ?thesis using Number that by simp
  qed (use r3 that in \<open>auto simp: flag_char_def\<close>)
  let ?f1 = "f + 1" let ?f2 = "?f1 + length ?fl" let ?f3 = "?f2 + length ?w" let ?f4 = "?f3 + length ?p"
  let ?f5 = "?f4 + length ?md"
  have cs: "cstr m f (0x25 # ?fl @ x2 # r2)" "cstr m ?f1 (?fl @ x2 # r2)" "cstr m ?f2 (?w @ x3 # r3)"
    "cstr m ?f3 (?p @ x4 # r4)" "cstr m ?f4 (?md @ ?k # xs)" "cstr m ?f5 (?k # xs)"
    using c(1) unfolding spell.simps spell_directive_def append_assoc append_Cons append_Nil
      r2(1) [symmetric] r3(1) [symmetric] r4(1) [symmetric]
    by (simp_all add: cstr_append add.assoc)
  have ap: "apart b l ?f5 (Suc (length (?k # xs)))"
    using c(2) apart_suffix [of b l f "1 + length ?fl + length ?w + length ?p + length ?md" "Suc (length (?k # xs))"]
    by (simp add: spell_directive_def add_ac)
  have e: "spell (Dir d) @ xs = 0x25 # ?fl @ x2 # r2"
    by (simp add: spell_directive_def r2(1) [symmetric])
  have "dopr_step b l (dst m n f args DP_S_DEFAULT 0 DP_C_NONE 0 (-1) (0x25 # ?fl @ x2 # r2)) =
    Some (dst m n ?f1 args DP_S_FLAGS 0 DP_C_NONE 0 (-1) (?fl @ x2 # r2))"
    using dst_step [OF cs(1)] by (simp add: dopr_step_def dst_def dopr_default_def)
  from dst_loop [OF this] have "dopr_loop b l (dst m n f args DP_S_DEFAULT 0 DP_C_NONE 0 (-1) (spell (Dir d) @ xs)) =
    dopr_loop b l (dst m n ?f1 args DP_S_FLAGS 0 DP_C_NONE 0 (-1) (?fl @ x2 # r2))" unfolding e by simp
  also have "\<dots> = dopr_loop b l (dst m n ?f2 args DP_S_MIN (flag_bits ?fl) DP_C_NONE 0 (-1) (?w @ x3 # r3))"
    using flags_phase [OF cs(2) _ r2(2)] ok r2(1) r3(1) by (simp add: flag_bits_def)
  also have "\<dots> = dopr_loop b l (dst m n ?f3 args1 DP_S_DOT (flag_bits ?fl) DP_C_NONE mn (-1) (?p @ x4 # r4))"
    using width_phase [OF cs(3) _ r3(3,4) v(1)] ok r3(1) r4(1) by simp
  also have "\<dots> = dopr_loop b l (dst m n ?f4 args2 DP_S_MOD (flag_bits ?fl) DP_C_NONE mn mx (?md @ ?k # xs))"
    using precision_phase [OF cs(4) _ _ _ _ v(2)] ok r4 by (auto simp: plain_def split: option.splits)
  also have "\<dots> = dopr_loop b l (dst m n ?f5 args2 DP_S_CONV (flag_bits ?fl) cf mn mx (?k # xs))"
    using modifier_phase [OF cs(5) v(3)] ok by simp
  also have "\<dots> = dopr_loop b l (dst (fst (emit b l t (m, n))) (n + length t) (?f5 + 1) args' DP_S_DEFAULT 0 DP_C_NONE 0 (-1) xs)"
    using conv_phase [OF f s _ cs(6) ap v(4)] ok by simp
  also have "?f5 + 1 = f + length (spell (Dir d))" by (simp add: spell_directive_def)
  finally show ?thesis .
qed

lemma literal_phase:
  assumes f: "fits b l (m, n)" and c: "c \<noteq> 0x25" "cstr m f (c # xs)" "apart b l f (Suc (length (c # xs)))"
  shows "dopr_loop b l (dst m n f args DP_S_DEFAULT 0 DP_C_NONE 0 (-1) (c # xs)) =
    dopr_loop b l (dst (fst (emit b l [c] (m, n))) (n + 1) (f + 1) args DP_S_DEFAULT 0 DP_C_NONE 0 (-1) xs)"
proof -
  let ?m = "fst (emit b l [c] (m, n))"
  have e: "dopr_outch b l c (m, n) = Some (?m, n + 1)"
    using outch_emit [OF f, of c] by (simp add: emit_def put_def)
  have "cstr ?m f (c # xs)" using c cstr_emit [OF f c(3), of "[c]"] by simp
  from dst_step [OF this] have "dopr_step b l (dst m n f args DP_S_DEFAULT 0 DP_C_NONE 0 (-1) (c # xs)) =
    Some (dst ?m (n + 1) (f + 1) args DP_S_DEFAULT 0 DP_C_NONE 0 (-1) xs)"
    using c(1) e by (simp add: dopr_step_def dst_def dopr_default_def with_out_def)
  from dst_loop [OF this] show ?thesis by simp
qed

lemma format_phases:
  assumes "fits b l (m, n)" "strings_in strs b l m" "list_all piece_ok ps"
    and "cstr m f (spell_all ps)" "apart b l f (Suc (length (spell_all ps)))"
    and "format_text strs ps args = Some t"
  shows "\<exists>d. dopr_loop b l (dst m n f args DP_S_DEFAULT 0 DP_C_NONE 0 (-1) (spell_all ps)) = Some d \<and>
    d_mem d = fst (emit b l t (m, n)) \<and> d_currlen d = n + length t"
  using assms
proof (induction ps arbitrary: m n f args t)
  case Nil
  have s: "dopr_step b l (dst m n f args DP_S_DEFAULT 0 DP_C_NONE 0 (-1) []) =
    Some (dst m n f args DP_S_DONE 0 DP_C_NONE 0 (-1) [])"
    by (simp add: dopr_step_def dst_def)
  have e: "dopr_loop b l (dst m n f args DP_S_DEFAULT 0 DP_C_NONE 0 (-1) []) = Some (dst m n f args DP_S_DONE 0 DP_C_NONE 0 (-1) [])"
    using dst_loop [OF s] by (simp add: dopr_loop.simps dst_def)
  show ?case using Nil.prems(6) e by (simp add: spell_all_def dst_def)
next
  case (Cons p ps)
  show ?case
  proof (cases p)
    case (Lit c)
    with Cons.prems(6) obtain r where r: "format_text strs ps args = Some r" "t = c # r" by auto
    let ?m = "fst (emit b l [c] (m, n))"
    have c: "cstr m f (c # spell_all ps)" "apart b l f (Suc (length (c # spell_all ps)))" "c \<noteq> 0x25"
      using Cons.prems Lit by (simp_all add: spell_all_def)
    have c': "cstr ?m (f + 1) (spell_all ps)"
      using c(1) cstr_emit [OF Cons.prems(1) c(2), of "[c]"] by simp
    have "\<exists>d. dopr_loop b l (dst ?m (n + 1) (f + 1) args DP_S_DEFAULT 0 DP_C_NONE 0 (-1) (spell_all ps)) = Some d \<and>
      d_mem d = fst (emit b l r (?m, n + 1)) \<and> d_currlen d = n + 1 + length r"
      using Cons.prems c' r(1) strings_in_emit [of b l "(m, n)" strs "[c]"] apart_suffix [of b l f 1] c(2)
      by (intro Cons.IH) (simp_all add: fits_def)
    moreover have "emit b l r (?m, n + 1) = emit b l t (m, n)"
      unfolding r(2) by (simp add: emit_Cons emit_def put_def)
    ultimately show ?thesis using literal_phase [OF Cons.prems(1) c(3,1,2), of args] Lit r(2)
      by (simp add: spell_all_def)
  next
    case (Dir d)
    with Cons.prems(6) obtain u args' r where r: "directive_text strs d args = Some (u, args')"
      "format_text strs ps args' = Some r" "t = u @ r" by (auto simp: Option.bind_eq_Some_conv)
    let ?m = "fst (emit b l u (m, n))" and ?f = "f + length (spell (Dir d))"
    have c: "cstr m f (spell (Dir d) @ spell_all ps)" "apart b l f (Suc (length (spell (Dir d) @ spell_all ps)))"
      "directive_ok d" using Cons.prems Dir by (simp_all add: spell_all_def)
    have c': "cstr ?m ?f (spell_all ps)"
      using c(1) cstr_emit [OF Cons.prems(1) c(2), of u] by (simp add: cstr_append)
    have pr: "(?m, n + length u) = emit b l u (m, n)" by (metis snd_conv snd_emit prod.collapse)
    have "\<exists>d. dopr_loop b l (dst ?m (n + length u) ?f args' DP_S_DEFAULT 0 DP_C_NONE 0 (-1) (spell_all ps)) = Some d \<and>
      d_mem d = fst (emit b l r (?m, n + length u)) \<and> d_currlen d = n + length u + length r"
      using Cons.prems c' r(2) strings_in_emit [of b l "(m, n)" strs u]
        apart_suffix [of b l f "length (spell (Dir d))" "Suc (length (spell_all ps))"] c(2)
      by (intro Cons.IH) (simp_all add: fits_def)
    then show ?thesis
      using directive_phases [OF Cons.prems(1,2) c(3,1,2) r(1)] Dir r(3)
      unfolding pr by (simp add: spell_all_def emit_append add.assoc)
  qed
qed

end
