(* ===== verification/Libmin_Output.thy ===== *)
theory Libmin_Output
  imports Libmin_Format
begin

text \<open>
  Properties of formatted output: what \<open>dopr\<close>, snprintf and printf do with a format, and that
  a printed number reads back.
\<close>

section \<open>The buffer after a format\<close>

lemma emit_terminated:
  assumes "fits b l (m, 0)" "0 < l"
  shows "\<exists>m'. dopr_terminate b l (fst (emit b l t (m, 0))) (length t) = Some m' \<and>
    st_bytes m b (take (l - 1) t @ [0]) = Some m'"
proof -
  let ?m = "fst (emit b l t (m, 0))"
  let ?k = "min (length t) (l - 1)"
  have k: "b + ?k < length m" using assms by (auto simp: fits_def)
  have "dopr_terminate b l ?m (length t) = Some (?m[b + ?k := 0])"
  proof (cases "length t < l - 1")
    case False
    then have "?k = l - 1" by simp
    with False k assms(2) show ?thesis by (simp add: dopr_terminate_def)
  qed (use k assms(2) in \<open>simp add: dopr_terminate_def\<close>)
  moreover have "st_bytes m b (take (l - 1) t @ [0]) = Some (?m[b + ?k := 0])"
    unfolding st_bytes_iff
  proof (intro conjI allI impI)
    show "b + length (take (l - 1) t @ [0]) \<le> length m" using k by simp
    show "length (?m[b + ?k := 0]) = length m" by simp
    fix i assume i: "i < length m"
    show "?m[b + ?k := 0] ! i = (if b \<le> i \<and> i < b + length (take (l - 1) t @ [0]) then (take (l - 1) t @ [0]) ! (i - b) else m ! i)"
      using i k assms nth_emit [of b l m i t 0]
      by (auto simp: fits_def nth_list_update nth_append min_def)
  qed
  ultimately show ?thesis by blast
qed

lemma dopr_start:
  assumes "cstr m f xs"
  shows "next_ch \<lparr>d_mem = m, d_currlen = 0, d_format = f, d_ch = 0, d_args = args, d_state = DP_S_DEFAULT,
     d_flags = 0, d_cflags = DP_C_NONE, d_min = 0, d_max = -1\<rparr> = Some (dst m 0 f args DP_S_DEFAULT 0 DP_C_NONE 0 (-1) xs)"
  using cstr_ld [OF assms, of 0] by (cases xs) (simp_all add: next_ch_def dst_def)

lemma dopr_memory:
  assumes "list_all piece_ok ps" "cstr m f (spell_all ps)" "format_text strs ps args = Some t"
    and "b + l \<le> length m" "apart b l f (Suc (length (spell_all ps)))" "strings_in strs b l m"
  shows "dopr b l f args m =
    do { m' \<leftarrow> dopr_terminate b l (fst (emit b l t (m, 0))) (length t); Some (m', length t) }"
proof -
  have "fits b l (m, 0)" using assms(4) by (simp add: fits_def)
  from format_phases [OF this assms(6,1,2,5,3)] obtain d where
    "dopr_loop b l (dst m 0 f args DP_S_DEFAULT 0 DP_C_NONE 0 (-1) (spell_all ps)) = Some d"
    "d_mem d = fst (emit b l t (m, 0))" "d_currlen d = length t" by auto
  then show ?thesis by (simp add: dopr_def dopr_start [OF assms(2)])
qed

lemma dopr_run:
  assumes "list_all piece_ok ps" "cstr m f (spell_all ps)" "format_text strs ps args = Some t"
    and "0 < l" "b + l \<le> length m" "apart b l f (Suc (length (spell_all ps)))" "strings_in strs b l m"
  obtains m' where "dopr b l f args m = Some (m', length t)" "st_bytes m b (take (l - 1) t @ [0]) = Some m'"
proof -
  have "fits b l (m, 0)" using assms(5) by (simp add: fits_def)
  from emit_terminated [OF this assms(4), of t] dopr_memory [OF assms(1-3,5-7)] that show ?thesis by auto
qed

text \<open>
  C19: formatted output writes the text of the format. On a format of literal characters and
  directives with any flags and modifiers for the integer, character, string, pointer and percent
  conversions, with matching arguments, dopr returns the length of the text and leaves in the
  buffer as much of it as fits, ended by NUL; no other byte of memory changes. The text is that of
  the definitions \<open>int_text\<close>, which has the last nineteen digits of a number, and
  \<open>string_text_of\<close>; widths are between -2^30 and 2^31, precisions of numbers and lengths of
  strings below 2^30, and the most negative signed long has no text. The format and the strings must not
  overlap the buffer.
\<close>

theorem format_output:
  assumes "list_all piece_ok ps" "cstr m f (spell_all ps)" "format_text strs ps args = Some t"
    and "0 < l" "b + l \<le> length m" "apart b l f (Suc (length (spell_all ps)))" "strings_in strs b l m"
  shows "\<exists>m'. dopr b l f args m = Some (m', length t) \<and> st_bytes m b (take (l - 1) t @ [0]) = Some m'"
proof -
  obtain m' where "dopr b l f args m = Some (m', length t)" "st_bytes m b (take (l - 1) t @ [0]) = Some m'"
    by (rule dopr_run [OF assms])
  then show ?thesis by blast
qed

lemma terminated_cstr:
  assumes "st_bytes m b (take (l - 1) t @ [0]) = Some m'" "0 \<notin> set t" "0 < l" "b + l \<le> length m"
  shows "cstr (m'[b + l - 1 := 0]) b (take (l - 1) t)"
    and "\<forall>i < length m. i < b \<or> b + l \<le> i \<longrightarrow> m'[b + l - 1 := 0] ! i = m ! i"
proof -
  note s = assms(1) [unfolded st_bytes_iff]
  have len: "length m' = length m" and nth: "\<And>i. i < length m \<Longrightarrow> m' ! i =
    (if b \<le> i \<and> i < b + length (take (l - 1) t @ [0]) then (take (l - 1) t @ [0]) ! (i - b) else m ! i)"
    using s by auto
  have "take (Suc (length (take (l - 1) t))) (drop b (m'[b + l - 1 := 0])) = take (l - 1) t @ [0]"
  proof (rule nth_equalityI)
    show "length (take (Suc (length (take (l - 1) t))) (drop b (m'[b + l - 1 := 0]))) = length (take (l - 1) t @ [0])"
      using len assms(3,4) by auto
    fix i assume "i < length (take (Suc (length (take (l - 1) t))) (drop b (m'[b + l - 1 := 0])))"
    then show "take (Suc (length (take (l - 1) t))) (drop b (m'[b + l - 1 := 0])) ! i = (take (l - 1) t @ [0]) ! i"
      using len nth [of "b + i"] assms(3,4) by (auto simp: nth_list_update nth_append)
  qed
  moreover have "0 \<notin> set (take (l - 1) t)" using assms(2) by (auto dest: in_set_takeD)
  ultimately show "cstr (m'[b + l - 1 := 0]) b (take (l - 1) t)"
    using len assms(3,4) by (auto simp: cstr_iff ld_bytes_def)
  show "\<forall>i < length m. i < b \<or> b + l \<le> i \<longrightarrow> m'[b + l - 1 := 0] ! i = m ! i"
    using nth assms(3) by (auto simp: nth_list_update)
qed

lemma snprintf_buffer:
  assumes "list_all piece_ok ps" "cstr m f (spell_all ps)" "format_text strs ps args = Some t" "0 \<notin> set t"
    and "0 < sz" "s \<noteq> NULL" "s + sz \<le> length m" "apart s sz f (Suc (length (spell_all ps)))" "strings_in strs s sz m"
  shows "\<exists>m'. libmin_snprintf s sz f args m = Some (m', min (length t) (sz - 1)) \<and> length m' = length m \<and>
    cstr m' s (take (sz - 1) t) \<and> (\<forall>i < length m. i < s \<or> s + sz \<le> i \<longrightarrow> m' ! i = m ! i)"
proof -
  from dopr_run [OF assms(1-3,5,7-9)] obtain m1 where
    m1: "dopr s sz f args m = Some (m1, length t)" "st_bytes m s (take (sz - 1) t @ [0]) = Some m1" .
  have "length m1 = length m" using st_bytes_length [OF m1(2)] .
  moreover note t = terminated_cstr [OF m1(2) assms(4,5,7)]
  ultimately have "libmin_snprintf s sz f args m = Some (m1[s + sz - 1 := 0], min (length t) (sz - 1))"
    using m1(1) assms(5,7) strlen_cstr [OF t(1) assms(6)] by (simp add: libmin_snprintf_def)
  with t \<open>length m1 = length m\<close> show ?thesis by auto
qed

text \<open>
  C20: snprintf stays in its buffer. With a positive size it leaves a NUL-terminated string in the
  buffer, the text of the format cut to the size less one, changes no byte outside the buffer, and
  returns the length of that string.
\<close>

theorem snprintf_bounded:
  assumes "list_all piece_ok ps" "cstr m f (spell_all ps)" "format_text strs ps args = Some t" "0 \<notin> set t"
    and "0 < sz" "s \<noteq> NULL" "s + sz \<le> length m" "apart s sz f (Suc (length (spell_all ps)))" "strings_in strs s sz m"
  shows "\<exists>m'. libmin_snprintf s sz f args m = Some (m', min (length t) (sz - 1)) \<and> length m' = length m \<and>
    cstr m' s (take (sz - 1) t) \<and> (\<forall>i < length m. i < s \<or> s + sz \<le> i \<longrightarrow> m' ! i = m ! i)"
  by (rule snprintf_buffer [OF assms])

section \<open>printf\<close>

lemma cstr_extend: "cstr m a xs \<Longrightarrow> cstr (m @ k) a xs"
  by (induction xs arbitrary: a) (auto simp: ld_def nth_append split: if_splits)

lemma cstr_in: "cstr m a xs \<Longrightarrow> apart (length m) l a (Suc (length xs))"
  using cstr_bound [of m a xs] by (simp add: apart_def)

lemma putc_loop_cstr: "cstr m s xs \<Longrightarrow> putc_loop m s = Some xs"
  by (induction xs arbitrary: s) (subst putc_loop.simps, simp)+

text \<open>
  C39: printf prints the text of the format. It hands the first 1023 characters of the text to the
  target in order, returns their number, and changes no memory of the program.
\<close>

theorem printf_prints:
  assumes "list_all piece_ok ps" "cstr m f (spell_all ps)" "format_text strs ps args = Some t" "0 \<notin> set t"
    and "\<And>p xs. strs p = Some xs \<Longrightarrow> shown p m xs" "length stack = 1024"
  shows "libmin_printf stack f args m = Some (m, take 1023 t, min (length t) 1023)"
proof -
  let ?m = "m @ stack" and ?b = "length m"
  have s: "strings_in strs ?b 1024 ?m"
    using assms(5) by (auto simp: strings_in_def string_apart_def shown_def cstr_extend cstr_in split: if_splits)
  obtain m1 where m1: "dopr ?b 1024 f args ?m = Some (m1, length t)" "st_bytes ?m ?b (take (1024 - 1) t @ [0]) = Some m1"
    by (rule dopr_run [OF assms(1) cstr_extend [OF assms(2)] assms(3) _ _ cstr_in [OF assms(2)] s])
      (simp_all add: assms(6))
  have len: "length m1 = length m + 1024" using st_bytes_length [OF m1(2)] assms(6) by simp
  have t: "cstr (m1[?b + 1023 := 0]) ?b (take 1023 t)" "\<forall>i < ?b. m1[?b + 1023 := 0] ! i = m ! i"
    using terminated_cstr [OF m1(2) assms(4)] assms(6) by (simp_all add: nth_append add.commute)
  have "take ?b (m1[?b + 1023 := 0]) = m" by (rule nth_equalityI) (use t(2) len in auto)
  with m1(1) len putc_loop_cstr [OF t(1)] show ?thesis by (simp add: libmin_printf_def Let_def)
qed

section \<open>Numbers read back\<close>

lemma horner_append: "horner b (xs @ ys) = foldl (\<lambda>n d. b * n + d) (horner b xs) ys"
  by (simp add: horner_def)

lemma lower_digit: "k < 10 \<Longrightarrow> digit_of (lower_digits ! k) = k \<and> isdigit (lower_digits ! k)"
proof -
  have "list_all (\<lambda>k. digit_of (lower_digits ! k) = k \<and> isdigit (lower_digits ! k)) [0..<10]"
    by (simp add: lower_digits_def digit_of_def isdigit_iff upt_rec)
  then show "k < 10 \<Longrightarrow> ?thesis" by (simp add: list_all_iff)
qed

lemma decimal_digits:
  "horner 10 (map digit_of (positional lower_digits 10 n)) = n \<and> list_all isdigit (positional lower_digits 10 n) \<and>
   positional lower_digits 10 n \<noteq> []"
proof (induction n rule: less_induct)
  case (less n)
  show ?case
  proof (cases "n < 10")
    case True
    then show ?thesis by (subst (1 2 3) positional.simps) (simp add: lower_digit horner_def)
  next
    case False
    then have "n div 10 < n" by simp
    from less [OF this] False show ?thesis
      by (subst (1 2 3) positional.simps) (simp add: lower_digit)
  qed
qed

lemma nonzero_digits: "list_all isdigit ds \<Longrightarrow> 0 \<notin> set ds"
  by (induction ds) auto

text \<open>\<open>%ld\<close>\<close>

definition long_format :: "piece list" where
  "long_format = [Dir \<lparr>dir_flags = [], dir_width = Absent, dir_precision = None, dir_modifier = [0x6C], dir_conv = 0x64\<rparr>]"

lemma long_format_ok: "list_all piece_ok long_format" "spell_all long_format = [0x25, 0x6C, 0x64]"
  by (simp_all add: long_format_def directive_ok_def field_ok_def modifier_flags_def conversions_def spell_all_def
      spell_directive_def spell_precision_def)

lemma no_flags: "\<not> flag_set 0 f" by (simp add: flag_set_def)

lemma magnitude_abs: "int (magnitude 0 v) = \<bar>sint v\<bar>"
  using sint_uint_if [of v] unsigned_less [of v, where 'a = int]
  by (auto simp: magnitude_def no_flags split: if_splits)

lemma magnitude_bound:
  assumes "sint v \<noteq> - (2 ^ 63)"
  shows "magnitude 0 v < 2 ^ 63" "magnitude 0 v < 10 ^ 19"
proof -
  have "- (2 ^ 63) \<le> sint v" "sint v < 2 ^ 63" using sint_ge [of v] sint_lt [of v] by simp_all
  with assms have "int (magnitude 0 v) < int (2 ^ 63)" by (simp add: magnitude_abs)
  then show *: "magnitude 0 v < 2 ^ 63" by (simp only: of_nat_less_iff)
  show "magnitude 0 v < 10 ^ 19" by (rule less_le_trans [OF *]) simp
qed

lemma long_text:
  assumes "sint v \<noteq> - (2 ^ 63)"
  shows "format_text strs long_format [VLong v] =
    Some ((if sint v < 0 then [0x2D] else []) @ positional lower_digits 10 (magnitude 0 v))"
  using assms last_digits_small [of "magnitude 0 v" 10, OF magnitude_bound(2) [OF assms]]
  by (simp add: long_format_def directive_text_def field_value_def precision_value_def modifier_flags_def conv_text_def
      va_signed_def number_text_of_def flag_bits_def int_text_def sign_chars_def no_flags Let_def)

text \<open>
  C21: a printed long reads back. snprintf of %ld into a buffer of at least 21 bytes followed by
  atol or strtol in base 10 gives the number again, for every long but the most negative.
\<close>

theorem long_round_trip:
  assumes "cstr m f [0x25, 0x6C, 0x64]" "21 \<le> sz" "s \<noteq> NULL" "s + sz \<le> length m" "apart s sz f 4" "sint v \<noteq> - (2 ^ 63)"
  shows "\<exists>m' n. libmin_snprintf s sz f [VLong v] m = Some (m', n) \<and> libmin_atol m' s = Some (sint v) \<and>
    libmin_strtol m' s 10 = Some (sint v, s + n)"
proof -
  let ?ds = "positional lower_digits 10 (magnitude 0 v)" and ?sg = "if sint v < 0 then [0x2D] else []"
  have ds: "horner 10 (map digit_of ?ds) = magnitude 0 v" "list_all isdigit ?ds" "?ds \<noteq> []" using decimal_digits by auto
  have len: "length ?ds \<le> 19" using positional_length [of "magnitude 0 v" 10 19] magnitude_bound(2) [OF assms(6)] by simp
  have nz: "0 \<notin> set (?sg @ ?ds)" using nonzero_digits [OF ds(2)] by auto
  have fit: "take (sz - 1) (?sg @ ?ds) = ?sg @ ?ds" "min (length (?sg @ ?ds)) (sz - 1) = length (?sg @ ?ds)"
    using len assms(2) by auto
  have "cstr m f (spell_all long_format)" "apart s sz f (Suc (length (spell_all long_format)))" "strings_in (\<lambda>_. None) s sz m" "0 < sz"
    using assms(1,2,5) by (simp_all add: long_format_ok(2) strings_in_def eval_nat_numeral)
  from snprintf_buffer [OF long_format_ok(1) this(1) long_text [OF assms(6)] nz this(4) assms(3,4) this(2,3), unfolded fit]
  obtain m' where m': "libmin_snprintf s sz f [VLong v] m = Some (m', length (?sg @ ?ds))" "cstr m' s (?sg @ ?ds)" by blast
  have st: "sign_text (sint v < 0) ?sg" by (simp add: sign_text_def)
  have a: "decimal_text (sint v < 0) ?ds (?sg @ ?ds)"
    unfolding decimal_text_def using ds(2,3) st
    by (intro exI [of _ "[]"] exI [of _ ?sg]) (simp add: stops_def)
  have dv: "map digit_val ?ds = map digit_of ?ds" "list_all (\<lambda>c. digit_val c < 10) ?ds"
    using ds(2) by (auto simp: list_all_iff isdigit_iff digit_val_def letter_val_def digit_of_def)
  have n: "number_text 10 (sint v < 0) ?ds (length (?sg @ ?ds)) (?sg @ ?ds)"
    unfolding number_text_def using ds(3) st dv(2)
    by (intro exI [of _ "[]"] exI [of _ ?sg]) (simp add: stops_def)
  have mag: "signed_value (sint v < 0) (magnitude 0 v) = sint v" "magnitude 0 v < 2 ^ 63"
    using magnitude_bound(1) [OF assms(6)] by (simp_all add: signed_value_def magnitude_abs)
  have "libmin_atol m' s = Some (sint v)"
    using ato_reads [OF m'(2) a] mag ds(1) by simp
  moreover have "libmin_strtol m' s (int 10) = Some (sint v, s + length (?sg @ ?ds))"
    using strtol_value [OF m'(2) n] mag unfolding dv(1) ds(1) by simp
  ultimately show ?thesis using m'(1) by (intro exI conjI) simp_all
qed

section \<open>Corners\<close>

text \<open>
  Twenty digits are one too many for the conversion array: the leading digit of a large unsigned
  number is dropped.
\<close>

lemma convert_max: "convert_digits lower_digits 10 (- 1) 0 =
    [0x35, 0x31, 0x36, 0x31, 0x35, 0x35, 0x39, 0x30, 0x37, 0x33, 0x37, 0x30, 0x34, 0x34, 0x37, 0x36, 0x34, 0x34, 0x38, 0x31]"
  by (simp add: convert_digits.simps lower_digits_def Let_def)

lemma leading_digit_lost:
  assumes "fits b l s"
  shows "fmtint b l (- 1) 10 0 (- 1) DP_F_UNSIGNED s = Some (emit b l (rev (take 19 (convert_digits lower_digits 10 (- 1) 0))) s)"
proof -
  have "outch_convert b l (convert_digits lower_digits 10 (- 1) 0) 19 s =
    Some (emit b l (rev (take 19 (convert_digits lower_digits 10 (- 1) 0))) s)"
    using outch_convert_emit [OF assms, of 19] by (simp add: convert_max)
  moreover have "length (convert_digits lower_digits 10 (- 1) 0) = 20" by (simp add: convert_max)
  ultimately show ?thesis
    by (simp add: fmtint_def fmtint_sign_def flag_set_def DP_F_UNSIGNED_def DP_F_UP_def DP_F_ZERO_def DP_F_MINUS_def
        Let_def int_in_def)
qed

text \<open>A width above the precision raises the precision, and a null pointer prints nothing.\<close>

lemma string_corners:
  "string_text_of 7 0 5 2 [0x68, 0x65, 0x6C, 0x6C, 0x6F] = Some [0x68, 0x65, 0x6C, 0x6C, 0x6F]"
  "string_text_of NULL 0 0 (- 1) (butlast null_text) = Some []"
  by (simp_all add: string_text_of_def padded_def int_in_def flag_set_def null_text_def NULL_def Let_def)

text \<open>The flag - does not switch off the flag 0: zeros fill up on the left.\<close>

lemma minus_zero: "int_text lower_digits 10 (DP_F_MINUS OR DP_F_ZERO) 5 (- 1) False 7 = [0x30, 0x30, 0x30, 0x30, 0x37]"
  by (simp add: int_text_def sign_chars_def flag_set_def DP_F_MINUS_def DP_F_ZERO_def DP_F_UNSIGNED_def DP_F_PLUS_def
      DP_F_SPACE_def last_digits_def positional.simps lower_digits_def Let_def replicate_numeral)

text \<open>With size 0 snprintf clears the byte before the buffer and returns the length of the old content.\<close>

lemma snprintf_size_0:
  assumes "list_all piece_ok ps" "cstr m f (spell_all ps)" "format_text strs ps args = Some t"
    and "s \<le> length m" "0 < s" "strings_in strs s 0 m" "apart s 0 f (Suc (length (spell_all ps)))"
  shows "libmin_snprintf s 0 f args m =
    do { len \<leftarrow> libmin_strlen (m[s - 1 := 0]) s; Some (m[s - 1 := 0], len) }"
proof -
  have "emit s 0 t (m, n) = (m, n + length t)" for n
    by (induction t arbitrary: n) (simp_all add: emit_Cons put_def)
  then show ?thesis
    using dopr_memory [OF assms(1-3), of s 0] assms(4-7)
    by (simp add: libmin_snprintf_def dopr_terminate_def)
qed

section \<open>Examples\<close>

text \<open>The format \<open>a%-4d|%s\<close> at address 1, the string \<open>hi\<close> at 12, a buffer of 8 bytes at 15.\<close>

definition sample_format :: "piece list" where
  "sample_format = [Lit 0x61,
     Dir \<lparr>dir_flags = [0x2D], dir_width = Number [0x34], dir_precision = None, dir_modifier = [], dir_conv = 0x64\<rparr>, Lit 0x7C,
     Dir \<lparr>dir_flags = [], dir_width = Absent, dir_precision = None, dir_modifier = [], dir_conv = 0x73\<rparr>]"

definition sample_memory :: mem where
  "sample_memory = [0, 0x61, 0x25, 0x2D, 0x34, 0x64, 0x7C, 0x25, 0x73, 0, 0, 0, 0x68, 0x69, 0] @ replicate 8 1"

definition sample_strings :: "nat \<Rightarrow> u8 list option" where
  "sample_strings p = (if p = 12 then Some [0x68, 0x69] else None)"

lemma sample_ok:
  "list_all piece_ok sample_format" "spell_all sample_format = [0x61, 0x25, 0x2D, 0x34, 0x64, 0x7C, 0x25, 0x73]"
  "cstr sample_memory 1 (spell_all sample_format)" "15 + 8 \<le> length sample_memory"
  "strings_in sample_strings 15 8 sample_memory" "apart 15 8 1 (Suc (length (spell_all sample_format)))"
proof -
  show s: "spell_all sample_format = [0x61, 0x25, 0x2D, 0x34, 0x64, 0x7C, 0x25, 0x73]"
    by (simp add: sample_format_def spell_all_def spell_directive_def spell_precision_def)
  show "list_all piece_ok sample_format"
    by (simp add: sample_format_def directive_ok_def field_ok_def modifier_flags_def conversions_def flag_char_def isdigit_iff)
  show "cstr sample_memory 1 (spell_all sample_format)"
    by (simp add: s sample_memory_def ld_def)
  show "apart 15 8 1 (Suc (length (spell_all sample_format)))" by (simp add: s apart_def)
  show "strings_in sample_strings 15 8 sample_memory"
    by (auto simp: strings_in_def sample_strings_def shown_def string_apart_def apart_def sample_memory_def NULL_def ld_def
        split: if_splits)
qed (simp add: sample_memory_def)

lemma sample_text:
  "format_text sample_strings sample_format [VInt 42, VPtr 12] = Some [0x61, 0x34, 0x32, 0x20, 0x20, 0x7C, 0x68, 0x69]"
  by (simp add: sample_format_def sample_strings_def directive_text_def field_value_def precision_value_def modifier_flags_def
      conv_text_def va_signed_def number_text_of_def flag_bits_def flag_bit_def int_text_def sign_chars_def magnitude_def
      string_text_of_def padded_def flag_set_def DP_F_MINUS_def DP_F_UP_def DP_F_UNSIGNED_def DP_F_ZERO_def DP_F_PLUS_def
      DP_F_SPACE_def last_digits_def positional.simps lower_digits_def digit_of_def horner_def int_in_def NULL_def Let_def replicate_numeral
      sint_uint_if)

lemma format_output_witness:
  "\<exists>m'. dopr 15 8 1 [VInt 42, VPtr 12] sample_memory = Some (m', 8) \<and>
    st_bytes sample_memory 15 [0x61, 0x34, 0x32, 0x20, 0x20, 0x7C, 0x68, 0] = Some m'"
  using format_output [OF sample_ok(1,3) sample_text _ sample_ok(4,6,5)] by (simp add: eval_nat_numeral)

lemma snprintf_bounded_witness:
  "\<exists>m'. libmin_snprintf 15 8 1 [VInt 42, VPtr 12] sample_memory = Some (m', 7)"
  using snprintf_bounded [OF sample_ok(1,3) sample_text, of 8 15] sample_ok by (auto simp: NULL_def)

lemma printf_prints_witness:
  "libmin_printf (replicate 1024 1) 1 [VInt 42, VPtr 12] sample_memory =
    Some (sample_memory, [0x61, 0x34, 0x32, 0x20, 0x20, 0x7C, 0x68, 0x69], 8)"
  using printf_prints [OF sample_ok(1,3) sample_text, of "replicate 1024 1"] sample_ok(5)
  by (simp add: strings_in_def)

lemma long_round_trip_witness:
  "\<exists>m' n. libmin_snprintf 5 21 1 [VLong (- 5)] ([0, 0x25, 0x6C, 0x64, 0] @ replicate 21 1) = Some (m', n) \<and>
     libmin_atol m' 5 = Some (- 5) \<and> libmin_strtol m' 5 10 = Some (- 5, 5 + n)"
  using long_round_trip [of "[0, 0x25, 0x6C, 0x64, 0] @ replicate 21 1" 1 21 5 "- 5"]
  by (simp add: NULL_def ld_def apart_def sint_uint_if)

end
