(* ===== verification/Exo_Intrinsics.thy ===== *)
theory Exo_Intrinsics
  imports Mojov_Packets
begin

text \<open>
  The intrinsics of the EXO library (src/exo/mojov-intrinsics.h) on integers: inline assembly
  that loads encrypted operands into secret registers, computes there and stores the result
  encrypted. An intrinsic is modelled as its instruction sequence; its value on plaintext
  operands is what the sequence computes on registers, and the theorems relate running the
  sequence on the hart, from packets in memory to a packet in memory, to that value.
\<close>

section \<open>Instruction sequences\<close>

datatype operand = Encrypted | Plain

record intrinsic =
  asm_loads :: "(nat \<times> operand) list"
  asm_body :: "insn list"
  asm_out :: nat

fun load_insn :: "nat \<Rightarrow> nat \<times> operand \<Rightarrow> insn" where
  "load_insn ptr (reg, Encrypted) = I_lde reg ptr 0"
| "load_insn ptr (reg, Plain) = I_load LD reg ptr 0"

definition asm :: "intrinsic \<Rightarrow> nat list \<Rightarrow> nat \<Rightarrow> insn list" where
  "asm i ptrs dst = map2 load_insn ptrs (asm_loads i) @ asm_body i @ [I_sde dst (asm_out i) 0]"

definition DEF_BIN_U64 :: "alu \<Rightarrow> intrinsic" where
  "DEF_BIN_U64 f = \<lparr>asm_loads = [(28, Encrypted), (29, Encrypted)], asm_body = [I_alu f 30 28 29], asm_out = 30\<rparr>"

definition DEF_BINI_U64 :: "alu \<Rightarrow> intrinsic" where
  "DEF_BINI_U64 f = \<lparr>asm_loads = [(28, Encrypted), (29, Plain)], asm_body = [I_alu f 30 28 29], asm_out = 30\<rparr>"

definition snez :: "nat \<Rightarrow> nat \<Rightarrow> insn" where "snez rd rs = I_alu SLTU rd 0 rs"
definition seqz :: "nat \<Rightarrow> nat \<Rightarrow> insn" where "seqz rd rs = I_sltiu rd rs 1"

definition asm_enc :: intrinsic where
  "asm_enc = \<lparr>asm_loads = [(28, Plain)], asm_body = [], asm_out = 28\<rparr>"

definition asm_neg :: intrinsic where
  "asm_neg = \<lparr>asm_loads = [(28, Encrypted)], asm_body = [I_xori 30 28 (- 1), I_addi 30 30 1], asm_out = 30\<rparr>"

definition asm_negi :: intrinsic where
  "asm_negi = \<lparr>asm_loads = [(28, Plain)], asm_body = [I_xori 30 28 (- 1), I_addi 30 30 1], asm_out = 30\<rparr>"

definition asm_land :: intrinsic where
  "asm_land = \<lparr>asm_loads = [(28, Encrypted), (29, Encrypted)],
     asm_body = [snez 30 28, snez 31 29, I_alu ANDD 30 30 31], asm_out = 30\<rparr>"

definition asm_landi :: intrinsic where
  "asm_landi = \<lparr>asm_loads = [(28, Encrypted), (29, Plain)],
     asm_body = [snez 30 28, snez 31 29, I_alu ANDD 30 30 31], asm_out = 30\<rparr>"

definition asm_lor :: intrinsic where
  "asm_lor = \<lparr>asm_loads = [(28, Encrypted), (29, Encrypted)],
     asm_body = [snez 30 28, snez 31 29, I_alu ORR 30 30 31], asm_out = 30\<rparr>"

definition asm_lori :: intrinsic where
  "asm_lori = \<lparr>asm_loads = [(28, Encrypted), (29, Plain)],
     asm_body = [snez 30 28, snez 31 29, I_alu ORR 30 30 31], asm_out = 30\<rparr>"

definition asm_lnot :: intrinsic where
  "asm_lnot = \<lparr>asm_loads = [(28, Encrypted)], asm_body = [I_sltiu 30 28 1], asm_out = 30\<rparr>"

definition asm_comp :: intrinsic where
  "asm_comp = \<lparr>asm_loads = [(28, Encrypted)], asm_body = [I_xori 30 28 (- 1)], asm_out = 30\<rparr>"

definition asm_compi :: intrinsic where
  "asm_compi = \<lparr>asm_loads = [(28, Plain)], asm_body = [I_xori 30 28 (- 1)], asm_out = 30\<rparr>"

definition asm_seq :: intrinsic where
  "asm_seq = \<lparr>asm_loads = [(28, Encrypted), (29, Encrypted)],
     asm_body = [I_alu XORR 30 28 29, seqz 31 30], asm_out = 31\<rparr>"

definition asm_seqi :: intrinsic where
  "asm_seqi = \<lparr>asm_loads = [(28, Encrypted), (29, Plain)],
     asm_body = [I_alu XORR 30 28 29, seqz 31 30], asm_out = 31\<rparr>"

definition asm_sne :: intrinsic where
  "asm_sne = \<lparr>asm_loads = [(28, Encrypted), (29, Encrypted)],
     asm_body = [I_alu XORR 30 28 29, snez 31 30], asm_out = 31\<rparr>"

definition asm_snei :: intrinsic where
  "asm_snei = \<lparr>asm_loads = [(28, Encrypted), (29, Plain)],
     asm_body = [I_alu XORR 30 28 29, snez 31 30], asm_out = 31\<rparr>"

definition asm_cmov :: intrinsic where
  "asm_cmov = \<lparr>asm_loads = [(30, Encrypted), (28, Encrypted), (29, Encrypted)],
     asm_body = [I_alu CZERO_EQZ 31 28 30, I_alu CZERO_NEZ 30 29 30, I_alu ORR 31 30 31], asm_out = 31\<rparr>"

section \<open>Values\<close>

fun reg_step :: "insn \<Rightarrow> (nat \<Rightarrow> u64) \<Rightarrow> nat \<Rightarrow> u64" where
  "reg_step (I_alu f rd rs1 rs2) r = r(rd := alu_value f (r rs1) (r rs2))"
| "reg_step (I_addi rd rs1 imm) r = r(rd := r rs1 + imm)"
| "reg_step (I_xori rd rs1 imm) r = r(rd := imm XOR r rs1)"
| "reg_step (I_sltiu rd rs1 imm) r = r(rd := of_bool (r rs1 < imm))"
| "reg_step _ r = r"

definition load_regs :: "intrinsic \<Rightarrow> u64 list \<Rightarrow> nat \<Rightarrow> u64" where
  "load_regs i args = fold (\<lambda>(r, v) f. f(r := v)) (zip (map fst (asm_loads i)) args) (\<lambda>_. 0)"

definition call :: "intrinsic \<Rightarrow> u64 list \<Rightarrow> u64" where
  "call i args = fold reg_step (asm_body i) (load_regs i args) (asm_out i)"

text \<open>A body computes from loaded registers and x0 into secret registers.\<close>

fun body_ok :: "nat list \<Rightarrow> insn list \<Rightarrow> nat \<Rightarrow> bool" where
  "body_ok A [] r \<longleftrightarrow> r \<in> set A"
| "body_ok A (I_alu f rd rs1 rs2 # is) r \<longleftrightarrow> rs1 \<in> set (0 # A) \<and> rs2 \<in> set (0 # A) \<and>
     24 \<le> rd \<and> rd \<le> 31 \<and> body_ok (rd # A) is r"
| "body_ok A (I_addi rd rs1 imm # is) r \<longleftrightarrow> rs1 \<in> set (0 # A) \<and> 24 \<le> rd \<and> rd \<le> 31 \<and> body_ok (rd # A) is r"
| "body_ok A (I_xori rd rs1 imm # is) r \<longleftrightarrow> rs1 \<in> set (0 # A) \<and> 24 \<le> rd \<and> rd \<le> 31 \<and> body_ok (rd # A) is r"
| "body_ok A (I_sltiu rd rs1 imm # is) r \<longleftrightarrow> rs1 \<in> set (0 # A) \<and> 24 \<le> rd \<and> rd \<le> 31 \<and> body_ok (rd # A) is r"
| "body_ok A _ r \<longleftrightarrow> False"

definition intrinsic_ok :: "intrinsic \<Rightarrow> bool" where
  "intrinsic_ok i \<longleftrightarrow> distinct (map fst (asm_loads i)) \<and> (\<forall>r \<in> set (map fst (asm_loads i)). 24 \<le> r \<and> r \<le> 31) \<and>
     body_ok (map fst (asm_loads i)) (asm_body i) (asm_out i)"

section \<open>Running a sequence on the hart\<close>

text \<open>\<open>enc\<close> is the encoding of an instruction, which only enters the dataflow hash.\<close>

fun run_code ::
  "config \<Rightarrow> (csr \<Rightarrow> u64 \<Rightarrow> hart \<Rightarrow> hart) \<Rightarrow> (insn \<Rightarrow> u64) \<Rightarrow> u64 \<Rightarrow> insn list \<Rightarrow> unit exec" where
  "run_code c wr enc pc [] = return ()"
| "run_code c wr enc pc (i # is) =
     and_then (execute_insn c wr pc (enc i) 4 i) (\<lambda>_. run_code c wr enc (pc + 4) is)"

lemma run_code_append:
  "run_code c wr enc pc (xs @ ys) =
   and_then (run_code c wr enc pc xs) (\<lambda>_. run_code c wr enc (pc + 4 * of_nat (length xs)) ys)"
  by (induction xs arbitrary: pc) (simp_all add: and_then_assoc add.assoc algebra_simps)

text \<open>A packet in memory that the hart's contract opens to a value.\<close>

definition sealed_at :: "hart \<Rightarrow> u64 \<Rightarrow> u64 \<Rightarrow> bool" where
  "sealed_at h a v \<longleftrightarrow>
     (if FORMAT_SEL h = FORMAT_SEL_FAST then
        \<exists>ct r. peek h a 16 = le_bytes 16 ct \<and> simon_128_128_encrypt (cipher h)
          (fast_ct \<lparr>fval = v, fsalt = r, fauth_sig = ucast (contract_sig (mojov_dc h))\<rparr>) = Some ct
      else
        \<exists>ct r m. peek h a 16 = le_bytes 16 (fst ct) \<and> peek h (a + 16) 16 = le_bytes 16 (snd ct) \<and>
          seals (cipher h) \<lparr>sval = v, ssalt = r, sauth_sig = contract_sig (mojov_dc h), smetadata = m\<rparr> ct)"

definition packet_bytes :: "hart \<Rightarrow> nat" where
  "packet_bytes h = (if FORMAT_SEL h = FORMAT_SEL_FAST then 16 else 32)"

lemma sealed_at_cong: "core g = core h \<Longrightarrow> memory g = memory h \<Longrightarrow> sealed_at g a v = sealed_at h a v"
  using core_same [of g h] by (simp add: sealed_at_def peek_def)

definition at_work :: "config \<Rightarrow> hart \<Rightarrow> bool" where
  "at_work c h \<longleftrightarrow> ext_zkmojov c \<and> secreg_mode h \<and> simon_ready (cipher h) \<and> XPR h 0 = 0 \<and> \<not> datagrant_xpr h 0 \<and>
     FORMAT_SEL h \<in> {FORMAT_SEL_FAST, FORMAT_SEL_STRONG, FORMAT_SEL_PROOFCARRYING}"

definition same_public :: "hart \<Rightarrow> hart \<Rightarrow> bool" where
  "same_public h g \<longleftrightarrow> core g = core h \<and>
     (\<forall>r. \<not> IS_SECREG r \<longrightarrow> XPR g r = XPR h r \<and> datagrant_xpr g r = datagrant_xpr h r)"

lemma same_public_trans: "same_public h g \<Longrightarrow> same_public g k \<Longrightarrow> same_public h k"
  by (simp add: same_public_def)

lemma not_secreg_0: "\<not> IS_SECREG 0"
  by (simp add: IS_SECREG_iff)

lemma at_work_same: "at_work c h \<Longrightarrow> same_public h g \<Longrightarrow> at_work c g"
  using core_same [of g h] not_secreg_0 by (simp add: at_work_def same_public_def)

text \<open>Register results of the single instructions.\<close>

definition writes :: "hart \<Rightarrow> nat \<Rightarrow> u64 \<Rightarrow> hart \<Rightarrow> bool" where
  "writes h rd v g \<longleftrightarrow> core g = core h \<and> memory g = memory h \<and> XPR g = (XPR h)(rd := v) \<and>
     datagrant_xpr g = (datagrant_xpr h)(rd := False)"

lemma writes_public: "writes h rd v g \<Longrightarrow> IS_SECREG rd \<Longrightarrow> same_public h g"
  by (auto simp: writes_def same_public_def)

lemma alu_writes:
  assumes "\<not> datagrant_xpr h a" "\<not> datagrant_xpr h b" "IS_SECREG rd"
  shows "\<exists>g. execute_insn c wr pc bits 4 (I_alu f rd a b) h = (g, Inr ()) \<and>
    writes h rd (alu_value f (XPR h a) (XPR h b)) g"
  using assms by (simp add: execute_begin op_rr_def eval_exec writes_def)

lemma op_ri_writes:
  assumes "\<not> datagrant_xpr h a" "IS_SECREG rd"
  shows "\<exists>g. op_ri c f rd a (begin_insn pc bits 4 h) = (g, Inr ()) \<and> writes h rd (f (XPR h a)) g"
  using assms by (simp add: op_ri_def eval_exec writes_def)

lemma core_grant: "core (h\<lparr>datagrant_xpr := d, dfhash_xpr := e\<rparr>) = core h"
  by (simp add: core_def)

lemma lde_writes:
  assumes w: "at_work c h" and r: "IS_SECREG rd" "\<not> IS_SECREG rs" "\<not> datagrant_xpr h rs"
    and l: "load_ok c (XPR h rs) 16" "load_ok c (XPR h rs + 16) 16" and s: "sealed_at h (XPR h rs) v"
  shows "\<exists>g. execute_insn c wr pc bits 4 (I_lde rd rs 0) h = (g, Inr ()) \<and> writes h rd v g"
proof -
  have m: "may_load c h rd rs 0" using w r l by (simp add: may_load_def at_work_def)
  consider (fast) "FORMAT_SEL h = FORMAT_SEL_FAST" | (strong) "FORMAT_SEL h = FORMAT_SEL_STRONG"
    | (carrying) "FORMAT_SEL h = FORMAT_SEL_PROOFCARRYING" using w by (auto simp: at_work_def)
  then show ?thesis
  proof cases
    case fast
    with s obtain ct r' where "peek h (XPR h rs + 0) 16 = le_bytes 16 ct" "simon_128_128_encrypt (cipher h)
      (fast_ct \<lparr>fval = v, fsalt = r', fauth_sig = ucast (contract_sig (mojov_dc h))\<rparr>) = Some ct"
      by (auto simp: sealed_at_def)
    from lde_fast [OF m fast this, of wr pc bits 4] show ?thesis by (simp add: writes_def)
  next
    case strong
    with s obtain ct r' m' where "peek h (XPR h rs + 0) 16 = le_bytes 16 (fst ct)"
      "peek h (XPR h rs + 0 + 16) 16 = le_bytes 16 (snd ct)"
      "seals (cipher h) \<lparr>sval = v, ssalt = r', sauth_sig = contract_sig (mojov_dc h), smetadata = m'\<rparr> ct"
      by (auto simp: sealed_at_def format_values)
    from lde_strong [OF m strong this, of wr pc bits 4] show ?thesis by (simp add: writes_def)
  next
    case carrying
    with s obtain ct r' m' where "peek h (XPR h rs + 0) 16 = le_bytes 16 (fst ct)"
      "peek h (XPR h rs + 0 + 16) 16 = le_bytes 16 (snd ct)"
      "seals (cipher h) \<lparr>sval = v, ssalt = r', sauth_sig = contract_sig (mojov_dc h), smetadata = m'\<rparr> ct"
      by (auto simp: sealed_at_def format_values)
    from lde_proof [OF m carrying this, of wr pc bits 4] show ?thesis
      by (simp add: writes_def Let_def core_grant)
  qed
qed

lemma ld_writes:
  assumes "IS_SECREG rd" "\<not> IS_SECREG rs" "\<not> datagrant_xpr h rs" "load_ok c (XPR h rs) 8"
    and "peek h (XPR h rs) 8 = le_bytes 8 v"
  shows "\<exists>g. execute_insn c wr pc bits 4 (I_load LD rd rs 0) h = (g, Inr ()) \<and> writes h rd v g"
proof -
  have "peek (after_read c rs (begin_insn pc bits 4 h)) a n = peek h a n" for a n by (simp add: peek_def)
  then show ?thesis using assms
    by (simp add: execute_begin insn_load_def eval_exec writes_def byte_simps)
qed

text \<open>The final store.\<close>

lemma sde_seals:
  assumes w: "at_work c h" and r: "IS_SECREG rs" "\<not> IS_SECREG rb" "\<not> datagrant_xpr h rb" "\<not> datagrant_xpr h rs"
    and l: "store_ok c (XPR h rb) 16" "store_ok c (XPR h rb + 16) 16"
  shows "\<exists>g. execute_insn c wr pc bits 4 (I_sde rb rs 0) h = (g, Inr ()) \<and> same_public h g \<and>
    sealed_at g (XPR h rb) (XPR h rs) \<and>
    (\<forall>x. packet_bytes h \<le> unat (x - XPR h rb) \<longrightarrow> memory g x = memory h x)"
proof -
  let ?a = "XPR h rb"
  have m: "may_store c h rb rs 0" using w r l by (simp add: may_store_def at_work_def)
  show ?thesis
  proof (cases "FORMAT_SEL h = FORMAT_SEL_FAST")
    case True
    from sde_fast [OF m True, of wr pc bits 4] obtain g ct r' where
      g: "execute_insn c wr pc bits 4 (I_sde rb rs 0) h = (g, Inr ())" "core g = core h"
      "memory g = poke (memory h) ?a (le_bytes 16 ct)" "XPR g = XPR h" "datagrant_xpr g = datagrant_xpr h"
      "simon_128_128_encrypt (cipher h)
        (fast_ct \<lparr>fval = XPR h rs, fsalt = r', fauth_sig = ucast (contract_sig (mojov_dc h))\<rparr>) = Some ct"
      by auto
    have "peek g ?a 16 = le_bytes 16 ct" using peek_poke [OF g(3)] by simp
    then have "sealed_at g ?a (XPR h rs)" using g(6) core_same [OF g(2)] True by (auto simp: sealed_at_def)
    with g True show ?thesis by (auto simp: same_public_def packet_bytes_def poke_at)
  next
    case False
    then obtain md where "FORMAT_SEL h = FORMAT_SEL_STRONG \<and> md = 0 \<or>
        FORMAT_SEL h = FORMAT_SEL_PROOFCARRYING \<and> md = dfhash_xpr h rs"
      using w by (auto simp: at_work_def)
    from sde_pair [OF m this, of wr pc bits 4] obtain g ct r' where
      g: "execute_insn c wr pc bits 4 (I_sde rb rs 0) h = (g, Inr ())" "core g = core h"
      "memory g = poke (poke (memory h) ?a (le_bytes 16 (fst ct))) (?a + 16) (le_bytes 16 (snd ct))"
      "XPR g = XPR h" "datagrant_xpr g = datagrant_xpr h"
      "seals (cipher h) \<lparr>sval = XPR h rs, ssalt = r', sauth_sig = contract_sig (mojov_dc h), smetadata = md\<rparr> ct"
      by auto
    have "peek g ?a 16 = le_bytes 16 (fst ct)" "peek g (?a + 16) 16 = le_bytes 16 (snd ct)"
      using peek_poke_pair [OF g(3)] by simp_all
    then have "sealed_at g ?a (XPR h rs)" using g(6) core_same [OF g(2)] False
      by (simp add: sealed_at_def del: split_paired_Ex) blast
    moreover have "memory g x = memory h x" if x: "32 \<le> unat (x - ?a)" for x
    proof -
      have "16 \<le> x - ?a" using x by (simp add: word_le_nat_alt)
      then have "unat (x - ?a - 16) = unat (x - ?a) - 16" by (simp add: unat_sub)
      then have "\<not> unat (x - (?a + 16)) < 16" using x by (simp add: diff_diff_eq)
      then show ?thesis using x by (simp add: g(3) poke_at)
    qed
    ultimately show ?thesis using g(1,2,4,5) False by (auto simp: same_public_def packet_bytes_def)
  qed
qed

section \<open>An intrinsic as a whole\<close>

definition operand_ready :: "config \<Rightarrow> hart \<Rightarrow> nat \<Rightarrow> operand \<Rightarrow> u64 \<Rightarrow> bool" where
  "operand_ready c h ptr k v \<longleftrightarrow> \<not> IS_SECREG ptr \<and> \<not> datagrant_xpr h ptr \<and>
     (case k of
        Encrypted \<Rightarrow> load_ok c (XPR h ptr) 16 \<and> load_ok c (XPR h ptr + 16) 16 \<and> sealed_at h (XPR h ptr) v
      | Plain \<Rightarrow> load_ok c (XPR h ptr) 8 \<and> peek h (XPR h ptr) 8 = le_bytes 8 v)"

lemma operand_ready_cong:
  "operand_ready c h ptr k v \<Longrightarrow> same_public h g \<Longrightarrow> memory g = memory h \<Longrightarrow> operand_ready c g ptr k v"
  using sealed_at_cong [of g h]
  by (cases k) (auto simp: operand_ready_def same_public_def peek_def)

definition store_ready :: "config \<Rightarrow> hart \<Rightarrow> nat \<Rightarrow> bool" where
  "store_ready c h dst \<longleftrightarrow> \<not> IS_SECREG dst \<and> \<not> datagrant_xpr h dst \<and>
     store_ok c (XPR h dst) 16 \<and> store_ok c (XPR h dst + 16) 16"

definition set_regs :: "nat list \<Rightarrow> u64 list \<Rightarrow> (nat \<Rightarrow> u64) \<Rightarrow> nat \<Rightarrow> u64" where
  "set_regs rs vs = fold (\<lambda>(r, v) f. f(r := v)) (zip rs vs)"

lemma set_regs_simps [simp]:
  "set_regs [] vs f = f" "set_regs (r # rs) (v # vs) f = set_regs rs vs (f(r := v))"
  by (simp_all add: set_regs_def)

lemma set_regs_other: "r \<notin> set rs \<Longrightarrow> set_regs rs vs f r = f r"
  by (induction rs vs arbitrary: f rule: list_induct2') (auto simp: set_regs_def)

lemma set_regs_same:
  "length rs = length vs \<Longrightarrow> r \<in> set rs \<Longrightarrow> set_regs rs vs f r = set_regs rs vs g r"
proof (induction rs vs arbitrary: f g rule: list_induct2)
  case (Cons r' rs v vs)
  then show ?case
    by (cases "r \<in> set rs") (simp, simp add: set_regs_other)
qed simp

lemma run_load:
  assumes "at_work c h" "operand_ready c h ptr k v" "IS_SECREG r"
  shows "\<exists>g. execute_insn c wr pc bits 4 (load_insn ptr (r, k)) h = (g, Inr ()) \<and> writes h r v g"
  using assms
  by (cases k) (auto simp: operand_ready_def intro!: lde_writes ld_writes)

lemma run_loads:
  assumes "length ptrs = length ls" "length args = length ls"
    and "at_work c h" "\<forall>r \<in> set (map fst ls). IS_SECREG r"
    and "\<forall>k < length ls. operand_ready c h (ptrs ! k) (snd (ls ! k)) (args ! k)"
  shows "\<exists>g. run_code c wr enc pc (map2 load_insn ptrs ls) h = (g, Inr ()) \<and> same_public h g \<and>
    memory g = memory h \<and> XPR g = set_regs (map fst ls) args (XPR h) \<and>
    (\<forall>r. datagrant_xpr g r = (datagrant_xpr h r \<and> r \<notin> set (map fst ls)))"
  using assms
proof (induction ls arbitrary: ptrs args h pc)
  case Nil
  then show ?case by (simp add: return_def same_public_def)
next
  case (Cons l ls)
  obtain r k where l: "l = (r, k)" by (cases l)
  obtain p ps where p: "ptrs = p # ps" using Cons.prems(1) by (cases ptrs) auto
  obtain v vs where v: "args = v # vs" using Cons.prems(2) by (cases args) auto
  have sec: "IS_SECREG r" using Cons.prems(4) l by simp
  have "operand_ready c h p k v" using Cons.prems(5)[rule_format, of 0] l p v by simp
  from run_load [OF Cons.prems(3) this sec, of wr pc "enc (load_insn p l)"] obtain g where
    g: "execute_insn c wr pc (enc (load_insn p l)) 4 (load_insn p l) h = (g, Inr ())" "writes h r v g"
    unfolding l by blast
  have pub: "same_public h g" and mem: "memory g = memory h"
    using writes_public [OF g(2) sec] g(2) by (simp_all add: writes_def)
  have "\<forall>k < length ls. operand_ready c g (ps ! k) (snd (ls ! k)) (vs ! k)"
  proof (intro allI impI)
    fix k assume "k < length ls"
    then show "operand_ready c g (ps ! k) (snd (ls ! k)) (vs ! k)"
      using Cons.prems(5)[rule_format, of "Suc k"] p v pub mem by (auto intro: operand_ready_cong)
  qed
  then obtain g' where g': "run_code c wr enc (pc + 4) (map2 load_insn ps ls) g = (g', Inr ())"
    "same_public g g'" "memory g' = memory g" "XPR g' = set_regs (map fst ls) vs (XPR g)"
    "\<forall>r. datagrant_xpr g' r = (datagrant_xpr g r \<and> r \<notin> set (map fst ls))"
    using Cons.IH [of ps vs g "pc + 4"] Cons.prems(1,2,4) p v at_work_same [OF Cons.prems(3) pub] by auto
  have "run_code c wr enc pc (map2 load_insn ptrs (l # ls)) h = (g', Inr ())"
    using g(1) g'(1) by (simp add: p step_eval)
  then show ?case
    using g' g(2) mem same_public_trans [OF pub g'(2)] by (auto simp: l v writes_def)
qed

lemma secreg_range: "24 \<le> r \<Longrightarrow> r \<le> 31 \<Longrightarrow> IS_SECREG r"
  by (simp add: IS_SECREG_iff)

lemma run_step:
  assumes "body_ok A (i # is) r" and "\<forall>x \<in> insert 0 (set A). XPR h x = f x \<and> \<not> datagrant_xpr h x"
  shows "\<exists>g rd. execute_insn c wr pc bits 4 i h = (g, Inr ()) \<and> writes h rd (reg_step i f rd) g \<and>
    24 \<le> rd \<and> rd \<le> 31 \<and> body_ok (rd # A) is r \<and> reg_step i f = f(rd := reg_step i f rd)"
proof (cases i)
  case (I_alu u rd a b)
  with assms show ?thesis
    using alu_writes [of h a b rd c wr pc bits u] by (auto simp: secreg_range intro!: exI [of _ rd])
next
  case (I_addi rd a imm)
  with assms show ?thesis
    using op_ri_writes [of h a rd c "\<lambda>a. a + imm" pc bits]
    by (auto simp: secreg_range execute_begin intro!: exI [of _ rd])
next
  case (I_xori rd a imm)
  with assms show ?thesis
    using op_ri_writes [of h a rd c "\<lambda>a. imm XOR a" pc bits]
    by (auto simp: secreg_range execute_begin intro!: exI [of _ rd])
next
  case (I_sltiu rd a imm)
  with assms show ?thesis
    using op_ri_writes [of h a rd c "\<lambda>a. of_bool (a < imm)" pc bits]
    by (auto simp: secreg_range execute_begin intro!: exI [of _ rd])
qed (use assms(1) in auto)

lemma run_body:
  assumes "body_ok A is r" and "\<forall>x \<in> insert 0 (set A). XPR h x = f x \<and> \<not> datagrant_xpr h x"
  shows "\<exists>g. run_code c wr enc pc is h = (g, Inr ()) \<and> same_public h g \<and> memory g = memory h \<and>
    XPR g r = fold reg_step is f r \<and> \<not> datagrant_xpr g r"
  using assms
proof (induction "is" arbitrary: A h f pc)
  case Nil
  then show ?case by (simp add: return_def same_public_def)
next
  case (Cons i "is")
  from run_step [OF Cons.prems, of c wr pc "enc i"] obtain g rd where
    g: "execute_insn c wr pc (enc i) 4 i h = (g, Inr ())" "writes h rd (reg_step i f rd) g"
    "24 \<le> rd" "rd \<le> 31" "body_ok (rd # A) is r" "reg_step i f = f(rd := reg_step i f rd)" by blast
  let ?f = "reg_step i f"
  have pub: "same_public h g" using writes_public [OF g(2)] secreg_range [OF g(3,4)] by blast
  have "\<forall>x \<in> insert 0 (set (rd # A)). XPR g x = ?f x \<and> \<not> datagrant_xpr g x"
    using Cons.prems(2) g(2,3) by (subst g(6)) (auto simp: writes_def)
  from Cons.IH [OF g(5) this, of "pc + 4"] obtain g' where
    g': "run_code c wr enc (pc + 4) is g = (g', Inr ())" "same_public g g'" "memory g' = memory g"
    "XPR g' r = fold reg_step is ?f r" "\<not> datagrant_xpr g' r" by blast
  then show ?case using g(1,2) same_public_trans [OF pub g'(2)] by (simp add: step_eval writes_def)
qed

lemma body_ok_out: "body_ok A is r \<Longrightarrow> \<forall>x \<in> set A. IS_SECREG x \<Longrightarrow> IS_SECREG r"
proof (induction "is" arbitrary: A)
  case (Cons i "is")
  then show ?case by (cases i) (auto simp: secreg_range)
qed simp

lemma run_intrinsic:
  assumes i: "intrinsic_ok i" and len: "length ptrs = length (asm_loads i)" "length args = length (asm_loads i)"
    and w: "at_work c h" and d: "store_ready c h dst"
    and ops: "\<forall>k < length args. operand_ready c h (ptrs ! k) (snd (asm_loads i ! k)) (args ! k)"
  shows "\<exists>g. run_code c wr enc pc (asm i ptrs dst) h = (g, Inr ()) \<and> same_public h g \<and>
    sealed_at g (XPR h dst) (call i args) \<and>
    (\<forall>x. packet_bytes h \<le> unat (x - XPR h dst) \<longrightarrow> memory g x = memory h x)"
proof -
  let ?rs = "map fst (asm_loads i)" and ?ls = "map2 load_insn ptrs (asm_loads i)"
  have rs: "\<forall>r \<in> set ?rs. 24 \<le> r \<and> r \<le> 31" using i by (simp add: intrinsic_ok_def)
  then have sec: "\<forall>r \<in> set ?rs. IS_SECREG r" by (auto simp: secreg_range)
  from run_loads [OF len(1) len(2) w sec, of wr enc pc] ops len(2) obtain g1 where
    g1: "run_code c wr enc pc ?ls h = (g1, Inr ())" "same_public h g1" "memory g1 = memory h"
    "XPR g1 = set_regs ?rs args (XPR h)"
    "\<forall>r. datagrant_xpr g1 r = (datagrant_xpr h r \<and> r \<notin> set ?rs)" by auto
  have zero: "0 \<notin> set ?rs" using rs by auto
  have "XPR g1 x = load_regs i args x \<and> \<not> datagrant_xpr g1 x" if "x \<in> insert 0 (set ?rs)" for x
  proof (cases "x \<in> set ?rs")
    case True
    then show ?thesis using set_regs_same [of ?rs args x "XPR h" "\<lambda>_. 0"] len(2) g1(4,5)
      by (simp add: load_regs_def set_regs_def)
  next
    case False
    with that have "x = 0" by simp
    with zero w g1(4,5) show ?thesis
      using set_regs_other [of 0 ?rs args "XPR h"] set_regs_other [of 0 ?rs args "\<lambda>_. 0"]
      by (simp add: load_regs_def set_regs_def at_work_def)
  qed
  then have "\<forall>x \<in> insert 0 (set ?rs). XPR g1 x = load_regs i args x \<and> \<not> datagrant_xpr g1 x" by blast
  moreover have b: "body_ok ?rs (asm_body i) (asm_out i)" using i by (simp add: intrinsic_ok_def)
  ultimately obtain g2 where g2: "run_code c wr enc (pc + 4 * of_nat (length ?ls)) (asm_body i) g1 = (g2, Inr ())"
    "same_public g1 g2" "memory g2 = memory g1" "XPR g2 (asm_out i) = call i args" "\<not> datagrant_xpr g2 (asm_out i)"
    using run_body [of ?rs "asm_body i" "asm_out i" g1 "load_regs i args" c wr enc] by (auto simp: call_def)
  have pub: "same_public h g2" by (rule same_public_trans [OF g1(2) g2(2)])
  have out: "IS_SECREG (asm_out i)" using body_ok_out [OF b sec] .
  have d2: "\<not> IS_SECREG dst" "\<not> datagrant_xpr g2 dst" "XPR g2 dst = XPR h dst"
    "store_ok c (XPR g2 dst) 16" "store_ok c (XPR g2 dst + 16) 16"
    using d pub by (auto simp: store_ready_def same_public_def)
  from sde_seals [OF at_work_same [OF w pub] out d2(1,2) g2(5) d2(4,5), of wr
      "pc + 4 * of_nat (length ?ls) + 4 * of_nat (length (asm_body i))" "enc (I_sde dst (asm_out i) 0)"]
  obtain g3 where g3: "execute_insn c wr (pc + 4 * of_nat (length ?ls) + 4 * of_nat (length (asm_body i)))
      (enc (I_sde dst (asm_out i) 0)) 4 (I_sde dst (asm_out i) 0) g2 = (g3, Inr ())" "same_public g2 g3"
    "sealed_at g3 (XPR h dst) (call i args)"
    "\<forall>x. packet_bytes g2 \<le> unat (x - XPR h dst) \<longrightarrow> memory g3 x = memory g2 x"
    using d2(3) g2(4) by auto
  have "run_code c wr enc pc (asm i ptrs dst) h = (g3, Inr ())"
    using g1(1) g2(1) g3(1) by (simp add: asm_def run_code_append step_eval return_def)
  moreover have "packet_bytes g2 = packet_bytes h"
    using pub core_same [of g2 h] by (simp add: same_public_def packet_bytes_def)
  ultimately show ?thesis
    using g3(2-4) g1(3) g2(3) same_public_trans [OF pub g3(2)] by auto
qed

section \<open>The intrinsics on plaintext values\<close>

text \<open>
  An intrinsic maps the values its encrypted operands are sealed to, and its plain operands, to
  the value its result is sealed to. Those without code of their own call others.
\<close>

definition i_enc :: "u64 \<Rightarrow> u64" where "i_enc a = call asm_enc [a]"
definition i_add :: "u64 \<Rightarrow> u64 \<Rightarrow> u64" where "i_add a b = call (DEF_BIN_U64 ADD) [a, b]"
definition i_addi :: "u64 \<Rightarrow> u64 \<Rightarrow> u64" where "i_addi a b = call (DEF_BINI_U64 ADD) [a, b]"
definition i_sub :: "u64 \<Rightarrow> u64 \<Rightarrow> u64" where "i_sub a b = call (DEF_BIN_U64 SUB) [a, b]"
definition i_subi :: "u64 \<Rightarrow> u64 \<Rightarrow> u64" where "i_subi a b = call (DEF_BINI_U64 SUB) [a, b]"
definition i_mul :: "u64 \<Rightarrow> u64 \<Rightarrow> u64" where "i_mul a b = call (DEF_BIN_U64 MUL) [a, b]"
definition i_muli :: "u64 \<Rightarrow> u64 \<Rightarrow> u64" where "i_muli a b = call (DEF_BINI_U64 MUL) [a, b]"
definition i_mulu :: "u64 \<Rightarrow> u64 \<Rightarrow> u64" where "i_mulu a b = call (DEF_BIN_U64 MUL) [a, b]"
definition i_mului :: "u64 \<Rightarrow> u64 \<Rightarrow> u64" where "i_mului a b = call (DEF_BINI_U64 MUL) [a, b]"
definition i_div :: "u64 \<Rightarrow> u64 \<Rightarrow> u64" where "i_div a b = call (DEF_BIN_U64 DIVS) [a, b]"
definition i_divi :: "u64 \<Rightarrow> u64 \<Rightarrow> u64" where "i_divi a b = call (DEF_BINI_U64 DIVS) [a, b]"
definition i_divu :: "u64 \<Rightarrow> u64 \<Rightarrow> u64" where "i_divu a b = call (DEF_BIN_U64 DIVU) [a, b]"
definition i_divui :: "u64 \<Rightarrow> u64 \<Rightarrow> u64" where "i_divui a b = call (DEF_BINI_U64 DIVU) [a, b]"
definition i_mod :: "u64 \<Rightarrow> u64 \<Rightarrow> u64" where "i_mod a b = call (DEF_BIN_U64 REMS) [a, b]"
definition i_modi :: "u64 \<Rightarrow> u64 \<Rightarrow> u64" where "i_modi a b = call (DEF_BINI_U64 REMS) [a, b]"
definition i_modu :: "u64 \<Rightarrow> u64 \<Rightarrow> u64" where "i_modu a b = call (DEF_BIN_U64 REMU) [a, b]"
definition i_modui :: "u64 \<Rightarrow> u64 \<Rightarrow> u64" where "i_modui a b = call (DEF_BINI_U64 REMU) [a, b]"
definition i_and :: "u64 \<Rightarrow> u64 \<Rightarrow> u64" where "i_and a b = call (DEF_BIN_U64 ANDD) [a, b]"
definition i_andi :: "u64 \<Rightarrow> u64 \<Rightarrow> u64" where "i_andi a b = call (DEF_BINI_U64 ANDD) [a, b]"
definition i_or :: "u64 \<Rightarrow> u64 \<Rightarrow> u64" where "i_or a b = call (DEF_BIN_U64 ORR) [a, b]"
definition i_ori :: "u64 \<Rightarrow> u64 \<Rightarrow> u64" where "i_ori a b = call (DEF_BINI_U64 ORR) [a, b]"
definition i_xor :: "u64 \<Rightarrow> u64 \<Rightarrow> u64" where "i_xor a b = call (DEF_BIN_U64 XORR) [a, b]"
definition i_xori :: "u64 \<Rightarrow> u64 \<Rightarrow> u64" where "i_xori a b = call (DEF_BINI_U64 XORR) [a, b]"
definition i_sll :: "u64 \<Rightarrow> u64 \<Rightarrow> u64" where "i_sll a b = call (DEF_BIN_U64 SLL) [a, b]"
definition i_slli :: "u64 \<Rightarrow> u64 \<Rightarrow> u64" where "i_slli a b = call (DEF_BINI_U64 SLL) [a, b]"
definition i_srl :: "u64 \<Rightarrow> u64 \<Rightarrow> u64" where "i_srl a b = call (DEF_BIN_U64 SRL) [a, b]"
definition i_srli :: "u64 \<Rightarrow> u64 \<Rightarrow> u64" where "i_srli a b = call (DEF_BINI_U64 SRL) [a, b]"
definition i_sra :: "u64 \<Rightarrow> u64 \<Rightarrow> u64" where "i_sra a b = call (DEF_BIN_U64 SRA) [a, b]"
definition i_srai :: "u64 \<Rightarrow> u64 \<Rightarrow> u64" where "i_srai a b = call (DEF_BINI_U64 SRA) [a, b]"
definition i_slt :: "u64 \<Rightarrow> u64 \<Rightarrow> u64" where "i_slt a b = call (DEF_BIN_U64 SLT) [a, b]"
definition i_slti :: "u64 \<Rightarrow> u64 \<Rightarrow> u64" where "i_slti a b = call (DEF_BINI_U64 SLT) [a, b]"
definition i_sltu :: "u64 \<Rightarrow> u64 \<Rightarrow> u64" where "i_sltu a b = call (DEF_BIN_U64 SLTU) [a, b]"
definition i_sltui :: "u64 \<Rightarrow> u64 \<Rightarrow> u64" where "i_sltui a b = call (DEF_BINI_U64 SLTU) [a, b]"
definition i_neg :: "u64 \<Rightarrow> u64" where "i_neg a = call asm_neg [a]"
definition i_negi :: "u64 \<Rightarrow> u64" where "i_negi a = call asm_negi [a]"
definition i_land :: "u64 \<Rightarrow> u64 \<Rightarrow> u64" where "i_land a b = call asm_land [a, b]"
definition i_landi :: "u64 \<Rightarrow> u64 \<Rightarrow> u64" where "i_landi a b = call asm_landi [a, b]"
definition i_lor :: "u64 \<Rightarrow> u64 \<Rightarrow> u64" where "i_lor a b = call asm_lor [a, b]"
definition i_lori :: "u64 \<Rightarrow> u64 \<Rightarrow> u64" where "i_lori a b = call asm_lori [a, b]"
definition i_lnot :: "u64 \<Rightarrow> u64" where "i_lnot a = call asm_lnot [a]"
definition i_comp :: "u64 \<Rightarrow> u64" where "i_comp a = call asm_comp [a]"
definition i_compi :: "u64 \<Rightarrow> u64" where "i_compi a = call asm_compi [a]"
definition i_seq :: "u64 \<Rightarrow> u64 \<Rightarrow> u64" where "i_seq a b = call asm_seq [a, b]"
definition i_seqi :: "u64 \<Rightarrow> u64 \<Rightarrow> u64" where "i_seqi a b = call asm_seqi [a, b]"
definition i_sne :: "u64 \<Rightarrow> u64 \<Rightarrow> u64" where "i_sne a b = call asm_sne [a, b]"
definition i_snei :: "u64 \<Rightarrow> u64 \<Rightarrow> u64" where "i_snei a b = call asm_snei [a, b]"
definition i_sgt :: "u64 \<Rightarrow> u64 \<Rightarrow> u64" where "i_sgt a b = i_slt b a"
definition i_sgti :: "u64 \<Rightarrow> u64 \<Rightarrow> u64" where "i_sgti a b = i_slt (i_enc b) a"
definition i_sgtu :: "u64 \<Rightarrow> u64 \<Rightarrow> u64" where "i_sgtu a b = i_sltu b a"
definition i_sgtui :: "u64 \<Rightarrow> u64 \<Rightarrow> u64" where "i_sgtui a b = i_sltu (i_enc b) a"
definition i_sle :: "u64 \<Rightarrow> u64 \<Rightarrow> u64" where "i_sle a b = i_lnot (i_slt b a)"
definition i_slei :: "u64 \<Rightarrow> u64 \<Rightarrow> u64" where "i_slei a b = i_lnot (i_sgti a b)"
definition i_sleu :: "u64 \<Rightarrow> u64 \<Rightarrow> u64" where "i_sleu a b = i_lnot (i_sltu b a)"
definition i_sleui :: "u64 \<Rightarrow> u64 \<Rightarrow> u64" where "i_sleui a b = i_lnot (i_sgtui a b)"
definition i_sge :: "u64 \<Rightarrow> u64 \<Rightarrow> u64" where "i_sge a b = i_lnot (i_slt a b)"
definition i_sgei :: "u64 \<Rightarrow> u64 \<Rightarrow> u64" where "i_sgei a b = i_lnot (i_slti a b)"
definition i_sgeu :: "u64 \<Rightarrow> u64 \<Rightarrow> u64" where "i_sgeu a b = i_lnot (i_sltu a b)"
definition i_sgeui :: "u64 \<Rightarrow> u64 \<Rightarrow> u64" where "i_sgeui a b = i_lnot (i_sltui a b)"
definition i_cmov :: "u64 \<Rightarrow> u64 \<Rightarrow> u64 \<Rightarrow> u64" where "i_cmov p a b = call asm_cmov [p, a, b]"

lemmas asm_defs = DEF_BIN_U64_def DEF_BINI_U64_def asm_enc_def asm_neg_def asm_negi_def asm_land_def
  asm_landi_def asm_lor_def asm_lori_def asm_lnot_def asm_comp_def asm_compi_def asm_seq_def asm_seqi_def
  asm_sne_def asm_snei_def asm_cmov_def snez_def seqz_def

lemma call_simps:
  "call (DEF_BIN_U64 f) [a, b] = alu_value f a b" "call (DEF_BINI_U64 f) [a, b] = alu_value f a b"
  "call asm_enc [a] = a"
  by (simp_all add: call_def load_regs_def asm_defs)

named_theorems exo_values \<open>the plaintext values of intrinsics\<close>

lemma i_arith [exo_values]:
  "i_enc a = a" "i_add a b = a + b" "i_addi a b = a + b" "i_sub a b = a - b" "i_subi a b = a - b"
  "i_mul a b = a * b" "i_muli a b = a * b" "i_mulu a b = a * b" "i_mului a b = a * b"
  "i_div a b = insn_div a b" "i_divi a b = insn_div a b" "i_divu a b = insn_divu a b" "i_divui a b = insn_divu a b"
  "i_mod a b = insn_rem a b" "i_modi a b = insn_rem a b" "i_modu a b = insn_remu a b" "i_modui a b = insn_remu a b"
  by (simp_all add: call_simps i_enc_def i_add_def i_addi_def i_sub_def i_subi_def i_mul_def i_muli_def i_mulu_def
      i_mului_def i_div_def i_divi_def i_divu_def i_divui_def i_mod_def i_modi_def i_modu_def i_modui_def)

lemma i_bits [exo_values]:
  "i_and a b = a AND b" "i_andi a b = a AND b" "i_or a b = a OR b" "i_ori a b = a OR b"
  "i_xor a b = a XOR b" "i_xori a b = a XOR b"
  "i_sll a b = push_bit (unat (b AND 63)) a" "i_slli a b = push_bit (unat (b AND 63)) a"
  "i_srl a b = drop_bit (unat (b AND 63)) a" "i_srli a b = drop_bit (unat (b AND 63)) a"
  "i_sra a b = signed_drop_bit (unat (b AND 63)) a" "i_srai a b = signed_drop_bit (unat (b AND 63)) a"
  by (simp_all add: call_simps i_and_def i_andi_def i_or_def i_ori_def i_xor_def i_xori_def i_sll_def i_slli_def
      i_srl_def i_srli_def i_sra_def i_srai_def)

lemma i_unary [exo_values]:
  "i_neg a = - a" "i_negi a = - a" "i_comp a = NOT a" "i_compi a = NOT a" "i_lnot a = of_bool (a = 0)"
proof -
  have x: "- 1 XOR a = NOT a" by (rule bit_word_eqI) (simp add: bit_simps)
  have n: "NOT a + 1 = - a" by (simp add: not_eq_complement)
  have l: "a < 1 \<longleftrightarrow> a = 0" using word_less_1 by blast
  show "i_neg a = - a" "i_negi a = - a" "i_comp a = NOT a" "i_compi a = NOT a" "i_lnot a = of_bool (a = 0)"
    by (simp_all add: i_neg_def i_negi_def i_comp_def i_compi_def i_lnot_def call_def load_regs_def asm_defs x n l)
qed

lemma i_logic [exo_values]:
  "i_land a b = of_bool (a \<noteq> 0 \<and> b \<noteq> 0)" "i_landi a b = of_bool (a \<noteq> 0 \<and> b \<noteq> 0)"
  "i_lor a b = of_bool (a \<noteq> 0 \<or> b \<noteq> 0)" "i_lori a b = of_bool (a \<noteq> 0 \<or> b \<noteq> 0)"
  by (simp_all add: i_land_def i_landi_def i_lor_def i_lori_def call_def load_regs_def asm_defs word_gt_0)

lemma i_compare [exo_values]:
  "i_slt a b = of_bool (a <s b)" "i_slti a b = of_bool (a <s b)" "i_sltu a b = of_bool (a < b)" "i_sltui a b = of_bool (a < b)"
  "i_seq a b = of_bool (a = b)" "i_seqi a b = of_bool (a = b)" "i_sne a b = of_bool (a \<noteq> b)" "i_snei a b = of_bool (a \<noteq> b)"
proof -
  have x: "a XOR b = 0 \<longleftrightarrow> a = b" by (auto simp: bit_eq_iff bit_simps)
  have l: "(a XOR b) < 1 \<longleftrightarrow> a = b" unfolding word_less_1 by (rule x)
  show "i_slt a b = of_bool (a <s b)" "i_slti a b = of_bool (a <s b)" "i_sltu a b = of_bool (a < b)" "i_sltui a b = of_bool (a < b)"
    by (simp_all add: call_simps i_slt_def i_slti_def i_sltu_def i_sltui_def word_sless_alt)
  show "i_seq a b = of_bool (a = b)" "i_seqi a b = of_bool (a = b)" "i_sne a b = of_bool (a \<noteq> b)" "i_snei a b = of_bool (a \<noteq> b)"
    by (simp_all add: i_seq_def i_seqi_def i_sne_def i_snei_def call_def load_regs_def asm_defs x l word_gt_0)
qed

lemma i_order [exo_values]:
  "i_sgt a b = of_bool (b <s a)" "i_sgti a b = of_bool (b <s a)" "i_sgtu a b = of_bool (b < a)" "i_sgtui a b = of_bool (b < a)"
  "i_sle a b = of_bool (a \<le>s b)" "i_slei a b = of_bool (a \<le>s b)" "i_sleu a b = of_bool (a \<le> b)" "i_sleui a b = of_bool (a \<le> b)"
  "i_sge a b = of_bool (b \<le>s a)" "i_sgei a b = of_bool (b \<le>s a)" "i_sgeu a b = of_bool (b \<le> a)" "i_sgeui a b = of_bool (b \<le> a)"
  by (simp_all add: i_sgt_def i_sgti_def i_sgtu_def i_sgtui_def i_sle_def i_slei_def i_sleu_def i_sleui_def
      i_sge_def i_sgei_def i_sgeu_def i_sgeui_def i_arith(1) i_compare i_unary(5) word_sle_eq word_sless_alt not_less)

lemma i_select [exo_values]: "i_cmov p a b = (if p \<noteq> 0 then a else b)"
  by (simp add: i_cmov_def call_def load_regs_def asm_defs insn_czero_eqz_def insn_czero_nez_def)

end
