(* ===== verification/Exo_Int.thy ===== *)
theory Exo_Int
  imports Exo_Intrinsics
begin

text \<open>
  The encrypted integers of src/exo/mojov-exo.h: inte_t<Bits, IsSigned> keeps a 64-bit value
  normalized to its width and computes with the intrinsics. A value of the class stands for
  the plaintext it is sealed to; the width and the signedness are arguments. The theorems show
  that each operator is that of a machine integer of the width.
\<close>

section \<open>Definitions\<close>

definition kMask :: "nat \<Rightarrow> u64" where
  "kMask bits = (if bits = 64 then NOT 0 else push_bit bits 1 - 1)"

definition inte_truncate :: "nat \<Rightarrow> u64 \<Rightarrow> u64" where
  "inte_truncate bits x = x AND kMask bits"

definition inte_sign_extend :: "nat \<Rightarrow> u64 \<Rightarrow> u64" where
  "inte_sign_extend bits x =
     (if bits = 64 then x
      else let b = push_bit (bits - 1) 1; masked = x AND kMask bits in (masked XOR b) - b)"

definition normalize :: "nat \<Rightarrow> bool \<Rightarrow> u64 \<Rightarrow> u64" where
  "normalize bits sgnd raw =
     (if bits = 64 then raw
      else if sgnd then i_srai (i_slli raw (64 - of_nat bits)) (64 - of_nat bits)
      else i_andi raw (kMask bits))"

text \<open>Constructors: from an encrypted payload (also of another width), and from a plain value.\<close>

definition inte_new :: "nat \<Rightarrow> bool \<Rightarrow> u64 \<Rightarrow> u64" where
  "inte_new bits sgnd encrypted = normalize bits sgnd encrypted"

definition inte_plain :: "nat \<Rightarrow> bool \<Rightarrow> u64 \<Rightarrow> u64" where
  "inte_plain bits sgnd plain = normalize bits sgnd (i_enc plain)"

definition inte_cast :: "nat \<Rightarrow> bool \<Rightarrow> u64 \<Rightarrow> u64" where
  "inte_cast bits sgnd other = normalize bits sgnd other"

definition inte_neg :: "nat \<Rightarrow> bool \<Rightarrow> u64 \<Rightarrow> u64" where
  "inte_neg B S v = inte_new B S (normalize B S (i_neg v))"

definition inte_comp :: "nat \<Rightarrow> bool \<Rightarrow> u64 \<Rightarrow> u64" where
  "inte_comp B S v = inte_new B S (normalize B S (i_comp v))"

definition inte_lnot :: "nat \<Rightarrow> bool \<Rightarrow> u64 \<Rightarrow> u64" where
  "inte_lnot B S v = inte_new B S (i_lnot v)"

definition inte_add :: "nat \<Rightarrow> bool \<Rightarrow> u64 \<Rightarrow> u64 \<Rightarrow> u64" where
  "inte_add B S v rhs = normalize B S (i_add v rhs)"
definition inte_addi :: "nat \<Rightarrow> bool \<Rightarrow> u64 \<Rightarrow> u64 \<Rightarrow> u64" where
  "inte_addi B S v rhs = normalize B S (i_addi v rhs)"
definition inte_sub :: "nat \<Rightarrow> bool \<Rightarrow> u64 \<Rightarrow> u64 \<Rightarrow> u64" where
  "inte_sub B S v rhs = normalize B S (i_sub v rhs)"
definition inte_subi :: "nat \<Rightarrow> bool \<Rightarrow> u64 \<Rightarrow> u64 \<Rightarrow> u64" where
  "inte_subi B S v rhs = normalize B S (i_subi v rhs)"
definition inte_mul :: "nat \<Rightarrow> bool \<Rightarrow> u64 \<Rightarrow> u64 \<Rightarrow> u64" where
  "inte_mul B S v rhs = normalize B S (if S then i_mul v rhs else i_mulu v rhs)"
definition inte_muli :: "nat \<Rightarrow> bool \<Rightarrow> u64 \<Rightarrow> u64 \<Rightarrow> u64" where
  "inte_muli B S v rhs = normalize B S (if S then i_muli v rhs else i_mului v rhs)"
definition inte_div :: "nat \<Rightarrow> bool \<Rightarrow> u64 \<Rightarrow> u64 \<Rightarrow> u64" where
  "inte_div B S v rhs = normalize B S (if S then i_div v rhs else i_divu v rhs)"
definition inte_divi :: "nat \<Rightarrow> bool \<Rightarrow> u64 \<Rightarrow> u64 \<Rightarrow> u64" where
  "inte_divi B S v rhs = normalize B S (if S then i_divi v rhs else i_divui v rhs)"
definition inte_mod :: "nat \<Rightarrow> bool \<Rightarrow> u64 \<Rightarrow> u64 \<Rightarrow> u64" where
  "inte_mod B S v rhs = normalize B S (if S then i_mod v rhs else i_modu v rhs)"
definition inte_modi :: "nat \<Rightarrow> bool \<Rightarrow> u64 \<Rightarrow> u64 \<Rightarrow> u64" where
  "inte_modi B S v rhs = normalize B S (if S then i_modi v rhs else i_modui v rhs)"
definition inte_and :: "nat \<Rightarrow> bool \<Rightarrow> u64 \<Rightarrow> u64 \<Rightarrow> u64" where
  "inte_and B S v rhs = normalize B S (i_and v rhs)"
definition inte_andi :: "nat \<Rightarrow> bool \<Rightarrow> u64 \<Rightarrow> u64 \<Rightarrow> u64" where
  "inte_andi B S v rhs = normalize B S (i_andi v rhs)"
definition inte_or :: "nat \<Rightarrow> bool \<Rightarrow> u64 \<Rightarrow> u64 \<Rightarrow> u64" where
  "inte_or B S v rhs = normalize B S (i_or v rhs)"
definition inte_ori :: "nat \<Rightarrow> bool \<Rightarrow> u64 \<Rightarrow> u64 \<Rightarrow> u64" where
  "inte_ori B S v rhs = normalize B S (i_ori v rhs)"
definition inte_xor :: "nat \<Rightarrow> bool \<Rightarrow> u64 \<Rightarrow> u64 \<Rightarrow> u64" where
  "inte_xor B S v rhs = normalize B S (i_xor v rhs)"
definition inte_xori :: "nat \<Rightarrow> bool \<Rightarrow> u64 \<Rightarrow> u64 \<Rightarrow> u64" where
  "inte_xori B S v rhs = normalize B S (i_xori v rhs)"
definition inte_sll :: "nat \<Rightarrow> bool \<Rightarrow> u64 \<Rightarrow> u64 \<Rightarrow> u64" where
  "inte_sll B S v rhs = normalize B S (i_sll v rhs)"
definition inte_slli :: "nat \<Rightarrow> bool \<Rightarrow> u64 \<Rightarrow> u64 \<Rightarrow> u64" where
  "inte_slli B S v rhs = normalize B S (i_slli v rhs)"
definition inte_srl :: "nat \<Rightarrow> bool \<Rightarrow> u64 \<Rightarrow> u64 \<Rightarrow> u64" where
  "inte_srl B S v rhs = normalize B S (if S then i_sra v rhs else i_srl v rhs)"
definition inte_srli :: "nat \<Rightarrow> bool \<Rightarrow> u64 \<Rightarrow> u64 \<Rightarrow> u64" where
  "inte_srli B S v rhs = normalize B S (if S then i_srai v rhs else i_srli v rhs)"

definition inte_land :: "nat \<Rightarrow> bool \<Rightarrow> u64 \<Rightarrow> u64 \<Rightarrow> u64" where
  "inte_land B S l r = inte_new B S (i_land l r)"
definition inte_lor :: "nat \<Rightarrow> bool \<Rightarrow> u64 \<Rightarrow> u64 \<Rightarrow> u64" where
  "inte_lor B S l r = inte_new B S (i_lor l r)"
definition inte_landi :: "nat \<Rightarrow> bool \<Rightarrow> u64 \<Rightarrow> u64 \<Rightarrow> u64" where
  "inte_landi B S l r = inte_new B S (i_landi l r)"
definition inte_lori :: "nat \<Rightarrow> bool \<Rightarrow> u64 \<Rightarrow> u64 \<Rightarrow> u64" where
  "inte_lori B S l r = inte_new B S (i_lori l r)"
definition inte_eq :: "nat \<Rightarrow> bool \<Rightarrow> u64 \<Rightarrow> u64 \<Rightarrow> u64" where
  "inte_eq B S l r = inte_new B S (i_seq l r)"
definition inte_ne :: "nat \<Rightarrow> bool \<Rightarrow> u64 \<Rightarrow> u64 \<Rightarrow> u64" where
  "inte_ne B S l r = inte_new B S (i_sne l r)"
definition inte_lt :: "nat \<Rightarrow> bool \<Rightarrow> u64 \<Rightarrow> u64 \<Rightarrow> u64" where
  "inte_lt B S l r = inte_new B S (if S then i_slt l r else i_sltu l r)"
definition inte_le :: "nat \<Rightarrow> bool \<Rightarrow> u64 \<Rightarrow> u64 \<Rightarrow> u64" where
  "inte_le B S l r = inte_new B S (if S then i_sle l r else i_sleu l r)"
definition inte_gt :: "nat \<Rightarrow> bool \<Rightarrow> u64 \<Rightarrow> u64 \<Rightarrow> u64" where
  "inte_gt B S l r = inte_new B S (if S then i_sgt l r else i_sgtu l r)"
definition inte_ge :: "nat \<Rightarrow> bool \<Rightarrow> u64 \<Rightarrow> u64 \<Rightarrow> u64" where
  "inte_ge B S l r = inte_new B S (if S then i_sge l r else i_sgeu l r)"

definition inte_cmov :: "nat \<Rightarrow> bool \<Rightarrow> u64 \<Rightarrow> u64 \<Rightarrow> u64 \<Rightarrow> u64" where
  "inte_cmov B S predicate if_true if_false = inte_new B S (i_cmov predicate if_true if_false)"

section \<open>Machine integers of a width\<close>

definition embed :: "bool \<Rightarrow> 'b::len word \<Rightarrow> u64" where
  "embed S w = (if S then scast w else ucast w)"

lemma kMask_mask: "bits \<le> 64 \<Longrightarrow> kMask bits = mask bits"
  by (cases "bits = 64") (simp_all add: kMask_def mask_eq_exp_minus_1 push_bit_of_1)

lemma word_of_int_take_bit_len:
  "LENGTH('b::len) \<le> n \<Longrightarrow> (word_of_int (take_bit n x) :: 'b word) = word_of_int x"
  by (simp add: word_of_int_eq_iff min_def)

lemma and_nat_take_bit: "n AND mask k = take_bit k (n :: nat)"
  by (simp add: take_bit_eq_mask)

lemma normalize_embed:
  assumes "LENGTH('b::len) \<le> 64"
  shows "normalize LENGTH('b) S v = embed S (ucast v :: 'b word)"
proof (rule bit_word_eqI)
  fix n assume n: "n < LENGTH(64)"
  show "bit (normalize LENGTH('b) S v) n = bit (embed S (ucast v :: 'b word)) n"
  proof (cases "LENGTH('b) = 64")
    case True
    moreover have "n = 63 \<or> n < 63" using n by auto
    ultimately show ?thesis using n by (auto simp: normalize_def embed_def bit_simps min_def)
  next
    case False
    have sh: "unat ((64 - of_nat LENGTH('b) :: u64) AND 63) = 64 - LENGTH('b)"
    proof -
      have "(64 :: u64) - of_nat LENGTH('b) = of_nat (64 - LENGTH('b))" using assms by (simp add: of_nat_diff)
      moreover have "unat (of_nat (64 - LENGTH('b)) :: u64) = 64 - LENGTH('b)"
        by (simp add: unat_of_nat take_bit_nat_eq_self)
      moreover have "64 - LENGTH('b) < 64" by simp
      moreover have "(64 - LENGTH('b)) AND 63 = (64 - LENGTH('b)) mod 64"
        using and_nat_take_bit [of "64 - LENGTH('b)" 6] by (simp add: take_bit_eq_mod mask_eq_exp_minus_1)
      ultimately show ?thesis using False by (simp add: unsigned_and_eq)
    qed
    have pos: "0 < LENGTH('b)" by simp
    then have sh_le: "64 - LENGTH('b) \<le> 63" by linarith
    consider "LENGTH('b) \<le> n" | "n = LENGTH('b) - 1" | "n < LENGTH('b) - 1" by linarith
    then show ?thesis
      by cases (use False n assms pos sh_le in
        \<open>auto simp: normalize_def embed_def exo_values sh kMask_mask bit_simps min_def\<close>)
  qed
qed


lemma ucast_embed [simp]:
  assumes "LENGTH('b::len) \<le> 64" shows "ucast (embed S (x :: 'b word)) = x"
proof (rule bit_word_eqI)
  fix n assume n: "n < LENGTH('b)"
  moreover from n have "n = LENGTH('b) - 1 \<or> n < LENGTH('b) - 1" by linarith
  ultimately show "bit (ucast (embed S x) :: 'b word) n \<longleftrightarrow> bit x n"
    using assms by (auto simp: embed_def bit_simps min_def)
qed

lemma embed_inj [simp]:
  "LENGTH('b::len) \<le> 64 \<Longrightarrow> embed S (x :: 'b word) = embed S y \<longleftrightarrow> x = y"
  by (metis ucast_embed)

lemma embed_0: "embed S (0 :: 'b::len word) = 0"
  by (simp add: embed_def)

lemma embed_zero [simp]: "LENGTH('b::len) \<le> 64 \<Longrightarrow> embed S (x :: 'b word) = 0 \<longleftrightarrow> x = 0"
  using embed_inj [of S x 0] by (simp only: embed_0)

lemma word_of_int_mod_len:
  "LENGTH('b::len) \<le> n \<Longrightarrow> (word_of_int (x mod 2 ^ n) :: 'b word) = word_of_int x"
  using word_of_int_take_bit_len [of n x] by (simp add: take_bit_eq_mod)

lemma ucast_ring:
  fixes a b :: "'a::len word"
  assumes "LENGTH('b::len) \<le> LENGTH('a)"
  shows "ucast (a + b) = (ucast a + ucast b :: 'b word)" "ucast (a - b) = (ucast a - ucast b :: 'b word)"
    "ucast (a * b) = (ucast a * ucast b :: 'b word)" "ucast (- a) = (- ucast a :: 'b word)"
  by (simp_all only: ucast_eq uint_word_ariths word_of_int_mod_len [OF assms] wi_hom_syms)

lemma ucast_bits:
  assumes "LENGTH('b::len) \<le> LENGTH('a::len)"
  shows "ucast (a AND b :: 'a word) = (ucast a AND ucast b :: 'b word)" "ucast (a OR b :: 'a word) = (ucast a OR ucast b :: 'b word)"
    "ucast (a XOR b :: 'a word) = (ucast a XOR ucast b :: 'b word)" "ucast (NOT a :: 'a word) = (NOT (ucast a) :: 'b word)"
    "ucast (push_bit n a :: 'a word) = (push_bit n (ucast a) :: 'b word)"
  using assms by (intro bit_word_eqI, auto simp: bit_simps min_def)+

lemma uint_embed:
  assumes "LENGTH('b::len) \<le> 64" shows "uint (embed False (x :: 'b word)) = uint x"
proof -
  have "uint x < 2 ^ 64" using uint_lt2p [of x] power_increasing [OF assms, of "2 :: int"] by linarith
  then show ?thesis by (simp add: embed_def unsigned_ucast_eq take_bit_int_eq_self)
qed

lemma sint_embed:
  assumes "LENGTH('b::len) \<le> 64" shows "sint (embed True (x :: 'b word)) = sint x"
proof -
  have "LENGTH('b) - Suc 0 \<le> 63" using assms by linarith
  then have "signed_take_bit 63 (sint x) = sint x" by (simp add: sint_uint)
  then show ?thesis by (simp add: embed_def signed_scast_eq)
qed

lemma embed_less: "LENGTH('b::len) \<le> 64 \<Longrightarrow> embed False (x :: 'b word) < embed False y \<longleftrightarrow> x < y"
  by (simp add: word_less_def uint_embed)

lemma embed_sless: "LENGTH('b::len) \<le> 64 \<Longrightarrow> embed True (x :: 'b word) <s embed True y \<longleftrightarrow> x <s y"
  by (simp add: word_sless_alt sint_embed)


section \<open>The operators\<close>

definition machine_div :: "bool \<Rightarrow> 'b::len word \<Rightarrow> 'b word \<Rightarrow> 'b word" where
  "machine_div S x y =
     (if y = 0 then - 1 else if S then word_of_int (sint x sdiv sint y) else x div y)"

definition machine_mod :: "bool \<Rightarrow> 'b::len word \<Rightarrow> 'b word \<Rightarrow> 'b word" where
  "machine_mod S x y =
     (if y = 0 then x else if S then word_of_int (sint x smod sint y) else x mod y)"

definition machine_less :: "bool \<Rightarrow> 'b::len word \<Rightarrow> 'b word \<Rightarrow> bool" where
  "machine_less S x y = (if S then sint x < sint y else uint x < uint y)"

definition shift_amount :: "u64 \<Rightarrow> nat" where
  "shift_amount v = unat (v AND 63)"

lemma normalize_inte_new: "LENGTH('b::len) \<le> 64 \<Longrightarrow> inte_new LENGTH('b) S v = embed S (ucast v :: 'b word)"
  by (simp add: inte_new_def normalize_embed)

lemma inte_ring:
  fixes x y :: "'b::len word"
  assumes "LENGTH('b) \<le> 64"
  shows "inte_add LENGTH('b) S (embed S x) (embed S y) = embed S (x + y)"
    "inte_sub LENGTH('b) S (embed S x) (embed S y) = embed S (x - y)"
    "inte_mul LENGTH('b) S (embed S x) (embed S y) = embed S (x * y)"
    "inte_neg LENGTH('b) S (embed S x) = embed S (- x)"
  using assms ucast_ring [where 'a=64 and 'b='b]
  by (simp_all add: inte_add_def inte_sub_def inte_mul_def inte_neg_def normalize_inte_new normalize_embed exo_values)

lemma inte_bits:
  fixes x y :: "'b::len word"
  assumes "LENGTH('b) \<le> 64"
  shows "inte_and LENGTH('b) S (embed S x) (embed S y) = embed S (x AND y)"
    "inte_or LENGTH('b) S (embed S x) (embed S y) = embed S (x OR y)"
    "inte_xor LENGTH('b) S (embed S x) (embed S y) = embed S (x XOR y)"
    "inte_comp LENGTH('b) S (embed S x) = embed S (NOT x)"
    "inte_sll LENGTH('b) S (embed S x) (embed S y) = embed S (push_bit (shift_amount (embed S y)) x)"
  using assms ucast_bits [where 'a=64 and 'b='b]
  by (simp_all add: inte_and_def inte_or_def inte_xor_def inte_comp_def inte_sll_def normalize_inte_new
      normalize_embed exo_values shift_amount_def)

lemma ucast_sint:
  "LENGTH('b::len) \<le> 64 \<Longrightarrow> (ucast (v :: u64) :: 'b word) = word_of_int (sint v)"
  by (simp add: ucast_eq uint_sint word_of_int_take_bit_len)

lemma ucast_word_of_int:
  "LENGTH('b::len) \<le> 64 \<Longrightarrow> (ucast (word_of_int k :: u64) :: 'b word) = word_of_int k"
  by (simp add: ucast_eq word_of_int_take_bit_len uint_word_of_int_eq)

lemma word_of_sint: "word_of_int (sint x) = (x :: 'b::len word)"
  by (metis of_int_sint scast_id)

lemma uint_drop_bit: "uint (drop_bit k (x :: 'b::len word)) = drop_bit k (uint x)"
  by (rule bit_eqI) (auto simp: bit_simps dest: bit_imp_le_length)

lemma inte_shift_right:
  fixes x y :: "'b::len word"
  assumes "LENGTH('b) \<le> 64"
  shows "inte_srl LENGTH('b) False (embed False x) (embed False y) = embed False (drop_bit (shift_amount (embed False y)) x)"
    "inte_srl LENGTH('b) True (embed True x) (embed True y) = embed True (signed_drop_bit (shift_amount (embed True y)) x)"
proof -
  have "(word_of_int (drop_bit k (uint x)) :: 'b word) = drop_bit k x" for k
    by (rule bit_word_eqI) (auto simp: bit_simps dest: bit_imp_le_length)
  then have "ucast (drop_bit k (embed False x)) = drop_bit k x" for k
    by (metis assms ucast_eq uint_drop_bit uint_embed)
  then show "inte_srl LENGTH('b) False (embed False x) (embed False y) = embed False (drop_bit (shift_amount (embed False y)) x)"
    using assms by (simp add: inte_srl_def normalize_embed exo_values shift_amount_def)
  have "(word_of_int (drop_bit k (sint x)) :: 'b word) = signed_drop_bit k x" for k
    by (metis sint_signed_drop_bit_eq word_of_sint)
  then show "inte_srl LENGTH('b) True (embed True x) (embed True y) = embed True (signed_drop_bit (shift_amount (embed True y)) x)"
    using assms by (simp add: inte_srl_def normalize_embed exo_values shift_amount_def ucast_sint sint_signed_drop_bit_eq sint_embed)
qed

lemma embed_of_bool: "1 < LENGTH('b::len) \<or> \<not> S \<Longrightarrow> embed S (of_bool b :: 'b word) = of_bool b"
  by (auto simp: embed_def)

lemma inte_relations:
  fixes x y :: "'b::len word"
  assumes "LENGTH('b) \<le> 64"
  shows "inte_eq LENGTH('b) S (embed S x) (embed S y) = embed S (of_bool (x = y) :: 'b word)"
    "inte_ne LENGTH('b) S (embed S x) (embed S y) = embed S (of_bool (x \<noteq> y) :: 'b word)"
    "inte_lt LENGTH('b) S (embed S x) (embed S y) = embed S (of_bool (machine_less S x y) :: 'b word)"
    "inte_gt LENGTH('b) S (embed S x) (embed S y) = embed S (of_bool (machine_less S y x) :: 'b word)"
    "inte_le LENGTH('b) S (embed S x) (embed S y) = embed S (of_bool (\<not> machine_less S y x) :: 'b word)"
    "inte_ge LENGTH('b) S (embed S x) (embed S y) = embed S (of_bool (\<not> machine_less S x y) :: 'b word)"
    "inte_lnot LENGTH('b) S (embed S x) = embed S (of_bool (x = 0) :: 'b word)"
    "inte_land LENGTH('b) S (embed S x) (embed S y) = embed S (of_bool (x \<noteq> 0 \<and> y \<noteq> 0) :: 'b word)"
    "inte_lor LENGTH('b) S (embed S x) (embed S y) = embed S (of_bool (x \<noteq> 0 \<or> y \<noteq> 0) :: 'b word)"
  using assms
  by (cases S; simp add: inte_eq_def inte_ne_def inte_lt_def inte_gt_def inte_le_def inte_ge_def inte_lnot_def
      inte_land_def inte_lor_def normalize_inte_new exo_values machine_less_def word_sless_alt word_sle_eq
      word_less_def word_le_def sint_embed uint_embed not_less)+

lemma narrow_division:
  fixes x y :: "'b::len word"
  assumes "LENGTH('b) \<le> 64"
  shows "ucast (insn_divu (embed False x) (embed False y)) = machine_div False x y"
    "ucast (insn_remu (embed False x) (embed False y)) = machine_mod False x y"
    "ucast (insn_div (embed True x) (embed True y)) = machine_div True x y"
    "ucast (insn_rem (embed True x) (embed True y)) = machine_mod True x y"
proof -
  have wrap: "(word_of_int (- (2 ^ 63)) :: 'b word) = word_of_int (2 ^ 63)"
    using word_of_int_mod_len [OF assms, of "- (2 ^ 63)"] word_of_int_mod_len [OF assms, of "2 ^ 63"] by simp
  have neg: "sint x = - (2 ^ 63) \<Longrightarrow> (word_of_int (2 ^ 63) :: 'b word) = x"
    using wrap word_of_sint [of x] by simp
  have udiv: "ucast (embed False x div embed False y) = x div y"
    by (subst ucast_eq) (simp only: uint_div uint_embed [OF assms] word_div_def [symmetric])
  have umod: "ucast (embed False x mod embed False y) = x mod y"
    by (subst ucast_eq) (simp only: uint_mod uint_embed [OF assms] word_mod_def [symmetric])
  have one: "k smod (1 :: int) = 0" for k by (simp add: signed_modulo_int_def)
  have ones: "ucast (- 1 :: u64) = (- 1 :: 'b word)"
    using assms by (auto intro: bit_word_eqI simp: bit_simps)
  show "ucast (insn_divu (embed False x) (embed False y)) = machine_div False x y"
    "ucast (insn_remu (embed False x) (embed False y)) = machine_mod False x y"
    using assms by (simp_all add: insn_divu_def insn_remu_def machine_div_def machine_mod_def udiv umod ones)
  show "ucast (insn_div (embed True x) (embed True y)) = machine_div True x y"
    "ucast (insn_rem (embed True x) (embed True y)) = machine_mod True x y"
    using assms neg by (auto simp: insn_div_def insn_rem_def machine_div_def machine_mod_def ones sint_embed
        ucast_word_of_int one)
qed

lemma insn_division:
  "insn_divu a b = machine_div False a b" "insn_remu a b = machine_mod False a b"
  "insn_div a b = machine_div True a b" "insn_rem a b = machine_mod True a b"
  using narrow_division [of a b] by (simp_all add: embed_def)

lemma inte_division:
  fixes x y :: "'b::len word"
  assumes "LENGTH('b) \<le> 64"
  shows "inte_div LENGTH('b) S (embed S x) (embed S y) = embed S (machine_div S x y)"
    "inte_mod LENGTH('b) S (embed S x) (embed S y) = embed S (machine_mod S x y)"
  using assms narrow_division [OF assms, of x y]
  by (cases S; simp add: inte_div_def inte_mod_def normalize_embed exo_values)+

lemma xor_push_bit_one:
  fixes w :: "'a::len word" assumes "n < LENGTH('a)"
  shows "w XOR push_bit n 1 = (if bit w n then w - push_bit n 1 else w + push_bit n 1)"
proof -
  have add: "v + push_bit n 1 = v XOR push_bit n 1" if "\<not> bit v n" for v :: "'a word"
  proof -
    have "v + push_bit n 1 = v OR push_bit n 1"
      by (rule disjunctive_add) (use that in \<open>auto simp: bit_simps\<close>)
    also have "\<dots> = v XOR push_bit n 1" by (rule bit_word_eqI) (use that in \<open>auto simp: bit_simps\<close>)
    finally show ?thesis .
  qed
  have "\<not> bit (w XOR push_bit n 1) n" if "bit w n" using that assms by (simp add: bit_simps)
  from add [OF this] add [of w] show ?thesis by (auto simp: algebra_simps xor.assoc)
qed

lemma decrypt_embed:
  assumes "LENGTH('b::len) \<le> 64"
  shows "(if S then inte_sign_extend LENGTH('b) (embed S (x :: 'b word)) else inte_truncate LENGTH('b) (embed S x)) = embed S x"
proof (cases S)
  case False
  have "(embed False x) AND mask LENGTH('b) = embed False x"
    by (rule bit_word_eqI) (auto simp: embed_def bit_simps dest: bit_imp_le_length)
  with False assms show ?thesis by (simp add: inte_truncate_def kMask_mask)
next
  case True
  define e b where "e = embed True x" and "b = (push_bit (LENGTH('b) - 1) 1 :: u64)"
  define m where "m = e AND mask LENGTH('b)"
  show ?thesis
  proof (cases "LENGTH('b) = 64")
    case False
    have l: "LENGTH('b) - 1 < 64" "LENGTH('b) \<noteq> 0" using assms by simp_all
    have "e = signed_take_bit (LENGTH('b) - 1) e"
      by (rule bit_word_eqI) (auto simp: e_def embed_def bit_simps min_def)
    also have "\<dots> = (if bit m (LENGTH('b) - 1) then m + push_bit LENGTH('b) (- 1) else m)"
      using l by (simp add: signed_take_bit_code Let_def take_bit_eq_mask m_def)
    finally have sb: "e = (if bit m (LENGTH('b) - 1) then m + push_bit LENGTH('b) (- 1) else m)" .
    have pb: "push_bit LENGTH('b) (- 1) = - b - b"
      using l by (cases "LENGTH('b)") (simp_all add: push_bit_eq_mult b_def)
    have "(m XOR b) - b = (if bit m (LENGTH('b) - 1) then m - b - b else m)"
      unfolding b_def using xor_push_bit_one [of "LENGTH('b) - 1" m] l by simp
    also have "\<dots> = e" using sb by (subst sb) (simp only: pb, simp)
    finally have "(m XOR b) - b = e" .
    then show ?thesis using False True
      by (simp only: inte_sign_extend_def kMask_mask [OF assms] Let_def m_def b_def e_def if_True if_False)
  qed (simp add: True inte_sign_extend_def)
qed

end
