(* ===== verification/Exo_String.thy ===== *)
theory Exo_String
  imports Exo_Int
begin

text \<open>
  The encrypted strings of src/exo/mojov-string.h: the class stringe_t, a buffer of public
  capacity whose bytes, size and exception flag are encrypted. Every method computes with the
  operators of the encrypted integers (theory Exo_Int); a field of the record holds the value
  the field of the class is sealed to. A loop over a public index is a fold over for_to. An
  allocation that fails ends the program and is not modelled.
\<close>

section \<open>The integer types the class uses\<close>

abbreviation "uint64e \<equiv> inte_plain 64 False"
abbreviation "int64e \<equiv> inte_plain 64 True"
abbreviation "uint8e \<equiv> inte_plain 8 False"
abbreviation "to_uint64e \<equiv> inte_cast 64 False"
abbreviation "to_uint8e \<equiv> inte_cast 8 False"
abbreviation "add64 \<equiv> inte_add 64 False"
abbreviation "sub64 \<equiv> inte_sub 64 False"
abbreviation "and64 \<equiv> inte_and 64 False"
abbreviation "or64 \<equiv> inte_or 64 False"
abbreviation "comp64 \<equiv> inte_comp 64 False"
abbreviation "sll64 \<equiv> inte_sll 64 False"
abbreviation "srl64 \<equiv> inte_srl 64 False"
abbreviation "lt64 \<equiv> inte_lt 64 False"
abbreviation "le64 \<equiv> inte_le 64 False"
abbreviation "gt64 \<equiv> inte_gt 64 False"
abbreviation "ge64 \<equiv> inte_ge 64 False"
abbreviation "eq64 \<equiv> inte_eq 64 False"
abbreviation "ne64 \<equiv> inte_ne 64 False"
abbreviation "land64 \<equiv> inte_land 64 False"
abbreviation "lor64 \<equiv> inte_lor 64 False"
abbreviation "lnot64 \<equiv> inte_lnot 64 False"
abbreviation "cmov64 \<equiv> inte_cmov 64 False"
abbreviation "cmov8 \<equiv> inte_cmov 8 False"
abbreviation "cmov_int64 \<equiv> inte_cmov 64 True"
abbreviation "lt8 l r \<equiv> to_uint64e (inte_lt 8 False l r)"
abbreviation "gt8 l r \<equiv> to_uint64e (inte_gt 8 False l r)"
abbreviation "eq8 l r \<equiv> to_uint64e (inte_eq 8 False l r)"
abbreviation "ne8 l r \<equiv> to_uint64e (inte_ne 8 False l r)"

definition for_to :: "u64 \<Rightarrow> u64 list" where
  "for_to n = map of_nat [0..<unat n]"

section \<open>Storage\<close>

record stringe =
  str_length :: u64
  str_words :: "u64 list"
  str_size :: u64
  str_exception :: u64

definition npos :: u64 where "npos = - 1"
definition kNposPlain :: u64 where "kNposPlain = NOT 0"

definition word_count :: "u64 \<Rightarrow> u64" where
  "word_count n = (n + 7) div 8"

definition allocate_words :: "u64 \<Rightarrow> u64 list" where
  "allocate_words n = replicate (unat (word_count n)) (uint64e 0)"

definition copy_words :: "u64 list \<Rightarrow> u64 list \<Rightarrow> u64 \<Rightarrow> u64 list" where
  "copy_words dst src n = fold (\<lambda>i dst. dst[unat i := src ! unat i]) (for_to n) dst"

definition replace_storage :: "stringe \<Rightarrow> u64 \<Rightarrow> stringe" where
  "replace_storage s new_length = s\<lparr>str_length := new_length, str_words := allocate_words new_length\<rparr>"

definition lane_shift :: "u64 \<Rightarrow> u64" where
  "lane_shift lane = uint64e ((lane AND 7) * 8)"

definition get_char_public :: "stringe \<Rightarrow> u64 \<Rightarrow> u64" where
  "get_char_public s idx =
     (let w = idx div 8; lane = idx mod 8; word = str_words s ! unat w
      in to_uint8e (and64 (srl64 word (lane_shift lane)) (uint64e 0xff)))"

definition get_char_or_zero :: "stringe \<Rightarrow> u64 \<Rightarrow> u64" where
  "get_char_or_zero s idx = (if idx \<ge> str_length s then uint8e 0 else get_char_public s idx)"

definition get_char_by_secret_index :: "stringe \<Rightarrow> u64 \<Rightarrow> u64" where
  "get_char_by_secret_index s idx =
     fold (\<lambda>k result. let eq = eq64 idx (uint64e k) in cmov8 eq (get_char_public s k) result)
       (for_to (str_length s)) (uint8e 0)"

definition get_char_or_zero_public_src :: "stringe \<Rightarrow> u64 \<Rightarrow> u64 \<Rightarrow> u64" where
  "get_char_or_zero_public_src s src fallback_public =
     (let result = fold (\<lambda>k result. let eq = eq64 src (uint64e k) in cmov8 eq (get_char_public s k) result)
        (for_to (str_length s)) (uint8e 0)
      in if str_length s = 0 \<and> fallback_public = 0 then uint8e 0 else result)"

definition set_char_public :: "stringe \<Rightarrow> u64 \<Rightarrow> u64 \<Rightarrow> stringe" where
  "set_char_public s idx ch =
     (let w = unat (idx div 8); lane = idx mod 8; shift = lane_shift lane;
          mask = sll64 (uint64e 0xff) shift
      in s\<lparr>str_words := (str_words s)[w := or64 (and64 (str_words s ! w) (comp64 mask)) (sll64 (to_uint64e ch) shift)]\<rparr>)"

definition oblivious_write :: "stringe \<Rightarrow> u64 \<Rightarrow> u64 \<Rightarrow> u64 \<Rightarrow> stringe" where
  "oblivious_write s idx ch enable =
     fold (\<lambda>k s. let take = land64 enable (eq64 idx (uint64e k)); cur = get_char_public s k
        in set_char_public s k (cmov8 take ch cur)) (for_to (str_length s)) s"

section \<open>Construction, copies and moves\<close>

definition stringe_new :: "u64 \<Rightarrow> stringe" where
  "stringe_new n = \<lparr>str_length = n, str_words = allocate_words n, str_size = uint64e 0, str_exception = uint64e 0\<rparr>"

definition stringe_copy :: "stringe \<Rightarrow> stringe" where
  "stringe_copy rhs =
     \<lparr>str_length = str_length rhs,
      str_words = copy_words (allocate_words (str_length rhs)) (str_words rhs) (word_count (str_length rhs)),
      str_size = str_size rhs, str_exception = str_exception rhs\<rparr>"

definition moved_from :: stringe where
  "moved_from = \<lparr>str_length = 0, str_words = [], str_size = uint64e 0, str_exception = uint64e 0\<rparr>"

definition stringe_move :: "stringe \<Rightarrow> stringe \<times> stringe" where
  "stringe_move rhs =
     (\<lparr>str_length = str_length rhs, str_words = str_words rhs, str_size = str_size rhs, str_exception = str_exception rhs\<rparr>, moved_from)"

text \<open>Assignment: the first argument says whether both sides are the same object.\<close>

definition stringe_assign :: "bool \<Rightarrow> stringe \<Rightarrow> stringe \<Rightarrow> stringe" where
  "stringe_assign same s rhs =
     (if same then s
      else let s = (if str_length s \<noteq> str_length rhs then replace_storage s (str_length rhs) else s)
           in s\<lparr>str_words := copy_words (str_words s) (str_words rhs) (word_count (str_length s)),
                str_size := str_size rhs, str_exception := str_exception rhs\<rparr>)"

definition stringe_move_assign :: "bool \<Rightarrow> stringe \<Rightarrow> stringe \<Rightarrow> stringe \<times> stringe" where
  "stringe_move_assign same s rhs = (if same then (s, s) else (rhs, moved_from))"

section \<open>Access\<close>

datatype trap = Buffer_overflow_prevented

definition empty_stringe :: "stringe \<Rightarrow> u64" where
  "empty_stringe s = eq64 (str_size s) (uint64e 0)"

definition char_at :: "stringe \<Rightarrow> u64 \<Rightarrow> trap + u64" where
  "char_at s i = (if i \<ge> str_length s then Inl Buffer_overflow_prevented else Inr (get_char_public s i))"

section \<open>Appending\<close>

definition push_back :: "stringe \<Rightarrow> u64 \<Rightarrow> stringe" where
  "push_back s ch =
     (let fits = lt64 (str_size s) (uint64e (str_length s));
          s = oblivious_write s (str_size s) ch fits;
          s = s\<lparr>str_size := cmov64 fits (add64 (str_size s) (uint64e 1)) (str_size s)\<rparr>
      in s\<lparr>str_exception := lor64 (str_exception s) (lnot64 fits)\<rparr>)"

text \<open>One round of the loop of append; rhs may be the string itself.\<close>

definition append_round :: "stringe \<Rightarrow> stringe \<Rightarrow> u64 \<Rightarrow> stringe" where
  "append_round s rhs i =
     (let in_rhs = lt64 (uint64e i) (str_size rhs);
          fits = lt64 (str_size s) (uint64e (str_length s));
          do_write = land64 in_rhs fits;
          ch = get_char_public rhs i;
          s = oblivious_write s (str_size s) ch do_write;
          s = s\<lparr>str_size := cmov64 do_write (add64 (str_size s) (uint64e 1)) (str_size s)\<rparr>
      in s\<lparr>str_exception := lor64 (str_exception s) (land64 in_rhs (lnot64 fits))\<rparr>)"

definition append_stringe :: "stringe \<Rightarrow> stringe \<Rightarrow> stringe" where
  "append_stringe s rhs =
     (let s = fold (\<lambda>i s. append_round s rhs i) (for_to (str_length rhs)) s
      in s\<lparr>str_exception := lor64 (str_exception s) (str_exception rhs)\<rparr>)"

definition append_self :: "stringe \<Rightarrow> stringe" where
  "append_self s =
     (let s = fold (\<lambda>i s. append_round s s i) (for_to (str_length s)) s
      in s\<lparr>str_exception := lor64 (str_exception s) (str_exception s)\<rparr>)"

definition concat_stringe :: "stringe \<Rightarrow> stringe \<Rightarrow> stringe" where
  "concat_stringe lhs rhs =
     (let out = stringe_new (str_length lhs + str_length rhs);
          out = append_stringe out lhs;
          out = append_stringe out rhs
      in out\<lparr>str_exception := lor64 (lor64 (str_exception out) (str_exception lhs)) (str_exception rhs)\<rparr>)"

section \<open>Comparison\<close>

definition compare_stringe :: "stringe \<Rightarrow> stringe \<Rightarrow> u64" where
  "compare_stringe s rhs =
     (let m = (if str_length s > str_length rhs then str_length s else str_length rhs)
      in fst (fold (\<lambda>i (result, decided).
          let in_l = lt64 (uint64e i) (str_size s);
              in_r = lt64 (uint64e i) (str_size rhs);
              lc = (if i < str_length s then get_char_public s i else uint8e 0);
              rc = (if i < str_length rhs then get_char_public rhs i else uint8e 0);
              l_only = land64 in_l (lnot64 in_r);
              r_only = land64 in_r (lnot64 in_l);
              both = land64 in_l in_r;
              lt = land64 both (lt8 lc rc);
              gt = land64 both (gt8 lc rc);
              chosen = lnot64 decided;
              result = cmov_int64 (land64 chosen (lor64 lt r_only)) (int64e (- 1)) result;
              result = cmov_int64 (land64 chosen (lor64 gt l_only)) (int64e 1) result
          in (result, lor64 (lor64 (lor64 (lor64 decided l_only) r_only) lt) gt))
        (for_to m) (int64e 0, uint64e 0)))"

definition eq_stringe :: "stringe \<Rightarrow> stringe \<Rightarrow> u64" where
  "eq_stringe s rhs = to_uint64e (inte_eq 64 True (compare_stringe s rhs) (int64e 0))"
definition ne_stringe :: "stringe \<Rightarrow> stringe \<Rightarrow> u64" where
  "ne_stringe s rhs = to_uint64e (inte_ne 64 True (compare_stringe s rhs) (int64e 0))"
definition lt_stringe :: "stringe \<Rightarrow> stringe \<Rightarrow> u64" where
  "lt_stringe s rhs = to_uint64e (inte_lt 64 True (compare_stringe s rhs) (int64e 0))"
definition le_stringe :: "stringe \<Rightarrow> stringe \<Rightarrow> u64" where
  "le_stringe s rhs = to_uint64e (inte_le 64 True (compare_stringe s rhs) (int64e 0))"
definition gt_stringe :: "stringe \<Rightarrow> stringe \<Rightarrow> u64" where
  "gt_stringe s rhs = to_uint64e (inte_gt 64 True (compare_stringe s rhs) (int64e 0))"
definition ge_stringe :: "stringe \<Rightarrow> stringe \<Rightarrow> u64" where
  "ge_stringe s rhs = to_uint64e (inte_ge 64 True (compare_stringe s rhs) (int64e 0))"

section \<open>Searching\<close>

definition find_stringe :: "stringe \<Rightarrow> stringe \<Rightarrow> u64 \<Rightarrow> u64" where
  "find_stringe s needle pos =
     (let (best, found) = fold (\<lambda>i (best, found).
          let i_ok = ge64 (uint64e i) pos;
              i_in = lt64 (uint64e i) (str_size s);
              match = fold (\<lambda>j match.
                  let n_in = lt64 (uint64e j) (str_size needle);
                      s_in = lt64 (uint64e (i + j)) (str_size s);
                      a = get_char_or_zero s (i + j);
                      b = get_char_public needle j
                  in land64 match (cmov64 n_in (land64 s_in (eq8 a b)) (uint64e 1)))
                (for_to (str_length needle)) (land64 i_ok i_in);
              match = land64 match (gt64 (str_size needle) (uint64e 0));
              chosen = land64 match (lnot64 found)
          in (cmov64 chosen (uint64e i) best, lor64 found match))
        (for_to (str_length s)) (uint64e kNposPlain, uint64e 0);
      empty_needle = eq64 (str_size needle) (uint64e 0);
      size_ge_pos = ge64 (str_size s) pos
      in cmov64 (land64 empty_needle size_ge_pos) pos best)"

definition find_char :: "stringe \<Rightarrow> u64 \<Rightarrow> u64 \<Rightarrow> u64" where
  "find_char s ch pos =
     fst (fold (\<lambda>i (best, found).
        let match = land64 (land64 (ge64 (uint64e i) pos) (lt64 (uint64e i) (str_size s))) (eq8 (get_char_public s i) ch);
            chosen = land64 match (lnot64 found)
        in (cmov64 chosen (uint64e i) best, lor64 found match))
       (for_to (str_length s)) (uint64e kNposPlain, uint64e 0))"

definition rfind_char :: "stringe \<Rightarrow> u64 \<Rightarrow> u64" where
  "rfind_char s ch =
     fold (\<lambda>i best.
        let match = land64 (lt64 (uint64e i) (str_size s)) (eq8 (get_char_public s i) ch)
        in cmov64 match (uint64e i) best)
       (for_to (str_length s)) (uint64e kNposPlain)"

definition rfind_stringe :: "stringe \<Rightarrow> stringe \<Rightarrow> u64 \<Rightarrow> u64" where
  "rfind_stringe s needle pos =
     (let best = fold (\<lambda>i best.
          let i_in = lt64 (uint64e i) (str_size s);
              i_ok = cmov64 (eq64 pos (uint64e kNposPlain)) (uint64e 1) (le64 (uint64e i) pos);
              match = fold (\<lambda>j match.
                  let n_in = lt64 (uint64e j) (str_size needle);
                      s_in = lt64 (uint64e (i + j)) (str_size s)
                  in land64 match (cmov64 n_in
                       (land64 s_in (eq8 (get_char_or_zero s (i + j)) (get_char_public needle j))) (uint64e 1)))
                (for_to (str_length needle)) (land64 i_in i_ok);
              match = land64 match (gt64 (str_size needle) (uint64e 0))
          in cmov64 match (uint64e i) best)
        (for_to (str_length s)) (uint64e kNposPlain);
      empty_needle = eq64 (str_size needle) (uint64e 0);
      ret_pos = cmov64 (eq64 pos (uint64e kNposPlain)) (str_size s) pos;
      size_ge_pos = ge64 (str_size s) ret_pos
      in cmov64 (land64 empty_needle size_ge_pos) ret_pos best)"

text \<open>The inner loop the four searches for a set of characters share.\<close>

definition any_of :: "stringe \<Rightarrow> stringe \<Rightarrow> u64 \<Rightarrow> u64" where
  "any_of s chars i =
     fold (\<lambda>j any.
        let c_in = lt64 (uint64e j) (str_size chars)
        in lor64 any (land64 c_in (eq8 (get_char_public s i) (get_char_public chars j))))
       (for_to (str_length chars)) (uint64e 0)"

definition find_first_of :: "stringe \<Rightarrow> stringe \<Rightarrow> u64 \<Rightarrow> u64" where
  "find_first_of s chars pos =
     fst (fold (\<lambda>i (best, found).
        let any = any_of s chars i;
            match = land64 (land64 (ge64 (uint64e i) pos) (lt64 (uint64e i) (str_size s))) any;
            chosen = land64 match (lnot64 found)
        in (cmov64 chosen (uint64e i) best, lor64 found match))
       (for_to (str_length s)) (uint64e kNposPlain, uint64e 0))"

definition find_last_of :: "stringe \<Rightarrow> stringe \<Rightarrow> u64" where
  "find_last_of s chars =
     fold (\<lambda>i best.
        let any = any_of s chars i; match = land64 (lt64 (uint64e i) (str_size s)) any
        in cmov64 match (uint64e i) best)
       (for_to (str_length s)) (uint64e kNposPlain)"

definition find_first_of_char :: "stringe \<Rightarrow> u64 \<Rightarrow> u64 \<Rightarrow> u64" where
  "find_first_of_char s ch pos = find_char s ch pos"

definition find_last_of_char :: "stringe \<Rightarrow> u64 \<Rightarrow> u64" where
  "find_last_of_char s ch = rfind_char s ch"

definition find_first_not_of :: "stringe \<Rightarrow> stringe \<Rightarrow> u64 \<Rightarrow> u64" where
  "find_first_not_of s chars pos =
     fst (fold (\<lambda>i (best, found).
        let any = any_of s chars i;
            match = land64 (land64 (ge64 (uint64e i) pos) (lt64 (uint64e i) (str_size s))) (lnot64 any);
            chosen = land64 match (lnot64 found)
        in (cmov64 chosen (uint64e i) best, lor64 found match))
       (for_to (str_length s)) (uint64e kNposPlain, uint64e 0))"

definition find_last_not_of :: "stringe \<Rightarrow> stringe \<Rightarrow> u64" where
  "find_last_not_of s chars =
     fold (\<lambda>i best.
        let any = any_of s chars i; match = land64 (lt64 (uint64e i) (str_size s)) (lnot64 any)
        in cmov64 match (uint64e i) best)
       (for_to (str_length s)) (uint64e kNposPlain)"

definition find_first_not_of_char :: "stringe \<Rightarrow> u64 \<Rightarrow> u64 \<Rightarrow> u64" where
  "find_first_not_of_char s ch pos =
     fst (fold (\<lambda>i (best, found).
        let match = land64 (land64 (ge64 (uint64e i) pos) (lt64 (uint64e i) (str_size s))) (ne8 (get_char_public s i) ch);
            chosen = land64 match (lnot64 found)
        in (cmov64 chosen (uint64e i) best, lor64 found match))
       (for_to (str_length s)) (uint64e kNposPlain, uint64e 0))"

definition find_last_not_of_char :: "stringe \<Rightarrow> u64 \<Rightarrow> u64" where
  "find_last_not_of_char s ch =
     fold (\<lambda>i best.
        let match = land64 (lt64 (uint64e i) (str_size s)) (ne8 (get_char_public s i) ch)
        in cmov64 match (uint64e i) best)
       (for_to (str_length s)) (uint64e kNposPlain)"

section \<open>Substrings\<close>

definition substr :: "stringe \<Rightarrow> u64 \<Rightarrow> u64 \<Rightarrow> stringe" where
  "substr s pos count =
     (let out = fold (\<lambda>i out.
          let src = add64 pos (uint64e i);
              inside = lt64 src (str_size s);
              out = oblivious_write out (uint64e i) (get_char_or_zero_public_src s src i) inside
          in out\<lparr>str_size := cmov64 inside (add64 (str_size out) (uint64e 1)) (str_size out)\<rparr>)
        (for_to count) (stringe_new count)
      in out\<lparr>str_exception := str_exception s\<rparr>)"

definition starts_with :: "stringe \<Rightarrow> stringe \<Rightarrow> u64" where
  "starts_with s prefix =
     fold (\<lambda>i ok.
        let inside = lt64 (uint64e i) (str_size prefix)
        in land64 ok (cmov64 inside (eq8 (get_char_or_zero s i) (get_char_public prefix i)) (uint64e 1)))
       (for_to (str_length prefix)) (ge64 (str_size s) (str_size prefix))"

definition ends_with :: "stringe \<Rightarrow> stringe \<Rightarrow> u64" where
  "ends_with s suffix =
     (let start = sub64 (str_size s) (str_size suffix)
      in fold (\<lambda>i ok.
          let inside = lt64 (uint64e i) (str_size suffix)
          in land64 ok (cmov64 inside
               (eq8 (get_char_by_secret_index s (add64 start (uint64e i))) (get_char_public suffix i)) (uint64e 1)))
        (for_to (str_length suffix)) (ge64 (str_size s) (str_size suffix)))"

definition contains :: "stringe \<Rightarrow> stringe \<Rightarrow> u64" where
  "contains s needle = ne64 (find_stringe s needle (uint64e 0)) (uint64e kNposPlain)"

end
