(* ===== verification/Exo_String_Proofs.thy ===== *)
theory Exo_String_Proofs
  imports Exo_String
begin

text \<open>
  The encrypted strings as strings: what the operators of the integer types do on plaintext
  values, the packed bytes as an array of bytes (locale byte_buffer, interpreted on the words of
  a stringe), the text a stringe holds, and what each method does to it.
\<close>

section \<open>Operators on plaintext values\<close>

named_theorems exo_ops \<open>the operators of the integer types of encrypted strings\<close>

lemma ops_plain [exo_ops]:
  "uint64e v = v" "int64e v = v" "uint8e v = v AND 255" "to_uint64e v = v" "to_uint8e v = v AND 255"
  by (simp_all add: inte_plain_def inte_cast_def normalize_def kMask_def exo_values push_bit_eq_mult)

lemma ops_arith [exo_ops]:
  "add64 a b = a + b" "sub64 a b = a - b" "and64 a b = a AND b" "or64 a b = a OR b" "comp64 a = NOT a"
  "sll64 a b = push_bit (unat (b AND 63)) a" "srl64 a b = drop_bit (unat (b AND 63)) a"
  by (simp_all add: inte_add_def inte_sub_def inte_and_def inte_or_def inte_comp_def inte_sll_def inte_srl_def
      inte_new_def normalize_def exo_values)

lemma ops_relations [exo_ops]:
  "lt64 a b = of_bool (a < b)" "le64 a b = of_bool (a \<le> b)" "gt64 a b = of_bool (b < a)" "ge64 a b = of_bool (b \<le> a)"
  "eq64 a b = of_bool (a = b)" "ne64 a b = of_bool (a \<noteq> b)"
  "land64 a b = of_bool (a \<noteq> 0 \<and> b \<noteq> 0)" "lor64 a b = of_bool (a \<noteq> 0 \<or> b \<noteq> 0)" "lnot64 a = of_bool (a = 0)"
  by (simp_all add: inte_lt_def inte_le_def inte_gt_def inte_ge_def inte_eq_def inte_ne_def inte_land_def
      inte_lor_def inte_lnot_def inte_new_def normalize_def exo_values)

lemma ops_bytes [exo_ops]:
  "inte_lt 8 False a b = of_bool (a < b)" "inte_gt 8 False a b = of_bool (b < a)"
  "inte_eq 8 False a b = of_bool (a = b)" "inte_ne 8 False a b = of_bool (a \<noteq> b)"
  by (simp_all add: inte_lt_def inte_gt_def inte_eq_def inte_ne_def inte_new_def normalize_def
      exo_values kMask_def push_bit_eq_mult)

lemma ops_signed [exo_ops]:
  "inte_lt 64 True a b = of_bool (a <s b)" "inte_le 64 True a b = of_bool (a \<le>s b)"
  "inte_gt 64 True a b = of_bool (b <s a)" "inte_ge 64 True a b = of_bool (b \<le>s a)"
  "inte_eq 64 True a b = of_bool (a = b)" "inte_ne 64 True a b = of_bool (a \<noteq> b)"
  by (simp_all add: inte_lt_def inte_le_def inte_gt_def inte_ge_def inte_eq_def inte_ne_def inte_new_def
      normalize_def exo_values)

lemma ops_cmov [exo_ops]:
  "cmov64 p a b = (if p \<noteq> 0 then a else b)" "cmov_int64 p a b = (if p \<noteq> 0 then a else b)"
  "cmov8 p a b = (if p \<noteq> 0 then a AND 255 else b AND 255)"
  by (simp_all add: inte_cmov_def inte_new_def normalize_def kMask_def exo_values push_bit_eq_mult)

lemma and_255 [simp]: "v AND 255 = ucast (ucast v :: u8)" for v :: u64
proof -
  have "v AND 255 = take_bit 8 v" by (simp add: take_bit_eq_mask mask_eq_exp_minus_1)
  also have "\<dots> = ucast (ucast v :: u8)" by (rule bit_word_eqI) (auto simp: bit_simps)
  finally show ?thesis .
qed

lemma ucast_u8 [simp]: "ucast (ucast c :: u64) = (c :: u8)"
  by (rule bit_word_eqI) (simp add: bit_simps)

lemma ucast_u8_eq [simp]: "(ucast c :: u64) = ucast d \<longleftrightarrow> c = (d :: u8)"
  by (metis ucast_u8)

lemma ucast_u8_less [simp]: "(ucast c :: u64) < ucast d \<longleftrightarrow> c < (d :: u8)"
  using embed_less [where 'b=8, of c d] by (simp add: embed_def)

section \<open>Loops over a public index\<close>

lemma for_to_induct:
  assumes "\<And>i s. i < unat n \<Longrightarrow> P i s \<Longrightarrow> P (Suc i) (f (of_nat i) s)" and "P 0 s"
  shows "P (unat n) (fold f (for_to n) s)"
proof -
  have "P k (fold f (map of_nat [0..<k]) s)" if "k \<le> unat n" for k
    using that by (induction k) (simp_all add: assms)
  then show ?thesis by (simp add: for_to_def)
qed

lemma of_nat_index:
  assumes "i < unat (n :: u64)"
  shows "unat (of_nat i :: u64) = i" "(of_nat i < n) = True"
proof -
  have "unat n < 2 ^ LENGTH(64)" by (rule unsigned_less)
  with assms show "unat (of_nat i :: u64) = i" "(of_nat i < n) = True"
    by (simp_all add: unat_of_nat take_bit_nat_eq_self word_less_nat_alt)
qed

lemma for_to_0 [simp]: "for_to 0 = []"
  by (simp add: for_to_def)

lemma length_for_to [simp]: "length (for_to n) = unat n"
  by (simp add: for_to_def)

section \<open>Byte buffers\<close>

text \<open>
  The interface of the packed bytes: reading and writing at a public index, and the list of
  bytes the buffer holds. The client lemmas are the two loops that hide a secret index.
\<close>

locale byte_buffer =
  fixes get :: "'b \<Rightarrow> u64 \<Rightarrow> u64" and set_byte :: "'b \<Rightarrow> u64 \<Rightarrow> u64 \<Rightarrow> 'b"
    and capacity :: "'b \<Rightarrow> u64" and bytes :: "'b \<Rightarrow> u8 list" and invar :: "'b \<Rightarrow> bool"
  assumes len: "invar b \<Longrightarrow> length (bytes b) = unat (capacity b)"
    and get: "invar b \<Longrightarrow> k < unat (capacity b) \<Longrightarrow> get b (of_nat k) = ucast (bytes b ! k)"
    and set_byte: "invar b \<Longrightarrow> k < unat (capacity b) \<Longrightarrow> bytes (set_byte b (of_nat k) (ucast c)) = (bytes b)[k := c]"
    and invar_set: "invar b \<Longrightarrow> k < unat (capacity b) \<Longrightarrow> invar (set_byte b (of_nat k) v)"
    and capacity_set: "capacity (set_byte b i v) = capacity b"
begin

lemma write_loop:
  fixes enable :: bool and idx :: u64 and c :: u8
  assumes "invar b"
  defines "b' \<equiv> fold (\<lambda>k b. set_byte b k (if enable \<and> idx = k then ucast c else get b k)) (for_to (capacity b)) b"
  shows "invar b' \<and> capacity b' = capacity b \<and>
    bytes b' = (if enable then (bytes b)[unat idx := c] else bytes b)"
proof -
  let ?P = "\<lambda>i b'. invar b' \<and> capacity b' = capacity b \<and>
    bytes b' = (if enable \<and> unat idx < i then (bytes b)[unat idx := c] else bytes b)"
  have "?P (unat (capacity b)) b'"
    unfolding b'_def
  proof (rule for_to_induct [of _ ?P])
    fix i s
    assume i: "i < unat (capacity b)" and P: "?P i s"
    have eq: "idx = of_nat i \<longleftrightarrow> unat idx = i" using of_nat_index(1) [OF i] by auto
    have le: "length (bytes s) = length (bytes b)" using P len assms(1) by metis
    show "?P (Suc i) (set_byte s (of_nat i) (if enable \<and> idx = of_nat i then ucast c else get s (of_nat i)))"
    proof (cases "enable \<and> unat idx = i")
      case True
      then show ?thesis using i P eq by (simp add: invar_set capacity_set set_byte)
    next
      case False
      then show ?thesis using i P eq le len [OF assms(1)] get [of s i] set_byte [of s i "bytes s ! i"]
        by (auto simp: invar_set capacity_set less_Suc_eq)
    qed
  qed (simp add: assms(1))
  then show ?thesis using len [OF assms(1)] by (auto simp: list_update_beyond)
qed

lemma select_loop:
  fixes d :: u8
  assumes "invar b"
  shows "fold (\<lambda>k (r :: u64). if idx = k then ucast (ucast (get b k) :: u8) else ucast (ucast r :: u8)) (for_to (capacity b)) (ucast d) =
    (if unat idx < unat (capacity b) then ucast (bytes b ! unat idx) else ucast d)"
proof (rule for_to_induct [of _ "\<lambda>i (r :: u64). r = (if unat idx < i then ucast (bytes b ! unat idx) else ucast d)"])
  fix i and r :: u64
  assume i: "i < unat (capacity b)" and P: "r = (if unat idx < i then ucast (bytes b ! unat idx) else ucast d)"
  have "idx = of_nat i \<longleftrightarrow> unat idx = i" using of_nat_index(1) [OF i] by auto
  then show "(if idx = of_nat i then ucast (ucast (get b (of_nat i)) :: u8) else ucast (ucast r :: u8)) =
      (if unat idx < Suc i then ucast (bytes b ! unat idx) else ucast d)"
    using P get [OF assms i] by auto
qed simp

end

section \<open>The bytes of an encrypted string\<close>

definition buffer :: "stringe \<Rightarrow> u8 list" where
  "buffer s = map (\<lambda>k. ucast (get_char_public s (of_nat k))) [0..<unat (str_length s)]"

text \<open>
  The storage matches the capacity. The words take twice as many bytes as the string, so a
  capacity that was allocated is below half of the address space.
\<close>

definition stored :: "stringe \<Rightarrow> bool" where
  "stored s \<longleftrightarrow> length (str_words s) = unat (word_count (str_length s)) \<and> unat (str_length s) < 2 ^ 63"

lemma length_buffer [simp]: "length (buffer s) = unat (str_length s)"
  by (simp add: buffer_def)

lemma lane_shift_eq: "unat (lane_shift (idx mod 8) AND 63) = 8 * (unat idx mod 8)"
proof -
  define l where "l = unat idx mod 8"
  have l: "l < 8" "idx mod 8 = of_nat l"
    by (simp_all add: l_def word_arith_nat_mod)
  then have "l \<in> {0, 1, 2, 3, 4, 5, 6, 7}" by auto
  then have "unat (lane_shift (of_nat l) AND 63) = 8 * l"
    by (auto simp: lane_shift_def exo_ops)
  then show ?thesis by (simp add: l l_def)
qed

lemma get_char_public_eq:
  "get_char_public s idx = ucast (ucast (drop_bit (8 * (unat idx mod 8)) (str_words s ! (unat idx div 8))) :: u8)"
  by (simp add: get_char_public_def Let_def exo_ops lane_shift_eq unat_div)

lemma set_char_public_eq:
  "set_char_public s idx (ucast (c :: u8)) =
    (let w = unat idx div 8; sh = 8 * (unat idx mod 8)
     in s\<lparr>str_words := (str_words s)[w := (str_words s ! w AND NOT (push_bit sh 255)) OR push_bit sh (ucast c)]\<rparr>)"
  by (simp add: set_char_public_def Let_def exo_ops lane_shift_eq unat_div)

lemma byte_of_word:
  assumes "l < 8" "m < 8"
  shows "(ucast (drop_bit (8 * m) ((w AND NOT (push_bit (8 * l) 255)) OR push_bit (8 * l) (ucast (c :: u8))) :: u64) :: u8) =
    (if m = l then c else ucast (drop_bit (8 * m) (w :: u64)))"
proof (rule bit_word_eqI)
  fix n assume n: "n < LENGTH(8)"
  have ff: "(255 :: u64) = mask 8" by (simp add: mask_eq_exp_minus_1)
  have "8 * m + n < 64" using assms n by simp
  moreover have "8 * l \<le> 8 * m + n \<and> 8 * m + n - 8 * l < 8 \<longleftrightarrow> m = l" using n by auto
  ultimately show "bit (ucast (drop_bit (8 * m) ((w AND NOT (push_bit (8 * l) 255)) OR push_bit (8 * l) (ucast c))) :: u8) n =
    bit (if m = l then c else ucast (drop_bit (8 * m) w)) n"
    using n unfolding ff by (auto simp: bit_simps dest: bit_imp_le_length)
qed

lemma word_index:
  assumes "stored s" "k < unat (str_length s)"
  shows "k div 8 < length (str_words s)" "unat (of_nat k :: u64) = k"
proof -
  have l: "unat (str_length s) < 2 ^ 63" and w: "length (str_words s) = unat (word_count (str_length s))"
    using assms(1) by (auto simp: stored_def)
  have "unat (str_length s + 7) = unat (str_length s) + 7"
    using l by (simp add: unat_word_ariths)
  then have "length (str_words s) = (unat (str_length s) + 7) div 8"
    by (simp add: w word_count_def unat_div)
  then show "k div 8 < length (str_words s)" using assms(2) by simp
  show "unat (of_nat k :: u64) = k" using l assms(2) by (simp add: unat_of_nat take_bit_nat_eq_self)
qed

lemma stringe_set:
  assumes "stored s" "k < unat (str_length s)"
  shows "buffer (set_char_public s (of_nat k) (ucast c)) = (buffer s)[k := c]"
proof (rule nth_equalityI)
  have k: "k div 8 < length (str_words s)" "unat (of_nat k :: u64) = k" by (rule word_index [OF assms])+
  fix j assume "j < length (buffer (set_char_public s (of_nat k) (ucast c)))"
  then have "j < unat (str_length s)" by (simp add: set_char_public_eq Let_def)
  moreover from this have j: "j div 8 < length (str_words s)" "unat (of_nat j :: u64) = j"
    using word_index [OF assms(1)] by blast+
  moreover have "j = k \<longleftrightarrow> j div 8 = k div 8 \<and> j mod 8 = k mod 8"
    by (metis div_mult_mod_eq)
  ultimately show "buffer (set_char_public s (of_nat k) (ucast c)) ! j = (buffer s)[k := c] ! j"
    using k by (auto simp: buffer_def set_char_public_eq get_char_public_eq Let_def byte_of_word nth_list_update
        simp del: drop_bit_and drop_bit_or)
qed (simp add: set_char_public_eq Let_def)

lemma set_char_public_fields [simp]:
  "str_length (set_char_public s k v) = str_length s" "str_size (set_char_public s k v) = str_size s"
  "str_exception (set_char_public s k v) = str_exception s" "length (str_words (set_char_public s k v)) = length (str_words s)"
  by (simp_all add: set_char_public_def Let_def)

interpretation packed: byte_buffer get_char_public set_char_public str_length buffer stored
proof
  fix s k c v i
  assume s: "stored s"
  then show "length (buffer s) = unat (str_length s)" by simp
  assume k: "k < unat (str_length s)"
  then show "get_char_public s (of_nat k) = ucast (buffer s ! k)" by (simp add: buffer_def get_char_public_eq)
  show "buffer (set_char_public s (of_nat k) (ucast c)) = (buffer s)[k := c]" by (rule stringe_set [OF s k])
  show "stored (set_char_public s (of_nat k) v)" using s by (simp add: stored_def)
qed simp

lemma stored_new:
  assumes "unat n < 2 ^ 63"
  shows "stored (stringe_new n)" "buffer (stringe_new n) = replicate (unat n) 0"
proof -
  show st: "stored (stringe_new n)"
    using assms by (simp add: stored_def stringe_new_def allocate_words_def)
  have "get_char_public (stringe_new n) (of_nat k) = 0" if "k < unat n" for k
  proof -
    have "k div 8 < length (str_words (stringe_new n))" "unat (of_nat k :: u64) = k"
      using word_index [OF st] that by (simp_all add: stringe_new_def)
    then show ?thesis by (simp add: get_char_public_eq stringe_new_def allocate_words_def exo_ops)
  qed
  then show "buffer (stringe_new n) = replicate (unat n) 0"
    by (auto simp: buffer_def stringe_new_def intro!: nth_equalityI)
qed

section \<open>Reading and writing at a secret index\<close>

lemma oblivious_write_eq:
  "oblivious_write s idx (ucast (c :: u8)) en =
    fold (\<lambda>k b. set_char_public b k (if en \<noteq> 0 \<and> idx = k then ucast c else get_char_public b k)) (for_to (str_length s)) s"
  by (simp add: oblivious_write_def exo_ops get_char_public_eq cong: if_cong)

lemma write_frame:
  "str_size (oblivious_write s idx c en) = str_size s \<and> str_exception (oblivious_write s idx c en) = str_exception s"
proof -
  have "str_size (fold (\<lambda>k s. set_char_public s k (f k s)) ks s) = str_size s \<and>
      str_exception (fold (\<lambda>k s. set_char_public s k (f k s)) ks s) = str_exception s" for f ks
    by (induction ks arbitrary: s) simp_all
  then show ?thesis by (simp add: oblivious_write_def Let_def)
qed

lemma write_secret:
  assumes "stored s"
  shows "stored (oblivious_write s idx (ucast (c :: u8)) en)" "str_length (oblivious_write s idx (ucast c) en) = str_length s"
    "buffer (oblivious_write s idx (ucast c) en) = (if en \<noteq> 0 then (buffer s)[unat idx := c] else buffer s)"
    "str_size (oblivious_write s idx (ucast c) en) = str_size s"
    "str_exception (oblivious_write s idx (ucast c) en) = str_exception s"
  using packed.write_loop [OF assms, of "en \<noteq> 0" idx c] write_frame [of s idx "ucast c" en]
  by (simp_all add: oblivious_write_eq)

lemma read_secret:
  assumes "stored s"
  shows "get_char_by_secret_index s idx = (if unat idx < unat (str_length s) then ucast (buffer s ! unat idx) else 0)"
  using packed.select_loop [OF assms, of idx 0]
  by (simp add: get_char_by_secret_index_def exo_ops Let_def cong: if_cong)

lemma read_secret_src: "get_char_or_zero_public_src s src k = get_char_by_secret_index s src"
  by (simp add: get_char_or_zero_public_src_def get_char_by_secret_index_def)

section \<open>The text a string holds\<close>

text \<open>
  A string is sound when its storage matches its capacity and its size stays within it. Its text
  is the used part of the buffer.
\<close>

definition sound :: "stringe \<Rightarrow> bool" where
  "sound s \<longleftrightarrow> stored s \<and> str_size s \<le> str_length s"

definition text_of :: "stringe \<Rightarrow> u8 list" where
  "text_of s = take (unat (str_size s)) (buffer s)"

definition failed :: "stringe \<Rightarrow> bool" where
  "failed s \<longleftrightarrow> str_exception s \<noteq> 0"

lemma soundD: "sound s \<Longrightarrow> stored s \<and> unat (str_size s) \<le> unat (str_length s)"
  by (simp add: sound_def word_le_nat_alt)

lemma length_text [simp]: "sound s \<Longrightarrow> length (text_of s) = unat (str_size s)"
  by (auto simp: text_of_def min_def dest: soundD)

lemma unat_suc:
  assumes "x < (y :: u64)" shows "unat (x + 1) = Suc (unat x)"
proof -
  have "unat y < 2 ^ LENGTH(64)" by (rule unsigned_less)
  with assms show ?thesis by (simp add: unat_word_ariths word_less_nat_alt)
qed

text \<open>The effect of one byte appended, on the text: what push_back and append do at each step.\<close>

definition snoc_text :: "nat \<Rightarrow> u8 list \<Rightarrow> u8 \<Rightarrow> u8 list" where
  "snoc_text cap t c = (if length t < cap then t @ [c] else t)"

lemma write_at_end:
  fixes c :: u8 and en :: bool
  assumes "sound s" and "en \<longrightarrow> str_size s < str_length s"
  defines "s' \<equiv> oblivious_write s (str_size s) (ucast (c :: u8)) (of_bool en)\<lparr>str_size := if en then str_size s + 1 else str_size s\<rparr>"
  shows "sound s'" "str_length s' = str_length s" "str_exception s' = str_exception s"
    "text_of s' = (if en then text_of s @ [c] else text_of s)"
proof -
  let ?w = "oblivious_write s (str_size s) (ucast c) (of_bool en)"
  have st: "stored s" and le: "unat (str_size s) \<le> unat (str_length s)" using soundD [OF assms(1)] by auto
  note w = write_secret [OF st, of "str_size s" c "of_bool en"]
  have size: "unat (str_size s') = unat (str_size s) + of_bool en"
    using assms(2) by (auto simp: s'_def w unat_suc)
  have le': "unat (str_size s') \<le> unat (str_length s)"
    using assms(2) le by (auto simp: size word_less_nat_alt)
  show "str_length s' = str_length s" "str_exception s' = str_exception s" by (simp_all add: s'_def w)
  then show "sound s'"
    using le' w(1) by (simp add: sound_def word_le_nat_alt stored_def s'_def)
  have "buffer s' = buffer ?w" by (simp add: s'_def buffer_def get_char_public_eq)
  then show "text_of s' = (if en then text_of s @ [c] else text_of s)"
    using assms(2) le by (auto simp: text_of_def w word_less_nat_alt unat_suc take_Suc_conv_app_nth s'_def)
qed

lemma record_exception [simp]:
  "sound (s\<lparr>str_exception := e\<rparr>) = sound s" "text_of (s\<lparr>str_exception := e\<rparr>) = text_of s"
  by (simp_all add: sound_def stored_def text_of_def buffer_def get_char_public_eq)

lemma push_back_text:
  fixes c :: u8
  assumes "sound s"
  defines "s' \<equiv> push_back s (ucast c)"
  shows "sound s'" "str_length s' = str_length s"
    "text_of s' = snoc_text (unat (str_length s)) (text_of s) c"
    "failed s' \<longleftrightarrow> failed s \<or> length (text_of s) = unat (str_length s)"
proof -
  let ?en = "str_size s < str_length s"
  note w = write_at_end [OF assms(1), of ?en c]
  have st: "stored s" and le: "unat (str_size s) \<le> unat (str_length s)" using soundD [OF assms(1)] by auto
  have s': "s' = oblivious_write s (str_size s) (ucast c) (of_bool ?en)
      \<lparr>str_size := if ?en then str_size s + 1 else str_size s,
       str_exception := of_bool (str_exception s \<noteq> 0 \<or> \<not> ?en)\<rparr>"
    by (simp add: s'_def push_back_def Let_def exo_ops write_frame write_secret [OF st])
  show "sound s'" "str_length s' = str_length s" using w(1,2) by (simp_all add: s')
  show "text_of s' = snoc_text (unat (str_length s)) (text_of s) c"
    using w(4) by (simp add: s' snoc_text_def assms(1) word_less_nat_alt)
  show "failed s' \<longleftrightarrow> failed s \<or> length (text_of s) = unat (str_length s)"
    using le by (auto simp: s' failed_def assms(1) word_less_nat_alt)
qed

lemma append_round_text:
  fixes c :: u8
  assumes "sound s" and r: "get_char_public rhs (of_nat i) = ucast c"
  defines "s' \<equiv> append_round s rhs (of_nat i)" and "q \<equiv> (of_nat i < str_size rhs)"
  shows "sound s'" "str_length s' = str_length s"
    "text_of s' = (if q then snoc_text (unat (str_length s)) (text_of s) c else text_of s)"
    "failed s' \<longleftrightarrow> failed s \<or> q \<and> length (text_of s) = unat (str_length s)"
proof -
  let ?en = "q \<and> str_size s < str_length s"
  note w = write_at_end [OF assms(1), of ?en c]
  have st: "stored s" and le: "unat (str_size s) \<le> unat (str_length s)" using soundD [OF assms(1)] by auto
  have s': "s' = oblivious_write s (str_size s) (ucast c) (of_bool ?en)
      \<lparr>str_size := if ?en then str_size s + 1 else str_size s,
       str_exception := of_bool (str_exception s \<noteq> 0 \<or> q \<and> \<not> str_size s < str_length s)\<rparr>"
    by (simp add: s'_def append_round_def Let_def exo_ops write_frame write_secret [OF st] r q_def)
  show "sound s'" "str_length s' = str_length s" using w(1,2) by (simp_all add: s')
  show "text_of s' = (if q then snoc_text (unat (str_length s)) (text_of s) c else text_of s)"
    using w(4) by (auto simp: s' snoc_text_def assms(1) word_less_nat_alt)
  show "failed s' \<longleftrightarrow> failed s \<or> q \<and> length (text_of s) = unat (str_length s)"
    using le by (auto simp: s' failed_def assms(1) word_less_nat_alt)
qed

lemma index_in_text:
  assumes "sound rhs" "i < unat (str_length rhs)"
  shows "of_nat i < str_size rhs \<longleftrightarrow> i < length (text_of rhs)"
    "get_char_public rhs (of_nat i) = ucast (buffer rhs ! i)"
    "i < length (text_of rhs) \<Longrightarrow> text_of rhs ! i = buffer rhs ! i"
proof -
  show "of_nat i < str_size rhs \<longleftrightarrow> i < length (text_of rhs)"
    using assms of_nat_index(1) [OF assms(2)] by (simp add: word_less_nat_alt)
  show "get_char_public rhs (of_nat i) = ucast (buffer rhs ! i)"
    using packed.get assms soundD by blast
  show "i < length (text_of rhs) \<Longrightarrow> text_of rhs ! i = buffer rhs ! i" by (simp add: text_of_def)
qed

lemma append_rounds:
  assumes "sound s" "sound rhs"
  defines "s' \<equiv> fold (\<lambda>i s. append_round s rhs i) (for_to (str_length rhs)) s"
  shows "sound s' \<and> str_length s' = str_length s \<and>
    text_of s' = take (unat (str_length s)) (text_of s @ text_of rhs) \<and>
    (failed s' \<longleftrightarrow> failed s \<or> unat (str_length s) < length (text_of s) + length (text_of rhs))"
proof -
  let ?cap = "unat (str_length s)" and ?t = "text_of s" and ?u = "text_of rhs"
  let ?P = "\<lambda>i s'. sound s' \<and> str_length s' = str_length s \<and> text_of s' = take ?cap (?t @ take i ?u) \<and>
    (failed s' \<longleftrightarrow> failed s \<or> ?cap < length ?t + min i (length ?u))"
  have cap: "length ?t \<le> ?cap" "length ?u \<le> unat (str_length rhs)"
    using assms soundD by auto
  have "?P (unat (str_length rhs)) s'"
    unfolding s'_def
  proof (rule for_to_induct [of _ ?P])
    fix i s' assume i: "i < unat (str_length rhs)" and P: "?P i s'"
    note x = index_in_text [OF assms(2) i]
    note r = append_round_text [of s' rhs i "buffer rhs ! i"]
    from P have s': "sound s'" "str_length s' = str_length s" by auto
    have step: "take (Suc i) ?u = take i ?u @ [buffer rhs ! i]" if "i < length ?u"
      using that x(3) by (simp add: take_Suc_conv_app_nth)
    show "?P (Suc i) (append_round s' rhs (of_nat i))"
    proof (cases "i < length ?u")
      case True
      have "snoc_text ?cap (take ?cap (?t @ take i ?u)) (buffer rhs ! i) = take ?cap (?t @ take (Suc i) ?u)"
        using True cap by (auto simp: snoc_text_def step min_def)
      then show ?thesis using r [OF s'(1) x(2)] s' P True x(1) cap by (auto simp: min_def)
    next
      case False
      then show ?thesis using r [OF s'(1) x(2)] s' P x(1) by (auto simp: min_def)
    qed
  next
    show "?P 0 s" using assms(1) cap by simp
  qed
  then show ?thesis using cap by (simp add: min_def)
qed

lemma append_text:
  assumes "sound s" "sound rhs"
  defines "s' \<equiv> append_stringe s rhs"
  shows "sound s'" "str_length s' = str_length s"
    "text_of s' = take (unat (str_length s)) (text_of s @ text_of rhs)"
    "failed s' \<longleftrightarrow> failed s \<or> failed rhs \<or> unat (str_length s) < length (text_of s) + length (text_of rhs)"
  using append_rounds [OF assms(1,2)] by (auto simp: s'_def append_stringe_def Let_def failed_def exo_ops)

lemma new_text:
  assumes "unat n < 2 ^ 63"
  shows "sound (stringe_new n)" "text_of (stringe_new n) = []" "\<not> failed (stringe_new n)"
  using stored_new [OF assms] by (simp_all add: sound_def text_of_def failed_def stringe_new_def exo_ops)

lemma concat_text:
  assumes "sound l" "sound r" and "unat (str_length l) + unat (str_length r) < 2 ^ 63"
  defines "s' \<equiv> concat_stringe l r"
  shows "sound s'" "str_length s' = str_length l + str_length r"
    "text_of s' = text_of l @ text_of r" "failed s' \<longleftrightarrow> failed l \<or> failed r"
proof -
  let ?n = "str_length l + str_length r"
  have n: "unat ?n = unat (str_length l) + unat (str_length r)" using assms(3) by (simp add: unat_word_ariths)
  then have lim: "unat ?n < 2 ^ 63" using assms(3) by simp
  have le: "unat (str_size l) + unat (str_size r) \<le> unat ?n" using soundD [OF assms(1)] soundD [OF assms(2)] n by simp
  note new = new_text [OF lim]
  have len: "str_length (stringe_new ?n) = ?n" by (simp add: stringe_new_def)
  note a = append_text [OF new(1) assms(1)]
  note b = append_text [OF a(1) assms(2)]
  have t: "text_of (append_stringe (stringe_new ?n) l) = text_of l" "failed (append_stringe (stringe_new ?n) l) = failed l"
    using a(3,4) new le assms(1,2) by (simp_all add: len)
  show "sound s'" "str_length s' = ?n" using a b by (simp_all add: s'_def concat_stringe_def Let_def len)
  show "text_of s' = text_of l @ text_of r"
    using b(3) a(2) le assms(1,2) by (simp add: s'_def concat_stringe_def Let_def len t)
  show "failed s' \<longleftrightarrow> failed l \<or> failed r"
  proof -
    have "failed s' \<longleftrightarrow> failed (append_stringe (append_stringe (stringe_new ?n) l) r) \<or> failed l \<or> failed r"
      by (auto simp: s'_def concat_stringe_def Let_def failed_def exo_ops)
    then show ?thesis using b(4) a(2) le assms(1,2) by (auto simp: len t)
  qed
qed

text \<open>
  A string appended to itself: the bound of the loop is read from the string that grows, so the
  loop fills the whole capacity with copies of the text and reports a failure.
\<close>

lemma append_self_text:
  assumes "sound s" "text_of s \<noteq> []"
  shows "text_of (append_self s) =
      map (\<lambda>j. text_of s ! (j mod length (text_of s))) [0..<unat (str_length s)] \<and> failed (append_self s)"
proof -
  let ?cap = "unat (str_length s)" and ?t = "text_of s" let ?k = "length ?t"
  let ?copies = "\<lambda>n. map (\<lambda>j. ?t ! (j mod ?k)) [0..<n]"
  let ?P = "\<lambda>i s'. sound s' \<and> str_length s' = str_length s \<and> text_of s' = ?copies (min (?k + i) ?cap) \<and>
    (failed s' \<longleftrightarrow> failed s \<or> ?cap < ?k + i)"
  define s' where "s' = fold (\<lambda>i s. append_round s s i) (for_to (str_length s)) s"
  have "0 < ?k" using assms(2) by blast
  then have k: "0 < ?k" "?k \<le> ?cap" using length_text [OF assms(1)] soundD [OF assms(1)] by simp_all
  have "?P ?cap s'"
    unfolding s'_def
  proof (rule for_to_induct [of _ ?P])
    fix i s' assume i: "i < ?cap" and P: "?P i s'"
    then have s': "sound s'" "str_length s' = str_length s" by auto
    then have i': "i < unat (str_length s')" using i by simp
    note x = index_in_text [OF s'(1) i']
    note r = append_round_text [OF s'(1) x(2)]
    have q: "i < length (text_of s')" using P i k by simp
    then have b: "buffer s' ! i = ?t ! (i mod ?k)" using x(3) P by (auto simp: min_def)
    show "?P (Suc i) (append_round s' s' (of_nat i))"
      using r x(1) q P s' b by (auto simp: snoc_text_def min_def)
  next
    show "?P 0 s" using assms(1) k by (auto intro: nth_equalityI)
  qed
  moreover have "append_self s = s'\<lparr>str_exception := lor64 (str_exception s') (str_exception s')\<rparr>"
    by (simp add: append_self_def s'_def Let_def)
  ultimately show ?thesis using k by (auto simp: failed_def exo_ops)
qed

section \<open>Comparison\<close>

text \<open>The sign of the lexicographic order of two texts.\<close>

fun lex_sign :: "u8 list \<Rightarrow> u8 list \<Rightarrow> u64" where
  "lex_sign [] [] = 0"
| "lex_sign [] (y # ys) = - 1"
| "lex_sign (x # xs) [] = 1"
| "lex_sign (x # xs) (y # ys) = (if x < y then - 1 else if y < x then 1 else lex_sign xs ys)"

text \<open>One round of the loop of compare at a public index, on the two texts.\<close>

definition compare_round :: "u8 list \<Rightarrow> u8 list \<Rightarrow> nat \<Rightarrow> u64 \<times> u64 \<Rightarrow> u64 \<times> u64" where
  "compare_round t u i = (\<lambda>(result, decided).
     let l = i < length t; r = i < length u; lt = l \<and> r \<and> t ! i < u ! i; gt = l \<and> r \<and> u ! i < t ! i
     in (if decided = 0 \<and> (gt \<or> l \<and> \<not> r) then 1 else if decided = 0 \<and> (lt \<or> r \<and> \<not> l) then - 1 else result,
         of_bool (decided \<noteq> 0 \<or> l \<noteq> r \<or> lt \<or> gt)))"

lemma compare_rounds:
  "length t \<le> n + k \<Longrightarrow> length u \<le> n + k \<Longrightarrow>
   fst (fold (compare_round t u) [k..<n + k] (result, decided)) =
    (if decided \<noteq> 0 then result else if drop k t = [] \<and> drop k u = [] then result else
     (if drop k t = drop k u then result else lex_sign (drop k t) (drop k u)))"
proof (induction n arbitrary: k result decided)
  case 0
  then show ?case by simp
next
  case (Suc n)
  have "[k..<Suc n + k] = k # [Suc k..<n + Suc k]" by (simp add: upt_rec)
  then show ?case
    using Suc.IH [of "Suc k"] Suc.prems
    by (cases "k < length t"; cases "k < length u")
      (auto simp: compare_round_def Let_def Cons_nth_drop_Suc [symmetric] not_less)
qed

lemma lex_sign_same: "lex_sign t t = 0"
  by (induction t) simp_all

lemma fold_for_to:
  assumes "\<And>i s. i < unat n \<Longrightarrow> f (of_nat i) s = g i s"
  shows "fold f (for_to n) s = fold g [0..<unat n] s"
  unfolding for_to_def fold_map by (rule fold_cong) (auto simp: assms)

lemma index_less:
  "sound s \<Longrightarrow> i < unat n \<Longrightarrow> (of_nat i :: u64) < str_size s \<longleftrightarrow> i < length (text_of s)" for n :: u64
  by (simp add: word_less_nat_alt of_nat_index(1) [of i n])

lemma text_char:
  assumes "sound s" "i < length (text_of s)"
  shows "get_char_public s (of_nat i) = ucast (text_of s ! i)" "of_nat i < str_length s"
proof -
  have i: "i < unat (str_length s)" using assms soundD [OF assms(1)] by simp
  show "get_char_public s (of_nat i) = ucast (text_of s ! i)"
    using index_in_text [OF assms(1) i] assms(2) by simp
  show "of_nat i < str_length s" using of_nat_index(2) [OF i] by simp
qed

lemma compare_text:
  assumes "sound s" "sound rhs"
  shows "compare_stringe s rhs = lex_sign (text_of s) (text_of rhs)"
proof -
  define m where "m = (if str_length s > str_length rhs then str_length s else str_length rhs)"
  have len: "length (text_of s) \<le> unat m" "length (text_of rhs) \<le> unat m"
    using soundD [OF assms(1)] soundD [OF assms(2)] assms by (auto simp: m_def word_less_nat_alt)
  have "compare_stringe s rhs = fst (fold (compare_round (text_of s) (text_of rhs)) [0..<unat m] (0, 0))"
    unfolding compare_stringe_def m_def [symmetric] Let_def ops_plain
  proof (rule arg_cong [of _ _ fst], rule fold_for_to, goal_cases)
    case (1 i p)
    note l = index_less [OF assms(1) 1] index_less [OF assms(2) 1]
    show ?case
      using text_char [OF assms(1), of i] text_char [OF assms(2), of i]
      by (cases p; cases "i < length (text_of s)"; cases "i < length (text_of rhs)")
        (auto simp: compare_round_def Let_def exo_ops l simp del: length_text)
  qed
  also have "\<dots> = lex_sign (text_of s) (text_of rhs)"
    using compare_rounds [of "text_of s" "unat m" 0 "text_of rhs" 0 0] len by (auto simp: lex_sign_same)
  finally show ?thesis .
qed

end
