(* ===== verification/Exo_Search.thy ===== *)
theory Exo_Search
  imports Exo_String_Proofs "HOL-Library.Sublist"
begin

text \<open>
  The searches of the encrypted strings (src/exo/mojov-string.h) against their specifications
  on texts: the first or the last position of a text with a property, the prefix, suffix and
  sublist orders, and the part of a text that substr copies.
\<close>

section \<open>Scans\<close>

definition index_of :: "nat option \<Rightarrow> u64" where
  "index_of r = (case r of None \<Rightarrow> npos | Some i \<Rightarrow> of_nat i)"

definition first_index :: "(nat \<Rightarrow> bool) \<Rightarrow> nat \<Rightarrow> u64" where
  "first_index P n = index_of (List.find P [0..<n])"

definition last_index :: "(nat \<Rightarrow> bool) \<Rightarrow> nat \<Rightarrow> u64" where
  "last_index P n = index_of (List.find P (rev [0..<n]))"

lemma find_append: "List.find P (xs @ ys) = (case List.find P xs of None \<Rightarrow> List.find P ys | Some x \<Rightarrow> Some x)"
  by (induction xs) simp_all

lemma first_scan:
  "fold (\<lambda>i (best, found). (if P i \<and> found = (0 :: u64) then of_nat i else best, of_bool (found \<noteq> 0 \<or> P i))) [0..<n] (npos, 0) =
    (first_index P n, of_bool (\<exists>i < n. P i))"
proof (induction n)
  case (Suc n)
  have "(\<exists>i < n. P i) \<longleftrightarrow> List.find P [0..<n] \<noteq> None" by (auto simp: find_None_iff)
  then show ?case using Suc
    by (auto simp: first_index_def index_of_def find_append less_Suc_eq split: option.splits)
qed (simp add: first_index_def index_of_def)

lemma last_scan: "fold (\<lambda>i best. if P i then of_nat i else best) [0..<n] npos = last_index P n"
  by (induction n) (simp_all add: last_index_def index_of_def)

lemma find_upt_take:
  "m \<le> n \<Longrightarrow> (\<And>i. P i \<Longrightarrow> i < m) \<Longrightarrow> List.find P [0..<n] = List.find P [0..<m]"
proof (induction n)
  case (Suc n)
  show ?case
  proof (cases "m \<le> n")
    case True
    then have "\<not> P n" using Suc.prems by (metis leD)
    then show ?thesis using Suc True by (auto simp: find_append split: option.splits)
  next
    case False
    then show ?thesis using Suc.prems by (simp add: le_Suc_eq)
  qed
qed simp

lemma find_rev_upt_take:
  "m \<le> n \<Longrightarrow> (\<And>i. P i \<Longrightarrow> i < m) \<Longrightarrow> List.find P (rev [0..<n]) = List.find P (rev [0..<m])"
proof (induction n)
  case (Suc n)
  show ?case
  proof (cases "m \<le> n")
    case True
    then have "\<not> P n" using Suc.prems by (metis leD)
    then show ?thesis using Suc True by simp
  next
    case False
    then show ?thesis using Suc.prems by (simp add: le_Suc_eq)
  qed
qed simp

lemma find_cong: "xs = ys \<Longrightarrow> (\<And>x. x \<in> set ys \<Longrightarrow> P x = Q x) \<Longrightarrow> List.find P xs = List.find Q ys"
  by (induction xs arbitrary: ys) auto

lemma first_index_text:
  assumes "m \<le> n" shows "first_index (\<lambda>i. i < m \<and> P i) n = first_index P m"
proof -
  have "List.find (\<lambda>i. i < m \<and> P i) [0..<n] = List.find (\<lambda>i. i < m \<and> P i) [0..<m]"
    using assms by (rule find_upt_take) simp
  also have "\<dots> = List.find P [0..<m]" by (rule find_cong) auto
  finally show ?thesis by (simp add: first_index_def)
qed

lemma last_index_text:
  assumes "m \<le> n" shows "last_index (\<lambda>i. i < m \<and> P i) n = last_index P m"
proof -
  have "List.find (\<lambda>i. i < m \<and> P i) (rev [0..<n]) = List.find (\<lambda>i. i < m \<and> P i) (rev [0..<m])"
    using assms by (rule find_rev_upt_take) simp
  also have "\<dots> = List.find P (rev [0..<m])" by (rule find_cong) auto
  finally show ?thesis by (simp add: last_index_def)
qed

lemma all_scan: "fold (\<lambda>j m. of_bool (m \<noteq> (0 :: u64) \<and> Q j)) [0..<n] (of_bool b) = of_bool (b \<and> (\<forall>j < n. Q j))"
  by (induction n) (auto simp: less_Suc_eq)

lemma any_scan: "fold (\<lambda>j a. of_bool (a \<noteq> (0 :: u64) \<or> Q j)) [0..<n] 0 = of_bool (\<exists>j < n. Q j)"
  by (induction n) (auto simp: less_Suc_eq)

lemma kNpos: "kNposPlain = npos"
  by (simp add: kNposPlain_def npos_def)

lemma first_loop:
  assumes "\<And>i. i < unat n \<Longrightarrow> M (of_nat i) = of_bool (P i)"
  shows "fold (\<lambda>i (best, found). (cmov64 (land64 (M i) (lnot64 found)) i best, lor64 found (M i))) (for_to n) (npos, 0) =
    (first_index P (unat n), of_bool (\<exists>i < unat n. P i))"
proof -
  have "fold (\<lambda>i (best, found). (cmov64 (land64 (M i) (lnot64 found)) i best, lor64 found (M i))) (for_to n) (npos, 0) =
    fold (\<lambda>i (best, found). (if P i \<and> found = 0 then of_nat i else best, of_bool (found \<noteq> 0 \<or> P i))) [0..<unat n] (npos, 0)"
    by (rule fold_for_to) (auto simp: exo_ops assms split: prod.splits)
  then show ?thesis by (simp only: first_scan)
qed

lemma last_loop:
  assumes "\<And>i. i < unat n \<Longrightarrow> M (of_nat i) = of_bool (P i)"
  shows "fold (\<lambda>i best. cmov64 (M i) i best) (for_to n) npos = last_index P (unat n)"
proof -
  have "fold (\<lambda>i best. cmov64 (M i) i best) (for_to n) npos = fold (\<lambda>i best. if P i then of_nat i else best) [0..<unat n] npos"
    by (rule fold_for_to) (simp add: exo_ops assms)
  then show ?thesis by (simp only: last_scan)
qed

section \<open>Searching for characters\<close>

text \<open>Positions of a text whose byte satisfies Q, as a loop of the class looks for them.\<close>

lemma text_cap: "sound s \<Longrightarrow> length (text_of s) \<le> unat (str_length s)"
  by (simp add: soundD)

lemma pos_le: "i < unat n \<Longrightarrow> pos \<le> (of_nat i :: u64) \<longleftrightarrow> unat pos \<le> i" for n :: u64
  by (simp add: word_le_nat_alt of_nat_index(1) [of i n])

lemma le_pos: "i < unat n \<Longrightarrow> (of_nat i :: u64) \<le> pos \<longleftrightarrow> i \<le> unat pos" for n :: u64
  by (simp add: word_le_nat_alt of_nat_index(1) [of i n])

lemma first_byte:
  assumes "sound s" and "\<And>i. i < length (text_of s) \<Longrightarrow> B (of_nat i) \<noteq> 0 \<longleftrightarrow> Q (text_of s ! i)"
  shows "fst (fold (\<lambda>i (best, found). (cmov64 (land64 (land64 (land64 (ge64 i pos) (lt64 i (str_size s))) (B i)) (lnot64 found)) i best,
      lor64 found (land64 (land64 (ge64 i pos) (lt64 i (str_size s))) (B i)))) (for_to (str_length s)) (npos, 0)) =
    first_index (\<lambda>i. unat pos \<le> i \<and> Q (text_of s ! i)) (length (text_of s))"
proof (subst first_loop [where P = "\<lambda>i. i < length (text_of s) \<and> unat pos \<le> i \<and> Q (text_of s ! i)"])
  fix i assume "i < unat (str_length s)"
  then show "land64 (land64 (ge64 (of_nat i) pos) (lt64 (of_nat i) (str_size s))) (B (of_nat i)) =
      of_bool (i < length (text_of s) \<and> unat pos \<le> i \<and> Q (text_of s ! i))"
    using assms(2) [of i] index_less [OF assms(1)] pos_le [of i "str_length s" pos]
    by (auto simp: exo_ops simp del: length_text)
qed (simp add: first_index_text [OF text_cap [OF assms(1)]] del: length_text)

lemma last_byte:
  assumes "sound s" and "\<And>i. i < length (text_of s) \<Longrightarrow> B (of_nat i) \<noteq> 0 \<longleftrightarrow> Q (text_of s ! i)"
  shows "fold (\<lambda>i best. cmov64 (land64 (lt64 i (str_size s)) (B i)) i best) (for_to (str_length s)) npos =
    last_index (\<lambda>i. Q (text_of s ! i)) (length (text_of s))"
proof (subst last_loop [where P = "\<lambda>i. i < length (text_of s) \<and> Q (text_of s ! i)"])
  fix i assume "i < unat (str_length s)"
  then show "land64 (lt64 (of_nat i) (str_size s)) (B (of_nat i)) = of_bool (i < length (text_of s) \<and> Q (text_of s ! i))"
    using assms(2) [of i] index_less [OF assms(1)] by (auto simp: exo_ops simp del: length_text)
qed (simp add: last_index_text [OF text_cap [OF assms(1)]] del: length_text)

lemma eq_byte:
  fixes c :: u8
  assumes "sound s" "i < length (text_of s)"
  shows "eq8 (get_char_public s (of_nat i)) (ucast c) \<noteq> 0 \<longleftrightarrow> text_of s ! i = c"
    "ne8 (get_char_public s (of_nat i)) (ucast c) \<noteq> 0 \<longleftrightarrow> text_of s ! i \<noteq> c"
  using text_char [OF assms] by (simp_all add: exo_ops)

lemma any_of_text:
  assumes "sound s" "sound chars" "i < length (text_of s)"
  shows "any_of s chars (of_nat i) = of_bool (text_of s ! i \<in> set (text_of chars))"
proof -
  have "any_of s chars (of_nat i) = fold (\<lambda>j a. of_bool (a \<noteq> (0 :: u64) \<or> j < length (text_of chars) \<and> text_of s ! i = text_of chars ! j))
      [0..<unat (str_length chars)] 0"
    unfolding any_of_def ops_plain Let_def
  proof (rule fold_for_to)
    fix j a assume j: "j < unat (str_length chars)"
    show "lor64 a (land64 (lt64 (of_nat j) (str_size chars)) (inte_eq 8 False (get_char_public s (of_nat i)) (get_char_public chars (of_nat j)))) =
        of_bool (a \<noteq> (0 :: u64) \<or> j < length (text_of chars) \<and> text_of s ! i = text_of chars ! j)"
      using index_less [OF assms(2) j] text_char(1) [OF assms(2), of j] text_char(1) [OF assms(1,3)]
      by (cases "j < length (text_of chars)") (auto simp: exo_ops simp del: length_text)
  qed
  also have "\<dots> = of_bool (\<exists>j < unat (str_length chars). j < length (text_of chars) \<and> text_of s ! i = text_of chars ! j)"
    by (rule any_scan)
  also have "\<dots> = of_bool (text_of s ! i \<in> set (text_of chars))"
    unfolding in_set_conv_nth using text_cap [OF assms(2)] by (metis order_less_le_trans)
  finally show ?thesis .
qed

text \<open>The eight searches for one character or for a set of characters.\<close>

lemma find_char_text:
  "sound s \<Longrightarrow> find_char s (ucast (c :: u8)) pos = first_index (\<lambda>i. unat pos \<le> i \<and> text_of s ! i = c) (length (text_of s))"
  unfolding find_char_def ops_plain kNpos Let_def using eq_byte(1) first_byte [of s _ "\<lambda>x. x = c"] by (simp add: ops_plain)

lemma rfind_char_text:
  "sound s \<Longrightarrow> rfind_char s (ucast (c :: u8)) = last_index (\<lambda>i. text_of s ! i = c) (length (text_of s))"
  unfolding rfind_char_def ops_plain kNpos Let_def using eq_byte(1) last_byte [of s _ "\<lambda>x. x = c"] by (simp add: ops_plain)

lemma find_first_not_of_char_text:
  "sound s \<Longrightarrow> find_first_not_of_char s (ucast (c :: u8)) pos =
    first_index (\<lambda>i. unat pos \<le> i \<and> text_of s ! i \<noteq> c) (length (text_of s))"
  unfolding find_first_not_of_char_def ops_plain kNpos Let_def
  using eq_byte(2) first_byte [of s _ "\<lambda>x. x \<noteq> c"] by (simp add: ops_plain)

lemma find_last_not_of_char_text:
  "sound s \<Longrightarrow> find_last_not_of_char s (ucast (c :: u8)) = last_index (\<lambda>i. text_of s ! i \<noteq> c) (length (text_of s))"
  unfolding find_last_not_of_char_def ops_plain kNpos Let_def
  using eq_byte(2) last_byte [of s _ "\<lambda>x. x \<noteq> c"] by (simp add: ops_plain)

lemma any_byte:
  assumes "sound s" "sound chars" "i < length (text_of s)"
  shows "any_of s chars (of_nat i) \<noteq> 0 \<longleftrightarrow> text_of s ! i \<in> set (text_of chars)"
    "lnot64 (any_of s chars (of_nat i)) \<noteq> 0 \<longleftrightarrow> text_of s ! i \<notin> set (text_of chars)"
  by (simp_all add: any_of_text [OF assms] exo_ops)

lemma find_first_of_text:
  "sound s \<Longrightarrow> sound chars \<Longrightarrow> find_first_of s chars pos =
    first_index (\<lambda>i. unat pos \<le> i \<and> text_of s ! i \<in> set (text_of chars)) (length (text_of s))"
  unfolding find_first_of_def ops_plain kNpos Let_def by (rule first_byte) (simp_all add: any_byte)

lemma find_first_not_of_text:
  "sound s \<Longrightarrow> sound chars \<Longrightarrow> find_first_not_of s chars pos =
    first_index (\<lambda>i. unat pos \<le> i \<and> text_of s ! i \<notin> set (text_of chars)) (length (text_of s))"
  unfolding find_first_not_of_def ops_plain kNpos Let_def by (rule first_byte) (simp_all only: any_byte)

lemma find_last_of_text:
  "sound s \<Longrightarrow> sound chars \<Longrightarrow> find_last_of s chars =
    last_index (\<lambda>i. text_of s ! i \<in> set (text_of chars)) (length (text_of s))"
  unfolding find_last_of_def ops_plain kNpos Let_def by (rule last_byte) (simp_all only: any_byte)

lemma find_last_not_of_text:
  "sound s \<Longrightarrow> sound chars \<Longrightarrow> find_last_not_of s chars =
    last_index (\<lambda>i. text_of s ! i \<notin> set (text_of chars)) (length (text_of s))"
  unfolding find_last_not_of_def ops_plain kNpos Let_def by (rule last_byte) (simp_all only: any_byte)

section \<open>Searching for a string\<close>

definition occurs_at :: "u8 list \<Rightarrow> u8 list \<Rightarrow> nat \<Rightarrow> bool" where
  "occurs_at n t i \<longleftrightarrow> take (length n) (drop i t) = n"

lemma occurs_at_nth:
  assumes "i \<le> length t"
  shows "occurs_at n t i \<longleftrightarrow> (\<forall>j < length n. i + j < length t \<and> t ! (i + j) = n ! j)"
proof
  assume o: "occurs_at n t i"
  then have "length n \<le> length t - i" by (metis occurs_at_def length_take length_drop min.absorb_iff1 min.commute)
  then show "\<forall>j < length n. i + j < length t \<and> t ! (i + j) = n ! j"
  proof (intro allI impI conjI)
    fix j assume j: "j < length n"
    then show "i + j < length t" using \<open>length n \<le> length t - i\<close> by simp
    have "n ! j = take (length n) (drop i t) ! j" using o by (simp only: occurs_at_def)
    then show "t ! (i + j) = n ! j" using j assms by simp
  qed
next
  assume a: "\<forall>j < length n. i + j < length t \<and> t ! (i + j) = n ! j"
  have "length n \<le> length t - i"
    using a assms by (cases "length n") auto
  then show "occurs_at n t i"
    using a assms by (auto simp: occurs_at_def intro!: nth_equalityI)
qed

lemma match_byte:
  assumes "sound s" "sound needle" "i < unat (str_length s)" "j < unat (str_length needle)"
  shows "cmov64 (lt64 (of_nat j) (str_size needle))
      (land64 (lt64 (of_nat i + of_nat j) (str_size s))
        (inte_eq 8 False (get_char_or_zero s (of_nat i + of_nat j)) (get_char_public needle (of_nat j)))) 1 =
    of_bool (j < length (text_of needle) \<longrightarrow> i + j < length (text_of s) \<and> text_of s ! (i + j) = text_of needle ! j)"
proof -
  have lim: "unat (str_length s) < 2 ^ 63" "unat (str_length needle) < 2 ^ 63"
    using assms(1,2) soundD stored_def by blast+
  then have u: "unat (of_nat (i + j) :: u64) = i + j"
    using assms(3,4) by (simp add: unat_of_nat take_bit_nat_eq_self del: of_nat_add)
  then have less: "(of_nat (i + j) :: u64) < str_size s \<longleftrightarrow> i + j < length (text_of s)"
    using assms(1) by (simp add: word_less_nat_alt)
  show ?thesis
    using index_less [OF assms(2,4)] less text_char [OF assms(1), of "i + j"] text_char(1) [OF assms(2), of j]
    by (auto simp: exo_ops get_char_or_zero_def not_le simp del: length_text simp flip: of_nat_add)
qed

lemma match_loop:
  assumes "sound s" "sound needle" "i < unat (str_length s)"
  shows "fold (\<lambda>j m. land64 m (cmov64 (lt64 j (str_size needle))
      (land64 (lt64 (of_nat i + j) (str_size s)) (inte_eq 8 False (get_char_or_zero s (of_nat i + j)) (get_char_public needle j))) 1))
      (for_to (str_length needle)) (of_bool b) =
    of_bool (b \<and> (\<forall>j < length (text_of needle). i + j < length (text_of s) \<and> text_of s ! (i + j) = text_of needle ! j))"
proof -
  let ?Q = "\<lambda>j. j < length (text_of needle) \<longrightarrow> i + j < length (text_of s) \<and> text_of s ! (i + j) = text_of needle ! j"
  have "fold (\<lambda>j m. land64 m (cmov64 (lt64 j (str_size needle))
      (land64 (lt64 (of_nat i + j) (str_size s)) (inte_eq 8 False (get_char_or_zero s (of_nat i + j)) (get_char_public needle j))) 1))
      (for_to (str_length needle)) (of_bool b) =
    fold (\<lambda>j m. of_bool (m \<noteq> (0 :: u64) \<and> ?Q j)) [0..<unat (str_length needle)] (of_bool b)"
  proof (rule fold_for_to)
    fix j m assume "j < unat (str_length needle)"
    then show "land64 m (cmov64 (lt64 (of_nat j) (str_size needle))
        (land64 (lt64 (of_nat i + of_nat j) (str_size s)) (inte_eq 8 False (get_char_or_zero s (of_nat i + of_nat j)) (get_char_public needle (of_nat j)))) 1) =
        of_bool (m \<noteq> 0 \<and> ?Q j)"
      by (subst match_byte [OF assms(1-3)]) (auto simp: ops_relations)
  qed
  also have "\<dots> = of_bool (b \<and> (\<forall>j < unat (str_length needle). ?Q j))" by (rule all_scan)
  also have "\<dots> = of_bool (b \<and> (\<forall>j < length (text_of needle). i + j < length (text_of s) \<and> text_of s ! (i + j) = text_of needle ! j))"
    using text_cap [OF assms(2)] by (intro arg_cong [of _ _ of_bool]) (meson order_less_le_trans)
  finally show ?thesis .
qed

text \<open>
  The specification of find and rfind: an empty needle is found at the position asked for when
  the text reaches that far.
\<close>

definition find_spec :: "u8 list \<Rightarrow> u8 list \<Rightarrow> u64 \<Rightarrow> u64" where
  "find_spec t n pos =
     (if n = [] then if unat pos \<le> length t then pos else npos
      else first_index (\<lambda>i. unat pos \<le> i \<and> occurs_at n t i) (length t))"

definition rfind_spec :: "u8 list \<Rightarrow> u8 list \<Rightarrow> u64 \<Rightarrow> u64" where
  "rfind_spec t n pos =
     (if n = [] then if pos = npos then of_nat (length t) else if unat pos \<le> length t then pos else npos
      else last_index (\<lambda>i. i \<le> unat pos \<and> occurs_at n t i) (length t))"

lemma find_False [simp]: "List.find (\<lambda>_. False) xs = None"
  by (induction xs) simp_all

lemma size_text: "sound s \<Longrightarrow> str_size s = of_nat (length (text_of s))"
  by simp

lemma size_zero: "sound s \<Longrightarrow> str_size s = 0 \<longleftrightarrow> text_of s = []"
  by (metis length_text length_0_conv unsigned_eq_0_iff)

lemma find_match:
  assumes "sound s" "sound needle" "i < unat (str_length s)"
  shows "land64 (fold (\<lambda>j m. land64 m (cmov64 (lt64 j (str_size needle))
      (land64 (lt64 (of_nat i + j) (str_size s)) (inte_eq 8 False (get_char_or_zero s (of_nat i + j)) (get_char_public needle j))) 1))
      (for_to (str_length needle)) (of_bool b)) (gt64 (str_size needle) 0) =
    of_bool (b \<and> text_of needle \<noteq> [] \<and> occurs_at (text_of needle) (text_of s) i)"
proof -
  have "occurs_at (text_of needle) (text_of s) i \<longleftrightarrow> (\<forall>j < length (text_of needle). i + j < length (text_of s) \<and> text_of s ! (i + j) = text_of needle ! j)"
    if "text_of needle \<noteq> []"
  proof (cases "i \<le> length (text_of s)")
    case False
    then have "text_of needle \<noteq> [] \<Longrightarrow> \<not> occurs_at (text_of needle) (text_of s) i" by (auto simp: occurs_at_def)
    moreover have "0 < length (text_of needle)" using that by blast
    ultimately show ?thesis using that False by (metis add_0_right less_imp_le_nat)
  qed (rule occurs_at_nth)
  then show ?thesis
    unfolding match_loop [OF assms] using size_zero [OF assms(2)]
    by (auto simp: exo_ops word_neq_0_conv [symmetric] simp del: length_text)
qed

lemma find_text:
  assumes "sound s" "sound needle"
  shows "find_stringe s needle pos = find_spec (text_of s) (text_of needle) pos"
proof -
  let ?t = "text_of s" and ?n = "text_of needle"
  let ?P = "\<lambda>i. i < length ?t \<and> unat pos \<le> i \<and> ?n \<noteq> [] \<and> occurs_at ?n ?t i"
  let ?M = "\<lambda>i. land64 (fold (\<lambda>j m. land64 m (cmov64 (lt64 j (str_size needle))
      (land64 (lt64 (i + j) (str_size s)) (inte_eq 8 False (get_char_or_zero s (i + j)) (get_char_public needle j))) 1))
      (for_to (str_length needle)) (land64 (ge64 i pos) (lt64 i (str_size s)))) (gt64 (str_size needle) 0)"
  have M: "?M (of_nat i) = of_bool (?P i)" if i: "i < unat (str_length s)" for i
  proof -
    have "land64 (ge64 (of_nat i) pos) (lt64 (of_nat i) (str_size s)) = of_bool (i < length ?t \<and> unat pos \<le> i)"
      using index_less [OF assms(1) i] pos_le [OF i, of pos] by (auto simp: exo_ops simp del: length_text)
    then show ?thesis using find_match [OF assms i, of "i < length ?t \<and> unat pos \<le> i"] by simp
  qed
  have "find_stringe s needle pos = cmov64 (land64 (eq64 (str_size needle) 0) (ge64 (str_size s) pos)) pos
      (first_index ?P (unat (str_length s)))"
    unfolding find_stringe_def ops_plain kNpos Let_def by (subst first_loop [where P = ?P, OF M]) simp_all
  also have "first_index ?P (unat (str_length s)) = first_index (\<lambda>i. unat pos \<le> i \<and> ?n \<noteq> [] \<and> occurs_at ?n ?t i) (length ?t)"
    by (rule first_index_text [OF text_cap [OF assms(1)]])
  finally show ?thesis
    using size_zero [OF assms(2)] assms(1)
    by (auto simp: find_spec_def exo_ops word_le_nat_alt first_index_def index_of_def find_None_iff)
qed

lemma rfind_text:
  assumes "sound s" "sound needle"
  shows "rfind_stringe s needle pos = rfind_spec (text_of s) (text_of needle) pos"
proof -
  let ?t = "text_of s" and ?n = "text_of needle"
  let ?P = "\<lambda>i. i < length ?t \<and> i \<le> unat pos \<and> ?n \<noteq> [] \<and> occurs_at ?n ?t i"
  let ?M = "\<lambda>i. land64 (fold (\<lambda>j m. land64 m (cmov64 (lt64 j (str_size needle))
      (land64 (lt64 (i + j) (str_size s)) (inte_eq 8 False (get_char_or_zero s (i + j)) (get_char_public needle j))) 1))
      (for_to (str_length needle)) (land64 (lt64 i (str_size s)) (cmov64 (eq64 pos npos) 1 (le64 i pos)))) (gt64 (str_size needle) 0)"
  have M: "?M (of_nat i) = of_bool (?P i)" if i: "i < unat (str_length s)" for i
  proof -
    have "(of_nat i :: u64) \<le> npos" by (simp add: npos_def)
    then have "land64 (lt64 (of_nat i) (str_size s)) (cmov64 (eq64 pos npos) 1 (le64 (of_nat i) pos)) = of_bool (i < length ?t \<and> i \<le> unat pos)"
      using index_less [OF assms(1) i] le_pos [OF i] by (auto simp: exo_ops simp del: length_text)
    then show ?thesis using find_match [OF assms i, of "i < length ?t \<and> i \<le> unat pos"] by simp
  qed
  have "rfind_stringe s needle pos =
      cmov64 (land64 (eq64 (str_size needle) 0) (ge64 (str_size s) (cmov64 (eq64 pos npos) (str_size s) pos)))
        (cmov64 (eq64 pos npos) (str_size s) pos) (last_index ?P (unat (str_length s)))"
    unfolding rfind_stringe_def ops_plain kNpos Let_def by (subst last_loop [where P = ?P, OF M]) simp_all
  also have "last_index ?P (unat (str_length s)) = last_index (\<lambda>i. i \<le> unat pos \<and> ?n \<noteq> [] \<and> occurs_at ?n ?t i) (length ?t)"
    by (rule last_index_text [OF text_cap [OF assms(1)]])
  finally show ?thesis
    using size_zero [OF assms(2)] assms(1)
    by (auto simp: rfind_spec_def exo_ops word_le_nat_alt last_index_def index_of_def find_None_iff)
qed

lemma contains_text:
  assumes "sound s" "sound needle"
  shows "contains s needle = of_bool (sublist (text_of needle) (text_of s))"
proof -
  let ?t = "text_of s" and ?n = "text_of needle"
  have lim: "length ?t < 2 ^ 63" using soundD [OF assms(1)] text_cap [OF assms(1)] by (simp add: stored_def del: length_text)
  have sub: "sublist ?n ?t \<longleftrightarrow> (\<exists>i < length ?t. occurs_at ?n ?t i)" if "?n \<noteq> []"
  proof
    assume "sublist ?n ?t"
    then obtain ps ss where p: "?t = ps @ ?n @ ss" by (auto simp: sublist_def)
    with that have "length ps < length ?t" by simp
    moreover have "occurs_at ?n ?t (length ps)" unfolding occurs_at_def by (subst p) simp
    ultimately show "\<exists>i < length ?t. occurs_at ?n ?t i" by blast
  next
    assume "\<exists>i < length ?t. occurs_at ?n ?t i"
    then show "sublist ?n ?t" by (metis occurs_at_def sublist_drop sublist_take sublist_order.order_trans)
  qed
  have find: "find_spec ?t ?n 0 \<noteq> npos \<longleftrightarrow> sublist ?n ?t"
  proof (cases "?n = []")
    case False
    have "List.find (occurs_at ?n ?t) [0..<length ?t] = Some i \<Longrightarrow> of_nat i \<noteq> npos" for i
    proof
      assume i: "List.find (occurs_at ?n ?t) [0..<length ?t] = Some i" and e: "of_nat i = npos"
      from i have "i < length ?t" by (auto simp: find_Some_iff)
      then have "unat (of_nat i :: u64) = i" using lim by (simp add: unat_of_nat take_bit_nat_eq_self del: length_text)
      with e have "i = 2 ^ 64 - 1" by (simp add: npos_def unsigned_minus_1_eq_mask mask_eq_exp_minus_1)
      with \<open>i < length ?t\<close> lim show False by simp
    qed
    then show ?thesis
      using False sub by (auto simp: find_spec_def first_index_def index_of_def find_None_iff find_Some_iff split: option.splits)
  qed (simp add: find_spec_def npos_def)
  then show ?thesis by (simp add: contains_def find_text [OF assms] exo_ops kNpos)
qed

section \<open>Prefixes, suffixes and substrings\<close>

lemma prefix_nth: "prefix u t \<longleftrightarrow> length u \<le> length t \<and> (\<forall>i < length u. t ! i = u ! i)"
proof
  assume "prefix u t"
  then show "length u \<le> length t \<and> (\<forall>i < length u. t ! i = u ! i)"
    by (auto simp: prefix_def nth_append)
next
  assume "length u \<le> length t \<and> (\<forall>i < length u. t ! i = u ! i)"
  then have "u = take (length u) t" by (auto intro: nth_equalityI)
  then show "prefix u t" by (metis take_is_prefix)
qed

lemma of_bool_and_loop:
  assumes "\<And>i. i < unat n \<Longrightarrow> M (of_nat i) = of_bool (Q i)"
  shows "fold (\<lambda>i ok. land64 ok (M i)) (for_to n) (of_bool b) = of_bool (b \<and> (\<forall>i < unat n. Q i))"
proof -
  have "fold (\<lambda>i ok. land64 ok (M i)) (for_to n) (of_bool b) = fold (\<lambda>j m. of_bool (m \<noteq> (0 :: u64) \<and> Q j)) [0..<unat n] (of_bool b)"
    by (rule fold_for_to) (simp add: assms exo_ops)
  then show ?thesis by (simp only: all_scan)
qed

lemma starts_with_text:
  assumes "sound s" "sound p"
  shows "starts_with s p = of_bool (prefix (text_of p) (text_of s))"
proof -
  let ?t = "text_of s" and ?u = "text_of p"
  let ?Q = "\<lambda>i. i < length ?u \<longrightarrow> get_char_or_zero s (of_nat i) = ucast (?u ! i)"
  have "starts_with s p = of_bool (length ?u \<le> length ?t \<and> (\<forall>i < unat (str_length p). ?Q i))"
    unfolding starts_with_def ops_plain Let_def
  proof -
    have "ge64 (str_size s) (str_size p) = of_bool (length ?u \<le> length ?t)"
      using assms by (simp add: exo_ops word_le_nat_alt)
    then show "fold (\<lambda>i ok. land64 ok (cmov64 (lt64 i (str_size p)) (inte_eq 8 False (get_char_or_zero s i) (get_char_public p i)) 1))
        (for_to (str_length p)) (ge64 (str_size s) (str_size p)) =
        of_bool (length ?u \<le> length ?t \<and> (\<forall>i < unat (str_length p). ?Q i))"
      using index_less [OF assms(2)] text_char(1) [OF assms(2)]
      by (simp only:) (rule of_bool_and_loop, auto simp: exo_ops simp del: length_text)
  qed
  also have "\<dots> = of_bool (prefix ?u ?t)"
  proof -
    have "?Q i \<longleftrightarrow> (i < length ?u \<longrightarrow> ?t ! i = ?u ! i)" if "length ?u \<le> length ?t" for i
      using that text_char [OF assms(1), of i] by (auto simp: get_char_or_zero_def not_le simp del: length_text)
    moreover have "prefix ?u ?t \<longleftrightarrow> length ?u \<le> length ?t \<and> (\<forall>i < length ?u. ?t ! i = ?u ! i)"
      by (rule prefix_nth)
    ultimately show ?thesis using text_cap [OF assms(2)] by (intro arg_cong [of _ _ of_bool]) (meson order_less_le_trans)
  qed
  finally show ?thesis .
qed

lemma suffix_nth:
  "suffix u t \<longleftrightarrow> length u \<le> length t \<and> (\<forall>i < length u. t ! (length t - length u + i) = u ! i)"
proof
  assume "suffix u t"
  then show "length u \<le> length t \<and> (\<forall>i < length u. t ! (length t - length u + i) = u ! i)"
    by (auto simp: suffix_def nth_append)
next
  assume "length u \<le> length t \<and> (\<forall>i < length u. t ! (length t - length u + i) = u ! i)"
  then have "u = drop (length t - length u) t" by (auto intro: nth_equalityI)
  then show "suffix u t" by (metis suffix_drop)
qed

lemma ends_with_text:
  assumes "sound s" "sound q"
  shows "ends_with s q = of_bool (suffix (text_of q) (text_of s))"
proof -
  let ?t = "text_of s" and ?u = "text_of q"
  let ?Q = "\<lambda>i. i < length ?u \<longrightarrow> get_char_by_secret_index s (str_size s - str_size q + of_nat i) = ucast (?u ! i)"
  have "ends_with s q = of_bool (length ?u \<le> length ?t \<and> (\<forall>i < unat (str_length q). ?Q i))"
    unfolding ends_with_def ops_plain Let_def
  proof -
    have "ge64 (str_size s) (str_size q) = of_bool (length ?u \<le> length ?t)"
      using assms by (simp add: exo_ops word_le_nat_alt)
    then show "fold (\<lambda>i ok. land64 ok (cmov64 (lt64 i (str_size q))
          (inte_eq 8 False (get_char_by_secret_index s (add64 (sub64 (str_size s) (str_size q)) i)) (get_char_public q i)) 1))
        (for_to (str_length q)) (ge64 (str_size s) (str_size q)) =
        of_bool (length ?u \<le> length ?t \<and> (\<forall>i < unat (str_length q). ?Q i))"
      using index_less [OF assms(2)] text_char(1) [OF assms(2)]
      by (simp only:) (rule of_bool_and_loop, auto simp: exo_ops simp del: length_text)
  qed
  also have "\<dots> = of_bool (suffix ?u ?t)"
  proof -
    have "?Q i \<longleftrightarrow> (i < length ?u \<longrightarrow> ?t ! (length ?t - length ?u + i) = ?u ! i)" if le: "length ?u \<le> length ?t" for i
    proof (cases "i < length ?u")
      case True
      let ?k = "length ?t - length ?u + i"
      have k: "?k < length ?t" using True le by simp
      have "str_size s - str_size q + of_nat i = of_nat ?k"
        using le assms by (simp add: size_text of_nat_diff del: length_text)
      moreover have "unat (of_nat ?k :: u64) = ?k" "?k < unat (str_length s)"
        using of_nat_index(1) [of ?k "str_length s"] k text_cap [OF assms(1)] by simp_all
      ultimately show ?thesis
        using True k soundD [OF assms(1)] read_secret [of s "of_nat ?k"] by (simp add: text_of_def)
    qed simp
    then show ?thesis using text_cap [OF assms(2)] unfolding suffix_nth
      by (intro arg_cong [of _ _ of_bool]) (meson order_less_le_trans)
  qed
  finally show ?thesis .
qed

lemma substr_step:
  assumes out: "sound out" "str_length out = count" "text_of out = take i (drop (unat pos) (text_of s))"
    and s: "sound s" and i: "i < unat count" "unat pos + unat count \<le> 2 ^ 64"
  defines "src \<equiv> pos + of_nat i"
  defines "out' \<equiv> oblivious_write out (of_nat i) (get_char_by_secret_index s src) (of_bool (src < str_size s))
      \<lparr>str_size := if src < str_size s then str_size out + 1 else str_size out\<rparr>"
  shows "sound out' \<and> str_length out' = count \<and> text_of out' = take (Suc i) (drop (unat pos) (text_of s))"
proof -
  let ?t = "text_of s" and ?k = "unat pos + i"
  have u: "unat src = ?k" using i of_nat_index(1) [OF i(1)] by (simp add: src_def unat_word_ariths)
  then have less: "src < str_size s \<longleftrightarrow> ?k < length ?t" using s by (simp add: word_less_nat_alt)
  define c where "c = (if ?k < unat (str_length s) then buffer s ! ?k else 0)"
  have c: "get_char_by_secret_index s src = ucast c"
    using read_secret [of s src] soundD [OF s] by (simp add: c_def u)
  show ?thesis
  proof (cases "?k < length ?t")
    case True
    then have "i < length ?t - unat pos" by simp
    then have "length (text_of out) = i" using out(3) by (simp del: length_text)
    then have size: "str_size out = of_nat i" using size_text [OF out(1)] by simp
    have "of_nat i < count" using of_nat_index(2) [OF i(1)] by simp
    then have w: "src < str_size s \<longrightarrow> str_size out < str_length out" using out(2) size by simp
    have "c = ?t ! ?k" using True text_cap [OF s] by (simp add: c_def text_of_def)
    then have "take (Suc i) (drop (unat pos) ?t) = take i (drop (unat pos) ?t) @ [c]"
      using True by (simp add: take_Suc_conv_app_nth del: length_text)
    then show ?thesis
      using write_at_end [OF out(1) w, of c] less True out by (simp add: out'_def c size)
  next
    case False
    have "stored out" using soundD [OF out(1)] by blast
    note w = write_secret [OF this, of "of_nat i" c 0]
    have "out' = oblivious_write out (of_nat i) (ucast c) 0" using less False by (simp add: out'_def c w(4) [symmetric])
    moreover have "sound (oblivious_write out (of_nat i) (ucast c) 0)" using out(1) w by (simp add: sound_def)
    moreover have "text_of (oblivious_write out (of_nat i) (ucast c) 0) = text_of out" by (simp add: text_of_def w)
    ultimately show ?thesis using out False w(2) by simp
  qed
qed

lemma substr_text:
  assumes s: "sound s" and lim: "unat count < 2 ^ 63" "unat pos + unat count \<le> 2 ^ 64"
  shows "sound (substr s pos count)" "str_length (substr s pos count) = count"
    "text_of (substr s pos count) = take (unat count) (drop (unat pos) (text_of s))"
    "failed (substr s pos count) = failed s"
proof -
  let ?P = "\<lambda>i out. sound out \<and> str_length out = count \<and> text_of out = take i (drop (unat pos) (text_of s))"
  define out where "out = fold (\<lambda>i out. let src = add64 pos (uint64e i); inside = lt64 src (str_size s);
      out = oblivious_write out (uint64e i) (get_char_or_zero_public_src s src i) inside
      in out\<lparr>str_size := cmov64 inside (add64 (str_size out) (uint64e 1)) (str_size out)\<rparr>) (for_to count) (stringe_new count)"
  have "?P (unat count) out"
    unfolding out_def
  proof (rule for_to_induct [of _ ?P])
    fix i out assume "i < unat count" "?P i out"
    then show "?P (Suc i) (let src = add64 pos (uint64e (of_nat i)); inside = lt64 src (str_size s);
        out = oblivious_write out (uint64e (of_nat i)) (get_char_or_zero_public_src s src (of_nat i)) inside
        in out\<lparr>str_size := cmov64 inside (add64 (str_size out) (uint64e 1)) (str_size out)\<rparr>)"
      using substr_step [of out count i pos s] s lim
      by (cases "pos + of_nat i < str_size s") (simp_all add: Let_def exo_ops read_secret_src write_frame)
  next
    show "?P 0 (stringe_new count)" using new_text [OF lim(1)] by (simp add: stringe_new_def)
  qed
  moreover have "substr s pos count = out\<lparr>str_exception := str_exception s\<rparr>"
    by (simp add: substr_def out_def Let_def)
  ultimately show "sound (substr s pos count)" "str_length (substr s pos count) = count"
    "text_of (substr s pos count) = take (unat count) (drop (unat pos) (text_of s))"
    "failed (substr s pos count) = failed s"
    by (simp_all add: failed_def)
qed

section \<open>Copies\<close>

lemma copy_words_eq:
  assumes "length dst = unat n" "length src = unat n" shows "copy_words dst src n = src"
proof -
  have "take (unat n) (copy_words dst src n) = take (unat n) src \<and> length (copy_words dst src n) = length src"
    unfolding copy_words_def
  proof (rule for_to_induct [of _ "\<lambda>i d. take i d = take i src \<and> length d = length src"])
    fix i d assume "i < unat n" "take i d = take i src \<and> length d = length src"
    then show "take (Suc i) (d[unat (of_nat i :: u64) := src ! unat (of_nat i :: u64)]) = take (Suc i) src \<and>
        length (d[unat (of_nat i :: u64) := src ! unat (of_nat i :: u64)]) = length src"
      using assms of_nat_index(1) [of i n] by (simp add: take_Suc_conv_app_nth)
  qed (simp add: assms)
  then show ?thesis using assms by (metis order_refl take_all)
qed

lemma copy_eq: "stored rhs \<Longrightarrow> stringe_copy rhs = rhs"
  by (simp add: stringe_copy_def stored_def copy_words_eq allocate_words_def)

lemma assign_eq: "stored s \<Longrightarrow> stored rhs \<Longrightarrow> stringe_assign same s rhs = (if same then s else rhs)"
  by (auto simp: stringe_assign_def stored_def copy_words_eq replace_storage_def allocate_words_def)

lemma moved_text: "sound moved_from \<and> text_of moved_from = [] \<and> \<not> failed moved_from"
  by (simp add: sound_def stored_def moved_from_def text_of_def failed_def exo_ops word_count_def)

end
