(* ===== verification/Exo_Properties.thy ===== *)
theory Exo_Properties
  imports Exo_Search Mojov_Properties
begin

text \<open>
  The properties of the EXO library: its code sequences on the hart, its integers as machine
  integers and its strings as lists of bytes.
\<close>

section \<open>Intrinsics\<close>

definition library :: "intrinsic list" where
  "library = map DEF_BIN_U64 [ADD, SUB, MUL, DIVS, DIVU, REMS, REMU, ANDD, ORR, XORR, SLL, SRL, SRA, SLT, SLTU] @
     map DEF_BINI_U64 [ADD, SUB, MUL, DIVS, DIVU, REMS, REMU, ANDD, ORR, XORR, SLL, SRL, SRA, SLT, SLTU] @
     [asm_enc, asm_neg, asm_negi, asm_land, asm_landi, asm_lor, asm_lori, asm_lnot, asm_comp, asm_compi,
      asm_seq, asm_seqi, asm_sne, asm_snei, asm_cmov]"

lemma library_ok: "i \<in> set library \<Longrightarrow> intrinsic_ok i"
  by (auto simp: library_def intrinsic_ok_def asm_defs)

text \<open>
  C8: the code sequence of an integer intrinsic computes under encryption. On a hart in secret
  mode with a scheduled cipher, with each encrypted operand sealed in memory under the open
  contract and each plain operand stored in memory, the sequence runs through without a trap;
  it leaves at its destination a packet sealing the value of the intrinsic on its operands,
  and no other byte of memory and no public register changes.
\<close>

theorem intrinsic_computes:
  assumes i: "i \<in> set library" and len: "length ptrs = length (asm_loads i)" "length args = length (asm_loads i)"
    and w: "at_work c h" and d: "store_ready c h dst"
    and ops: "\<forall>k < length args. operand_ready c h (ptrs ! k) (snd (asm_loads i ! k)) (args ! k)"
  shows "\<exists>g. run_code c wr enc pc (asm i ptrs dst) h = (g, Inr ()) \<and> same_public h g \<and>
    sealed_at g (XPR h dst) (call i args) \<and>
    (\<forall>x. packet_bytes h \<le> unat (x - XPR h dst) \<longrightarrow> memory g x = memory h x)"
  by (rule run_intrinsic [OF library_ok [OF i] len w d ops])

lemma intrinsic_computes_witness:
  "\<exists>h g. run_code sample_config (\<lambda>_ _ g. g) (\<lambda>_. 0) 0 (asm (DEF_BIN_U64 ADD) [2, 2] 3) h = (g, Inr ()) \<and>
    sealed_at h 4096 5 \<and> sealed_at g 3 10"
proof -
  obtain x where x: "simon_ready x" using some_ready_cipher by blast
  let ?s = "secret_hart x 1"
  obtain ct where ct: "seals x \<lparr>sval = 5, ssalt = 0, sauth_sig = contract_sig (mojov_dc ?s), smetadata = 0\<rparr> ct"
    using seals_exists [OF x] by blast
  let ?h = "?s\<lparr>memory := poke (poke (memory ?s) 4096 (le_bytes 16 (fst ct))) (4096 + 16) (le_bytes 16 (snd ct))\<rparr>"
  have f: "FORMAT_SEL ?h = FORMAT_SEL_STRONG"
    using secret_hart_format(2) [of x] by (simp add: FORMAT_SEL_def mojov_cfg_read_def)
  have c: "cipher ?h = x" "mojov_dc ?h = mojov_dc ?s" "secreg_mode ?h" "XPR ?h 0 = 0" "XPR ?h 2 = 4096" "XPR ?h 3 = 3"
    "\<And>r. \<not> datagrant_xpr ?h r"
    by (simp_all add: secret_hart_def dark_hart_def)
  have p: "peek ?h 4096 16 = le_bytes 16 (fst ct)" "peek ?h (4096 + 16) 16 = le_bytes 16 (snd ct)"
    using peek_poke_pair [of ?h "memory ?s" "4096" "le_bytes 16 (fst ct)" "le_bytes 16 (snd ct)"] by simp_all
  have s: "sealed_at ?h 4096 5"
    using ct p c(1,2) f by (auto simp: sealed_at_def format_values simp del: split_paired_Ex)
  have w: "at_work sample_config ?h"
    using c x f by (simp add: at_work_def sample_config_def)
  have d: "store_ready sample_config ?h 3"
    using c by (simp add: store_ready_def sample_config_def IS_SECREG_iff)
  have o: "operand_ready sample_config ?h 2 Encrypted 5"
    using c s by (simp add: operand_ready_def sample_config_def IS_SECREG_iff)
  have "\<forall>k < length [5 :: u64, 5]. operand_ready sample_config ?h ([2, 2] ! k) (snd (asm_loads (DEF_BIN_U64 ADD) ! k)) ([5, 5] ! k)"
    using o by (auto simp: DEF_BIN_U64_def less_Suc_eq numeral_2_eq_2)
  moreover have "DEF_BIN_U64 ADD \<in> set library" by (simp add: library_def)
  moreover have "length [2, 2 :: nat] = length (asm_loads (DEF_BIN_U64 ADD))" "length [5, 5 :: u64] = length (asm_loads (DEF_BIN_U64 ADD))"
    by (simp_all add: DEF_BIN_U64_def)
  ultimately obtain g where g: "run_code sample_config (\<lambda>_ _ g. g) (\<lambda>_. 0) 0 (asm (DEF_BIN_U64 ADD) [2, 2] 3) ?h = (g, Inr ())"
    "sealed_at g (XPR ?h 3) (call (DEF_BIN_U64 ADD) [5, 5])"
    using intrinsic_computes [of "DEF_BIN_U64 ADD" "[2, 2]" "[5, 5]" sample_config ?h 3 "\<lambda>_ _ g. g" "\<lambda>_. 0" 0] w d by blast
  have "sealed_at g 3 10" using g(2) c(6) by (simp add: call_simps)
  with g(1) s show ?thesis by blast
qed

text \<open>
  C25: the integer intrinsics are the operators they are named after. Sums, differences and
  products wrap at 64 bits, shifts use the low six bits of the amount, the comparisons are
  signed or unsigned as named, the logical operators take and give truth values, division by
  zero gives all ones or the dividend, and the conditional move selects by a non-zero predicate.
\<close>

theorem intrinsic_values:
  "i_enc a = a \<and> i_add a b = a + b \<and> i_addi a b = a + b \<and> i_sub a b = a - b \<and> i_subi a b = a - b \<and>
   i_mul a b = a * b \<and> i_muli a b = a * b \<and> i_mulu a b = a * b \<and> i_mului a b = a * b \<and>
   i_div a b = machine_div True a b \<and> i_divi a b = machine_div True a b \<and>
   i_divu a b = machine_div False a b \<and> i_divui a b = machine_div False a b \<and>
   i_mod a b = machine_mod True a b \<and> i_modi a b = machine_mod True a b \<and>
   i_modu a b = machine_mod False a b \<and> i_modui a b = machine_mod False a b \<and>
   i_and a b = a AND b \<and> i_andi a b = a AND b \<and> i_or a b = a OR b \<and> i_ori a b = a OR b \<and>
   i_xor a b = a XOR b \<and> i_xori a b = a XOR b \<and> i_neg a = - a \<and> i_negi a = - a \<and>
   i_comp a = NOT a \<and> i_compi a = NOT a \<and>
   i_sll a b = push_bit (shift_amount b) a \<and> i_slli a b = push_bit (shift_amount b) a \<and>
   i_srl a b = drop_bit (shift_amount b) a \<and> i_srli a b = drop_bit (shift_amount b) a \<and>
   i_sra a b = signed_drop_bit (shift_amount b) a \<and> i_srai a b = signed_drop_bit (shift_amount b) a \<and>
   i_slt a b = of_bool (a <s b) \<and> i_slti a b = of_bool (a <s b) \<and> i_sltu a b = of_bool (a < b) \<and> i_sltui a b = of_bool (a < b) \<and>
   i_sgt a b = of_bool (b <s a) \<and> i_sgti a b = of_bool (b <s a) \<and> i_sgtu a b = of_bool (b < a) \<and> i_sgtui a b = of_bool (b < a) \<and>
   i_sle a b = of_bool (a \<le>s b) \<and> i_slei a b = of_bool (a \<le>s b) \<and> i_sleu a b = of_bool (a \<le> b) \<and> i_sleui a b = of_bool (a \<le> b) \<and>
   i_sge a b = of_bool (b \<le>s a) \<and> i_sgei a b = of_bool (b \<le>s a) \<and> i_sgeu a b = of_bool (b \<le> a) \<and> i_sgeui a b = of_bool (b \<le> a) \<and>
   i_seq a b = of_bool (a = b) \<and> i_seqi a b = of_bool (a = b) \<and> i_sne a b = of_bool (a \<noteq> b) \<and> i_snei a b = of_bool (a \<noteq> b) \<and>
   i_land a b = of_bool (a \<noteq> 0 \<and> b \<noteq> 0) \<and> i_landi a b = of_bool (a \<noteq> 0 \<and> b \<noteq> 0) \<and>
   i_lor a b = of_bool (\<not> (a = 0 \<and> b = 0)) \<and> i_lori a b = of_bool (\<not> (a = 0 \<and> b = 0)) \<and>
   i_lnot a = of_bool (a = 0) \<and> i_cmov p a b = (if p \<noteq> 0 then a else b)"
  by (simp add: exo_values insn_division shift_amount_def)

section \<open>Encrypted integers\<close>

text \<open>
  C10: an encrypted integer of any width up to 64 bits, signed or not, is a machine integer of
  that width. With x and y words of the width, held sign- or zero-extended as the class keeps
  them, every operator gives the extended result of the operator on words: sums and products
  wrap at the width, division by zero gives all ones and the remainder then is the dividend,
  a shift uses the low six bits of the extended amount, a right shift is arithmetic exactly for
  signed types, and comparisons give truth values.
\<close>

theorem encrypted_integers:
  fixes x y :: "'b::len word"
  assumes "LENGTH('b) \<le> 64"
  shows "let w = LENGTH('b); e = embed S :: 'b word \<Rightarrow> u64 in
    inte_add w S (e x) (e y) = e (x + y) \<and> inte_sub w S (e x) (e y) = e (x - y) \<and>
    inte_mul w S (e x) (e y) = e (x * y) \<and> inte_neg w S (e x) = e (- x) \<and>
    inte_div w S (e x) (e y) = e (machine_div S x y) \<and> inte_mod w S (e x) (e y) = e (machine_mod S x y) \<and>
    inte_and w S (e x) (e y) = e (x AND y) \<and> inte_or w S (e x) (e y) = e (x OR y) \<and>
    inte_xor w S (e x) (e y) = e (x XOR y) \<and> inte_comp w S (e x) = e (NOT x) \<and>
    inte_sll w S (e x) (e y) = e (push_bit (shift_amount (e y)) x) \<and>
    inte_srl w S (e x) (e y) = e (if S then signed_drop_bit (shift_amount (e y)) x else drop_bit (shift_amount (e y)) x) \<and>
    inte_eq w S (e x) (e y) = e (of_bool (x = y)) \<and> inte_ne w S (e x) (e y) = e (of_bool (x \<noteq> y)) \<and>
    inte_lt w S (e x) (e y) = e (of_bool (machine_less S x y)) \<and> inte_gt w S (e x) (e y) = e (of_bool (machine_less S y x)) \<and>
    inte_le w S (e x) (e y) = e (of_bool (\<not> machine_less S y x)) \<and> inte_ge w S (e x) (e y) = e (of_bool (\<not> machine_less S x y)) \<and>
    inte_lnot w S (e x) = e (of_bool (x = 0)) \<and> inte_land w S (e x) (e y) = e (of_bool (x \<noteq> 0 \<and> y \<noteq> 0)) \<and>
    inte_lor w S (e x) (e y) = e (of_bool (x \<noteq> 0 \<or> y \<noteq> 0))"
  unfolding Let_def
  using inte_ring [OF assms(1)] inte_bits [OF assms(1)] inte_shift_right [OF assms(1)] inte_relations [OF assms(1)]
    inte_division [OF assms(1)]
  by (intro conjI) (cases S, simp_all)+

lemma encrypted_integers_witness:
  "inte_add 8 True (embed True (100 :: 8 word)) (embed True (100 :: 8 word)) = embed True (- 56 :: 8 word) \<and>
   inte_div 8 True (embed True (- 128 :: 8 word)) (embed True (- 1 :: 8 word)) = embed True (- 128 :: 8 word)"
  using encrypted_integers [of True "100 :: 8 word" "100 :: 8 word"] encrypted_integers [of True "- 128 :: 8 word" "- 1 :: 8 word"]
  by (simp add: Let_def machine_div_def)

section \<open>Encrypted strings\<close>

text \<open>A string of a given capacity with the bytes pushed one after the other.\<close>

definition pushed :: "u64 \<Rightarrow> u8 list \<Rightarrow> stringe" where
  "pushed n bs = fold (\<lambda>c s. push_back s (ucast c)) bs (stringe_new n)"

lemma pushed_text:
  assumes "unat n < 2 ^ 63" "length bs \<le> unat n"
  shows "sound (pushed n bs) \<and> str_length (pushed n bs) = n \<and> text_of (pushed n bs) = bs \<and> \<not> failed (pushed n bs)"
  using assms(2)
proof (induction bs rule: rev_induct)
  case Nil
  then show ?case using new_text [OF assms(1)] by (simp add: pushed_def stringe_new_def)
next
  case (snoc c bs)
  then show ?case
    using push_back_text [of "pushed n bs" c] by (auto simp: pushed_def snoc_text_def simp del: length_text)
qed

text \<open>
  C11: appending refines list append within the capacity. push_back adds the byte if there is
  room, append adds as many bytes of the other string as fit, and the sticky exception is
  raised exactly when something did not fit or, for append, the other string carries it; the
  capacity never changes. Concatenation allocates room for both and holds both texts.
\<close>

theorem appends_text:
  fixes c :: u8
  assumes "sound s" "sound rhs" and "unat (str_length s) + unat (str_length rhs) < 2 ^ 63"
  defines "p \<equiv> push_back s (ucast c)" and "a \<equiv> append_stringe s rhs" and "b \<equiv> concat_stringe s rhs"
    and "cap \<equiv> unat (str_length s)"
  shows "sound p \<and> text_of p = take cap (text_of s @ [c]) \<and> (failed p \<longleftrightarrow> failed s \<or> cap < length (text_of s @ [c])) \<and>
    sound a \<and> text_of a = take cap (text_of s @ text_of rhs) \<and>
    (failed a \<longleftrightarrow> failed s \<or> failed rhs \<or> cap < length (text_of s @ text_of rhs)) \<and>
    str_length p = str_length s \<and> str_length a = str_length s \<and>
    sound b \<and> text_of b = text_of s @ text_of rhs \<and> (failed b \<longleftrightarrow> failed s \<or> failed rhs)"
proof -
  have "length (text_of s) \<le> cap" using soundD [OF assms(1)] assms(1) by (simp add: cap_def)
  then have "snoc_text cap (text_of s) c = take cap (text_of s @ [c])"
    "length (text_of s) = cap \<longleftrightarrow> cap < length (text_of s @ [c])"
    by (auto simp: snoc_text_def simp del: length_text)
  then show ?thesis
    using push_back_text [OF assms(1), of c] append_text [OF assms(1,2)] concat_text [OF assms(1-3)]
    by (simp add: p_def a_def b_def cap_def del: length_text)
qed

lemma appends_text_witness:
  "text_of (append_stringe (pushed 3 [97, 98 :: u8]) (pushed 2 [99, 100 :: u8])) = [97, 98, 99] \<and>
   failed (append_stringe (pushed 3 [97, 98 :: u8]) (pushed 2 [99, 100 :: u8]))"
  using appends_text [of "pushed 3 [97, 98]" "pushed 2 [99, 100]" 0]
    pushed_text [of 3 "[97, 98]"] pushed_text [of 2 "[99, 100]"] by simp

text \<open>
  C30: appending a string to itself does not double it. The loop bound is re-read from the string
  being extended, so for any non-empty text the whole capacity is filled with repetitions of
  it and the exception is raised, even where twice the text would fit.
\<close>

theorem append_to_itself:
  assumes "sound s" "text_of s \<noteq> []"
  shows "text_of (append_self s) =
      map (\<lambda>j. text_of s ! (j mod length (text_of s))) [0..<unat (str_length s)] \<and> failed (append_self s)"
  by (rule append_self_text [OF assms])

lemma append_to_itself_witness:
  "text_of (append_self (pushed 5 [97, 98 :: u8])) = [97, 98, 97, 98, 97] \<and> failed (append_self (pushed 5 [97, 98 :: u8])) \<and>
   \<not> failed (pushed 5 [97, 98 :: u8])"
proof -
  have p: "sound (pushed 5 [97, 98])" "text_of (pushed 5 [97, 98]) = [97, 98]" "str_length (pushed 5 [97, 98]) = 5"
    "\<not> failed (pushed 5 [97, 98])"
    using pushed_text [of 5 "[97, 98]"] by simp_all
  have u: "[0..<5] = [0, 1, 2, 3, 4 :: nat]" by (simp add: upt_rec)
  show ?thesis using append_to_itself [OF p(1)] p by (simp add: u flip: numeral_2_eq_2)
qed

text \<open>
  C28: a byte written at a secret index is read back there and nowhere else. Each access scans
  the whole capacity, so the accesses do not depend on the index; a write with the enable
  off changes nothing.
\<close>

theorem secret_index_round_trip:
  fixes c :: u8
  assumes "sound s" "i < str_length s" "j < str_length s"
  shows "get_char_by_secret_index (oblivious_write s i (ucast c) en) j =
      (if en \<noteq> 0 \<and> j = i then ucast c else get_char_by_secret_index s j) \<and>
    get_char_by_secret_index s j = get_char_public s j"
proof -
  have st: "stored s" using soundD [OF assms(1)] by blast
  have ij: "unat i < unat (str_length s)" "unat j < unat (str_length s)" using assms(2,3) by (simp_all add: word_less_nat_alt)
  have "get_char_public s j = ucast (buffer s ! unat j)" using packed.get [OF st ij(2)] by simp
  moreover have "unat j = unat i \<longleftrightarrow> j = i" by (simp add: word_unat_eq_iff)
  ultimately show ?thesis
    using write_secret [OF st, of i c en] read_secret [OF st] read_secret [of "oblivious_write s i (ucast c) en"] ij
    by (cases "j = i") simp_all
qed

lemma secret_index_round_trip_witness:
  "get_char_by_secret_index (oblivious_write (pushed 3 [97, 98 :: u8]) 1 (ucast (120 :: u8)) 1) 1 = 120"
  using secret_index_round_trip [of "pushed 3 [97, 98]" 1 1 120 1] pushed_text [of 3 "[97, 98]"] by simp

lemma lex_sign_lexord:
  "(lex_sign t u = - 1 \<longleftrightarrow> (t, u) \<in> lexord {(x, y). x < y}) \<and>
   (lex_sign t u = 1 \<longleftrightarrow> (u, t) \<in> lexord {(x, y). x < y}) \<and> (lex_sign t u = 0 \<longleftrightarrow> t = u) \<and> lex_sign t u \<in> {- 1, 0, 1}"
  by (induction t u rule: lex_sign.induct) auto

text \<open>
  C26: comparison is lexicographic. compare gives -1, 0 or 1 for the sign of the lexicographic
  comparison of the texts by unsigned bytes, a proper prefix being smaller, and the six
  operators are that order's.
\<close>

theorem compares_text:
  assumes "sound s" "sound rhs"
  defines "t \<equiv> text_of s" and "u \<equiv> text_of rhs"
  shows "compare_stringe s rhs = lex_sign t u \<and>
    eq_stringe s rhs = of_bool (t = u) \<and> ne_stringe s rhs = of_bool (t \<noteq> u) \<and>
    lt_stringe s rhs = of_bool ((t, u) \<in> lexord {(x, y). x < y}) \<and>
    gt_stringe s rhs = of_bool ((u, t) \<in> lexord {(x, y). x < y}) \<and>
    le_stringe s rhs = of_bool ((u, t) \<notin> lexord {(x, y). x < y}) \<and>
    ge_stringe s rhs = of_bool ((t, u) \<notin> lexord {(x, y). x < y})"
proof -
  have "lex_sign t u <s 0 \<longleftrightarrow> lex_sign t u = - 1" "0 <s lex_sign t u \<longleftrightarrow> lex_sign t u = 1"
    "lex_sign t u \<le>s 0 \<longleftrightarrow> lex_sign t u \<noteq> 1" "0 \<le>s lex_sign t u \<longleftrightarrow> lex_sign t u \<noteq> - 1"
    using lex_sign_lexord [of t u] by (auto simp: word_sless_alt word_sle_eq)
  then show ?thesis
    using lex_sign_lexord [of t u] compare_text [OF assms(1,2)]
    by (simp add: eq_stringe_def ne_stringe_def lt_stringe_def gt_stringe_def le_stringe_def ge_stringe_def exo_ops
        t_def u_def)
qed

lemma compares_text_witness:
  "lt_stringe (pushed 3 [97, 98 :: u8]) (pushed 4 [97, 99 :: u8]) = 1 \<and> eq_stringe (pushed 3 [97, 98 :: u8]) (pushed 4 [97, 99 :: u8]) = 0"
  using compares_text [of "pushed 3 [97, 98]" "pushed 4 [97, 99]"] pushed_text [of 3 "[97, 98]"] pushed_text [of 4 "[97, 99]"]
  by simp

text \<open>
  The searches for characters find the first or the last position. Each of the eight
  methods gives the least (or greatest) index of the text, from pos on for the forward ones,
  whose byte is the character, is not, belongs to the set or does not, and npos if none does.
\<close>

lemma character_searches:
  fixes c :: u8
  assumes "sound s" "sound chars"
  defines "t \<equiv> text_of s" and "cs \<equiv> set (text_of chars)" and "n \<equiv> length (text_of s)"
  shows "find_char s (ucast c) pos = first_index (\<lambda>i. unat pos \<le> i \<and> t ! i = c) n \<and>
    find_first_of_char s (ucast c) pos = first_index (\<lambda>i. unat pos \<le> i \<and> t ! i = c) n \<and>
    find_first_not_of_char s (ucast c) pos = first_index (\<lambda>i. unat pos \<le> i \<and> t ! i \<noteq> c) n \<and>
    find_first_of s chars pos = first_index (\<lambda>i. unat pos \<le> i \<and> t ! i \<in> cs) n \<and>
    find_first_not_of s chars pos = first_index (\<lambda>i. unat pos \<le> i \<and> t ! i \<notin> cs) n \<and>
    rfind_char s (ucast c) = last_index (\<lambda>i. t ! i = c) n \<and>
    find_last_of_char s (ucast c) = last_index (\<lambda>i. t ! i = c) n \<and>
    find_last_not_of_char s (ucast c) = last_index (\<lambda>i. t ! i \<noteq> c) n \<and>
    find_last_of s chars = last_index (\<lambda>i. t ! i \<in> cs) n \<and>
    find_last_not_of s chars = last_index (\<lambda>i. t ! i \<notin> cs) n"
  using assms(1,2) unfolding t_def cs_def n_def find_first_of_char_def find_last_of_char_def
  by (intro conjI find_char_text find_first_not_of_char_text find_first_of_text find_first_not_of_text
      rfind_char_text find_last_not_of_char_text find_last_of_text find_last_not_of_text)

text \<open>
  C27: the searches for a string find an occurrence. find gives the first position from pos on
  where the needle occurs, rfind the last one up to pos, npos if there is none, and an empty
  needle is found at the position asked for within the text; contains holds exactly when the
  needle is a contiguous part of the text, starts_with and ends_with when it is a prefix or a
  suffix.
\<close>

theorem string_searches:
  assumes "sound s" "sound needle"
  defines "t \<equiv> text_of s" and "n \<equiv> text_of needle"
  shows "find_stringe s needle pos = find_spec t n pos \<and> rfind_stringe s needle pos = rfind_spec t n pos \<and>
    contains s needle = of_bool (sublist n t) \<and>
    starts_with s needle = of_bool (prefix n t) \<and> ends_with s needle = of_bool (suffix n t)"
  unfolding t_def n_def
  using find_text [OF assms(1,2)] rfind_text [OF assms(1,2)] contains_text [OF assms(1,2)]
    starts_with_text [OF assms(1,2)] ends_with_text [OF assms(1,2)] by simp

lemma string_searches_witness:
  "find_stringe (pushed 4 [97, 98, 97, 98]) (pushed 2 [97, 98 :: u8]) 1 = 2 \<and>
   ends_with (pushed 4 [97, 98, 97, 98]) (pushed 2 [97, 98 :: u8]) = 1"
proof -
  have "suffix [97, 98] [97, 98, 97, 98 :: u8]" by (rule suffixI [of _ "[97, 98]"]) simp
  then show ?thesis
    using string_searches [of "pushed 4 [97, 98, 97, 98]" "pushed 2 [97, 98]" 1]
      pushed_text [of 4 "[97, 98, 97, 98]"] pushed_text [of 2 "[97, 98]"]
    by (simp add: find_spec_def first_index_def index_of_def upt_rec occurs_at_def)
qed

text \<open>
  A substring is the part of the text asked for. As long as pos + count stays within 64
  bits, substr holds the bytes of the text from pos on, count at most, in a buffer of capacity
  count; nothing is read beyond the text, and the exception is the source's, so a position
  past the end is not reported.
\<close>

lemma substr_is_part:
  assumes "sound s" "unat count < 2 ^ 63" "unat pos + unat count \<le> 2 ^ 64"
  shows "sound (substr s pos count) \<and> str_length (substr s pos count) = count \<and>
    text_of (substr s pos count) = take (unat count) (drop (unat pos) (text_of s)) \<and>
    failed (substr s pos count) = failed s"
  using substr_text [OF assms] by simp

text \<open>
  Without the bound the index wraps: from npos, the position a failed search returns, the copy
  starts with a hole and goes on at the front of the text.
\<close>

lemma substr_from_npos:
  assumes "sound s" "text_of s = [a, b]"
  shows "text_of (substr s npos 3) = [0, a] \<and> failed (substr s npos 3) = failed s"
proof -
  have st: "stored s" and le: "unat (str_size s) \<le> unat (str_length s)" using soundD [OF assms(1)] by auto
  have "length (text_of s) = 2" using assms(2) by simp
  then have "unat (str_size s) = unat (2 :: u64)" using assms(1) by simp
  then have size: "str_size s = 2" unfolding word_unat_eq_iff [symmetric] .
  have "text_of s ! 0 = buffer s ! 0" "text_of s ! 1 = buffer s ! 1" by (simp_all add: text_of_def size)
  then have c: "get_char_by_secret_index s 0 = ucast a" "get_char_by_secret_index s 1 = ucast b"
    using read_secret [OF st] le assms(2) by (simp_all add: size)
  define f where "f src = (if unat src < unat (str_length s) then buffer s ! unat src else 0)" for src :: u64
  have g: "get_char_by_secret_index s src = ucast (f src)" for src using read_secret [OF st] by (simp add: f_def)
  have f: "f 0 = a" "f 1 = b" using c by (simp_all add: g)
  have u: "for_to 3 = [0, 1, 2]" by (simp add: for_to_def upt_rec)
  have three: "unat (3 :: u64) = Suc (Suc (Suc 0))" by simp
  have n: "stored (stringe_new 3)" "buffer (stringe_new 3) = [0, 0, 0]" "str_size (stringe_new 3) = 0"
    using stored_new(1) [of 3] stored_new(2) [of 3] unfolding three by (simp, simp, simp add: stringe_new_def exo_ops)
  have upd: "stored (out\<lparr>str_size := v\<rparr>) = stored out" "buffer (out\<lparr>str_size := v\<rparr>) = buffer out"
    "stored (out\<lparr>str_exception := v\<rparr>) = stored out" "buffer (out\<lparr>str_exception := v\<rparr>) = buffer out" for out v
    by (simp_all add: stored_def buffer_def get_char_public_eq)
  show ?thesis
    by (simp add: substr_def u Let_def ops_plain ops_arith(1) ops_relations(1) ops_cmov(1) read_secret_src g f write_secret n upd
        npos_def size text_of_def failed_def)
qed

text \<open>A capacity near the top of the address space gets no storage at all.\<close>

lemma no_storage: "word_count npos = 0 \<and> allocate_words npos = []"
  by (simp add: word_count_def npos_def allocate_words_def)

end
