(* ===== verification/Exo_Disclose.thy ===== *)
theory Exo_Disclose
  imports Exo_Intrinsics Mojov_Properties
begin

text \<open>
  The disclosure, grant test and certified random intrinsics of src/exo/mojov-intrinsics.h on
  a hart in the proof carrying format: what their instruction sequences do with a sealed value
  and a sealed datagrant in memory.
\<close>

section \<open>Instruction sequences\<close>

definition asm_testdatagrant :: "nat \<Rightarrow> nat \<Rightarrow> insn list" where
  "asm_testdatagrant src datagrant = [I_lde 28 src 0, I_lde 29 datagrant 0, I_disc 30 28 29]"

definition asm_disclose :: "nat \<Rightarrow> nat \<Rightarrow> nat \<Rightarrow> insn list" where
  "asm_disclose dst src datagrant = [I_lde 28 src 0, I_lde 29 datagrant 0, I_disc 10 28 29, I_store 8 dst 10 0]"

text \<open>FDISC names an integer destination, so the register number 10 of f10 means x10.\<close>

definition asm_fdisclose :: "nat \<Rightarrow> nat \<Rightarrow> nat \<Rightarrow> insn list" where
  "asm_fdisclose dst src datagrant = [I_flde 28 src 0, I_lde 28 datagrant 0, I_fdisc 10 28 28, I_fsd dst 10 0]"

definition asm_certrng :: "nat \<Rightarrow> insn list" where
  "asm_certrng dst = [I_certrng 28 0, I_sde dst 28 0]"

section \<open>The instructions on packets\<close>

definition packet_at :: "hart \<Rightarrow> u64 \<Rightarrow> mojov_mem_strong \<Rightarrow> bool" where
  "packet_at h a p \<longleftrightarrow> (\<exists>ct. peek h a 16 = le_bytes 16 (fst ct) \<and> peek h (a + 16) 16 = le_bytes 16 (snd ct) \<and>
     seals (cipher h) p ct)"

text \<open>A hart in the proof carrying format that may load a packet through a public register.\<close>

definition carrying :: "config \<Rightarrow> hart \<Rightarrow> bool" where
  "carrying c h \<longleftrightarrow> at_work c h \<and> FORMAT_SEL h = FORMAT_SEL_PROOFCARRYING"

definition pointer_ok :: "config \<Rightarrow> hart \<Rightarrow> nat \<Rightarrow> bool" where
  "pointer_ok c h r \<longleftrightarrow> \<not> IS_SECREG r \<and> \<not> datagrant_xpr h r \<and> load_ok c (XPR h r) 16 \<and> load_ok c (XPR h r + 16) 16"

lemma packet_at_cong: "core g = core h \<Longrightarrow> memory g = memory h \<Longrightarrow> packet_at g a p = packet_at h a p"
  using core_same [of g h] by (simp add: packet_at_def peek_def)

lemma after_write_fp: "FPR (after_write rd v h) = FPR h" "dfhash_fpr (after_write rd v h) = dfhash_fpr h"
    "dfhash_xpr (after_write rd v h) = (dfhash_xpr h)(rd := dfhash_gen h)" "dfhash_fpr (after_read c r h) = dfhash_fpr h"
    "dfhash_fpr (begin_insn pc bits len h) = dfhash_fpr h"
  by (simp_all add: after_write_def after_read_def begin_insn_def)

lemma lde_packet:
  assumes "carrying c h" "pointer_ok c h rs" "IS_SECREG rd" "packet_at h (XPR h rs) p"
  defines "csig \<equiv> contract_sig (mojov_dc h)"
  defines "sig_ok \<equiv> sauth_sig p = csig \<or> sauth_sig p = csig + 1"
  shows "\<exists>g. execute_insn c wr pc bits 4 (I_lde rd rs 0) h = (g, if sig_ok then Inr () else Inl Security) \<and>
    memory g = memory h \<and> core g = core h \<and> FPR g = FPR h \<and> dfhash_fpr g = dfhash_fpr h \<and>
    (sig_ok \<longrightarrow> XPR g = (XPR h)(rd := sval p) \<and>
      datagrant_xpr g = (datagrant_xpr h)(rd := (sauth_sig p = csig + 1)) \<and>
      dfhash_xpr g = (dfhash_xpr h)(rd := if sauth_sig p = csig + 1 then 0 else smetadata p))"
proof -
  have m: "may_load c h rd rs 0" using assms(1-3) by (simp add: may_load_def carrying_def at_work_def pointer_ok_def)
  have f: "FORMAT_SEL h = FORMAT_SEL_PROOFCARRYING" using assms(1) by (simp add: carrying_def)
  obtain ct where "peek h (XPR h rs + 0) 16 = le_bytes 16 (fst ct)" "peek h (XPR h rs + 0 + 16) 16 = le_bytes 16 (snd ct)"
    "seals (cipher h) p ct" using assms(4) by (auto simp: packet_at_def)
  from lde_proof [OF m f this, of wr pc bits 4] show ?thesis
    unfolding csig_def sig_ok_def by (auto simp: Let_def core_grant after_write_fp fun_eq_iff)
qed

lemma disc_run:
  fixes rd ry :: nat
  assumes "carrying c h" "IS_SECREG rx" "rd \<noteq> 0"
  defines "ok \<equiv> datagrant_xpr h ry \<and> (IS_SECREG rd \<or> dfhash_xpr h rx = XPR h ry)"
  shows "\<exists>g. execute_insn c wr pc bits 4 (I_disc rd rx ry) h = (g, if ok then Inr () else Inl Security) \<and>
    memory g = memory h \<and> core g = core h \<and>
    (ok \<longrightarrow> XPR g = (XPR h)(rd := XPR h rx) \<and> datagrant_xpr g = (datagrant_xpr h)(rd := False))"
  using assms
  by (auto simp: carrying_def at_work_def execute_begin insn_disc_def step_eval abort_def and_then_def require_def
      WRITE_REG_def CHECK_REG_W_def begin_insn_def core_def modify_def return_def get_def FORMAT_SEL_def mojov_cfg_read_def)

lemma sd_run:
  assumes "secreg_mode h" "ext_zkmojov c" "\<not> IS_SECREG dst" "\<not> IS_SECREG r" "\<not> datagrant_xpr h dst" "\<not> datagrant_xpr h r"
    and "store_ok c (XPR h dst) 8"
  shows "\<exists>g. execute_insn c wr pc bits 4 (I_store 8 dst r 0) h = (g, Inr ()) \<and>
    memory g = poke (memory h) (XPR h dst) (le_bytes 8 (XPR h r)) \<and> core g = core h"
  using assms by (simp add: execute_begin insn_store_def eval_exec SECREG_REF_def)

section \<open>Disclosure\<close>

text \<open>
  C9: the disclosure intrinsic gives a value out only under a datagrant for it. With a value
  sealed under the open contract and any packet in the place of the datagrant, the sequence stores
  the plaintext when that packet is a datagrant (signed one above the contract) naming the dataflow
  hash the value carries, and stores nothing else; otherwise it ends in a security trap with the
  memory as it was.
\<close>

theorem disclosure_verdict:
  assumes w: "carrying c h" and src: "pointer_ok c h src" "packet_at h (XPR h src) p" "sauth_sig p = contract_sig (mojov_dc h)"
    and grant: "pointer_ok c h gr" "packet_at h (XPR h gr) q"
    and dst: "\<not> IS_SECREG dst" "\<not> datagrant_xpr h dst" "dst \<noteq> 10" "store_ok c (XPR h dst) 8"
  defines "granted \<equiv> sauth_sig q = contract_sig (mojov_dc h) + 1 \<and> sval q = smetadata p"
  shows "\<exists>g. run_code c wr enc pc (asm_disclose dst src gr) h = (g, if granted then Inr () else Inl Security) \<and>
    memory g = (if granted then poke (memory h) (XPR h dst) (le_bytes 8 (sval p)) else memory h)"
proof -
  let ?sig = "contract_sig (mojov_dc h)"
  have sec: "IS_SECREG 28" "IS_SECREG 29" "\<not> IS_SECREG 10" by (simp_all add: IS_SECREG_iff)
  have ne: "src \<noteq> 28" "gr \<noteq> 28" "dst \<noteq> 28" "gr \<noteq> 29" "dst \<noteq> 29"
    using src(1) grant(1) dst(1) sec by (auto simp: pointer_ok_def)
  from lde_packet [OF w src(1) sec(1) src(2), of wr pc "enc (I_lde 28 src 0)"] src(3) obtain h1 where
    h1: "execute_insn c wr pc (enc (I_lde 28 src 0)) 4 (I_lde 28 src 0) h = (h1, Inr ())"
    "memory h1 = memory h" "core h1 = core h" "XPR h1 = (XPR h)(28 := sval p)"
    "datagrant_xpr h1 = (datagrant_xpr h)(28 := False)" "dfhash_xpr h1 = (dfhash_xpr h)(28 := smetadata p)" by auto
  have w1: "carrying c h1" "pointer_ok c h1 gr" "packet_at h1 (XPR h1 gr) q" "mojov_dc h1 = mojov_dc h"
    using w grant h1 ne core_same [OF h1(3)] packet_at_cong [OF h1(3,2)]
    by (auto simp: carrying_def at_work_def pointer_ok_def)
  note l2 = lde_packet [OF w1(1,2) sec(2) w1(3), of wr "pc + 4" "enc (I_lde 29 gr 0)"]
  show ?thesis
  proof (cases "sauth_sig q = ?sig \<or> sauth_sig q = ?sig + 1")
    case False
    with l2 w1(4) obtain h2 where "execute_insn c wr (pc + 4) (enc (I_lde 29 gr 0)) 4 (I_lde 29 gr 0) h1 = (h2, Inl Security)"
      "memory h2 = memory h1" by auto
    with False h1 show ?thesis by (auto simp: asm_disclose_def step_eval and_then_def granted_def)
  next
    case True
    with l2 w1(4) obtain h2 where
      h2: "execute_insn c wr (pc + 4) (enc (I_lde 29 gr 0)) 4 (I_lde 29 gr 0) h1 = (h2, Inr ())"
      "memory h2 = memory h1" "core h2 = core h1" "XPR h2 = (XPR h1)(29 := sval q)"
      "datagrant_xpr h2 = (datagrant_xpr h1)(29 := (sauth_sig q = ?sig + 1))"
      "dfhash_xpr h2 = (dfhash_xpr h1)(29 := if sauth_sig q = ?sig + 1 then 0 else smetadata q)" by auto
    have w2: "carrying c h2" using w1(1) h2 core_same [OF h2(3)] by (auto simp: carrying_def at_work_def)
    have ok: "datagrant_xpr h2 29 \<and> (IS_SECREG 10 \<or> dfhash_xpr h2 28 = XPR h2 29) \<longleftrightarrow> granted"
      using h1 h2 sec by (auto simp: granted_def)
    from disc_run [OF w2 sec(1), where rd = 10 and ry = 29 and wr = wr and pc = "pc + 8" and bits = "enc (I_disc 10 28 29)"] ok obtain h3 where
      h3: "execute_insn c wr (pc + 8) (enc (I_disc 10 28 29)) 4 (I_disc 10 28 29) h2 = (h3, if granted then Inr () else Inl Security)"
      "memory h3 = memory h2" "core h3 = core h2"
      "granted \<longrightarrow> XPR h3 = (XPR h2)(10 := XPR h2 28) \<and> datagrant_xpr h3 = (datagrant_xpr h2)(10 := False)" by auto
    show ?thesis
    proof (cases granted)
      case False
      with h1 h2 h3 show ?thesis by (auto simp: asm_disclose_def step_eval and_then_def add.assoc)
    next
      case True
      have "\<exists>g. execute_insn c wr (pc + 12) (enc (I_store 8 dst 10 0)) 4 (I_store 8 dst 10 0) h3 = (g, Inr ()) \<and>
          memory g = poke (memory h3) (XPR h3 dst) (le_bytes 8 (XPR h3 10)) \<and> core g = core h3"
        using w2 dst sec ne True h1 h2 h3 core_same [OF h3(3)]
        by (intro sd_run) (auto simp: carrying_def at_work_def)
      then show ?thesis using True h1 h2 h3 dst(3) ne
        by (auto simp: asm_disclose_def step_eval return_def add.assoc)
    qed
  qed
qed

text \<open>
  C32: the grant test passes for every datagrant of the contract. Its DISC moves between secret
  registers, which does not compare the dataflow hash of the value with the grant, so the outcome
  depends on the signature of the grant alone and a grant for another value passes too.
\<close>

theorem grant_test_ignores_value:
  assumes w: "carrying c h" and src: "pointer_ok c h src" "packet_at h (XPR h src) p" "sauth_sig p = contract_sig (mojov_dc h)"
    and grant: "pointer_ok c h gr" "packet_at h (XPR h gr) q"
  defines "is_grant \<equiv> sauth_sig q = contract_sig (mojov_dc h) + 1"
  shows "\<exists>g. run_code c wr enc pc (asm_testdatagrant src gr) h = (g, if is_grant then Inr () else Inl Security) \<and>
    memory g = memory h"
proof -
  let ?sig = "contract_sig (mojov_dc h)"
  have sec: "IS_SECREG 28" "IS_SECREG 29" "IS_SECREG 30" by (simp_all add: IS_SECREG_iff)
  have ne: "gr \<noteq> 28" using grant(1) sec by (auto simp: pointer_ok_def)
  from lde_packet [OF w src(1) sec(1) src(2), of wr pc "enc (I_lde 28 src 0)"] src(3) obtain h1 where
    h1: "execute_insn c wr pc (enc (I_lde 28 src 0)) 4 (I_lde 28 src 0) h = (h1, Inr ())"
    "memory h1 = memory h" "core h1 = core h" "XPR h1 = (XPR h)(28 := sval p)"
    "datagrant_xpr h1 = (datagrant_xpr h)(28 := False)" by auto
  have w1: "carrying c h1" "pointer_ok c h1 gr" "packet_at h1 (XPR h1 gr) q" "mojov_dc h1 = mojov_dc h"
    using w grant h1 ne core_same [OF h1(3)] packet_at_cong [OF h1(3,2)]
    by (auto simp: carrying_def at_work_def pointer_ok_def)
  note l2 = lde_packet [OF w1(1,2) sec(2) w1(3), of wr "pc + 4" "enc (I_lde 29 gr 0)"]
  show ?thesis
  proof (cases "sauth_sig q = ?sig \<or> sauth_sig q = ?sig + 1")
    case False
    with l2 w1(4) obtain h2 where "execute_insn c wr (pc + 4) (enc (I_lde 29 gr 0)) 4 (I_lde 29 gr 0) h1 = (h2, Inl Security)"
      "memory h2 = memory h1" by auto
    with False h1 show ?thesis by (auto simp: asm_testdatagrant_def step_eval and_then_def is_grant_def)
  next
    case True
    with l2 w1(4) obtain h2 where
      h2: "execute_insn c wr (pc + 4) (enc (I_lde 29 gr 0)) 4 (I_lde 29 gr 0) h1 = (h2, Inr ())"
      "memory h2 = memory h1" "core h2 = core h1" "XPR h2 = (XPR h1)(29 := sval q)"
      "datagrant_xpr h2 = (datagrant_xpr h1)(29 := (sauth_sig q = ?sig + 1))" by auto
    have w2: "carrying c h2" using w1(1) h2 core_same [OF h2(3)] by (auto simp: carrying_def at_work_def)
    from disc_run [OF w2 sec(1), where rd = 30 and ry = 29 and wr = wr and pc = "pc + 8" and bits = "enc (I_disc 30 28 29)"] h2 sec(3) obtain h3 where
      "execute_insn c wr (pc + 8) (enc (I_disc 30 28 29)) 4 (I_disc 30 28 29) h2 = (h3, if is_grant then Inr () else Inl Security)"
      "memory h3 = memory h2" by (auto simp: is_grant_def)
    with h1 h2 show ?thesis by (auto simp: asm_testdatagrant_def step_eval and_then_def return_def add.assoc)
  qed
qed

section \<open>Floating point\<close>

lemma WRITE_FREG_eval:
  "IS_FP_SECREG rd \<Longrightarrow> 1 \<le> length (dfhash_input h) \<Longrightarrow> length (dfhash_input h) \<le> 4 \<Longrightarrow>
   WRITE_FREG rd v h = (h\<lparr>dfhash_fpr := (dfhash_fpr h)(rd := dfhash_gen h), FPR := (FPR h)(rd := v)\<rparr>, Inr ())"
  by (simp add: WRITE_FREG_def CHECK_FREG_W_def step_eval)

lemma core_fpr: "core (h\<lparr>dfhash_fpr := d, FPR := f\<rparr>) = core h" "core (h\<lparr>dfhash_fpr := d\<rparr>) = core h"
    "core (h\<lparr>FPR := f\<rparr>) = core h"
  by (simp_all add: core_def)

lemma flde_packet:
  assumes w: "carrying c h" and a: "pointer_ok c h rs" "IS_FP_SECREG rd" "packet_at h (XPR h rs) p"
    and sig: "sauth_sig p = contract_sig (mojov_dc h)"
  shows "\<exists>g. execute_insn c wr pc bits 4 (I_flde rd rs 0) h = (g, Inr ()) \<and> memory g = memory h \<and> core g = core h \<and>
    XPR g = XPR h \<and> datagrant_xpr g = datagrant_xpr h \<and> FPR g = (FPR h)(rd := sval p) \<and>
    dfhash_fpr g = (dfhash_fpr h)(rd := smetadata p)"
proof -
  let ?b = "begin_insn pc bits 4 h" and ?g = "after_read c rs (begin_insn pc bits 4 h)"
  have f: "FORMAT_SEL h = FORMAT_SEL_PROOFCARRYING" "ext_zkmojov c" "secreg_mode h" "simon_ready (cipher h)"
    using w by (auto simp: carrying_def at_work_def)
  obtain ct where ct: "peek h (XPR h rs) 16 = le_bytes 16 (fst ct)" "peek h (XPR h rs + 16) 16 = le_bytes 16 (snd ct)"
    "seals (cipher h) p ct" using a(3) by (auto simp: packet_at_def)
  have l: "load_pair c rs 0 ?b = (?g, Inr ct)"
    using a ct by (cases ct) (auto intro!: load_pair_eval simp: pointer_ok_def peek_def)
  have d: "decrypt_strong ct ?g = (?g, Inr p)"
    using f(4) ct(3) by (intro decrypt_strong_eval) auto
  show ?thesis using f(1,2,3) a(2) sig
    by (simp add: execute_begin insn_flde_def by_format_eval l d step_eval WRITE_FREG_eval core_fpr after_write_fp)
qed

lemma fdisc_run:
  fixes rd ry :: nat
  assumes "carrying c h" "IS_FP_SECREG rx" "rd \<noteq> 0"
  defines "ok \<equiv> datagrant_xpr h ry \<and> (IS_SECREG rd \<or> dfhash_fpr h rx = XPR h ry)"
  shows "\<exists>g. execute_insn c wr pc bits 4 (I_fdisc rd rx ry) h = (g, if ok then Inr () else Inl Security) \<and>
    memory g = memory h \<and> core g = core h \<and>
    (ok \<longrightarrow> FPR g = FPR h \<and> XPR g = (XPR h)(rd := FPR h rx) \<and> datagrant_xpr g = (datagrant_xpr h)(rd := False))"
  using assms
  by (auto simp: carrying_def at_work_def execute_begin insn_fdisc_def step_eval abort_def and_then_def require_def
      WRITE_REG_def CHECK_REG_W_def begin_insn_def core_def modify_def return_def get_def FORMAT_SEL_def mojov_cfg_read_def)

lemma fsd_run:
  assumes "\<not> IS_SECREG dst" "\<not> IS_FP_SECREG r" "\<not> datagrant_xpr h dst" "store_ok c (XPR h dst) 8"
  shows "\<exists>g. execute_insn c wr pc bits 4 (I_fsd dst r 0) h = (g, Inr ()) \<and> XPR g = XPR h \<and>
    memory g = poke (memory h) (XPR h dst) (le_bytes 8 (FPR h r)) \<and> core g = core h"
  using assms
  by (simp add: execute_begin insn_fsd_def eval_exec FP_SECREG_REF_def READ_FREG_def CHECK_FREG_R_def DFHASH_FREG_R_def)

text \<open>
  C31: the floating point disclosure does not return the value. FDISC writes the integer register
  of the number it is given, so with a valid grant the plaintext arrives in x10 and the sequence
  stores what f10 held before.
\<close>

theorem float_disclosure_misses:
  assumes w: "carrying c h" and src: "pointer_ok c h src" "packet_at h (XPR h src) p" "sauth_sig p = contract_sig (mojov_dc h)"
    and grant: "pointer_ok c h gr" "packet_at h (XPR h gr) q" "sauth_sig q = contract_sig (mojov_dc h) + 1"
      "sval q = smetadata p"
    and dst: "\<not> IS_SECREG dst" "\<not> datagrant_xpr h dst" "dst \<noteq> 10" "store_ok c (XPR h dst) 8"
  shows "\<exists>g. run_code c wr enc pc (asm_fdisclose dst src gr) h = (g, Inr ()) \<and> XPR g 10 = sval p \<and>
    memory g = poke (memory h) (XPR h dst) (le_bytes 8 (FPR h 10))"
proof -
  have sec: "IS_FP_SECREG 28" "IS_SECREG 28" "\<not> IS_SECREG 10" "\<not> IS_FP_SECREG 10"
    by (simp_all add: IS_SECREG_iff IS_FP_SECREG_iff)
  have ne: "dst \<noteq> 28" using dst(1) sec by auto
  from flde_packet [OF w src(1) sec(1) src(2,3), of wr pc "enc (I_flde 28 src 0)"] obtain h1 where
    h1: "execute_insn c wr pc (enc (I_flde 28 src 0)) 4 (I_flde 28 src 0) h = (h1, Inr ())"
    "memory h1 = memory h" "core h1 = core h" "XPR h1 = XPR h" "datagrant_xpr h1 = datagrant_xpr h"
    "FPR h1 = (FPR h)(28 := sval p)" "dfhash_fpr h1 = (dfhash_fpr h)(28 := smetadata p)" by auto
  have w1: "carrying c h1" "pointer_ok c h1 gr" "packet_at h1 (XPR h1 gr) q" "mojov_dc h1 = mojov_dc h"
    using w grant h1 core_same [OF h1(3)] packet_at_cong [OF h1(3,2)]
    by (auto simp: carrying_def at_work_def pointer_ok_def)
  from lde_packet [OF w1(1,2) sec(2) w1(3), of wr "pc + 4" "enc (I_lde 28 gr 0)"] w1(4) grant(3) obtain h2 where
    h2: "execute_insn c wr (pc + 4) (enc (I_lde 28 gr 0)) 4 (I_lde 28 gr 0) h1 = (h2, Inr ())"
    "memory h2 = memory h1" "core h2 = core h1" "XPR h2 = (XPR h1)(28 := sval q)" "FPR h2 = FPR h1"
    "datagrant_xpr h2 = (datagrant_xpr h1)(28 := True)" "dfhash_fpr h2 = dfhash_fpr h1" by auto
  have w2: "carrying c h2" using w1(1) h2 core_same [OF h2(3)] by (auto simp: carrying_def at_work_def)
  have ok: "datagrant_xpr h2 28 \<and> (IS_SECREG 10 \<or> dfhash_fpr h2 28 = XPR h2 28)"
    using h1 h2 grant by simp
  from fdisc_run [OF w2 sec(1), where rd = 10 and ry = 28 and wr = wr and pc = "pc + 8" and bits = "enc (I_fdisc 10 28 28)"]
    ok obtain h3 where
    h3: "execute_insn c wr (pc + 8) (enc (I_fdisc 10 28 28)) 4 (I_fdisc 10 28 28) h2 = (h3, Inr ())"
    "memory h3 = memory h2" "core h3 = core h2" "FPR h3 = FPR h2"
    "XPR h3 = (XPR h2)(10 := FPR h2 28)" "datagrant_xpr h3 = (datagrant_xpr h2)(10 := False)" by auto
  have "\<exists>g. execute_insn c wr (pc + 12) (enc (I_fsd dst 10 0)) 4 (I_fsd dst 10 0) h3 = (g, Inr ()) \<and> XPR g = XPR h3 \<and>
      memory g = poke (memory h3) (XPR h3 dst) (le_bytes 8 (FPR h3 10)) \<and> core g = core h3"
    using dst sec ne h1 h2 h3 by (intro fsd_run) auto
  then show ?thesis using h1 h2 h3 dst(3) ne
    by (auto simp: asm_fdisclose_def step_eval return_def add.assoc)
qed

section \<open>Certified random values\<close>

lemma certrng_run:
  assumes w: "at_work c h" "mojov_dcvalid h" and d: "\<not> IS_SECREG dst" "\<not> datagrant_xpr h dst"
    "store_ok c (XPR h dst) 16" "store_ok c (XPR h dst + 16) 16"
  shows "\<exists>g. run_code c wr enc pc (asm_certrng dst) h = (g, Inr ()) \<and> sealed_at g (XPR h dst) (trng_value c (draws h))"
proof -
  have s: "IS_SECREG 28" by (simp add: IS_SECREG_iff)
  then have ne: "dst \<noteq> 28" using d(1) by auto
  obtain g1 where g1: "execute_insn c wr pc (enc (I_certrng 28 0)) 4 (I_certrng 28 0) h = (g1, Inr ())"
    "writes h 28 (trng_value c (draws h)) g1"
    using w s by (simp add: execute_begin insn_certrng_def eval_exec writes_def at_work_def begin_insn_def)
  have "at_work c g1" using at_work_same [OF w(1) writes_public [OF g1(2) s]] .
  then obtain g where "execute_insn c wr (pc + 4) (enc (I_sde dst 28 0)) 4 (I_sde dst 28 0) g1 = (g, Inr ())"
    "sealed_at g (XPR g1 dst) (XPR g1 28)"
    using sde_seals [of c g1 28 dst wr "pc + 4" "enc (I_sde dst 28 0)"] s d g1(2) ne by (auto simp: writes_def)
  with g1 ne show ?thesis by (auto simp: asm_certrng_def step_eval return_def writes_def)
qed

section \<open>A value and its grant\<close>

definition grant_hart :: "simon_cipher \<Rightarrow> (u64 \<Rightarrow> u8) \<Rightarrow> hart" where
  "grant_hart x m = (secret_hart x 2)\<lparr>memory := m, XPR := (\<lambda>r. if r = 2 then 4096 else if r = 4 then 8192 else of_nat r)\<rparr>"

definition sample_sig :: u64 where "sample_sig = contract_sig sample_contract"

lemma grant_hart_ok:
  assumes "simon_ready x"
  shows "carrying sample_config (grant_hart x m)" "pointer_ok sample_config (grant_hart x m) 2"
    "pointer_ok sample_config (grant_hart x m) 4" "XPR (grant_hart x m) 2 = 4096" "XPR (grant_hart x m) 4 = 8192"
    "XPR (grant_hart x m) 3 = 3" "contract_sig (mojov_dc (grant_hart x m)) = sample_sig" "FPR (grant_hart x m) r = 0"
    "\<not> datagrant_xpr (grant_hart x m) r" "store_ok sample_config a n"
proof -
  have "FORMAT_SEL (grant_hart x m) = FORMAT_SEL (secret_hart x 2)"
    by (simp add: grant_hart_def FORMAT_SEL_def mojov_cfg_read_def)
  then show "carrying sample_config (grant_hart x m)" using assms secret_hart_format(3) [of x]
    by (simp add: carrying_def at_work_def grant_hart_def secret_hart_def dark_hart_def sample_config_def)
  show "contract_sig (mojov_dc (grant_hart x m)) = sample_sig"
    by (simp add: grant_hart_def secret_hart_def sample_sig_def)
qed (simp_all add: pointer_ok_def grant_hart_def secret_hart_def dark_hart_def sample_config_def IS_SECREG_iff)

lemma grant_hart_packets:
  "\<exists>x m. simon_ready x \<and> packet_at (grant_hart x m) 4096 p \<and> packet_at (grant_hart x m) 8192 q"
proof -
  obtain x where x: "simon_ready x" using some_ready_cipher by blast
  obtain cp cq where c: "seals x p cp" "seals x q cq" using seals_exists [OF x] by blast
  let ?put = "\<lambda>a ct. poke (poke (\<lambda>_. 0) a (le_bytes 16 (fst ct))) (a + 16) (le_bytes 16 (snd ct))"
  let ?m = "\<lambda>a. if a < 8192 then ?put 4096 cp a else ?put 8192 cq a"
  have pk: "peek (grant_hart x ?m) 4096 16 = peek (grant_hart x (?put 4096 cp)) 4096 16"
    "peek (grant_hart x ?m) (4096 + 16) 16 = peek (grant_hart x (?put 4096 cp)) (4096 + 16) 16"
    "peek (grant_hart x ?m) 8192 16 = peek (grant_hart x (?put 8192 cq)) 8192 16"
    "peek (grant_hart x ?m) (8192 + 16) 16 = peek (grant_hart x (?put 8192 cq)) (8192 + 16) 16"
    by (simp_all add: peek_def grant_hart_def upt_rec)
  have f: "memory (grant_hart x m) = m" "cipher (grant_hart x m) = x" for m
    by (simp_all add: grant_hart_def secret_hart_def)
  have "packet_at (grant_hart x ?m) 4096 p"
    unfolding packet_at_def pk f(2) using c(1) f(1)
      peek_poke_pair [of "grant_hart x (?put 4096 cp)" "\<lambda>_. 0" 4096 "le_bytes 16 (fst cp)" "le_bytes 16 (snd cp)"]
    by (intro exI [of _ cp]) auto
  moreover have "packet_at (grant_hart x ?m) 8192 q"
    unfolding packet_at_def pk f(2) using c(2) f(1)
      peek_poke_pair [of "grant_hart x (?put 8192 cq)" "\<lambda>_. 0" 8192 "le_bytes 16 (fst cq)" "le_bytes 16 (snd cq)"]
    by (intro exI [of _ cq]) auto
  ultimately show ?thesis using x by blast
qed

lemma disclosure_verdict_witness:
  "\<exists>h g. run_code sample_config (\<lambda>_ _ g. g) (\<lambda>_. 0) 0 (asm_disclose 3 2 4) h = (g, Inr ()) \<and> memory g 3 = 42"
proof -
  obtain x m where x: "simon_ready x"
    and p: "packet_at (grant_hart x m) 4096 \<lparr>sval = 42, ssalt = 0, sauth_sig = sample_sig, smetadata = 7\<rparr>"
    and q: "packet_at (grant_hart x m) 8192 \<lparr>sval = 7, ssalt = 0, sauth_sig = sample_sig + 1, smetadata = 0\<rparr>"
    using grant_hart_packets by blast
  note h = grant_hart_ok [OF x]
  have "\<exists>g. run_code sample_config (\<lambda>_ _ g. g) (\<lambda>_. 0) 0 (asm_disclose 3 2 4) (grant_hart x m) = (g, Inr ()) \<and>
    memory g = poke (memory (grant_hart x m)) 3 (le_bytes 8 (42 :: u64))"
    using disclosure_verdict [of sample_config "grant_hart x m" 2
      "\<lparr>sval = 42, ssalt = 0, sauth_sig = sample_sig, smetadata = 7\<rparr>" 4
      "\<lparr>sval = 7, ssalt = 0, sauth_sig = sample_sig + 1, smetadata = 0\<rparr>" 3 "\<lambda>_ _ g. g" "\<lambda>_. 0" 0] p q h
    by (simp add: IS_SECREG_iff)
  moreover have "poke k 3 (le_bytes 8 (42 :: u64)) 3 = 42" for k by (simp add: poke_at le_bytes_def)
  ultimately show ?thesis by metis
qed

lemma grant_test_ignores_value_witness:
  "\<exists>h g. run_code sample_config (\<lambda>_ _ g. g) (\<lambda>_. 0) 0 (asm_testdatagrant 2 4) h = (g, Inr ())"
proof -
  obtain x m where x: "simon_ready x"
    and p: "packet_at (grant_hart x m) 4096 \<lparr>sval = 42, ssalt = 0, sauth_sig = sample_sig, smetadata = 7\<rparr>"
    and q: "packet_at (grant_hart x m) 8192 \<lparr>sval = 8, ssalt = 0, sauth_sig = sample_sig + 1, smetadata = 0\<rparr>"
    using grant_hart_packets by blast
  note h = grant_hart_ok [OF x]
  show ?thesis
    using grant_test_ignores_value [of sample_config "grant_hart x m" 2
      "\<lparr>sval = 42, ssalt = 0, sauth_sig = sample_sig, smetadata = 7\<rparr>" 4
      "\<lparr>sval = 8, ssalt = 0, sauth_sig = sample_sig + 1, smetadata = 0\<rparr>" "\<lambda>_ _ g. g" "\<lambda>_. 0" 0] p q h
    by auto
qed

lemma float_disclosure_misses_witness:
  "\<exists>h g. run_code sample_config (\<lambda>_ _ g. g) (\<lambda>_. 0) 0 (asm_fdisclose 3 2 4) h = (g, Inr ()) \<and>
     XPR g 10 = 42 \<and> memory g 3 = 0"
proof -
  obtain x m where x: "simon_ready x"
    and p: "packet_at (grant_hart x m) 4096 \<lparr>sval = 42, ssalt = 0, sauth_sig = sample_sig, smetadata = 7\<rparr>"
    and q: "packet_at (grant_hart x m) 8192 \<lparr>sval = 7, ssalt = 0, sauth_sig = sample_sig + 1, smetadata = 0\<rparr>"
    using grant_hart_packets by blast
  note h = grant_hart_ok [OF x]
  have "\<exists>g. run_code sample_config (\<lambda>_ _ g. g) (\<lambda>_. 0) 0 (asm_fdisclose 3 2 4) (grant_hart x m) = (g, Inr ()) \<and>
    XPR g 10 = 42 \<and> memory g = poke (memory (grant_hart x m)) 3 (le_bytes 8 (0 :: u64))"
    using float_disclosure_misses [of sample_config "grant_hart x m" 2
      "\<lparr>sval = 42, ssalt = 0, sauth_sig = sample_sig, smetadata = 7\<rparr>" 4
      "\<lparr>sval = 7, ssalt = 0, sauth_sig = sample_sig + 1, smetadata = 0\<rparr>" 3 "\<lambda>_ _ g. g" "\<lambda>_. 0" 0] p q h
    by (simp add: IS_SECREG_iff)
  moreover have "poke k 3 (le_bytes 8 (0 :: u64)) 3 = 0" for k by (simp add: poke_at le_bytes_def)
  ultimately show ?thesis by metis
qed

end
