(* ===== verification/Exo_Decrypt.thy ===== *)
theory Exo_Decrypt
  imports Exo_Int Mojov_Properties
begin

text \<open>
  Reading encrypted values back with the key at hand: the debug context of
  src/exo/mojov-exo.h, which holds a key and a contract signature for decrypt(), and the packet
  decryption of src/bringup-bench/target/mojov-utils.h it calls. A packet is its one or two
  ciphertext words; the unions with the plaintext structure are the byte layouts of
  Mojov_Insns, in which a double is its 64 bits. A failing check prints a message and ends the
  program, so the routines give the reason of the stop or the value. The theorem relates them
  to what SDE stores on the hart.
\<close>

section \<open>Packets\<close>

text \<open>Why a decryption ends the program; a cipher may also leave its key schedule.\<close>

datatype debug_stop = Not_initialized | Bad_signature | Overrun

type_synonym 'a debug = "debug_stop + 'a"

text \<open>The checks of a packet decrypted: the signature in it is the one expected.\<close>

definition validated :: "bool \<Rightarrow> 'a \<Rightarrow> 'a debug" where
  "validated ok v = (if ok then Inr v else Inl Bad_signature)"

text \<open>Both words of a packet decrypted, and the second unchained from the first ciphertext.\<close>

definition unchain :: "simon_cipher \<Rightarrow> u128 \<times> u128 \<Rightarrow> mojov_mem_strong debug" where
  "unchain s_state ctval =
     (case simon_128_128_decrypt s_state (fst ctval) of None \<Rightarrow> Inl Overrun
      | Some ct_lo \<Rightarrow> (case simon_128_128_decrypt s_state (snd ctval) of None \<Rightarrow> Inl Overrun
        | Some ct_hi \<Rightarrow> Inr (strong_pt (ct_lo, ct_hi XOR fst ctval))))"

definition mojov_decrypt_fast_u64 :: "simon_cipher \<Rightarrow> u128 \<Rightarrow> u64 \<Rightarrow> u64 debug" where
  "mojov_decrypt_fast_u64 s_state ctval dsig =
     (case simon_128_128_decrypt s_state ctval of None \<Rightarrow> Inl Overrun
      | Some ct \<Rightarrow> (let ptval = fast_pt ct in validated (fauth_sig ptval = ucast dsig) (fval ptval)))"

definition mojov_decrypt_fast_fp64 :: "simon_cipher \<Rightarrow> u128 \<Rightarrow> u64 \<Rightarrow> u64 debug" where
  "mojov_decrypt_fast_fp64 s_state ctval dsig =
     (case simon_128_128_decrypt s_state ctval of None \<Rightarrow> Inl Overrun
      | Some ct \<Rightarrow> (let ptval = fast_pt ct in validated (fauth_sig ptval = ucast dsig) (fval ptval)))"

definition mojov_decrypt_strong_u64 :: "simon_cipher \<Rightarrow> u128 \<times> u128 \<Rightarrow> u64 \<Rightarrow> u64 debug" where
  "mojov_decrypt_strong_u64 s_state ctval dsig =
     (case unchain s_state ctval of Inl e \<Rightarrow> Inl e
      | Inr ptval \<Rightarrow> validated (sauth_sig ptval = dsig) (sval ptval))"

definition mojov_decrypt_strong_fp64 :: "simon_cipher \<Rightarrow> u128 \<times> u128 \<Rightarrow> u64 \<Rightarrow> u64 debug" where
  "mojov_decrypt_strong_fp64 s_state ctval dsig =
     (case unchain s_state ctval of Inl e \<Rightarrow> Inl e
      | Inr ptval \<Rightarrow> validated (sauth_sig ptval = dsig) (sval ptval))"

definition mojov_decrypt_proofcarrying_u64 :: "simon_cipher \<Rightarrow> u128 \<times> u128 \<Rightarrow> u64 \<Rightarrow> u64 debug" where
  "mojov_decrypt_proofcarrying_u64 s_state ctval dsig =
     (case unchain s_state ctval of Inl e \<Rightarrow> Inl e
      | Inr ptval \<Rightarrow> validated (sauth_sig ptval = dsig) (sval ptval))"

definition mojov_decrypt_proofcarrying_fp64 :: "simon_cipher \<Rightarrow> u128 \<times> u128 \<Rightarrow> u64 \<Rightarrow> u64 debug" where
  "mojov_decrypt_proofcarrying_fp64 s_state ctval dsig =
     (case unchain s_state ctval of Inl e \<Rightarrow> Inl e
      | Inr ptval \<Rightarrow> validated (sauth_sig ptval = dsig) (sval ptval))"

definition mojov_dfhash_proofcarrying_fp64 :: "simon_cipher \<Rightarrow> u128 \<times> u128 \<Rightarrow> u64 \<Rightarrow> u64 debug" where
  "mojov_dfhash_proofcarrying_fp64 s_state ctval dsig =
     (case unchain s_state ctval of Inl e \<Rightarrow> Inl e
      | Inr ptval \<Rightarrow> validated (sauth_sig ptval = dsig) (smetadata ptval))"

text \<open>A packet made outside the hart, branded for the dataflow hash. \<open>hi\<close> and \<open>lo\<close> are the two
  draws of libmin_rand for the salt.\<close>

definition mojov_hash64_init :: u64 where "mojov_hash64_init = 0x9e3779b97f4a7c15"

definition mojov_hash64 :: "u64 \<Rightarrow> u64 \<Rightarrow> u64" where
  "mojov_hash64 h v =
     (let v = v + 0x9e3779b97f4a7c15;
          v = (v XOR drop_bit 30 v) * 0xbf58476d1ce4e5b9;
          v = (v XOR drop_bit 27 v) * 0x94d049bb133111eb;
          v = v XOR drop_bit 31 v
      in h XOR v)"

definition mojov_encrypt_proofcarrying_fp64 ::
  "simon_cipher \<Rightarrow> u64 \<Rightarrow> u64 \<Rightarrow> u64 \<Rightarrow> u32 \<Rightarrow> u32 \<Rightarrow> (u128 \<times> u128) option" where
  "mojov_encrypt_proofcarrying_fp64 s_state dblval in_brand dsig hi lo =
     (let dfhash = mojov_hash64 mojov_hash64_init in_brand;
          ptval = strong_ct \<lparr>sval = dblval, ssalt = push_bit 32 (ucast hi) OR ucast lo, sauth_sig = dsig, smetadata = dfhash\<rparr>
      in case simon_128_128_encrypt s_state (fst ptval) of None \<Rightarrow> None
         | Some ct_lo \<Rightarrow> (case simon_128_128_encrypt s_state (snd ptval XOR ct_lo) of None \<Rightarrow> None
           | Some ct_hi \<Rightarrow> Some (ct_lo, ct_hi)))"

section \<open>The debug context\<close>

text \<open>The three static variables of the context.\<close>

record debug_vars =
  debug_simon_state :: simon_cipher
  debug_contract_sig :: u64
  debug_context_ready :: bool

text \<open>The value returned says whether the key was expanded: 0 for yes.\<close>

definition debug_context :: "u128 \<Rightarrow> u64 \<Rightarrow> debug_vars \<Rightarrow> (debug_vars \<times> int) option" where
  "debug_context simon128_key dc_sig d =
     (case simon_128_128_keyexpand (debug_simon_state d) simon128_key 68 of None \<Rightarrow> None
      | Some (x, expanded) \<Rightarrow>
          Some (d\<lparr>debug_simon_state := x, debug_contract_sig := dc_sig, debug_context_ready := expanded\<rparr>,
            if expanded then 0 else 1))"

definition debug_context_or_die :: "debug_vars \<Rightarrow> unit debug" where
  "debug_context_or_die d = (if \<not> debug_context_ready d then Inl Not_initialized else Inr ())"

text \<open>The storage types of encrypted integers and doubles; a build chooses one of each.\<close>

datatype uint_storage = fast_u64 u128 | strong_u64 "u128 \<times> u128" | proofcarrying_u64 "u128 \<times> u128"
datatype fp_storage = fast_fp64 u128 | strong_fp64 "u128 \<times> u128" | proofcarrying_fp64 "u128 \<times> u128"

fun decrypt_storage :: "debug_vars \<Rightarrow> uint_storage \<Rightarrow> u64 debug" where
  "decrypt_storage d (fast_u64 v) = mojov_decrypt_fast_u64 (debug_simon_state d) v (debug_contract_sig d)"
| "decrypt_storage d (strong_u64 v) = mojov_decrypt_strong_u64 (debug_simon_state d) v (debug_contract_sig d)"
| "decrypt_storage d (proofcarrying_u64 v) =
     mojov_decrypt_proofcarrying_u64 (debug_simon_state d) v (debug_contract_sig d)"

fun decrypt_fp_storage :: "debug_vars \<Rightarrow> fp_storage \<Rightarrow> u64 debug" where
  "decrypt_fp_storage d (fast_fp64 v) = mojov_decrypt_fast_fp64 (debug_simon_state d) v (debug_contract_sig d)"
| "decrypt_fp_storage d (strong_fp64 v) = mojov_decrypt_strong_fp64 (debug_simon_state d) v (debug_contract_sig d)"
| "decrypt_fp_storage d (proofcarrying_fp64 v) =
     mojov_decrypt_proofcarrying_fp64 (debug_simon_state d) v (debug_contract_sig d)"

definition inte_decrypt :: "nat \<Rightarrow> bool \<Rightarrow> debug_vars \<Rightarrow> uint_storage \<Rightarrow> u64 debug" where
  "inte_decrypt bits sgnd d value =
     (case debug_context_or_die d of Inl e \<Rightarrow> Inl e
      | Inr _ \<Rightarrow> (case decrypt_storage d value of Inl e \<Rightarrow> Inl e
        | Inr raw \<Rightarrow> Inr (if sgnd then inte_sign_extend bits raw else inte_truncate bits raw)))"

text \<open>A double of the class of 64 bits; narrower classes convert it to their type.\<close>

definition fpe_decrypt :: "debug_vars \<Rightarrow> fp_storage \<Rightarrow> u64 debug" where
  "fpe_decrypt d value =
     (case debug_context_or_die d of Inl e \<Rightarrow> Inl e | Inr _ \<Rightarrow> decrypt_fp_storage d value)"

text \<open>A datagrant gives all its fields and is valid when signed one above the contract.\<close>

record datagrant_plaintext =
  grant_dfhash :: u64
  grant_salt :: u64
  grant_sig :: u64
  grant_metadata :: u64

definition decrypt_datagrant_storage :: "debug_vars \<Rightarrow> u128 \<times> u128 \<Rightarrow> datagrant_plaintext debug" where
  "decrypt_datagrant_storage d value =
     (case unchain (debug_simon_state d) value of Inl e \<Rightarrow> Inl e
      | Inr plaintext \<Rightarrow> Inr \<lparr>grant_dfhash = sval plaintext, grant_salt = ssalt plaintext,
          grant_sig = sauth_sig plaintext, grant_metadata = smetadata plaintext\<rparr>)"

definition datagrant_decrypt :: "debug_vars \<Rightarrow> u128 \<times> u128 \<Rightarrow> datagrant_plaintext debug" where
  "datagrant_decrypt d value =
     (case debug_context_or_die d of Inl e \<Rightarrow> Inl e | Inr _ \<Rightarrow> decrypt_datagrant_storage d value)"

definition datagrant_is_valid :: "debug_vars \<Rightarrow> u128 \<times> u128 \<Rightarrow> bool debug" where
  "datagrant_is_valid d value =
     (case debug_context_or_die d of Inl e \<Rightarrow> Inl e
      | Inr _ \<Rightarrow> (case decrypt_datagrant_storage d value of Inl e \<Rightarrow> Inl e
        | Inr plaintext \<Rightarrow> Inr (grant_sig plaintext = debug_contract_sig d + 1)))"

section \<open>Decrypting what was sealed\<close>

text \<open>A context set up with a key reads what any cipher expanded from that key seals.\<close>

definition keyed :: "u128 \<Rightarrow> simon_cipher \<Rightarrow> bool" where
  "keyed key x \<longleftrightarrow> (\<exists>y b. length (key_schedule y) = 576 \<and> simon_128_128_keyexpand y key 68 = Some (x, b))"

lemma keyed_ready: "keyed key x \<Longrightarrow> simon_ready x"
  using simon_128_128_determined(1) by (fastforce simp: keyed_def)

lemma keyed_same:
  assumes "keyed key x" "keyed key y"
  shows "simon_128_128_encrypt x = simon_128_128_encrypt y" "simon_128_128_decrypt x = simon_128_128_decrypt y"
  using assms simon_128_128_determined(2,3) unfolding keyed_def by metis+

lemma debug_context_keyed:
  assumes "length (key_schedule (debug_simon_state d)) = 576"
  shows "\<exists>x. keyed key x \<and> debug_context key dsig d =
    Some (d\<lparr>debug_simon_state := x, debug_contract_sig := dsig, debug_context_ready := True\<rparr>, 0)"
proof -
  obtain x where "simon_128_128_keyexpand (debug_simon_state d) key 68 = Some (x, True)"
    using simon_128_128_expanded [OF assms] by blast
  then show ?thesis using assms by (intro exI [of _ x]) (auto simp: debug_context_def keyed_def)
qed

lemma fast_opens:
  assumes "keyed key x" "keyed key y" "simon_128_128_encrypt x (fast_ct p) = Some ct"
  shows "mojov_decrypt_fast_u64 y ct dsig = validated (fauth_sig p = ucast dsig) (fval p)"
    "mojov_decrypt_fast_fp64 y ct dsig = validated (fauth_sig p = ucast dsig) (fval p)"
proof -
  have "simon_128_128_decrypt y ct = Some (fast_ct p)"
    using simon128.dec_enc [OF keyed_ready [OF assms(1)] assms(3)] keyed_same [OF assms(1,2)] by simp
  then show "mojov_decrypt_fast_u64 y ct dsig = validated (fauth_sig p = ucast dsig) (fval p)"
    "mojov_decrypt_fast_fp64 y ct dsig = validated (fauth_sig p = ucast dsig) (fval p)"
    by (simp_all add: mojov_decrypt_fast_u64_def mojov_decrypt_fast_fp64_def fast_pt_ct)
qed

lemma unchain_seals:
  assumes "keyed key x" "keyed key y" "seals x p ct"
  shows "unchain y ct = Inr p"
proof -
  have "simon_128_128_decrypt y (fst ct) = Some (fst (strong_ct p))"
    "simon_128_128_decrypt y (snd ct) = Some (snd (strong_ct p) XOR fst ct)"
    using simon128.dec_enc [OF keyed_ready [OF assms(1)]] assms(3) keyed_same [OF assms(1,2)] by (auto simp: seals_def)
  then show ?thesis by (simp add: unchain_def xor.assoc strong_pt_ct)
qed

lemma pair_opens:
  assumes "keyed key x" "keyed key y" "seals x p ct"
  shows "mojov_decrypt_strong_u64 y ct dsig = validated (sauth_sig p = dsig) (sval p)"
    "mojov_decrypt_strong_fp64 y ct dsig = validated (sauth_sig p = dsig) (sval p)"
    "mojov_decrypt_proofcarrying_u64 y ct dsig = validated (sauth_sig p = dsig) (sval p)"
    "mojov_decrypt_proofcarrying_fp64 y ct dsig = validated (sauth_sig p = dsig) (sval p)"
    "mojov_dfhash_proofcarrying_fp64 y ct dsig = validated (sauth_sig p = dsig) (smetadata p)"
  by (simp_all add: unchain_seals [OF assms] mojov_decrypt_strong_u64_def mojov_decrypt_strong_fp64_def
      mojov_decrypt_proofcarrying_u64_def mojov_decrypt_proofcarrying_fp64_def mojov_dfhash_proofcarrying_fp64_def)

text \<open>A packet branded outside carries its value and the hash of its brand, which is the one the
  hart's hash unit computes.\<close>

lemma branded_packet:
  assumes "keyed key x" "keyed key y"
  shows "\<exists>ct. mojov_encrypt_proofcarrying_fp64 x v brand dsig hi lo = Some ct \<and>
    mojov_decrypt_proofcarrying_fp64 y ct dsig = Inr v \<and>
    mojov_dfhash_proofcarrying_fp64 y ct dsig = Inr (sm64_hash64 sm64_init brand)"
proof -
  let ?p = "\<lparr>sval = v, ssalt = push_bit 32 (ucast hi) OR ucast lo, sauth_sig = dsig,
    smetadata = mojov_hash64 mojov_hash64_init brand\<rparr>"
  obtain ct where ct: "seals x ?p ct" using seals_exists [OF keyed_ready [OF assms(1)]] by blast
  then have "mojov_encrypt_proofcarrying_fp64 x v brand dsig hi lo = Some ct"
    by (cases ct) (simp add: mojov_encrypt_proofcarrying_fp64_def seals_def Let_def)
  moreover have "mojov_hash64 mojov_hash64_init brand = sm64_hash64 sm64_init brand"
    by (simp add: mojov_hash64_def mojov_hash64_init_def sm64_hash64_def sm64_init_def)
  ultimately show ?thesis using pair_opens [OF assms ct, of dsig] by (simp add: validated_def)
qed

text \<open>The test of a datagrant accepts the packets that LDE marks as datagrants under the contract.\<close>

lemma datagrant_test:
  assumes "keyed key (debug_simon_state d)" "keyed key x" "debug_context_ready d" "seals x p ct"
  shows "datagrant_is_valid d ct = Inr (sauth_sig p = debug_contract_sig d + 1)"
    "datagrant_decrypt d ct = Inr \<lparr>grant_dfhash = sval p, grant_salt = ssalt p, grant_sig = sauth_sig p,
       grant_metadata = smetadata p\<rparr>"
  using unchain_seals [OF assms(2,1,4)] assms(3)
  by (simp_all add: datagrant_is_valid_def datagrant_decrypt_def decrypt_datagrant_storage_def debug_context_or_die_def)

section \<open>Encrypted integers\<close>

text \<open>The packet a hart holds at an address, in the storage type of its format.\<close>

definition stored_packet :: "hart \<Rightarrow> u64 \<Rightarrow> uint_storage" where
  "stored_packet h a =
     (let lo = le_word (peek h a 16); hi = le_word (peek h (a + 16) 16) in
      if FORMAT_SEL h = FORMAT_SEL_FAST then fast_u64 lo
      else if FORMAT_SEL h = FORMAT_SEL_STRONG then strong_u64 (lo, hi) else proofcarrying_u64 (lo, hi))"

text \<open>The part of a contract's signature a packet of its format carries.\<close>

definition same_signature :: "hart \<Rightarrow> u64 \<Rightarrow> bool" where
  "same_signature h dsig \<longleftrightarrow>
     (if FORMAT_SEL h = FORMAT_SEL_FAST then (ucast (contract_sig (mojov_dc h)) :: u32) = ucast dsig
      else contract_sig (mojov_dc h) = dsig)"

lemma stored_value:
  assumes "may_store c h rs1 rs2 imm"
    and "FORMAT_SEL h \<in> {FORMAT_SEL_FAST, FORMAT_SEL_STRONG, FORMAT_SEL_PROOFCARRYING}"
    and "keyed key (cipher h)" "keyed key (debug_simon_state d)"
  shows "\<exists>g. execute_insn c wr pc bits len (I_sde rs1 rs2 imm) h = (g, Inr ()) \<and>
    decrypt_storage d (stored_packet g (XPR h rs1 + imm)) = validated (same_signature h (debug_contract_sig d)) (XPR h rs2)"
proof (cases "FORMAT_SEL h = FORMAT_SEL_FAST")
  case True
  from sde_fast [OF assms(1) True, of wr pc bits len] obtain g ct r where
    g: "execute_insn c wr pc bits len (I_sde rs1 rs2 imm) h = (g, Inr ())" "core g = core h"
    "memory g = poke (memory h) (XPR h rs1 + imm) (le_bytes 16 ct)"
    "simon_128_128_encrypt (cipher h)
      (fast_ct \<lparr>fval = XPR h rs2, fsalt = r, fauth_sig = ucast (contract_sig (mojov_dc h))\<rparr>) = Some ct" by auto
  have "peek g (XPR h rs1 + imm) 16 = le_bytes 16 ct" using peek_poke [OF g(3)] by simp
  then have "stored_packet g (XPR h rs1 + imm) = fast_u64 ct"
    using True core_same [OF g(2)] by (simp add: stored_packet_def byte_simps Let_def)
  then have "decrypt_storage d (stored_packet g (XPR h rs1 + imm)) = validated (same_signature h (debug_contract_sig d)) (XPR h rs2)"
    using fast_opens(1) [OF assms(3,4) g(4)] True by (simp add: same_signature_def)
  with g(1) show ?thesis by blast
next
  case False
  with assms(2) have "FORMAT_SEL h = FORMAT_SEL_STRONG \<or> FORMAT_SEL h = FORMAT_SEL_PROOFCARRYING" by simp
  then obtain m where "FORMAT_SEL h = FORMAT_SEL_STRONG \<and> m = 0 \<or> FORMAT_SEL h = FORMAT_SEL_PROOFCARRYING \<and> m = dfhash_xpr h rs2"
    by blast
  from sde_pair [OF assms(1) this, of wr pc bits len] obtain g ct r where
    g: "execute_insn c wr pc bits len (I_sde rs1 rs2 imm) h = (g, Inr ())" "core g = core h"
    "memory g = poke (poke (memory h) (XPR h rs1 + imm) (le_bytes 16 (fst ct))) (XPR h rs1 + imm + 16) (le_bytes 16 (snd ct))"
    "seals (cipher h) \<lparr>sval = XPR h rs2, ssalt = r, sauth_sig = contract_sig (mojov_dc h), smetadata = m\<rparr> ct" by blast
  have "stored_packet g (XPR h rs1 + imm) \<in> {strong_u64 ct, proofcarrying_u64 ct}"
    using False core_same [OF g(2)] peek_poke_pair [OF g(3)] by (simp add: stored_packet_def byte_simps Let_def)
  then have "decrypt_storage d (stored_packet g (XPR h rs1 + imm)) = validated (same_signature h (debug_contract_sig d)) (XPR h rs2)"
    using pair_opens(1,3) [OF assms(3,4) g(4)] False by (auto simp: same_signature_def)
  with g(1) show ?thesis by blast
qed

lemma inte_cast_embed:
  assumes "LENGTH('b::len) \<le> 64" "LENGTH('c::len) \<le> 64"
  shows "inte_cast LENGTH('c) T (inte_plain LENGTH('b) S v) =
    embed T (if S then scast (ucast v :: 'b word) else ucast (ucast v :: 'b word) :: 'c word)"
proof -
  have "ucast (embed S (x :: 'b word)) = (if S then scast x else ucast x :: 'c word)" for x
    using assms by (auto simp: embed_def bit_simps min_def intro!: bit_word_eqI dest: bit_imp_le_length)
  moreover have "inte_plain LENGTH('b) S v = embed S (ucast v :: 'b word)"
    by (simp add: inte_plain_def normalize_embed [OF assms(1)] exo_values)
  ultimately show ?thesis by (simp add: inte_cast_def normalize_embed [OF assms(2)])
qed

text \<open>
  C29: decryption gives back what construction took, through a packet in memory. A plain value
  made an encrypted integer of one width and converted to another, sealed by SDE in any of the
  three formats, is read back by decrypt() in a debug context with the hart's key and the
  contract's signature as the value truncated to the first width, cast to the second and
  extended. With another signature (other in its low 32 bits, for the fast format) decrypt()
  ends the program with the validation error, and without a context with the other error.
\<close>

theorem encrypted_integer_round_trip:
  assumes width: "LENGTH('b::len) \<le> 64" "LENGTH('c::len) \<le> 64"
    and store: "may_store c h rs1 rs2 imm"
      "FORMAT_SEL h \<in> {FORMAT_SEL_FAST, FORMAT_SEL_STRONG, FORMAT_SEL_PROOFCARRYING}"
    and sealed: "XPR h rs2 = inte_cast LENGTH('c) T (inte_plain LENGTH('b) S v)"
    and key: "simon_128_128_keyexpand x key 68 = Some (cipher h, b)" "length (key_schedule x) = 576"
    and debug: "length (key_schedule (debug_simon_state d)) = 576"
  shows "\<exists>g d'. execute_insn c wr pc bits len (I_sde rs1 rs2 imm) h = (g, Inr ()) \<and>
    debug_context key dsig d = Some (d', 0) \<and>
    inte_decrypt LENGTH('c) T d' (stored_packet g (XPR h rs1 + imm)) =
      (if same_signature h dsig
       then Inr (embed T (if S then scast (ucast v :: 'b word) else ucast (ucast v :: 'b word) :: 'c word))
       else Inl Bad_signature) \<and>
    (\<not> debug_context_ready d \<longrightarrow>
      inte_decrypt LENGTH('c) T d (stored_packet g (XPR h rs1 + imm)) = Inl Not_initialized)"
proof -
  have k: "keyed key (cipher h)" using key by (auto simp: keyed_def)
  obtain y where y: "keyed key y" and d: "debug_context key dsig d =
    Some (d\<lparr>debug_simon_state := y, debug_contract_sig := dsig, debug_context_ready := True\<rparr>, 0)"
    using debug_context_keyed [OF debug, of key dsig] by blast
  let ?d = "d\<lparr>debug_simon_state := y, debug_contract_sig := dsig, debug_context_ready := True\<rparr>"
  from stored_value [OF store k, of ?d wr pc bits len] y obtain g where
    g: "execute_insn c wr pc bits len (I_sde rs1 rs2 imm) h = (g, Inr ())"
    "decrypt_storage ?d (stored_packet g (XPR h rs1 + imm)) = validated (same_signature h dsig) (XPR h rs2)" by auto
  have "inte_decrypt LENGTH('c) T ?d (stored_packet g (XPR h rs1 + imm)) =
      (if same_signature h dsig
       then Inr (embed T (if S then scast (ucast v :: 'b word) else ucast (ucast v :: 'b word) :: 'c word))
       else Inl Bad_signature)"
    using g(2) decrypt_embed [OF width(2)]
    by (simp add: inte_decrypt_def debug_context_or_die_def validated_def sealed inte_cast_embed [OF width])
  then show ?thesis using g(1) d
    by (intro exI [of _ g] exI [of _ ?d]) (simp add: inte_decrypt_def debug_context_or_die_def)
qed

lemma encrypted_integer_round_trip_witness:
  "\<exists>h g d d'. execute_insn sample_config (\<lambda>_ _ g. g) 0 0 4 (I_sde 2 26 8) h = (g, Inr ()) \<and>
    inte_decrypt 16 False d' (stored_packet g 4104) = Inr 65480 \<and>
    inte_decrypt 16 False d (stored_packet g 4104) = Inl Not_initialized"
proof -
  let ?x = "blank_cipher"
  have l: "length (key_schedule ?x) = 576" by (simp add: blank_cipher_def)
  obtain y where y: "simon_128_128_keyexpand ?x 1 68 = Some (y, True)"
    using simon_128_128_expanded [OF l] by blast
  have r: "simon_ready y" by (rule simon_128_128_determined(1) [OF y l y l])
  let ?s = "secret_hart y 1" and ?v = "inte_cast LENGTH(16) False (inte_plain LENGTH(8) True 200)"
  let ?h = "?s\<lparr>XPR := (XPR ?s)(26 := ?v)\<rparr>" and ?d = "\<lparr>debug_simon_state = ?x, debug_contract_sig = 0, debug_context_ready = False\<rparr>"
  have f: "FORMAT_SEL ?h = FORMAT_SEL_STRONG"
    using secret_hart_format(2) [of y] by (simp add: FORMAT_SEL_def mojov_cfg_read_def)
  have m: "may_store sample_config ?h 2 26 8"
    using secret_hart_may(1) [OF r, of 1] by (simp add: may_store_def)
  have c: "cipher ?h = y" "XPR ?h 2 = 4096" "XPR ?h 26 = ?v" by (simp_all add: secret_hart_def)
  have s: "same_signature ?h (contract_sig (mojov_dc ?h))" by (simp add: same_signature_def)
  from encrypted_integer_round_trip [of sample_config ?h 2 26 8 False True 200 ?x 1 True ?d "\<lambda>_ _ g. g" 0 0 4
      "contract_sig (mojov_dc ?h)", where 'b = 8 and 'c = 16] m f y l c s
  obtain g d' where "execute_insn sample_config (\<lambda>_ _ g. g) 0 0 4 (I_sde 2 26 8) ?h = (g, Inr ())"
    "inte_decrypt LENGTH(16) False d' (stored_packet g (4096 + 8)) = Inr (embed False (scast (200 :: 8 word) :: 16 word))"
    "inte_decrypt LENGTH(16) False ?d (stored_packet g (4096 + 8)) = Inl Not_initialized"
    by auto
  then show ?thesis by (intro exI [of _ ?h] exI [of _ g] exI [of _ ?d] exI [of _ d']) (simp add: embed_def)
qed

end
