(* ===== verification/Spec2Isabelle.thy ===== *)
theory Spec2Isabelle
  imports Simon_Proofs Dc_Tool_Proofs Mojov_Properties Libmin_Sorting Libmin_Rand Libmin_Fnv Libmin_Output Exo_Properties Exo_Disclose Exo_Decrypt
begin

text \<open>
  A verification library of Mojo-V, an extension of RISC-V for computation on secrets.

  The program. Mojo-V keeps secrets in eight integer and eight floating-point registers of a
  hart. In secret mode, which is only entered under an opened data contract, instructions may
  compute on these registers but not let them reach a public register, an address, a branch,
  a jump or an ordinary store; they leave the hart as packets encrypted under the contract's
  key, or by a disclosure that a signed datagrant permits. The contract is made and checked by
  a command line tool (\<^verbatim>\<open>dc-tool\<close>), loaded by a small target library
  (\<^verbatim>\<open>bringup-bench/target\<close>) through the key and memory storage module of the
  simulated hart (\<^verbatim>\<open>riscv-isa-sim/riscv\<close>), and opened there. The programs that run on the
  hart are linked with a small C library (\<^verbatim>\<open>bringup-bench/common\<close>), and a C++ library
  (\<^verbatim>\<open>exo\<close>) gives them encrypted integers and strings, computed by instruction
  sequences on sealed packets.

  Theories. \<open>Prelude\<close>: machine words, bounds-checked byte buffers, byte order, counted loops
  and steps that may end abruptly. \<open>Simon\<close> and \<open>Simon_Proofs\<close>: the block cipher of
  \<^verbatim>\<open>dc-tool/simon.c\<close>, related to the published Feistel network and key recurrence, with
  the interface of a block cipher as the locales \<open>block_cipher\<close> and \<open>block_cipher_128\<close> of
  \<open>Block_Cipher\<close>, where the chained mode of the contract tool is proved once. \<open>Dc_Tool\<close> and
  \<open>Dc_Tool_Proofs\<close>: the contract tool over a world of files, streams and a random generator,
  with OpenSSL as a record of functions (\<open>ossl\<close>) and its laws as \<open>ossl_laws\<close>.
  \<open>Mojov_State\<close>: the hart's Mojo-V state, reset, KMSM window, contract opening and control
  registers. \<open>Mojov_Insns\<close>: the register access rules and the instructions. \<open>Mojov_Proofs\<close>:
  the mode invariant \<open>hart_inv\<close>, kept by every instruction and access. \<open>Mojov_Isolation\<close>:
  the relational proof that secrets do not influence what is public. \<open>Mojov_Packets\<close>: sealed
  values in memory. \<open>Mojov_Driver\<close>: the target library, with the locale \<open>kmsm_port\<close> for the
  register accesses its loader relies on, interpreted on the hart's control registers.
  \<open>Mojov_Properties\<close>: the properties of the hart, with concrete harts.
  \<open>Libmin_Mem\<close>, \<open>Libmin_Ctype\<close>, \<open>Libmin_Str\<close>: the memory, character and string routines of
  the C library over a flat memory, related to operations on lists of bytes in
  \<open>Libmin_Str_Proofs\<close> and \<open>Libmin_Str_Props\<close>. \<open>Libmin_Malloc\<close>: the allocator on its linked
  list of headers and the break pointer; \<open>Libmin_Malloc_Proofs\<close> relates it to a list of
  blocks, and \<open>Libmin_Alloc\<close> states its contract as the locale \<open>allocator_contract\<close>, interprets
  it on the code's operations and uses it for the routines built on them. \<open>Libmin_Qsort\<close> and
  \<open>Libmin_Sorting\<close>: the quicksort over memory and allocator, with the contract of a comparison
  function as the locale \<open>comparator\<close>. \<open>Libmin_Rand\<close>: the random numbers as the Mersenne twister.
  \<open>Libmin_Fnv\<close>: the hash functions. \<open>Libmin_Conv\<close>: atoi, atol and strtol, with signed
  overflow as an error. \<open>Libmin_Printf\<close>: the state machine behind printf over format,
  arguments and bounded buffer; \<open>Libmin_Printf_Proofs\<close>: what the formatting of integers and
  strings writes; \<open>Libmin_Format\<close>: formats as lists of literals and directives, their text,
  and the run of the state machine through the phases of a directive; \<open>Libmin_Output\<close>: the
  properties of printf and snprintf and numbers read back. \<open>Exo_Intrinsics\<close>: the instruction sequences of
  \<^verbatim>\<open>exo/mojov-intrinsics.h\<close>, run on the hart from packets to a packet, and the value each
  computes; \<open>Exo_Int\<close>: the integers of \<^verbatim>\<open>exo/mojov-exo.h\<close> as machine integers of a width;
  \<open>Exo_String\<close>, \<open>Exo_String_Proofs\<close> and \<open>Exo_Search\<close>: the strings of \<^verbatim>\<open>exo/mojov-string.h\<close>
  on the values their fields are sealed to, with their packed bytes as the locale \<open>byte_buffer\<close>,
  related to lists of bytes; \<open>Exo_Properties\<close>: the properties of that library; \<open>Exo_Disclose\<close>: disclosure, grant
  test and certified random values as instruction sequences; \<open>Exo_Decrypt\<close>: decrypt() in the
  debug context, with the packet decryption of \<^verbatim>\<open>target/mojov-utils.h\<close>, on what the hart stored.

  Correspondence. Definitions carry the names of the C and C++ functions and macros they
  translate. Machine integers keep their width. An access outside a buffer is the value None;
  theorems that a routine returns Some therefore include that it stays in its buffers. A trap
  or an exit of the process is the left side of a sum, with the state changes made before it.
  Loops are counted loops of the code's bounds, or recursions with a measure (the string
  routines end because each step moves on in a finite memory); the wait for the KMSM in
  \<open>wait_kmsm\<close> is a \<open>while_option\<close> and the walks over the allocator's list are partial functions,
  and the theorems that use them show they end. The C library is modelled for a 64-bit target
  with unsigned characters, eight-byte allocation alignment and the 32 KB heap of the embedded
  targets; block headers are kept as records beside the bytes of memory, so a program that
  writes outside its blocks, where it could overwrite a header, is outside the model. The
  allocator's invariant shows why that is enough: no byte of a live block is a byte of a header.

  Not modelled. OpenSSL (ML-KEM, HKDF, SHA-256, PEM) is a parameter. The copies of the cipher in
  the simulator and in the benchmark library are represented by the original they copy; its two
  dispatching functions and its debug printing are compiled out everywhere and left out here. Of the
  simulator, only what Mojo-V adds or changes and a base set of RV64 instructions is modelled:
  privilege modes, address translation (a parameter says which accesses go through), interrupts,
  and the compressed, atomic, vector, floating-point and system instructions are not.
  Of the C library the formatted input, the conversion of floating-point numbers, the options
  parser, the in-memory files and the floating-point routines are not modelled; of the C++ library neither
  is the arithmetic of floating-point numbers, nor
  the release of a string's old storage. Benchmarks, front ends,
  vendored libraries and build files are not modelled.
\<close>

end
